(* ===== verification/Prelude.thy ===== *)
theory Prelude
  imports Main "HOL-Library.Char_ord" "HOL-Library.List_Lexorder" "HOL-Library.Sublist"
begin

text \<open>
  Shared vocabulary of the development: the types that stand for Python's built-in values, the
  exception-and-state monad in which the application services are written, the string routines of
  Python's standard library that the sources call, and the generic list lemmas the components use.

  A \<open>uuid.UUID\<close> is its integer value; a \<open>datetime\<close> is a UTC instant and a \<open>timedelta\<close> a span, both in
  microseconds; a \<open>str\<close> is a list of characters, one per code point (U+0000 to U+00FF), and the order
  on strings is the lexicographic order on code points, as in Python.
\<close>

type_synonym uuid = nat
type_synonym datetime = int
type_synonym timedelta = int

abbreviation seconds :: "int \<Rightarrow> timedelta" where
  "seconds n \<equiv> n * 1000000"

abbreviation days :: "int \<Rightarrow> timedelta" where
  "days n \<equiv> n * 86400000000"

named_theorems run_simps \<open>execution of the operations of the services\<close>
named_theorems field_simps_db \<open>frame equations of the store\<close>

section \<open>Exceptions and state\<close>

text \<open>
  A use case of the application layer reads and writes a state and either returns a value or raises.
  The writes made before the exception are part of the outcome: what becomes of them is decided by
  the unit of work that surrounds the use case.
\<close>

type_synonym ('s, 'e, 'a) op = "'s \<Rightarrow> ('e + 'a) \<times> 's"

definition ret :: "'a \<Rightarrow> ('s, 'e, 'a) op" where
  "ret x = (\<lambda>s. (Inr x, s))"

definition raise :: "'e \<Rightarrow> ('s, 'e, 'a) op" where
  "raise e = (\<lambda>s. (Inl e, s))"

definition bind :: "('s, 'e, 'a) op \<Rightarrow> ('a \<Rightarrow> ('s, 'e, 'b) op) \<Rightarrow> ('s, 'e, 'b) op" where
  "bind m f = (\<lambda>s. case m s of (Inl e, t) \<Rightarrow> (Inl e, t) | (Inr x, t) \<Rightarrow> f x t)"

definition query :: "('s \<Rightarrow> 'a) \<Rightarrow> ('s, 'e, 'a) op" where
  "query f = (\<lambda>s. (Inr (f s), s))"

definition modify :: "('s \<Rightarrow> 's) \<Rightarrow> ('s, 'e, unit) op" where
  "modify f = (\<lambda>s. (Inr (), f s))"

definition guard :: "bool \<Rightarrow> 'e \<Rightarrow> ('s, 'e, unit) op" where
  "guard b e = (if b then ret () else raise e)"

definition lift :: "'e + 'a \<Rightarrow> ('s, 'e, 'a) op" where
  "lift r = (\<lambda>s. (r, s))"

definition expect :: "'a option \<Rightarrow> 'e \<Rightarrow> ('s, 'e, 'a) op" where
  "expect x e = (case x of None \<Rightarrow> raise e | Some y \<Rightarrow> ret y)"

definition seq :: "('s, 'e, 'a) op \<Rightarrow> ('s, 'e, 'b) op \<Rightarrow> ('s, 'e, 'b) op" where
  "seq m n = bind m (\<lambda>_. n)"

fun for_each :: "'x list \<Rightarrow> ('x \<Rightarrow> ('s, 'e, unit) op) \<Rightarrow> ('s, 'e, unit) op" where
  "for_each [] f = ret ()"
| "for_each (x # xs) f = seq (f x) (for_each xs f)"

lemma ret_run [simp, run_simps]: "ret x s = (Inr x, s)"
  by (simp add: ret_def)

lemma raise_run [simp, run_simps]: "raise e s = (Inl e, s)"
  by (simp add: raise_def)

lemma query_run [simp, run_simps]: "query f s = (Inr (f s), s)"
  by (simp add: query_def)

lemma modify_run [simp, run_simps]: "modify f s = (Inr (), f s)"
  by (simp add: modify_def)

lemma lift_run [simp, run_simps]: "lift r s = (r, s)"
  by (simp add: lift_def)

lemma guard_run [run_simps]: "guard b e s = (if b then (Inr (), s) else (Inl e, s))"
  by (simp add: guard_def)

lemma bind_run [run_simps]:
  "bind m f s = (case m s of (Inl e, t) \<Rightarrow> (Inl e, t) | (Inr x, t) \<Rightarrow> f x t)"
  by (simp add: bind_def)

lemma seq_run [run_simps]:
  "seq m n s = (case m s of (Inl e, t) \<Rightarrow> (Inl e, t) | (Inr x, t) \<Rightarrow> n t)"
  by (simp add: seq_def bind_def)

text \<open>
  Inversion of a successful run: every step of it succeeded. These equations turn the hypothesis
  that a use case returned into the facts its guards established.
\<close>

lemma bind_ok: "bind m f s = (Inr y, t) \<longleftrightarrow> (\<exists>x u. m s = (Inr x, u) \<and> f x u = (Inr y, t))"
  by (auto simp: bind_def split: prod.splits sum.splits)

lemma seq_ok: "seq m n s = (Inr y, t) \<longleftrightarrow> (\<exists>x u. m s = (Inr x, u) \<and> n u = (Inr y, t))"
  by (simp add: seq_def bind_ok)

lemma guard_ok: "guard b e s = (Inr x, t) \<longleftrightarrow> b \<and> t = s"
  by (auto simp: guard_run)

lemma ret_ok: "ret v s = (Inr x, t) \<longleftrightarrow> x = v \<and> t = s"
  by auto

lemma query_ok: "query f s = (Inr x, t) \<longleftrightarrow> x = f s \<and> t = s"
  by auto

lemma modify_ok: "modify f s = (Inr x, t) \<longleftrightarrow> t = f s"
  by auto

lemma lift_ok: "lift r s = (Inr x, t) \<longleftrightarrow> r = Inr x \<and> t = s"
  by auto

lemma expect_run [run_simps]:
  "expect v e s = (case v of None \<Rightarrow> (Inl e, s) | Some x \<Rightarrow> (Inr x, s))"
  by (simp add: expect_def split: option.splits)

lemma expect_ok: "expect v e s = (Inr x, t) \<longleftrightarrow> v = Some x \<and> t = s"
  by (auto simp: expect_run split: option.splits)

lemma raise_ok: "raise e s = (Inr x, t) \<longleftrightarrow> False"
  by auto

lemmas op_ok = bind_ok seq_ok guard_ok expect_ok ret_ok query_ok modify_ok lift_ok raise_ok

lemma bind_err:
  "bind m f s = (Inl e, t) \<longleftrightarrow>
     m s = (Inl e, t) \<or> (\<exists>x u. m s = (Inr x, u) \<and> f x u = (Inl e, t))"
  by (auto simp: bind_def split: prod.splits sum.splits)

text \<open>
  An operation preserves a predicate of the state when every run that returns does, and keeps a
  field when every run, whatever its outcome, does.
\<close>

definition preserves :: "('s \<Rightarrow> bool) \<Rightarrow> ('s, 'e, 'a) op \<Rightarrow> bool" where
  "preserves P m \<longleftrightarrow> (\<forall>s x t. P s \<longrightarrow> m s = (Inr x, t) \<longrightarrow> P t)"

lemma preservesD: "preserves P m \<Longrightarrow> P s \<Longrightarrow> m s = (Inr x, t) \<Longrightarrow> P t"
  by (auto simp: preserves_def)

lemma preserves_ret [intro]: "preserves P (ret x)"
  by (auto simp: preserves_def)

lemma preserves_seq [intro]: "preserves P m \<Longrightarrow> preserves P n \<Longrightarrow> preserves P (seq m n)"
  unfolding preserves_def by (metis seq_ok)

lemma preserves_for_each [intro]: "(\<And>x. preserves P (f x)) \<Longrightarrow> preserves P (for_each xs f)"
  by (induction xs) auto

section \<open>Strings\<close>

text \<open>
  \<open>split_on c s\<close> is Python's \<open>s.split(c)\<close> for a one-character separator, \<open>split_max c n s\<close> is
  \<open>s.split(c, n)\<close>, \<open>partition_at c s\<close> is \<open>s.partition(c)\<close> and \<open>join_with sep xs\<close> is \<open>sep.join(xs)\<close>.
\<close>

fun split_on :: "char \<Rightarrow> string \<Rightarrow> string list" where
  "split_on c [] = [[]]"
| "split_on c (x # xs) =
     (if x = c then [] # split_on c xs
      else (case split_on c xs of [] \<Rightarrow> [[x]] | y # ys \<Rightarrow> (x # y) # ys))"

fun partition_at :: "char \<Rightarrow> string \<Rightarrow> string \<times> bool \<times> string" where
  "partition_at c [] = ([], False, [])"
| "partition_at c (x # xs) =
     (if x = c then ([], True, xs)
      else (case partition_at c xs of (a, f, b) \<Rightarrow> (x # a, f, b)))"

fun split_max :: "char \<Rightarrow> nat \<Rightarrow> string \<Rightarrow> string list" where
  "split_max c 0 s = [s]"
| "split_max c (Suc n) s =
     (case partition_at c s of (a, found, b) \<Rightarrow> if found then a # split_max c n b else [a])"

fun join_with :: "string \<Rightarrow> string list \<Rightarrow> string" where
  "join_with sep [] = []"
| "join_with sep [x] = x"
| "join_with sep (x # y # ys) = x @ sep @ join_with sep (y # ys)"

definition is_space :: "char \<Rightarrow> bool" where
  "is_space c \<longleftrightarrow> (let n = of_char c :: nat in
     (9 \<le> n \<and> n \<le> 13) \<or> (28 \<le> n \<and> n \<le> 32) \<or> n = 133 \<or> n = 160)"

definition lstrip_by :: "(char \<Rightarrow> bool) \<Rightarrow> string \<Rightarrow> string" where
  "lstrip_by p s = dropWhile p s"

definition rstrip_by :: "(char \<Rightarrow> bool) \<Rightarrow> string \<Rightarrow> string" where
  "rstrip_by p s = rev (dropWhile p (rev s))"

definition strip :: "string \<Rightarrow> string" where
  "strip s = rstrip_by is_space (lstrip_by is_space s)"

lemma split_on_not_Nil [simp]: "split_on c s \<noteq> []"
  by (induction s) (auto split: list.splits)

lemma split_on_no_sep: "c \<notin> set s \<Longrightarrow> split_on c s = [s]"
  by (induction s) auto

lemma split_on_append: "c \<notin> set a \<Longrightarrow> split_on c (a @ c # b) = a # split_on c b"
  by (induction a) auto

lemma split_on_parts: "p \<in> set (split_on c s) \<Longrightarrow> c \<notin> set p"
proof (induction s arbitrary: p)
  case (Cons x xs)
  then show ?case by (cases "split_on c xs") (auto split: if_splits)
qed auto

lemma partition_at_append [simp]:
  "c \<notin> set a \<Longrightarrow> partition_at c (a @ c # b) = (a, True, b)"
  by (induction a) auto

lemma partition_at_absent [simp]: "c \<notin> set a \<Longrightarrow> partition_at c a = (a, False, [])"
  by (induction a) auto

lemma split_join:
  "xs \<noteq> [] \<Longrightarrow> (\<And>x. x \<in> set xs \<Longrightarrow> c \<notin> set x) \<Longrightarrow> split_on c (join_with [c] xs) = xs"
proof (induction xs rule: induct_list012)
  case (3 x y ys)
  then show ?case by (simp add: split_on_append)
qed (auto simp: split_on_no_sep)

lemma join_split: "join_with [c] (split_on c s) = s"
proof (induction s)
  case (Cons x xs)
  then show ?case
    by (cases "split_on c xs" rule: remdups_adj.cases) (auto split: list.splits)
qed auto

section \<open>Generic lemmas on rows\<close>

text \<open>A table is a list of rows; a lookup by key is the first row with that key.\<close>

definition row_by :: "('r \<Rightarrow> 'k) \<Rightarrow> 'k \<Rightarrow> 'r list \<Rightarrow> 'r option" where
  "row_by f k rs = find (\<lambda>r. f r = k) rs"

definition upd_row :: "('r \<Rightarrow> 'k) \<Rightarrow> 'k \<Rightarrow> ('r \<Rightarrow> 'r) \<Rightarrow> 'r list \<Rightarrow> 'r list" where
  "upd_row f k g rs = map (\<lambda>r. if f r = k then g r else r) rs"

lemma row_by_Some: "row_by f k rs = Some r \<Longrightarrow> r \<in> set rs \<and> f r = k"
  by (auto simp: row_by_def find_Some_iff)

lemma row_by_None: "row_by f k rs = None \<longleftrightarrow> (\<forall>r\<in>set rs. f r \<noteq> k)"
  by (auto simp: row_by_def find_None_iff)

lemma row_by_iff:
  assumes "distinct (map f rs)"
  shows "row_by f k rs = Some r \<longleftrightarrow> r \<in> set rs \<and> f r = k"
proof
  assume r: "r \<in> set rs \<and> f r = k"
  then obtain r' where r': "row_by f k rs = Some r'"
    using row_by_None[of f k rs] by (cases "row_by f k rs") auto
  have "r' = r" using row_by_Some[OF r'] r assms
    by (auto simp: distinct_map inj_on_def)
  then show "row_by f k rs = Some r" using r' by simp
qed (auto dest: row_by_Some)

lemma row_by_Nil [simp]: "row_by f k [] = None"
  by (simp add: row_by_def)

lemma row_by_Cons [simp]: "row_by f k (r # rs) = (if f r = k then Some r else row_by f k rs)"
  by (simp add: row_by_def)

lemma row_by_append:
  "row_by f k (rs @ ss) = (case row_by f k rs of Some r \<Rightarrow> Some r | None \<Rightarrow> row_by f k ss)"
  by (induction rs) auto

lemma row_by_filter_other:
  "(\<And>r. f r = k \<Longrightarrow> P r) \<Longrightarrow> row_by f k (filter P rs) = row_by f k rs"
  by (induction rs) auto

lemma map_upd_row_key: "(\<And>r. f (g r) = f r) \<Longrightarrow> map f (upd_row f k g rs) = map f rs"
  by (simp add: upd_row_def)

lemma map_upd_row_same: "(\<And>r. h (g r) = h r) \<Longrightarrow> map h (upd_row f k g rs) = map h rs"
  by (simp add: upd_row_def)

lemma row_by_upd_row:
  "(\<And>r. f (g r) = f r) \<Longrightarrow>
   row_by f j (upd_row f k g rs) =
     (if j = k then map_option g (row_by f j rs) else row_by f j rs)"
  by (induction rs) (auto simp: upd_row_def)

lemma set_upd_row: "set (upd_row f k g rs) = (\<lambda>r. if f r = k then g r else r) ` set rs"
  by (simp add: upd_row_def)

lemma find_map_absent: "k \<notin> f ` set rs \<Longrightarrow> row_by f k rs = None"
  by (auto simp: row_by_None)

end
