(* ===== verification/Errors.thy ===== *)
theory Errors
  imports Prelude
begin

text \<open>
  The error taxonomy of \<open>domain/errors.py\<close> and its mapping to HTTP statuses in
  \<open>adapters/inbound/api/errors.py\<close>. A raised exception is the value of its class: the message and the
  keyword context are not modelled, the class hierarchy, the codes and the S3 attributes are.
\<close>

datatype error =
    CyberFSError
  | AuthenticationError
  | TokenExpiredError
  | InvalidTokenError
  | PermissionDeniedError
  | RateLimitedError
  | S3RequestError
  | SignatureMismatchError
  | UnknownAccessKeyError
  | RequestSkewedError
  | ContentHashMismatchError
  | S3AccessDeniedError
  | BucketManagementRefusedError
  | S3NotImplementedError
  | NotFoundError
  | RecipientUnknownError
  | NoSuchBucketError
  | NoSuchKeyError
  | NoSuchUploadError
  | ConflictError
  | NameTakenError
  | WouldCreateCycleError
  | CrossOwnerMoveError
  | CannotRevokeOwnerError
  | CannotShareWithSelfError
  | TrashCountMismatchError
  | ValidationError
  | AmbiguousS3CredentialsError
  | InvalidArgumentError
  | InvalidPartError
  | InvalidPartOrderError
  | PreconditionFailedError
  | PayloadTooLargeError
  | QuotaExceededError
  | IntegrityFailureError
  | KeyUnavailableError
  | DependencyUnavailableError
  | CacheUnavailableError

text \<open>The base class of each exception class, \<open>None\<close> for the root of the hierarchy.\<close>

fun base_class :: "error \<Rightarrow> error option" where
  "base_class CyberFSError = None"
| "base_class AuthenticationError = Some CyberFSError"
| "base_class TokenExpiredError = Some AuthenticationError"
| "base_class InvalidTokenError = Some AuthenticationError"
| "base_class PermissionDeniedError = Some CyberFSError"
| "base_class RateLimitedError = Some CyberFSError"
| "base_class S3RequestError = Some PermissionDeniedError"
| "base_class SignatureMismatchError = Some S3RequestError"
| "base_class UnknownAccessKeyError = Some S3RequestError"
| "base_class RequestSkewedError = Some S3RequestError"
| "base_class ContentHashMismatchError = Some S3RequestError"
| "base_class S3AccessDeniedError = Some S3RequestError"
| "base_class BucketManagementRefusedError = Some S3RequestError"
| "base_class S3NotImplementedError = Some S3RequestError"
| "base_class NotFoundError = Some CyberFSError"
| "base_class RecipientUnknownError = Some NotFoundError"
| "base_class NoSuchBucketError = Some NotFoundError"
| "base_class NoSuchKeyError = Some NotFoundError"
| "base_class NoSuchUploadError = Some NotFoundError"
| "base_class ConflictError = Some CyberFSError"
| "base_class NameTakenError = Some ConflictError"
| "base_class WouldCreateCycleError = Some ConflictError"
| "base_class CrossOwnerMoveError = Some ConflictError"
| "base_class CannotRevokeOwnerError = Some ConflictError"
| "base_class CannotShareWithSelfError = Some ConflictError"
| "base_class TrashCountMismatchError = Some ConflictError"
| "base_class ValidationError = Some CyberFSError"
| "base_class AmbiguousS3CredentialsError = Some ValidationError"
| "base_class InvalidArgumentError = Some ValidationError"
| "base_class InvalidPartError = Some ValidationError"
| "base_class InvalidPartOrderError = Some ValidationError"
| "base_class PreconditionFailedError = Some CyberFSError"
| "base_class PayloadTooLargeError = Some CyberFSError"
| "base_class QuotaExceededError = Some CyberFSError"
| "base_class IntegrityFailureError = Some CyberFSError"
| "base_class KeyUnavailableError = Some CyberFSError"
| "base_class DependencyUnavailableError = Some CyberFSError"
| "base_class CacheUnavailableError = Some CyberFSError"

text \<open>The class attribute \<open>code\<close>, the stable identifier of API responses.\<close>

fun code :: "error \<Rightarrow> string" where
  "code CyberFSError = ''internal_error''"
| "code AuthenticationError = ''unauthenticated''"
| "code TokenExpiredError = ''token_expired''"
| "code InvalidTokenError = ''invalid_token''"
| "code PermissionDeniedError = ''permission_denied''"
| "code RateLimitedError = ''rate_limited''"
| "code S3RequestError = ''s3_error''"
| "code SignatureMismatchError = ''signature_mismatch''"
| "code UnknownAccessKeyError = ''unknown_access_key''"
| "code RequestSkewedError = ''request_skewed''"
| "code ContentHashMismatchError = ''content_mismatch''"
| "code S3AccessDeniedError = ''s3_access_denied''"
| "code BucketManagementRefusedError = ''bucket_management_refused''"
| "code S3NotImplementedError = ''s3_not_implemented''"
| "code NotFoundError = ''not_found''"
| "code RecipientUnknownError = ''recipient_unknown''"
| "code NoSuchBucketError = ''no_such_bucket''"
| "code NoSuchKeyError = ''no_such_key''"
| "code NoSuchUploadError = ''no_such_upload''"
| "code ConflictError = ''conflict''"
| "code NameTakenError = ''name_taken''"
| "code WouldCreateCycleError = ''would_create_cycle''"
| "code CrossOwnerMoveError = ''cross_owner_move''"
| "code CannotRevokeOwnerError = ''cannot_revoke_owner''"
| "code CannotShareWithSelfError = ''cannot_share_with_self''"
| "code TrashCountMismatchError = ''trash_count_mismatch''"
| "code ValidationError = ''validation_error''"
| "code AmbiguousS3CredentialsError = ''s3_ambiguous_credentials''"
| "code InvalidArgumentError = ''s3_invalid_argument''"
| "code InvalidPartError = ''s3_invalid_part''"
| "code InvalidPartOrderError = ''s3_invalid_part_order''"
| "code PreconditionFailedError = ''precondition_failed''"
| "code PayloadTooLargeError = ''payload_too_large''"
| "code QuotaExceededError = ''quota_exceeded''"
| "code IntegrityFailureError = ''integrity_failure''"
| "code KeyUnavailableError = ''key_unavailable''"
| "code DependencyUnavailableError = ''dependency_unavailable''"
| "code CacheUnavailableError = ''cache_unavailable''"

text \<open>The class attributes \<open>s3_code\<close> and \<open>s3_status\<close>, where the class has or inherits them.\<close>

fun s3_code :: "error \<Rightarrow> string option" where
  "s3_code S3RequestError = Some ''AccessDenied''"
| "s3_code SignatureMismatchError = Some ''SignatureDoesNotMatch''"
| "s3_code UnknownAccessKeyError = Some ''InvalidAccessKeyId''"
| "s3_code RequestSkewedError = Some ''RequestTimeTooSkewed''"
| "s3_code ContentHashMismatchError = Some ''XAmzContentSHA256Mismatch''"
| "s3_code S3AccessDeniedError = Some ''AccessDenied''"
| "s3_code BucketManagementRefusedError = Some ''AccessDenied''"
| "s3_code S3NotImplementedError = Some ''NotImplemented''"
| "s3_code NoSuchBucketError = Some ''NoSuchBucket''"
| "s3_code NoSuchKeyError = Some ''NoSuchKey''"
| "s3_code NoSuchUploadError = Some ''NoSuchUpload''"
| "s3_code AmbiguousS3CredentialsError = Some ''InvalidRequest''"
| "s3_code InvalidArgumentError = Some ''InvalidArgument''"
| "s3_code InvalidPartError = Some ''InvalidPart''"
| "s3_code InvalidPartOrderError = Some ''InvalidPartOrder''"
| "s3_code QuotaExceededError = Some ''QuotaExceeded''"
| "s3_code _ = None"

fun s3_status :: "error \<Rightarrow> int option" where
  "s3_status S3RequestError = Some 403"
| "s3_status SignatureMismatchError = Some 403"
| "s3_status UnknownAccessKeyError = Some 403"
| "s3_status RequestSkewedError = Some 403"
| "s3_status ContentHashMismatchError = Some 403"
| "s3_status S3AccessDeniedError = Some 403"
| "s3_status BucketManagementRefusedError = Some 403"
| "s3_status S3NotImplementedError = Some 501"
| "s3_status NoSuchBucketError = Some 404"
| "s3_status NoSuchKeyError = Some 404"
| "s3_status NoSuchUploadError = Some 404"
| "s3_status AmbiguousS3CredentialsError = Some 400"
| "s3_status InvalidArgumentError = Some 400"
| "s3_status InvalidPartError = Some 400"
| "s3_status InvalidPartOrderError = Some 400"
| "s3_status QuotaExceededError = Some 403"
| "s3_status _ = None"

text \<open>
  \<open>isinstance(error, cls)\<close>: the class itself or one of its bases. The hierarchy is three deep below
  its root, so four steps up decide it.
\<close>

definition bases :: "error \<Rightarrow> error list" where
  "bases e =
     (case base_class e of None \<Rightarrow> [e]
      | Some a \<Rightarrow> e # (case base_class a of None \<Rightarrow> [a]
          | Some b \<Rightarrow> a # (case base_class b of None \<Rightarrow> [b] | Some c \<Rightarrow> [b, c])))"

definition isinstance :: "error \<Rightarrow> error \<Rightarrow> bool" where
  "isinstance e c \<longleftrightarrow> c \<in> set (bases e)"

definition STATUS_BY_ERROR :: "(error \<times> int) list" where
  "STATUS_BY_ERROR =
     [(TokenExpiredError, 401),
      (InvalidTokenError, 401),
      (AuthenticationError, 401),
      (PermissionDeniedError, 403),
      (RateLimitedError, 429),
      (RecipientUnknownError, 404),
      (NotFoundError, 404),
      (ConflictError, 409),
      (PreconditionFailedError, 412),
      (PayloadTooLargeError, 413),
      (ValidationError, 422),
      (QuotaExceededError, 507),
      (DependencyUnavailableError, 503),
      (KeyUnavailableError, 500),
      (IntegrityFailureError, 500)]"

definition status_for :: "error \<Rightarrow> int" where
  "status_for e =
     (case find (\<lambda>(c, st). isinstance e c) STATUS_BY_ERROR of None \<Rightarrow> 500 | Some (c, st) \<Rightarrow> st)"

definition ALERT_CODES :: "string list" where
  "ALERT_CODES = [code IntegrityFailureError, code KeyUnavailableError]"

text \<open>
  \<open>_retry_after\<close>: the header value in seconds; \<open>seconds\<close> is the \<open>retry_after_seconds\<close> of the error's
  context, when it has one.
\<close>

definition DEFAULT_RETRY_AFTER_SECONDS :: int where
  "DEFAULT_RETRY_AFTER_SECONDS = 30"

definition retry_after_header :: "int option \<Rightarrow> int \<Rightarrow> int option" where
  "retry_after_header secs status =
     (if status \<noteq> 429 \<and> status \<noteq> 503 then None
      else case secs of
        Some n \<Rightarrow> if n > 0 then Some n else Some DEFAULT_RETRY_AFTER_SECONDS
      | None \<Rightarrow> Some DEFAULT_RETRY_AFTER_SECONDS)"

definition all_errors :: "error list" where
  "all_errors =
     [CyberFSError,
      AuthenticationError,
      TokenExpiredError,
      InvalidTokenError,
      PermissionDeniedError,
      RateLimitedError,
      S3RequestError,
      SignatureMismatchError,
      UnknownAccessKeyError,
      RequestSkewedError,
      ContentHashMismatchError,
      S3AccessDeniedError,
      BucketManagementRefusedError,
      S3NotImplementedError,
      NotFoundError,
      RecipientUnknownError,
      NoSuchBucketError,
      NoSuchKeyError,
      NoSuchUploadError,
      ConflictError,
      NameTakenError,
      WouldCreateCycleError,
      CrossOwnerMoveError,
      CannotRevokeOwnerError,
      CannotShareWithSelfError,
      TrashCountMismatchError,
      ValidationError,
      AmbiguousS3CredentialsError,
      InvalidArgumentError,
      InvalidPartError,
      InvalidPartOrderError,
      PreconditionFailedError,
      PayloadTooLargeError,
      QuotaExceededError,
      IntegrityFailureError,
      KeyUnavailableError,
      DependencyUnavailableError,
      CacheUnavailableError]"

text \<open>The table is ordered so that no class is shadowed by one of its bases listed before it.\<close>

lemma status_table_order:
  "list_all (\<lambda>(i, j). j < i \<longrightarrow> \<not> isinstance (fst (STATUS_BY_ERROR ! i)) (fst (STATUS_BY_ERROR ! j)))
     (List.product [0..<15] [0..<15])"
  by code_simp

lemma status_for_cases:
  "status_for e = (if isinstance e AuthenticationError then 401
     else if isinstance e PermissionDeniedError then 403
     else if e = RateLimitedError then 429
     else if isinstance e NotFoundError then 404
     else if isinstance e ConflictError then 409
     else if e = PreconditionFailedError then 412
     else if e = PayloadTooLargeError then 413
     else if isinstance e ValidationError then 422
     else if e = QuotaExceededError then 507
     else if e = DependencyUnavailableError then 503
     else 500)"
  by (cases e; simp add: status_for_def STATUS_BY_ERROR_def isinstance_def bases_def)

lemma UNIV_errors: "e \<in> set all_errors"
  by (cases e) (simp_all add: all_errors_def)

lemma codes_distinct: "distinct (map code all_errors)"
  by code_simp

lemma code_inj: "inj code"
proof -
  have "inj_on code (set all_errors)"
    using codes_distinct by (simp add: distinct_map)
  then show ?thesis by (auto intro!: injI dest: inj_onD simp: UNIV_errors)
qed

end
