(* ===== verification/Roles.thy ===== *)
theory Roles
  imports Errors
begin

text \<open>
  Roles, grants and public links (\<open>domain/sharing.py\<close>) and the resolution of an effective permission
  (\<open>domain/permissions.py\<close>). The roles are totally ordered by privilege and there is no deny rule, so
  a caller's role is the maximum of what ownership and the grants give.
\<close>

section \<open>Roles\<close>

datatype role = VIEWER | EDITOR | OWNER

fun ordinal :: "role \<Rightarrow> int" where
  "ordinal VIEWER = 10"
| "ordinal EDITOR = 20"
| "ordinal OWNER = 30"

text \<open>\<open>Role(n)\<close>, a \<open>ValueError\<close> for an integer that is no member of the enumeration.\<close>

definition role_of_ordinal :: "int \<Rightarrow> role option" where
  "role_of_ordinal n =
     (if n = 10 then Some VIEWER else if n = 20 then Some EDITOR
      else if n = 30 then Some OWNER else None)"

instantiation role :: linorder
begin

definition less_eq_role :: "role \<Rightarrow> role \<Rightarrow> bool" where
  "a \<le> b \<longleftrightarrow> ordinal a \<le> ordinal b"

definition less_role :: "role \<Rightarrow> role \<Rightarrow> bool" where
  "a < b \<longleftrightarrow> ordinal a < ordinal b"

instance
proof
  fix a b :: role
  show "a \<le> b \<Longrightarrow> b \<le> a \<Longrightarrow> a = b"
    by (cases a; cases b) (simp_all add: less_eq_role_def)
qed (auto simp: less_eq_role_def less_role_def)

end

definition can_read :: "role \<Rightarrow> bool" where
  "can_read r \<longleftrightarrow> r \<ge> VIEWER"

definition can_write :: "role \<Rightarrow> bool" where
  "can_write r \<longleftrightarrow> r \<ge> EDITOR"

definition can_delete :: "role \<Rightarrow> bool" where
  "can_delete r \<longleftrightarrow> r \<ge> OWNER"

definition can_share :: "role \<Rightarrow> bool" where
  "can_share r \<longleftrightarrow> r \<ge> OWNER"

definition can_change_encryption :: "role \<Rightarrow> bool" where
  "can_change_encryption r \<longleftrightarrow> r \<ge> OWNER"

section \<open>Grants\<close>

record grant =
  gr_id :: uuid
  gr_node_id :: uuid
  gr_subject :: string
  gr_role :: role
  gr_granted_by :: string
  gr_created_at :: datetime
  gr_updated_at :: datetime
  gr_pending :: bool

definition with_role :: "grant \<Rightarrow> role \<Rightarrow> datetime \<Rightarrow> grant" where
  "with_role g r now =
     \<lparr>gr_id = gr_id g, gr_node_id = gr_node_id g, gr_subject = gr_subject g, gr_role = r,
      gr_granted_by = gr_granted_by g, gr_created_at = gr_created_at g, gr_updated_at = now,
      gr_pending = gr_pending g\<rparr>"

definition activated :: "grant \<Rightarrow> datetime \<Rightarrow> grant" where
  "activated g now =
     \<lparr>gr_id = gr_id g, gr_node_id = gr_node_id g, gr_subject = gr_subject g, gr_role = gr_role g,
      gr_granted_by = gr_granted_by g, gr_created_at = gr_created_at g, gr_updated_at = now,
      gr_pending = False\<rparr>"

section \<open>Public links\<close>

record public_link =
  pl_id :: uuid
  pl_node_id :: uuid
  pl_token_hash :: string
  pl_created_by :: string
  pl_created_at :: datetime
  pl_expires_at :: "datetime option"
  pl_passphrase_hash :: "string option"
  pl_revoked_at :: "datetime option"
  pl_access_count :: int
  pl_last_accessed_at :: "datetime option"

definition link_role :: "public_link \<Rightarrow> role" where
  "link_role l = VIEWER"

definition is_revoked :: "public_link \<Rightarrow> bool" where
  "is_revoked l \<longleftrightarrow> pl_revoked_at l \<noteq> None"

definition requires_passphrase :: "public_link \<Rightarrow> bool" where
  "requires_passphrase l \<longleftrightarrow> pl_passphrase_hash l \<noteq> None"

definition is_expired :: "public_link \<Rightarrow> datetime \<Rightarrow> bool" where
  "is_expired l now = (case pl_expires_at l of None \<Rightarrow> False | Some t \<Rightarrow> t \<le> now)"

definition is_usable :: "public_link \<Rightarrow> datetime \<Rightarrow> bool" where
  "is_usable l now \<longleftrightarrow> \<not> is_revoked l \<and> \<not> is_expired l now"

definition revoke_link_at :: "public_link \<Rightarrow> datetime \<Rightarrow> public_link" where
  "revoke_link_at l now = (if \<not> is_revoked l then l\<lparr>pl_revoked_at := Some now\<rparr> else l)"

definition record_access :: "public_link \<Rightarrow> datetime \<Rightarrow> public_link" where
  "record_access l now = l\<lparr>pl_access_count := pl_access_count l + 1, pl_last_accessed_at := Some now\<rparr>"

section \<open>Effective permission\<close>

text \<open>\<open>max(candidates, default=None)\<close>.\<close>

fun max_default :: "'a::linorder list \<Rightarrow> 'a option" where
  "max_default [] = None"
| "max_default (x # xs) = (case max_default xs of None \<Rightarrow> Some x | Some y \<Rightarrow> Some (max x y))"

definition resolve_effective_role :: "bool \<Rightarrow> role list \<Rightarrow> role option" where
  "resolve_effective_role is_owner granted =
     (let candidates = granted in
      let candidates = (if is_owner then candidates @ [OWNER] else candidates) in
      max_default candidates)"

definition require_role :: "role option \<Rightarrow> role \<Rightarrow> error + role" where
  "require_role effective minimum =
     (case effective of
        None \<Rightarrow> Inl NotFoundError
      | Some r \<Rightarrow> if r < minimum then Inl PermissionDeniedError else Inr r)"

lemma role_le_cases [simp]:
  "VIEWER \<le> r" "r \<le> OWNER" "EDITOR \<le> r \<longleftrightarrow> r \<noteq> VIEWER" "OWNER \<le> r \<longleftrightarrow> r = OWNER"
  by (cases r; simp add: less_eq_role_def)+

lemma role_less_cases [simp]:
  "\<not> r < VIEWER" "r < OWNER \<longleftrightarrow> r \<noteq> OWNER" "r < EDITOR \<longleftrightarrow> r = VIEWER"
  by (cases r; simp add: less_role_def)+

lemma role_of_ordinal_ordinal [simp]: "role_of_ordinal (ordinal r) = Some r"
  by (cases r) (simp_all add: role_of_ordinal_def)

lemma ordinal_nonzero [simp]: "ordinal r \<noteq> 0"
  by (cases r) simp_all

lemma max_default_None [simp]: "max_default xs = None \<longleftrightarrow> xs = []"
  by (cases xs) (auto split: option.splits)

lemma max_default_Some:
  "max_default xs = Some m \<longleftrightarrow> m \<in> set xs \<and> (\<forall>x\<in>set xs. x \<le> m)"
proof (induction xs arbitrary: m)
  case (Cons x xs)
  show ?case
  proof (cases "max_default xs")
    case None
    then show ?thesis by auto
  next
    case (Some y)
    with Cons.IH[of y] have "y \<in> set xs" "\<forall>z\<in>set xs. z \<le> y" by auto
    with Some show ?thesis by (auto simp: max_def) (metis antisym linear)+
  qed
qed simp

text \<open>The specification of the resolution: a least upper bound, attained, \<open>None\<close> for no candidate.\<close>

lemma resolve_None: "resolve_effective_role ow gs = None \<longleftrightarrow> \<not> ow \<and> gs = []"
  by (auto simp: resolve_effective_role_def Let_def)

lemma resolve_owner: "resolve_effective_role True gs = Some OWNER"
  by (auto simp: resolve_effective_role_def Let_def max_default_Some)

lemma resolve_not_owner: "resolve_effective_role False gs = max_default gs"
  by (simp add: resolve_effective_role_def)

lemma resolve_granted:
  "resolve_effective_role ow (case g of None \<Rightarrow> [] | Some r \<Rightarrow> [r]) = (if ow then Some OWNER else g)"
  by (cases g) (auto simp: resolve_owner resolve_not_owner)

lemma require_role_ok: "require_role e m = Inr r \<longleftrightarrow> e = Some r \<and> m \<le> r"
  by (auto simp: require_role_def not_less split: option.splits)

lemma require_role_err:
  "require_role e m = Inl x \<longleftrightarrow>
     (e = None \<and> x = NotFoundError) \<or> (\<exists>r. e = Some r \<and> r < m \<and> x = PermissionDeniedError)"
  by (auto simp: require_role_def split: option.splits)

end
