(* ===== verification/Rendering.thy ===== *)
theory Rendering
  imports Prelude
begin

text \<open>
  Decimal and hexadecimal renderings: \<open>str(int)\<close>, \<open>UUID.hex\<close> and \<open>str(UUID)\<close>, with the parsers the
  sources use on them. Entity tags, object keys, cache keys and cursors are built from these.
\<close>

definition digit :: "nat \<Rightarrow> char" where
  "digit n = (if n < 10 then char_of (48 + n) else char_of (87 + n))"

definition digit_value :: "char \<Rightarrow> nat option" where
  "digit_value c = (let n = of_char c in
     if 48 \<le> n \<and> n \<le> 57 then Some (n - 48)
     else if 97 \<le> n \<and> n \<le> 102 then Some (n - 87)
     else if 65 \<le> n \<and> n \<le> 70 then Some (n - 55) else None)"

fun show_nat :: "nat \<Rightarrow> string" where
  "show_nat n = (if n < 10 then [digit n] else show_nat (n div 10) @ [digit (n mod 10)])"

declare show_nat.simps [simp del]

definition show_int :: "int \<Rightarrow> string" where
  "show_int i = (if i < 0 then CHR ''-'' # show_nat (nat (- i)) else show_nat (nat i))"

text \<open>\<open>str.isdigit\<close> on ASCII digits, and \<open>int\<close> of such a string.\<close>

definition is_digit :: "char \<Rightarrow> bool" where
  "is_digit c \<longleftrightarrow> 48 \<le> (of_char c :: nat) \<and> (of_char c :: nat) \<le> 57"

definition isdigit :: "string \<Rightarrow> bool" where
  "isdigit s \<longleftrightarrow> s \<noteq> [] \<and> list_all is_digit s"

text \<open>\<open>str.isdigit\<close> holds of the superscripts U+00B2, U+00B3 and U+00B9 too.\<close>

definition py_isdigit :: "string \<Rightarrow> bool" where
  "py_isdigit s \<longleftrightarrow> s \<noteq> [] \<and> (\<forall>c\<in>set s. is_digit c \<or> (of_char c :: nat) \<in> {178, 179, 185})"

definition read_nat :: "string \<Rightarrow> nat" where
  "read_nat s = foldl (\<lambda>a c. 10 * a + (of_char c - 48)) 0 s"

text \<open>\<open>UUID.hex\<close>: thirty-two hexadecimal digits, most significant first.\<close>

fun hex_digits :: "nat \<Rightarrow> nat \<Rightarrow> string" where
  "hex_digits 0 n = []"
| "hex_digits (Suc k) n = hex_digits k (n div 16) @ [digit (n mod 16)]"

definition uuid_hex :: "uuid \<Rightarrow> string" where
  "uuid_hex u = hex_digits 32 u"

text \<open>\<open>str(UUID)\<close>: the same digits grouped 8-4-4-4-12.\<close>

definition uuid_str :: "uuid \<Rightarrow> string" where
  "uuid_str u = (let h = uuid_hex u in
     take 8 h @ ''-'' @ take 4 (drop 8 h) @ ''-'' @ take 4 (drop 12 h) @ ''-''
       @ take 4 (drop 16 h) @ ''-'' @ drop 20 h)"

text \<open>\<open>int(s, 16)\<close> of a string of lower-case hexadecimal digits.\<close>

fun read_hex :: "string \<Rightarrow> nat option" where
  "read_hex s = foldl (\<lambda>a c. case a of None \<Rightarrow> None
     | Some x \<Rightarrow> (case digit_value c of None \<Rightarrow> None | Some d \<Rightarrow> Some (16 * x + d))) (Some 0) s"

text \<open>
  \<open>uuid.UUID(s)\<close> on the characters the callers admit (lower-case hexadecimal digits and hyphens): the
  hyphens are dropped and thirty-two digits must remain, otherwise a \<open>ValueError\<close>.
\<close>

definition parse_uuid :: "string \<Rightarrow> uuid option" where
  "parse_uuid s = (let h = filter (\<lambda>c. c \<noteq> CHR ''-'') s in
     if length h = 32 then read_hex h else None)"

lemma digit_value_digit [simp]: "n < 16 \<Longrightarrow> digit_value (digit n) = Some n"
  by (simp add: digit_value_def digit_def Let_def)

lemma digit_inj: "a < 16 \<Longrightarrow> b < 16 \<Longrightarrow> digit a = digit b \<Longrightarrow> a = b"
  by (metis digit_value_digit option.inject)

lemma is_digit_digit [simp]: "n < 10 \<Longrightarrow> is_digit (digit n)"
  by (simp add: is_digit_def digit_def)

lemma digit_not_hyphen [simp]: "n < 16 \<Longrightarrow> digit n \<noteq> CHR ''-''"
  using digit_value_digit[of n] by (auto simp: digit_value_def)

lemma digit_code [simp]: "n < 10 \<Longrightarrow> of_char (digit n) = 48 + n"
  by (simp add: digit_def)

lemma show_nat_not_Nil [simp]: "show_nat n \<noteq> []"
  by (subst show_nat.simps) simp

lemma show_nat_digits: "list_all is_digit (show_nat n)"
proof (induction n rule: show_nat.induct)
  case (1 n)
  then show ?case by (subst show_nat.simps) auto
qed

lemma isdigit_show_nat [simp]: "isdigit (show_nat n)"
  by (simp add: isdigit_def show_nat_digits)

lemma read_show_nat [simp]: "read_nat (show_nat n) = n"
proof (induction n rule: show_nat.induct)
  case (1 n)
  show ?case
  proof (cases "n < 10")
    case True
    then show ?thesis by (subst show_nat.simps) (simp add: read_nat_def)
  next
    case False
    with 1 have "read_nat (show_nat (n div 10)) = n div 10" by simp
    with False show ?thesis by (subst show_nat.simps) (simp add: read_nat_def)
  qed
qed

lemma show_nat_inj: "show_nat a = show_nat b \<longleftrightarrow> a = b"
  by (metis read_show_nat)

lemma show_nat_no_char: "\<not> is_digit c \<Longrightarrow> c \<notin> set (show_nat n)"
  using show_nat_digits[of n] by (auto simp: list_all_iff)

lemma show_int_inj: "show_int a = show_int b \<longleftrightarrow> a = b"
proof -
  have h: "\<not> is_digit (CHR ''-'')" by (simp add: is_digit_def)
  have m: "show_nat x = CHR ''-'' # show_nat y \<longleftrightarrow> False"
    for x y using show_nat_no_char[OF h, of x] by (auto dest: sym)
  show ?thesis
    unfolding show_int_def by (auto simp: show_nat_inj m dest: sym)
qed

lemma length_hex_digits [simp]: "length (hex_digits k n) = k"
  by (induction k arbitrary: n) auto

lemma length_uuid_hex [simp]: "length (uuid_hex u) = 32"
  by (simp add: uuid_hex_def)

lemma set_hex_digits: "c \<in> set (hex_digits k n) \<Longrightarrow> \<exists>d < 16. c = digit d"
proof (induction k arbitrary: n)
  case (Suc k)
  from Suc.prems consider "c \<in> set (hex_digits k (n div 16))" | "c = digit (n mod 16)" by auto
  then show ?case
  proof cases
    case 2
    have "n mod 16 < 16" by simp
    with 2 show ?thesis by blast
  qed (rule Suc.IH)
qed simp

lemma hex_no_hyphen: "CHR ''-'' \<notin> set (hex_digits k n)"
  using set_hex_digits digit_not_hyphen by metis

lemma read_hex_append:
  "read_hex (s @ [c]) = (case read_hex s of None \<Rightarrow> None
     | Some x \<Rightarrow> (case digit_value c of None \<Rightarrow> None | Some d \<Rightarrow> Some (16 * x + d)))"
  by simp

lemma read_hex_digits: "n < 16 ^ k \<Longrightarrow> read_hex (hex_digits k n) = Some n"
proof (induction k arbitrary: n)
  case (Suc k)
  have "n div 16 < 16 ^ k" using Suc.prems by (simp add: less_mult_imp_div_less mult.commute)
  then have "read_hex (hex_digits k (n div 16)) = Some (n div 16)" by (rule Suc.IH)
  then have "read_hex (hex_digits k (n div 16) @ [digit (n mod 16)]) = Some n"
    unfolding read_hex_append by simp
  then show ?case by simp
qed simp

lemma uuid_hex_inj:
  assumes "a < 2 ^ 128" "b < 2 ^ 128" "uuid_hex a = uuid_hex b"
  shows "a = b"
proof -
  have "(2::nat) ^ 128 = 16 ^ 32" by simp
  with assms read_hex_digits show ?thesis unfolding uuid_hex_def by (metis option.inject)
qed

lemma uuid_str_strip_hyphens: "filter (\<lambda>c. c \<noteq> CHR ''-'') (uuid_str u) = uuid_hex u"
proof -
  let ?h = "uuid_hex u"
  have nh: "filter (\<lambda>c. c \<noteq> CHR ''-'') xs = xs" if "set xs \<subseteq> set ?h" for xs
    using that hex_no_hyphen[of 32 u] by (auto simp: uuid_hex_def filter_id_conv)
  have sub: "set (take a (drop b ?h)) \<subseteq> set ?h" "set (take a ?h) \<subseteq> set ?h" "set (drop b ?h) \<subseteq> set ?h"
    for a b by (meson set_drop_subset set_take_subset subset_trans)+
  have "take 8 ?h @ take 4 (drop 8 ?h) @ take 4 (drop 12 ?h) @ take 4 (drop 16 ?h) @ drop 20 ?h = ?h"
    using append_take_drop_id[of 8 ?h] append_take_drop_id[of 4 "drop 8 ?h"]
      append_take_drop_id[of 4 "drop 12 ?h"] append_take_drop_id[of 4 "drop 16 ?h"] by simp
  then show ?thesis unfolding uuid_str_def Let_def by (simp add: nh sub)
qed

lemma length_uuid_str [simp]: "length (uuid_str u) = 36"
  by (simp add: uuid_str_def Let_def)

lemma parse_uuid_str: "u < 2 ^ 128 \<Longrightarrow> parse_uuid (uuid_str u) = Some u"
  using read_hex_digits[of u 32]
  by (simp add: parse_uuid_def uuid_str_strip_hyphens Let_def uuid_hex_def del: read_hex.simps)

lemma uuid_str_inj: "a < 2 ^ 128 \<Longrightarrow> b < 2 ^ 128 \<Longrightarrow> uuid_str a = uuid_str b \<Longrightarrow> a = b"
  by (metis parse_uuid_str option.inject)

lemma set_uuid_str: "c \<in> set (uuid_str u) \<Longrightarrow> c = CHR ''-'' \<or> (\<exists>d < 16. c = digit d)"
proof -
  assume "c \<in> set (uuid_str u)"
  then have "c = CHR ''-'' \<or> c \<in> set (uuid_hex u)"
    unfolding uuid_str_def Let_def by (auto dest: in_set_takeD in_set_dropD)
  then show ?thesis using set_hex_digits unfolding uuid_hex_def by blast
qed

end
