(* ===== verification/Nodes.thy ===== *)
theory Nodes
  imports Roles Rendering "HOL-Library.AList"
begin

text \<open>
  The filesystem tree's entities (\<open>domain/nodes.py\<close>): names, tags and metadata with their limits, the
  node entity and its transitions, file versions, rendered paths and trash entries.

  The Unicode tables behind \<open>unicodedata.normalize("NFC", \<dots>)\<close> and \<open>str.casefold\<close> are data of the Python
  runtime, and those behind SQL's \<open>lower\<close> of the database; they are the parameter \<open>text_rules\<close>, and every theorem holds for any such tables unless it
  names a law of them.
\<close>

record text_rules =
  nfc :: "string \<Rightarrow> string"
  casefold :: "string \<Rightarrow> string"
  sql_lower :: "string \<Rightarrow> string"

definition MAX_NAME_LENGTH :: nat where "MAX_NAME_LENGTH = 255"

definition FORBIDDEN_NAME_CHARS :: "char list" where
  "FORBIDDEN_NAME_CHARS = [CHR ''/'', CHR 0x5C, CHR 0x00]"

definition RESERVED_NAMES :: "string list" where
  "RESERVED_NAMES = [''.'', ''..'']"

definition MAX_TAGS_PER_NODE :: nat where "MAX_TAGS_PER_NODE = 64"
definition MAX_TAG_LENGTH :: nat where "MAX_TAG_LENGTH = 64"
definition MAX_METADATA_PAIRS :: nat where "MAX_METADATA_PAIRS = 64"
definition MAX_METADATA_KEY_LENGTH :: nat where "MAX_METADATA_KEY_LENGTH = 128"
definition MAX_METADATA_VALUE_LENGTH :: nat where "MAX_METADATA_VALUE_LENGTH = 1024"

definition RESERVED_METADATA_PREFIX :: string where
  "RESERVED_METADATA_PREFIX = ''cyberfs.''"

definition TRASH_PURGE_NODE_BUDGET :: int where "TRASH_PURGE_NODE_BUDGET = 1000"

datatype node_kind = FOLDER | FILE

datatype encryption_default = INHERIT | ON | OFF

section \<open>Names, tags and metadata\<close>

definition normalize_name :: "text_rules \<Rightarrow> string \<Rightarrow> string" where
  "normalize_name T name = nfc T name"

definition normalize_tag :: "text_rules \<Rightarrow> string \<Rightarrow> string" where
  "normalize_tag T tag = casefold T (strip (nfc T tag))"

fun normalize_tags :: "text_rules \<Rightarrow> string list \<Rightarrow> string set \<Rightarrow> error + string set" where
  "normalize_tags T [] normalized = Inr normalized"
| "normalize_tags T (raw # tags) normalized =
     (let tag = normalize_tag T raw in
      if tag = [] then Inl ValidationError
      else if length tag > MAX_TAG_LENGTH then Inl ValidationError
      else normalize_tags T tags (insert tag normalized))"

definition validate_tags :: "text_rules \<Rightarrow> string list \<Rightarrow> error + string set" where
  "validate_tags T tags =
     (case normalize_tags T tags {} of
        Inl e \<Rightarrow> Inl e
      | Inr normalized \<Rightarrow>
          if card normalized > MAX_TAGS_PER_NODE then Inl ValidationError else Inr normalized)"

text \<open>A \<open>dict[str, str]\<close> is an association list in insertion order with distinct keys.\<close>

type_synonym dict = "(string \<times> string) list"

definition is_reserved_key :: "text_rules \<Rightarrow> string \<Rightarrow> bool" where
  "is_reserved_key T key \<longleftrightarrow> prefix RESERVED_METADATA_PREFIX (casefold T key)"

fun metadata_loop :: "text_rules \<Rightarrow> (string \<times> string) list \<Rightarrow> dict \<Rightarrow> error + dict" where
  "metadata_loop T [] result = Inr result"
| "metadata_loop T ((key, val) # items) result =
     (if key = [] then Inl ValidationError
      else if length key > MAX_METADATA_KEY_LENGTH then Inl ValidationError
      else if prefix RESERVED_METADATA_PREFIX (casefold T key) then Inl ValidationError
      else if length val > MAX_METADATA_VALUE_LENGTH then Inl ValidationError
      else if key \<in> fst ` set result then Inl ValidationError
      else metadata_loop T items (result @ [(key, val)]))"

definition validate_metadata :: "text_rules \<Rightarrow> (string \<times> string) list \<Rightarrow> error + dict" where
  "validate_metadata T pairs =
     (case metadata_loop T pairs [] of
        Inl e \<Rightarrow> Inl e
      | Inr result \<Rightarrow>
          if length result > MAX_METADATA_PAIRS then Inl ValidationError else Inr result)"

definition validate_name :: "string \<Rightarrow> error + string" where
  "validate_name name =
     (if name = [] \<or> length name > MAX_NAME_LENGTH then Inl ValidationError
      else if set FORBIDDEN_NAME_CHARS \<inter> set name \<noteq> {} then Inl ValidationError
      else if name \<in> set RESERVED_NAMES then Inl ValidationError
      else Inr name)"

section \<open>File versions\<close>

record file_version =
  fv_id :: uuid
  fv_node_id :: uuid
  fv_owner_id :: uuid
  fv_sequence :: int
  fv_size_bytes :: int
  fv_plaintext_digest :: string
  fv_content_type :: string
  fv_encrypted :: bool
  fv_created_at :: datetime
  fv_created_by :: string
  fv_seal_version_id :: uuid

definition key_of :: "uuid \<Rightarrow> uuid \<Rightarrow> uuid \<Rightarrow> string" where
  "key_of owner node version = uuid_str owner @ ''/'' @ uuid_str node @ ''/'' @ uuid_str version"

definition object_key :: "file_version \<Rightarrow> string" where
  "object_key v = key_of (fv_owner_id v) (fv_node_id v) (fv_id v)"

section \<open>Nodes\<close>

record node =
  nd_id :: uuid
  nd_owner_id :: uuid
  nd_kind :: node_kind
  nd_name :: string
  nd_parent_id :: "uuid option"
  nd_created_at :: datetime
  nd_updated_at :: datetime
  nd_revision :: int
  nd_deleted_at :: "datetime option"
  nd_current_version_id :: "uuid option"
  nd_size_bytes :: int
  nd_content_type :: "string option"
  nd_encrypted :: bool
  nd_encryption_default :: encryption_default

definition is_folder :: "node \<Rightarrow> bool" where "is_folder n \<longleftrightarrow> nd_kind n = FOLDER"
definition is_file :: "node \<Rightarrow> bool" where "is_file n \<longleftrightarrow> nd_kind n = FILE"
definition is_root :: "node \<Rightarrow> bool" where "is_root n \<longleftrightarrow> nd_parent_id n = None"
definition is_deleted :: "node \<Rightarrow> bool" where "is_deleted n \<longleftrightarrow> nd_deleted_at n \<noteq> None"

text \<open>\<open>Node.__post_init__\<close>: what the constructor refuses.\<close>

definition post_init :: "node \<Rightarrow> error + node" where
  "post_init n =
     (case validate_name (nd_name n) of
        Inl e \<Rightarrow> Inl e
      | Inr _ \<Rightarrow>
          if is_folder n \<and> nd_encrypted n then Inl ValidationError
          else if is_file n \<and> nd_encryption_default n \<noteq> INHERIT then Inl ValidationError
          else Inr n)"

definition normalized_name :: "text_rules \<Rightarrow> node \<Rightarrow> string" where
  "normalized_name T n = normalize_name T (nd_name n)"

definition etag :: "node \<Rightarrow> string" where
  "etag n = [CHR 0x22] @ uuid_hex (nd_id n) @ ''-'' @ show_int (nd_revision n) @ [CHR 0x22]"

definition touch :: "datetime \<Rightarrow> node \<Rightarrow> node" where
  "touch now n = n\<lparr>nd_updated_at := now, nd_revision := nd_revision n + 1\<rparr>"

definition rename_node :: "string \<Rightarrow> datetime \<Rightarrow> node \<Rightarrow> error + node" where
  "rename_node name now n =
     (case validate_name name of
        Inl e \<Rightarrow> Inl e
      | Inr nm \<Rightarrow> Inr (touch now (n\<lparr>nd_name := nm\<rparr>)))"

definition move_to :: "uuid \<Rightarrow> datetime \<Rightarrow> node \<Rightarrow> error + node" where
  "move_to parent_id now n =
     (if is_root n then Inl ValidationError
      else if parent_id = nd_id n then Inl ValidationError
      else Inr (touch now (n\<lparr>nd_parent_id := Some parent_id\<rparr>)))"

definition soft_delete :: "datetime \<Rightarrow> node \<Rightarrow> error + node" where
  "soft_delete now n =
     (if is_root n then Inl ValidationError
      else if is_deleted n then Inr n
      else Inr (touch now (n\<lparr>nd_deleted_at := Some now\<rparr>)))"

definition restore_node :: "datetime \<Rightarrow> node \<Rightarrow> node" where
  "restore_node now n = touch now (n\<lparr>nd_deleted_at := None\<rparr>)"

section \<open>Paths and trash entries\<close>

text \<open>\<open>NodePath\<close>: a node with its ancestors, root first.\<close>

definition segments :: "node \<Rightarrow> node list \<Rightarrow> string list" where
  "segments n ancestors = map nd_name (filter (\<lambda>m. \<not> is_root m) (ancestors @ [n]))"

definition path_of :: "node \<Rightarrow> node list \<Rightarrow> string" where
  "path_of n ancestors = ''/'' @ join_with ''/'' (segments n ancestors)"

record subtree_totals =
  st_size_bytes :: int
  st_nodes :: int

record trash_entry =
  te_node :: node
  te_path :: string
  te_deleted_at :: datetime
  te_purge_after :: datetime
  te_totals :: subtree_totals

definition trash_entry_of :: "node \<Rightarrow> node list \<Rightarrow> int \<Rightarrow> subtree_totals \<Rightarrow> error + trash_entry" where
  "trash_entry_of n ancestors retention_days totals =
     (case nd_deleted_at n of
        None \<Rightarrow> Inl ValidationError
      | Some deleted \<Rightarrow>
          Inr \<lparr>te_node = n, te_path = path_of n ancestors, te_deleted_at = deleted,
               te_purge_after = deleted + days retention_days, te_totals = totals\<rparr>)"

section \<open>Lemmas\<close>

lemma normalize_tags_ok:
  "normalize_tags T tags acc = Inr S \<longleftrightarrow>
     S = acc \<union> normalize_tag T ` set tags \<and>
     (\<forall>t\<in>set tags. normalize_tag T t \<noteq> [] \<and> length (normalize_tag T t) \<le> MAX_TAG_LENGTH)"
  by (induction T tags acc rule: normalize_tags.induct) (auto simp: Let_def)

lemma normalize_tags_err: "normalize_tags T tags acc = Inl e \<Longrightarrow> e = ValidationError"
  by (induction T tags acc rule: normalize_tags.induct) (auto simp: Let_def split: if_splits)

lemma validate_tags_ok:
  "validate_tags T tags = Inr S \<longleftrightarrow>
     S = normalize_tag T ` set tags \<and> card S \<le> MAX_TAGS_PER_NODE \<and>
     (\<forall>t\<in>S. t \<noteq> [] \<and> length t \<le> MAX_TAG_LENGTH)"
proof -
  have "validate_tags T tags = Inr S \<longleftrightarrow>
      normalize_tags T tags {} = Inr S \<and> card S \<le> MAX_TAGS_PER_NODE"
    by (auto simp: validate_tags_def split: sum.splits)
  then show ?thesis by (auto simp: normalize_tags_ok)
qed

lemma validate_tags_err: "validate_tags T tags = Inl e \<Longrightarrow> e = ValidationError"
  by (auto simp: validate_tags_def split: sum.splits if_splits dest: normalize_tags_err)

lemma validate_tags_total: "(\<exists>S. validate_tags T tags = Inr S) \<or> validate_tags T tags = Inl ValidationError"
  by (cases "validate_tags T tags") (auto dest: validate_tags_err)

lemma metadata_loop_ok:
  "metadata_loop T pairs acc = Inr d \<longleftrightarrow>
     d = acc @ pairs \<and> distinct (map fst pairs) \<and> fst ` set pairs \<inter> fst ` set acc = {} \<and>
     (\<forall>(k, v)\<in>set pairs. k \<noteq> [] \<and> length k \<le> MAX_METADATA_KEY_LENGTH \<and>
        \<not> is_reserved_key T k \<and> length v \<le> MAX_METADATA_VALUE_LENGTH)"
  by (induction T pairs acc rule: metadata_loop.induct) (auto simp: is_reserved_key_def)

lemma metadata_loop_err: "metadata_loop T pairs acc = Inl e \<Longrightarrow> e = ValidationError"
  by (induction T pairs acc rule: metadata_loop.induct) (auto split: if_splits)

lemma validate_metadata_ok:
  "validate_metadata T pairs = Inr d \<longleftrightarrow>
     d = pairs \<and> distinct (map fst pairs) \<and> length pairs \<le> MAX_METADATA_PAIRS \<and>
     (\<forall>(k, v)\<in>set pairs. k \<noteq> [] \<and> length k \<le> MAX_METADATA_KEY_LENGTH \<and>
        \<not> is_reserved_key T k \<and> length v \<le> MAX_METADATA_VALUE_LENGTH)"
proof -
  have "validate_metadata T pairs = Inr d \<longleftrightarrow>
      metadata_loop T pairs [] = Inr d \<and> length d \<le> MAX_METADATA_PAIRS"
    by (auto simp: validate_metadata_def split: sum.splits)
  then show ?thesis by (auto simp: metadata_loop_ok)
qed

lemma validate_metadata_err: "validate_metadata T pairs = Inl e \<Longrightarrow> e = ValidationError"
  by (auto simp: validate_metadata_def split: sum.splits if_splits dest: metadata_loop_err)

lemma validate_name_ok:
  "validate_name name = Inr nm \<longleftrightarrow>
     nm = name \<and> name \<noteq> [] \<and> length name \<le> MAX_NAME_LENGTH \<and>
     set FORBIDDEN_NAME_CHARS \<inter> set name = {} \<and> name \<notin> set RESERVED_NAMES"
  by (auto simp: validate_name_def)

lemma validate_name_err: "validate_name name = Inl e \<Longrightarrow> e = ValidationError"
  by (auto simp: validate_name_def split: if_splits)

lemma valid_name_no_slash: "validate_name name = Inr nm \<Longrightarrow> CHR ''/'' \<notin> set name"
  by (auto simp: validate_name_ok FORBIDDEN_NAME_CHARS_def)

lemma touch_simps [simp]:
  "nd_id (touch now n) = nd_id n" "nd_owner_id (touch now n) = nd_owner_id n"
  "nd_kind (touch now n) = nd_kind n" "nd_name (touch now n) = nd_name n"
  "nd_parent_id (touch now n) = nd_parent_id n" "nd_deleted_at (touch now n) = nd_deleted_at n"
  "nd_size_bytes (touch now n) = nd_size_bytes n" "nd_encrypted (touch now n) = nd_encrypted n"
  "nd_current_version_id (touch now n) = nd_current_version_id n"
  "nd_revision (touch now n) = nd_revision n + 1" "nd_updated_at (touch now n) = now"
  "nd_encryption_default (touch now n) = nd_encryption_default n"
  by (simp_all add: touch_def)

text \<open>An entity tag determines the node and its revision.\<close>

lemma etag_inj:
  assumes "etag a = etag b" "nd_id a < 2 ^ 128" "nd_id b < 2 ^ 128"
  shows "nd_id a = nd_id b \<and> nd_revision a = nd_revision b"
proof -
  from assms(1) have "uuid_hex (nd_id a) = uuid_hex (nd_id b)"
    and "show_int (nd_revision a) @ [CHR 0x22] = show_int (nd_revision b) @ [CHR 0x22]"
    by (simp_all add: etag_def)
  then show ?thesis using assms(2,3) uuid_hex_inj show_int_inj by auto
qed

text \<open>
  The rendered path determines the names on it, because a name holds no separator: a path is an
  address of the node it was rendered from.
\<close>

lemma path_roundtrip:
  assumes "\<forall>m\<in>set (ancestors @ [n]). validate_name (nd_name m) = Inr (nd_name m)"
    and "segments n ancestors \<noteq> []"
  shows "split_on (CHR ''/'') (tl (path_of n ancestors)) = segments n ancestors"
proof -
  have "CHR ''/'' \<notin> set x" if x: "x \<in> set (segments n ancestors)" for x
  proof -
    from x obtain m where "m \<in> set (ancestors @ [n])" "x = nd_name m"
      unfolding segments_def set_map set_filter by blast
    with assms(1) show ?thesis by (metis valid_name_no_slash)
  qed
  then show ?thesis using assms(2) by (simp add: path_of_def split_join)
qed

end
