(* ===== verification/Auth.thy ===== *)
theory Auth
  imports Errors
begin

text \<open>
  The caller's identity: \<open>domain/auth/principal.py\<close>, the interpretation of verified claims
  (\<open>domain/auth/claims.py\<close>) and the token acceptance and cache freshness policy
  (\<open>domain/auth/policy.py\<close>).

  A claim is a JSON value. A float is given by its value in microseconds, rounded the way
  \<open>datetime.fromtimestamp\<close> rounds it, and instants have no upper bound.
\<close>

datatype json =
    JNull
  | JBool bool
  | JInt int
  | JFloat timedelta
  | JStr string
  | JList "json list"
  | JObj "(string \<times> json) list"

type_synonym claims = "(string \<times> json) list"

record org =
  org_id :: string
  org_short_name :: string
  org_github_login :: "string option"

record principal =
  pr_subject :: string
  pr_is_admin :: bool
  pr_is_service :: bool
  pr_org :: "org option"
  pr_orgs :: "org list"
  pr_orgs_claim_present :: bool
  pr_entitlements :: "string list"
  pr_expires_at :: "datetime option"

definition authorized_org_ids :: "principal \<Rightarrow> string set" where
  "authorized_org_ids p = org_id ` set (pr_orgs p)"

definition is_user :: "principal \<Rightarrow> bool" where
  "is_user p \<longleftrightarrow> \<not> pr_is_service p"

section \<open>Claims\<close>

definition BEARER_TOKEN_TYPES :: "string list" where
  "BEARER_TOKEN_TYPES = [''access'', ''service'']"

definition INTROSPECTION_TOKEN_TYPES :: "(string \<times> string) list" where
  "INTROSPECTION_TOKEN_TYPES = [(''user'', ''access''), (''service'', ''service'')]"

definition CLIENT_SUBJECT_PREFIX :: string where "CLIENT_SUBJECT_PREFIX = ''client:''"
definition SERVICE_KIND :: string where "SERVICE_KIND = ''service''"

text \<open>\<open>claims.get(key)\<close>: an absent claim and a null claim are both \<open>None\<close>.\<close>

definition get_claim :: "claims \<Rightarrow> string \<Rightarrow> json" where
  "get_claim cs key = (case map_of cs key of None \<Rightarrow> JNull | Some v \<Rightarrow> v)"

fun str_value :: "json \<Rightarrow> string option" where
  "str_value (JStr s) = Some s"
| "str_value _ = None"

definition nonempty_str :: "json \<Rightarrow> string option" where
  "nonempty_str j = (case str_value j of Some s \<Rightarrow> if s = [] then None else Some s | None \<Rightarrow> None)"

fun org_from :: "json \<Rightarrow> org option" where
  "org_from (JObj raw) =
     (case nonempty_str (get_claim raw ''id'') of
        None \<Rightarrow> None
      | Some i \<Rightarrow> Some \<lparr>org_id = i,
          org_short_name = (case str_value (get_claim raw ''short_name'') of Some s \<Rightarrow> s | None \<Rightarrow> []),
          org_github_login = str_value (get_claim raw ''github_login'')\<rparr>)"
| "org_from _ = None"

fun orgs_from :: "json \<Rightarrow> org list" where
  "orgs_from (JList raw) = List.map_filter org_from raw"
| "orgs_from _ = []"

fun strings_from :: "json \<Rightarrow> string list" where
  "strings_from (JList raw) = List.map_filter str_value raw"
| "strings_from _ = []"

fun expires_at :: "json \<Rightarrow> datetime option" where
  "expires_at (JInt n) = Some (seconds n)"
| "expires_at (JFloat us) = Some us"
| "expires_at _ = None"

definition ensure_bearer_token_type :: "claims \<Rightarrow> error + string" where
  "ensure_bearer_token_type cs =
     (let raw = get_claim cs ''type'' in
      if raw = JNull then
        (let introspected = get_claim cs ''token_type'' in
         if introspected = JNull then Inr ''access''
         else case str_value introspected of
           None \<Rightarrow> Inl InvalidTokenError
         | Some s \<Rightarrow> (case map_of INTROSPECTION_TOKEN_TYPES s of
             None \<Rightarrow> Inl InvalidTokenError | Some kind \<Rightarrow> Inr kind))
      else case str_value raw of
        None \<Rightarrow> Inl InvalidTokenError
      | Some s \<Rightarrow> if s \<notin> set BEARER_TOKEN_TYPES then Inl InvalidTokenError else Inr s)"

definition removeprefix :: "string \<Rightarrow> string \<Rightarrow> string" where
  "removeprefix p s = (if prefix p s then drop (length p) s else s)"

definition principal_from_claims :: "claims \<Rightarrow> error + principal" where
  "principal_from_claims cs =
     (case ensure_bearer_token_type cs of
        Inl e \<Rightarrow> Inl e
      | Inr kind \<Rightarrow>
         (let raw_subject = nonempty_str (get_claim cs ''sub'');
              client_id = nonempty_str (get_claim cs ''client_id'');
              is_service = kind = SERVICE_KIND
                \<or> (case raw_subject of Some s \<Rightarrow> prefix CLIENT_SUBJECT_PREFIX s | None \<Rightarrow> False)
                \<or> (raw_subject = None \<and> client_id \<noteq> None);
              stripped = map_option (removeprefix CLIENT_SUBJECT_PREFIX) raw_subject;
              subject = (if is_service
                then (case client_id of Some c \<Rightarrow> Some c | None \<Rightarrow> stripped) else raw_subject)
          in case subject of
               None \<Rightarrow> Inl InvalidTokenError
             | Some s \<Rightarrow> Inr
                 \<lparr>pr_subject = s,
                  pr_is_admin = (get_claim cs ''is_admin'' = JBool True \<and> \<not> is_service),
                  pr_is_service = is_service,
                  pr_org = org_from (get_claim cs ''org''),
                  pr_orgs = orgs_from (get_claim cs ''orgs''),
                  pr_orgs_claim_present = (map_of cs ''orgs'' \<noteq> None),
                  pr_entitlements = strings_from (get_claim cs ''entitlements''),
                  pr_expires_at = expires_at (get_claim cs ''exp'')\<rparr>))"

section \<open>Acceptance policy\<close>

definition FORBIDDEN_ALGORITHMS :: "string list" where
  "FORBIDDEN_ALGORITHMS = [''none'', ''NONE'', ''None'']"

record discovery_metadata =
  dm_issuer :: string
  dm_jwks_uri :: string
  dm_signing_algorithms :: "string list"
  dm_introspection_endpoint :: "string option"
  dm_token_endpoint :: "string option"

definition discovery_post_init :: "discovery_metadata \<Rightarrow> error + discovery_metadata" where
  "discovery_post_init d =
     (if dm_issuer d = [] then Inl InvalidTokenError
      else if dm_jwks_uri d = [] then Inl InvalidTokenError
      else if filter (\<lambda>alg. alg \<notin> set FORBIDDEN_ALGORITHMS) (dm_signing_algorithms d) = []
        then Inl InvalidTokenError
      else Inr d)"

definition ensure_issuer :: "string option \<Rightarrow> string \<Rightarrow> error + unit" where
  "ensure_issuer token_issuer discovered_issuer =
     (if token_issuer \<noteq> Some discovered_issuer then Inl InvalidTokenError else Inr ())"

definition ensure_algorithm :: "string option \<Rightarrow> string list \<Rightarrow> error + unit" where
  "ensure_algorithm algorithm discovered =
     (case algorithm of
        None \<Rightarrow> Inl InvalidTokenError
      | Some alg \<Rightarrow>
          if alg = [] \<or> alg \<in> set FORBIDDEN_ALGORITHMS then Inl InvalidTokenError
          else if alg \<notin> set discovered then Inl InvalidTokenError
          else Inr ())"

definition ensure_not_expired :: "datetime option \<Rightarrow> datetime \<Rightarrow> timedelta \<Rightarrow> error + unit" where
  "ensure_not_expired expires now skew =
     (case expires of
        None \<Rightarrow> Inl InvalidTokenError
      | Some t \<Rightarrow> if t + skew \<le> now then Inl TokenExpiredError else Inr ())"

definition ensure_not_before :: "datetime option \<Rightarrow> datetime \<Rightarrow> timedelta \<Rightarrow> error + unit" where
  "ensure_not_before not_before now skew =
     (case not_before of
        None \<Rightarrow> Inr ()
      | Some t \<Rightarrow> if t - skew > now then Inl InvalidTokenError else Inr ())"

record cache_window =
  cw_ttl :: timedelta
  cw_stale_max :: timedelta

definition is_fresh :: "cache_window \<Rightarrow> datetime \<Rightarrow> datetime \<Rightarrow> bool" where
  "is_fresh w fetched_at now \<longleftrightarrow> now - fetched_at < cw_ttl w"

definition is_usable_while_offline :: "cache_window \<Rightarrow> datetime \<Rightarrow> datetime \<Rightarrow> bool" where
  "is_usable_while_offline w fetched_at now \<longleftrightarrow> now - fetched_at \<le> cw_stale_max w"

definition may_refresh :: "datetime option \<Rightarrow> datetime \<Rightarrow> timedelta \<Rightarrow> bool" where
  "may_refresh last_attempt_at now cooldown =
     (case last_attempt_at of None \<Rightarrow> True | Some t \<Rightarrow> now - t \<ge> cooldown)"

section \<open>Lemmas\<close>

lemma bearer_ok:
  "ensure_bearer_token_type cs = Inr kind \<Longrightarrow> kind = ''access'' \<or> kind = ''service''"
  by (auto simp: ensure_bearer_token_type_def BEARER_TOKEN_TYPES_def INTROSPECTION_TOKEN_TYPES_def
      Let_def split: if_splits option.splits)

lemma bearer_typed:
  "map_of cs ''type'' = Some (JStr t) \<Longrightarrow>
   ensure_bearer_token_type cs =
     (if t = ''access'' \<or> t = ''service'' then Inr t else Inl InvalidTokenError)"
  by (auto simp: ensure_bearer_token_type_def BEARER_TOKEN_TYPES_def get_claim_def Let_def)

lemma principal_ok_bearer:
  "principal_from_claims cs = Inr p \<Longrightarrow> \<exists>kind. ensure_bearer_token_type cs = Inr kind"
  by (auto simp: principal_from_claims_def split: sum.splits)

lemma nonempty_str_Some: "nonempty_str j = Some s \<longleftrightarrow> j = JStr s \<and> s \<noteq> []"
  by (cases j) (auto simp: nonempty_str_def)

text \<open>A refresh token, an MFA challenge or any other type is refused, whatever else it claims.\<close>

lemma other_token_types_refused:
  "map_of cs ''type'' = Some (JStr t) \<Longrightarrow> t \<noteq> ''access'' \<Longrightarrow> t \<noteq> ''service'' \<Longrightarrow>
   principal_from_claims cs = Inl InvalidTokenError"
  by (simp add: principal_from_claims_def bearer_typed)

lemma service_never_admin: "principal_from_claims cs = Inr p \<Longrightarrow> pr_is_service p \<Longrightarrow> \<not> pr_is_admin p"
  by (auto simp: principal_from_claims_def Let_def split: sum.splits option.splits if_splits)

end
