(* ===== verification/Users.thy ===== *)
theory Users
  imports Auth
begin

text \<open>
  Local user records and quota accounting (\<open>domain/users.py\<close>). The three buckets of a
  \<open>QuotaUsage\<close> are Python integers; every transition returns the record with its buckets updated.
\<close>

record user =
  us_id :: uuid
  us_subject :: string
  us_root_folder_id :: uuid
  us_quota_bytes :: int
  us_created_at :: datetime
  us_updated_at :: datetime
  us_is_admin :: bool
  us_org :: "org option"
  us_orgs :: "org list"
  us_last_seen_at :: "datetime option"

definition refresh_from_claims ::
  "bool \<Rightarrow> org option \<Rightarrow> org list \<Rightarrow> datetime \<Rightarrow> user \<Rightarrow> bool \<times> user" where
  "refresh_from_claims is_admin og ogs now u =
     (let changed = (us_is_admin u, us_org u, us_orgs u) \<noteq> (is_admin, og, ogs);
          u' = u\<lparr>us_is_admin := is_admin, us_org := og, us_orgs := ogs, us_last_seen_at := Some now\<rparr>
      in (changed, if changed then u'\<lparr>us_updated_at := now\<rparr> else u'))"

record quota_usage =
  qu_user_id :: uuid
  qu_live_bytes :: int
  qu_trashed_bytes :: int
  qu_version_bytes :: int
  qu_updated_at :: "datetime option"

definition total_bytes :: "quota_usage \<Rightarrow> int" where
  "total_bytes q = qu_live_bytes q + qu_trashed_bytes q + qu_version_bytes q"

definition remaining :: "quota_usage \<Rightarrow> int \<Rightarrow> int" where
  "remaining q quota_bytes = max (quota_bytes - total_bytes q) 0"

definition would_exceed :: "quota_usage \<Rightarrow> int \<Rightarrow> int \<Rightarrow> bool" where
  "would_exceed q quota_bytes additional \<longleftrightarrow> total_bytes q + additional > quota_bytes"

definition ensure_room_for :: "quota_usage \<Rightarrow> int \<Rightarrow> int \<Rightarrow> error + unit" where
  "ensure_room_for q quota_bytes additional =
     (if would_exceed q quota_bytes additional then Inl QuotaExceededError else Inr ())"

definition charge_live :: "int \<Rightarrow> datetime \<Rightarrow> quota_usage \<Rightarrow> quota_usage" where
  "charge_live delta now q =
     q\<lparr>qu_live_bytes := max (qu_live_bytes q + delta) 0, qu_updated_at := Some now\<rparr>"

definition charge_versions :: "int \<Rightarrow> datetime \<Rightarrow> quota_usage \<Rightarrow> quota_usage" where
  "charge_versions delta now q =
     q\<lparr>qu_version_bytes := max (qu_version_bytes q + delta) 0, qu_updated_at := Some now\<rparr>"

definition move_to_trash :: "int \<Rightarrow> datetime \<Rightarrow> quota_usage \<Rightarrow> quota_usage" where
  "move_to_trash size_bytes now q =
     (let moved = min size_bytes (qu_live_bytes q) in
      q\<lparr>qu_live_bytes := qu_live_bytes q - moved, qu_trashed_bytes := qu_trashed_bytes q + moved,
        qu_updated_at := Some now\<rparr>)"

definition restore_from_trash :: "int \<Rightarrow> datetime \<Rightarrow> quota_usage \<Rightarrow> quota_usage" where
  "restore_from_trash size_bytes now q =
     (let moved = min size_bytes (qu_trashed_bytes q) in
      q\<lparr>qu_trashed_bytes := qu_trashed_bytes q - moved, qu_live_bytes := qu_live_bytes q + moved,
        qu_updated_at := Some now\<rparr>)"

definition purge_from_trash :: "int \<Rightarrow> datetime \<Rightarrow> quota_usage \<Rightarrow> quota_usage" where
  "purge_from_trash size_bytes now q =
     q\<lparr>qu_trashed_bytes := max (qu_trashed_bytes q - size_bytes) 0, qu_updated_at := Some now\<rparr>"

definition reconcile :: "int \<Rightarrow> int \<Rightarrow> int \<Rightarrow> datetime \<Rightarrow> quota_usage \<Rightarrow> bool \<times> quota_usage" where
  "reconcile live trashed vers now q =
     (let drifted = (qu_live_bytes q, qu_trashed_bytes q, qu_version_bytes q) \<noteq> (live, trashed, vers)
      in (drifted, q\<lparr>qu_live_bytes := live, qu_trashed_bytes := trashed, qu_version_bytes := vers,
                     qu_updated_at := Some now\<rparr>))"

section \<open>The accounting invariant\<close>

definition quota_inv :: "quota_usage \<Rightarrow> bool" where
  "quota_inv q \<longleftrightarrow> 0 \<le> qu_live_bytes q \<and> 0 \<le> qu_trashed_bytes q \<and> 0 \<le> qu_version_bytes q"

datatype quota_step =
    ChargeLive int
  | ChargeVersions int
  | MoveToTrash int
  | RestoreFromTrash int
  | PurgeFromTrash int

fun quota_apply :: "datetime \<Rightarrow> quota_step \<Rightarrow> quota_usage \<Rightarrow> quota_usage" where
  "quota_apply now (ChargeLive d) = charge_live d now"
| "quota_apply now (ChargeVersions d) = charge_versions d now"
| "quota_apply now (MoveToTrash n) = move_to_trash n now"
| "quota_apply now (RestoreFromTrash n) = restore_from_trash n now"
| "quota_apply now (PurgeFromTrash n) = purge_from_trash n now"

lemmas quota_defs = charge_live_def charge_versions_def move_to_trash_def restore_from_trash_def
  purge_from_trash_def Let_def

text \<open>The sizes the services pass to the trash transitions are sums of stored sizes.\<close>

fun step_ok :: "quota_step \<Rightarrow> bool" where
  "step_ok (MoveToTrash n) \<longleftrightarrow> 0 \<le> n"
| "step_ok (RestoreFromTrash n) \<longleftrightarrow> 0 \<le> n"
| "step_ok _ \<longleftrightarrow> True"

lemma quota_apply_inv: "quota_inv q \<Longrightarrow> step_ok st \<Longrightarrow> quota_inv (quota_apply now st q)"
  by (cases st) (auto simp: quota_defs quota_inv_def)

lemma quota_apply_user [simp]: "qu_user_id (quota_apply now st q) = qu_user_id q"
  by (cases st) (auto simp: quota_defs)

lemma trash_total [simp]: "total_bytes (move_to_trash n now q) = total_bytes q"
  by (simp add: quota_defs total_bytes_def)

lemma restore_total [simp]: "total_bytes (restore_from_trash n now q) = total_bytes q"
  by (simp add: quota_defs total_bytes_def)

lemma trash_then_restore:
  assumes "0 \<le> qu_trashed_bytes q" "0 \<le> n" "n \<le> qu_live_bytes q"
  shows "restore_from_trash n later (move_to_trash n now q) = q\<lparr>qu_updated_at := Some later\<rparr>"
  using assms by (cases q) (simp add: quota_defs)

text \<open>A double release of the same bytes stops at zero: it never manufactures free space.\<close>

lemma purge_never_negative: "quota_inv q \<Longrightarrow> 0 \<le> n \<Longrightarrow>
   0 \<le> total_bytes (purge_from_trash n now q) \<and>
   total_bytes q - total_bytes (purge_from_trash n now q) = min n (qu_trashed_bytes q)"
  by (auto simp: quota_defs total_bytes_def quota_inv_def)

lemma ensure_room_ok:
  "ensure_room_for q quota extra = Inr () \<longleftrightarrow> total_bytes q + extra \<le> quota"
  by (auto simp: ensure_room_for_def would_exceed_def)

end
