(* ===== verification/Auditing.thy ===== *)
theory Auditing
  imports Nodes Users
begin

text \<open>
  Audit records (\<open>domain/audit.py\<close>) and the rule that decides whether a record may carry a file name
  (\<open>owner_context\<close> of \<open>application/auditing.py\<close>).
\<close>

datatype audit_action =
    AUTH_DENIED
  | AUTH_RATE_LIMITED
  | USER_PROVISIONED
  | GRANT_CREATED
  | GRANT_UPDATED
  | GRANT_REVOKED
  | OWNERSHIP_TRANSFERRED
  | PUBLIC_LINK_CREATED
  | PUBLIC_LINK_REVOKED
  | PUBLIC_LINK_ACCESSED
  | ENCRYPTION_ENABLED
  | ENCRYPTION_DISABLED
  | ENCRYPTION_OVERRIDDEN
  | KEY_ROTATED
  | S3_KEY_CREATED
  | S3_KEY_REVOKED
  | QUOTA_CHANGED
  | CACHE_PURGED
  | FILENAMES_REVEALED
  | BACKUP_TRIGGERED
  | FILE_UPLOADED
  | FILE_DOWNLOADED
  | NODE_CREATED
  | NODE_RENAMED
  | NODE_TAGS_CHANGED
  | NODE_METADATA_CHANGED
  | NODE_MOVED
  | NODE_COPIED
  | NODE_DELETED
  | NODE_RESTORED
  | VERSION_RESTORED
  | NODE_PURGED
  | TRASH_EMPTIED

fun audit_action_value :: "audit_action \<Rightarrow> string" where
  "audit_action_value AUTH_DENIED = ''auth.denied''"
| "audit_action_value AUTH_RATE_LIMITED = ''auth.rate_limited''"
| "audit_action_value USER_PROVISIONED = ''user.provisioned''"
| "audit_action_value GRANT_CREATED = ''grant.created''"
| "audit_action_value GRANT_UPDATED = ''grant.updated''"
| "audit_action_value GRANT_REVOKED = ''grant.revoked''"
| "audit_action_value OWNERSHIP_TRANSFERRED = ''node.ownership_transferred''"
| "audit_action_value PUBLIC_LINK_CREATED = ''public_link.created''"
| "audit_action_value PUBLIC_LINK_REVOKED = ''public_link.revoked''"
| "audit_action_value PUBLIC_LINK_ACCESSED = ''public_link.accessed''"
| "audit_action_value ENCRYPTION_ENABLED = ''node.encryption_enabled''"
| "audit_action_value ENCRYPTION_DISABLED = ''node.encryption_disabled''"
| "audit_action_value ENCRYPTION_OVERRIDDEN = ''node.encryption_overridden''"
| "audit_action_value KEY_ROTATED = ''key.rotated''"
| "audit_action_value S3_KEY_CREATED = ''s3_key.created''"
| "audit_action_value S3_KEY_REVOKED = ''s3_key.revoked''"
| "audit_action_value QUOTA_CHANGED = ''admin.quota_changed''"
| "audit_action_value CACHE_PURGED = ''admin.cache_purged''"
| "audit_action_value FILENAMES_REVEALED = ''admin.filenames_revealed''"
| "audit_action_value BACKUP_TRIGGERED = ''admin.backup_triggered''"
| "audit_action_value FILE_UPLOADED = ''file.uploaded''"
| "audit_action_value FILE_DOWNLOADED = ''file.downloaded''"
| "audit_action_value NODE_CREATED = ''node.created''"
| "audit_action_value NODE_RENAMED = ''node.renamed''"
| "audit_action_value NODE_TAGS_CHANGED = ''node.tags_changed''"
| "audit_action_value NODE_METADATA_CHANGED = ''node.metadata_changed''"
| "audit_action_value NODE_MOVED = ''node.moved''"
| "audit_action_value NODE_COPIED = ''node.copied''"
| "audit_action_value NODE_DELETED = ''node.deleted''"
| "audit_action_value NODE_RESTORED = ''node.restored''"
| "audit_action_value VERSION_RESTORED = ''version.restored''"
| "audit_action_value NODE_PURGED = ''node.purged''"
| "audit_action_value TRASH_EMPTIED = ''trash.emptied''"

datatype audit_protocol = REST | S3

text \<open>The context of a record: action-specific details, strings, numbers and flags.\<close>

datatype context_value = CStr string | CInt int | CBool bool

record audit_record =
  ar_action :: audit_action
  ar_occurred_at :: datetime
  ar_protocol :: audit_protocol
  ar_actor_subject :: "string option"
  ar_target_id :: "string option"
  ar_recipient_subject :: "string option"
  ar_reason :: "string option"
  ar_source_ip :: "string option"
  ar_context :: "(string \<times> context_value) list"

text \<open>\<open>AuditRecord(action, occurred_at, actor_subject, target_id, context)\<close> with the other fields defaulted.\<close>

definition audit_of ::
  "audit_action \<Rightarrow> datetime \<Rightarrow> string \<Rightarrow> string option \<Rightarrow> (string \<times> context_value) list \<Rightarrow> audit_record" where
  "audit_of action occurred_at actor target ctx =
     \<lparr>ar_action = action, ar_occurred_at = occurred_at, ar_protocol = REST, ar_actor_subject = Some actor,
      ar_target_id = target, ar_recipient_subject = None, ar_reason = None, ar_source_ip = None,
      ar_context = ctx\<rparr>"

definition owner_context :: "node \<Rightarrow> uuid \<Rightarrow> (string \<times> context_value) list" where
  "owner_context n actor_id = (if nd_owner_id n = actor_id then [(''name'', CStr (nd_name n))] else [])"

text \<open>No name leaves the owner's tree through a record.\<close>

lemma owner_context_private: "nd_owner_id n \<noteq> actor \<Longrightarrow> owner_context n actor = []"
  by (simp add: owner_context_def)

end
