(* ===== verification/Labels.thy ===== *)
theory Labels
  imports Nodes
begin

text \<open>
  Partial label updates (\<open>domain/labels.py\<close>): a delta of tags or metadata, its validation, the
  collection it produces and what of it a caller is shown.
\<close>

record tag_delta =
  td_added :: "string set"
  td_removed :: "string set"

record metadata_delta =
  md_pairs :: dict
  md_removed :: "string set"

definition validate_removal_tags :: "text_rules \<Rightarrow> string list \<Rightarrow> error + string set" where
  "validate_removal_tags T tags =
     (let named = tags in
      if length named > MAX_TAGS_PER_NODE then Inl ValidationError else validate_tags T named)"

definition validate_removal_keys :: "text_rules \<Rightarrow> string list \<Rightarrow> error + string set" where
  "validate_removal_keys T keys =
     (case validate_metadata T (map (\<lambda>key. (key, '''')) keys) of
        Inl e \<Rightarrow> Inl e
      | Inr d \<Rightarrow> Inr (fst ` set d))"

definition validate_tag_delta :: "text_rules \<Rightarrow> string list \<Rightarrow> string list \<Rightarrow> error + tag_delta" where
  "validate_tag_delta T add remove =
     (case validate_tags T add of
        Inl e \<Rightarrow> Inl e
      | Inr added \<Rightarrow>
         (case validate_removal_tags T remove of
            Inl e \<Rightarrow> Inl e
          | Inr removed \<Rightarrow>
              if added = {} \<and> removed = {} then Inl ValidationError
              else if added \<inter> removed \<noteq> {} then Inl ValidationError
              else Inr \<lparr>td_added = added, td_removed = removed\<rparr>))"

definition validate_metadata_delta ::
  "text_rules \<Rightarrow> (string \<times> string) list \<Rightarrow> string list \<Rightarrow> error + metadata_delta" where
  "validate_metadata_delta T pairs remove =
     (case validate_metadata T pairs of
        Inl e \<Rightarrow> Inl e
      | Inr written \<Rightarrow>
         (case validate_removal_keys T remove of
            Inl e \<Rightarrow> Inl e
          | Inr removed \<Rightarrow>
              if written = [] \<and> removed = {} then Inl ValidationError
              else if fst ` set written \<inter> removed \<noteq> {} then Inl ValidationError
              else Inr \<lparr>md_pairs = written, md_removed = removed\<rparr>))"

definition merge_tags :: "text_rules \<Rightarrow> string set \<Rightarrow> tag_delta \<Rightarrow> error + string set" where
  "merge_tags T current delta =
     validate_tags T (sorted_list_of_set ((current \<union> td_added delta) - td_removed delta))"

text \<open>\<open>dict.update\<close>: an existing key keeps its position, a new one goes to the end.\<close>

definition dict_update :: "dict \<Rightarrow> dict \<Rightarrow> dict" where
  "dict_update d pairs = fold (\<lambda>(k, v). AList.update k v) pairs d"

definition merge_metadata :: "dict \<Rightarrow> metadata_delta \<Rightarrow> error + dict" where
  "merge_metadata current delta =
     (let merged = filter (\<lambda>(k, v). k \<notin> md_removed delta) current in
      let merged = dict_update merged (md_pairs delta) in
      if length merged > MAX_METADATA_PAIRS then Inl ValidationError else Inr merged)"

definition visible_metadata :: "text_rules \<Rightarrow> dict \<Rightarrow> dict" where
  "visible_metadata T pairs = filter (\<lambda>(k, v). \<not> is_reserved_key T k) pairs"

definition tag_change_counts :: "string set \<Rightarrow> string set \<Rightarrow> nat \<times> nat" where
  "tag_change_counts current merged = (card (merged - current), card (current - merged))"

definition metadata_change_counts :: "dict \<Rightarrow> dict \<Rightarrow> nat \<times> nat" where
  "metadata_change_counts current merged =
     (length (filter (\<lambda>(k, v). map_of current k \<noteq> Some v) merged),
      card (fst ` set current - fst ` set merged))"

text \<open>Equality of two dicts, which disregards the order of their items.\<close>

definition dict_eq :: "dict \<Rightarrow> dict \<Rightarrow> bool" where
  "dict_eq a b \<longleftrightarrow> set a = set b"

text \<open>What a stored tag set satisfies: every entry is in the form the normaliser returns.\<close>

definition stored_tags :: "text_rules \<Rightarrow> string set \<Rightarrow> bool" where
  "stored_tags T S \<longleftrightarrow> finite S \<and> card S \<le> MAX_TAGS_PER_NODE \<and>
     (\<forall>t\<in>S. normalize_tag T t = t \<and> t \<noteq> [] \<and> length t \<le> MAX_TAG_LENGTH)"

text \<open>The law of the Unicode tables that storing relies on: normalising twice is normalising once.\<close>

definition normal_idem :: "text_rules \<Rightarrow> bool" where
  "normal_idem T \<longleftrightarrow> (\<forall>s. normalize_tag T (normalize_tag T s) = normalize_tag T s)"

section \<open>Lemmas\<close>

lemma validate_tags_stored:
  "normal_idem T \<Longrightarrow> validate_tags T tags = Inr S \<Longrightarrow> stored_tags T S"
  by (auto simp: validate_tags_ok stored_tags_def normal_idem_def)

lemma validate_removal_tags_ok:
  "validate_removal_tags T tags = Inr S \<longleftrightarrow>
     length tags \<le> MAX_TAGS_PER_NODE \<and> validate_tags T tags = Inr S"
  by (auto simp: validate_removal_tags_def)

lemma validate_removal_keys_ok:
  "validate_removal_keys T keys = Inr S \<longleftrightarrow>
     S = set keys \<and> distinct keys \<and> length keys \<le> MAX_METADATA_PAIRS \<and>
     (\<forall>k\<in>set keys. k \<noteq> [] \<and> length k \<le> MAX_METADATA_KEY_LENGTH \<and> \<not> is_reserved_key T k)"
proof -
  have m: "map (fst \<circ> (\<lambda>k. (k, ''''))) keys = keys" by (induction keys) auto
  have f: "fst ` (\<lambda>k. (k, '''')) ` set keys = set keys" by force
  have "validate_removal_keys T keys = Inr S \<longleftrightarrow>
      (\<exists>d. validate_metadata T (map (\<lambda>k. (k, '''')) keys) = Inr d \<and> S = fst ` set d)"
    by (auto simp: validate_removal_keys_def split: sum.splits)
  then show ?thesis by (auto simp: validate_metadata_ok m f image_image)
qed

lemma validate_tag_delta_ok:
  "validate_tag_delta T add remove = Inr d \<longleftrightarrow>
     validate_tags T add = Inr (td_added d) \<and> validate_removal_tags T remove = Inr (td_removed d) \<and>
     (td_added d \<noteq> {} \<or> td_removed d \<noteq> {}) \<and> td_added d \<inter> td_removed d = {}"
  by (cases d) (auto simp: validate_tag_delta_def split: sum.splits)

lemma validate_metadata_delta_ok:
  "validate_metadata_delta T pairs remove = Inr d \<longleftrightarrow>
     validate_metadata T pairs = Inr (md_pairs d) \<and> validate_removal_keys T remove = Inr (md_removed d) \<and>
     (md_pairs d \<noteq> [] \<or> md_removed d \<noteq> {}) \<and> fst ` set (md_pairs d) \<inter> md_removed d = {}"
  by (cases d) (auto simp: validate_metadata_delta_def split: sum.splits)

lemma merge_tags_eq:
  assumes "stored_tags T current" and "stored_tags T (td_added delta)"
  shows "merge_tags T current delta =
    (let merged = (current \<union> td_added delta) - td_removed delta in
     if card merged \<le> MAX_TAGS_PER_NODE then Inr merged else Inl ValidationError)"
proof -
  let ?m = "(current \<union> td_added delta) - td_removed delta"
  have fin: "finite ?m" and st: "\<forall>t\<in>?m. normalize_tag T t = t \<and> t \<noteq> [] \<and> length t \<le> MAX_TAG_LENGTH"
    using assms by (auto simp: stored_tags_def)
  then have img: "normalize_tag T ` ?m = ?m" by (auto simp: image_def)
  have ok: "merge_tags T current delta = Inr S \<longleftrightarrow> S = ?m \<and> card ?m \<le> MAX_TAGS_PER_NODE" for S
    using st by (auto simp: merge_tags_def validate_tags_ok img fin)
  show ?thesis
  proof (cases "card ?m \<le> MAX_TAGS_PER_NODE")
    case True
    then show ?thesis using ok by (auto simp: Let_def)
  next
    case False
    with ok validate_tags_total[of T "sorted_list_of_set ?m"] show ?thesis
      by (auto simp: merge_tags_def Let_def)
  qed
qed

lemma keys_update: "fst ` set (AList.update k v d) = insert k (fst ` set d)"
  by (induction d) auto

lemma keys_dict_update:
  "fst ` set (dict_update d pairs) = fst ` set d \<union> fst ` set pairs"
  unfolding dict_update_def
  by (induction pairs arbitrary: d) (simp_all add: keys_update split_beta)

lemma distinct_dict_update: "distinct (map fst d) \<Longrightarrow> distinct (map fst (dict_update d pairs))"
  unfolding dict_update_def
  by (induction pairs arbitrary: d) (auto simp: distinct_update)

lemma map_of_dict_update:
  "distinct (map fst pairs) \<Longrightarrow> map_of (dict_update d pairs) = map_of d ++ map_of pairs"
proof (induction pairs arbitrary: d)
  case (Cons p ps)
  obtain k v where p: "p = (k, v)" by (cases p)
  have "map_of (dict_update d (p # ps)) = map_of (AList.update k v d) ++ map_of ps"
    using Cons by (simp add: p dict_update_def)
  moreover have "map_of ps k = None" using Cons.prems by (simp add: p map_of_eq_None_iff)
  ultimately show ?case by (auto simp: p update_conv' map_add_def fun_eq_iff split: option.splits)
qed (simp add: dict_update_def)

lemma map_of_filter_keys:
  "map_of (filter (\<lambda>(k, v). P k) d) k = (if P k then map_of d k else None)"
  by (induction d) auto

lemma merge_metadata_ok:
  "merge_metadata current delta = Inr m \<longleftrightarrow>
     m = dict_update (filter (\<lambda>(k, v). k \<notin> md_removed delta) current) (md_pairs delta) \<and>
     length m \<le> MAX_METADATA_PAIRS"
  by (auto simp: merge_metadata_def Let_def)

lemma merge_metadata_lookup:
  assumes "merge_metadata current delta = Inr m" "distinct (map fst (md_pairs delta))"
  shows "map_of m k = (case map_of (md_pairs delta) k of Some v \<Rightarrow> Some v
     | None \<Rightarrow> if k \<in> md_removed delta then None else map_of current k)"
  using assms
  by (auto simp: merge_metadata_ok map_of_dict_update map_add_def map_of_filter_keys split: option.splits)

lemma visible_all: "(\<And>k v. (k, v) \<in> set d \<Longrightarrow> \<not> is_reserved_key T k) \<Longrightarrow> visible_metadata T d = d"
  by (auto simp: visible_metadata_def filter_id_conv)

lemma distinct_filter_keys: "distinct (map fst d) \<Longrightarrow> distinct (map fst (filter P d))"
  by (simp add: distinct_map_filter)

end
