(* ===== verification/Cache.thy ===== *)
theory Cache
  imports Errors Rendering "HOL-Library.AList"
begin

text \<open>
  The cache: what is cached under which key (\<open>domain/cache.py\<close>), the circuit breaker that guards it,
  and the Redis adapter (\<open>adapters/outbound/cache/redis_cache.py\<close>).

  The Redis server is a map from keys to a value and an expiry; it answers when it is reachable and
  every command fails when it is not. Its glob matching (\<open>SCAN MATCH\<close>) is a parameter, of which only
  the meaning of a pattern \<open>p*\<close> without other metacharacters is used (\<open>glob_law\<close>). The values are the
  integers that encode permission decisions, the only dataset the services store.
\<close>

definition NAMESPACE :: string where "NAMESPACE = ''cyberfs''"

datatype dataset = PERMISSION | METADATA | LISTING | JWKS | QUOTA | ADMIN_STATS

fun dataset_value :: "dataset \<Rightarrow> string" where
  "dataset_value PERMISSION = ''perm''"
| "dataset_value METADATA = ''meta''"
| "dataset_value LISTING = ''list''"
| "dataset_value JWKS = ''jwks''"
| "dataset_value QUOTA = ''quota''"
| "dataset_value ADMIN_STATS = ''stats''"

definition SUBJECT_SCOPED :: "dataset set" where "SUBJECT_SCOPED = {PERMISSION, LISTING}"

record cache_policy =
  cp_permission :: timedelta
  cp_metadata :: timedelta
  cp_listing :: timedelta
  cp_jwks :: timedelta
  cp_quota :: timedelta
  cp_admin_stats :: timedelta

definition default_policy :: cache_policy where
  "default_policy = \<lparr>cp_permission = seconds 60, cp_metadata = seconds 300, cp_listing = seconds 120,
     cp_jwks = seconds 3600, cp_quota = seconds 300, cp_admin_stats = seconds 600\<rparr>"

fun ttl_for :: "cache_policy \<Rightarrow> dataset \<Rightarrow> timedelta" where
  "ttl_for p PERMISSION = cp_permission p"
| "ttl_for p METADATA = cp_metadata p"
| "ttl_for p LISTING = cp_listing p"
| "ttl_for p JWKS = cp_jwks p"
| "ttl_for p QUOTA = cp_quota p"
| "ttl_for p ADMIN_STATS = cp_admin_stats p"

definition dataset_prefix :: "int \<Rightarrow> dataset \<Rightarrow> string" where
  "dataset_prefix schema ds = NAMESPACE @ '':v'' @ show_int schema @ '':'' @ dataset_value ds @ '':''"

definition cache_key :: "int \<Rightarrow> dataset \<Rightarrow> string list \<Rightarrow> string" where
  "cache_key schema ds parts =
     (let tail = join_with '':'' parts in
      NAMESPACE @ '':v'' @ show_int schema @ '':'' @ dataset_value ds @ '':'' @ tail)"

section \<open>Circuit breaker\<close>

record circuit_breaker =
  cb_trip_after :: timedelta
  cb_cooldown :: timedelta
  cb_failing_since :: "datetime option"
  cb_opened_at :: "datetime option"

definition is_open :: "circuit_breaker \<Rightarrow> bool" where
  "is_open b \<longleftrightarrow> cb_opened_at b \<noteq> None"

definition allows :: "datetime \<Rightarrow> circuit_breaker \<Rightarrow> bool \<times> circuit_breaker" where
  "allows now b =
     (case cb_opened_at b of
        None \<Rightarrow> (True, b)
      | Some opened \<Rightarrow>
          if now - opened \<ge> cb_cooldown b
          then (True, b\<lparr>cb_opened_at := None, cb_failing_since := None\<rparr>)
          else (False, b))"

definition record_success :: "circuit_breaker \<Rightarrow> circuit_breaker" where
  "record_success b = b\<lparr>cb_failing_since := None, cb_opened_at := None\<rparr>"

definition record_failure :: "datetime \<Rightarrow> circuit_breaker \<Rightarrow> circuit_breaker" where
  "record_failure now b =
     (case cb_failing_since b of
        None \<Rightarrow> b\<lparr>cb_failing_since := Some now\<rparr>
      | Some since \<Rightarrow> if now - since \<ge> cb_trip_after b then b\<lparr>cb_opened_at := Some now\<rparr> else b)"

section \<open>The Redis adapter\<close>

type_synonym entries = "(string \<times> int \<times> datetime) list"

record cache_state =
  cs_entries :: entries
  cs_breaker :: circuit_breaker
  cs_reachable :: bool

type_synonym 'a cache_op = "(cache_state, error, 'a) op"

text \<open>\<open>RedisCache._run\<close>: one command under the breaker.\<close>

definition cache_run :: "datetime \<Rightarrow> (entries \<Rightarrow> 'a \<times> entries) \<Rightarrow> 'a cache_op" where
  "cache_run now cmd cs =
     (case allows now (cs_breaker cs) of
        (False, b) \<Rightarrow> (Inl CacheUnavailableError, cs\<lparr>cs_breaker := b\<rparr>)
      | (True, b) \<Rightarrow>
          if cs_reachable cs then
            (case cmd (cs_entries cs) of
               (x, es) \<Rightarrow> (Inr x, cs\<lparr>cs_entries := es, cs_breaker := record_success b\<rparr>))
          else (Inl CacheUnavailableError, cs\<lparr>cs_breaker := record_failure now b\<rparr>))"

definition cache_available :: "datetime \<Rightarrow> cache_state \<Rightarrow> bool \<times> cache_state" where
  "cache_available now cs = (case allows now (cs_breaker cs) of (ok, b) \<Rightarrow> (ok, cs\<lparr>cs_breaker := b\<rparr>))"

definition redis_get :: "datetime \<Rightarrow> string \<Rightarrow> entries \<Rightarrow> int option \<times> entries" where
  "redis_get now key es =
     (case map_of es key of
        Some (v, expires) \<Rightarrow> (if now < expires then Some v else None, es)
      | None \<Rightarrow> (None, es))"

definition redis_set :: "datetime \<Rightarrow> string \<Rightarrow> int \<Rightarrow> int \<Rightarrow> entries \<Rightarrow> unit \<times> entries" where
  "redis_set now key v secs es = ((), AList.update key (v, now + seconds secs) es)"

definition redis_delete :: "string list \<Rightarrow> entries \<Rightarrow> unit \<times> entries" where
  "redis_delete keys es = ((), filter (\<lambda>(k, _). k \<notin> set keys) es)"

definition redis_delete_matching :: "(string \<Rightarrow> bool) \<Rightarrow> entries \<Rightarrow> nat \<times> entries" where
  "redis_delete_matching p es =
     (length (filter (\<lambda>(k, _). p k) es), filter (\<lambda>(k, _). \<not> p k) es)"

definition cache_get :: "datetime \<Rightarrow> string \<Rightarrow> cache_state \<Rightarrow> int option \<times> cache_state" where
  "cache_get now key cs =
     (case cache_run now (redis_get now key) cs of
        (Inl _, cs') \<Rightarrow> (None, cs')
      | (Inr v, cs') \<Rightarrow> (v, cs'))"

definition cache_set :: "datetime \<Rightarrow> string \<Rightarrow> int \<Rightarrow> timedelta \<Rightarrow> cache_state \<Rightarrow> cache_state" where
  "cache_set now key v ttl cs = snd (cache_run now (redis_set now key v (ttl div 1000000)) cs)"

definition cache_delete :: "datetime \<Rightarrow> string list \<Rightarrow> unit cache_op" where
  "cache_delete now keys cs =
     (if keys = [] then (Inr (), cs) else cache_run now (redis_delete keys) cs)"

text \<open>
  \<open>delete_prefix\<close>: the scan returns every key that matches the pattern while it runs, and each batch
  is deleted; with a server that stays reachable the loop removes exactly the matching keys. The loop is
  one command of the model: nothing runs between its batches, and the server is reachable for all of them
  or for none.
\<close>

definition cache_delete_prefix :: "(string \<Rightarrow> string \<Rightarrow> bool) \<Rightarrow> datetime \<Rightarrow> string \<Rightarrow> nat cache_op" where
  "cache_delete_prefix glob now pre cs =
     cache_run now (redis_delete_matching (glob (pre @ ''*''))) cs"

definition dataset_of :: "string \<Rightarrow> string" where
  "dataset_of key = (let parts = split_max (CHR '':'') 3 key in
     if length parts > 2 then parts ! 2 else ''unknown'')"

text \<open>A pattern of ordinary characters followed by an asterisk matches the keys it is a prefix of.\<close>

definition glob_law :: "(string \<Rightarrow> string \<Rightarrow> bool) \<Rightarrow> bool" where
  "glob_law glob \<longleftrightarrow> (\<forall>p k. set p \<inter> {CHR ''*'', CHR ''?'', CHR ''['', CHR 0x5C} = {} \<longrightarrow>
     glob (p @ ''*'') k = prefix p k)"

definition literal_pattern :: "string \<Rightarrow> bool" where
  "literal_pattern p \<longleftrightarrow> set p \<inter> {CHR ''*'', CHR ''?'', CHR ''['', CHR 0x5C} = {}"

section \<open>Lemmas\<close>

lemma glob_lawD: "glob_law glob \<Longrightarrow> literal_pattern p \<Longrightarrow> glob (p @ ''*'') k = prefix p k"
  by (simp add: glob_law_def literal_pattern_def)

text \<open>Keys: the schema and the dataset are read back unambiguously, and so is what follows them.\<close>

lemma show_int_no_colon: "CHR '':'' \<notin> set (show_int i)"
  using show_nat_no_char[of "CHR '':''"] by (auto simp: show_int_def is_digit_def)

lemma dataset_no_colon: "CHR '':'' \<notin> set (dataset_value ds)"
  by (cases ds) auto

lemma dataset_value_inj: "dataset_value a = dataset_value b \<longleftrightarrow> a = b"
  by (cases a; cases b) auto

lemma colon_split:
  "CHR '':'' \<notin> set a \<Longrightarrow> CHR '':'' \<notin> set b \<Longrightarrow> a @ CHR '':'' # x = b @ CHR '':'' # y \<longleftrightarrow> a = b \<and> x = y"
proof (induction a arbitrary: b)
  case Nil
  then show ?case by (cases b) auto
next
  case (Cons c a)
  then show ?case by (cases b) auto
qed

lemma dataset_prefix_append:
  "dataset_prefix s ds @ x = dataset_prefix s' ds' @ y \<longleftrightarrow> s = s' \<and> ds = ds' \<and> x = y"
  by (auto simp: dataset_prefix_def colon_split show_int_no_colon dataset_no_colon show_int_inj
      dataset_value_inj)

lemma cache_key_eq: "cache_key s ds parts = dataset_prefix s ds @ join_with '':'' parts"
  by (simp add: cache_key_def dataset_prefix_def)

lemma key_in_dataset:
  "prefix (dataset_prefix s ds) (cache_key s' ds' parts) \<longleftrightarrow> s = s' \<and> ds = ds'"
  using dataset_prefix_append by (auto simp: cache_key_eq prefix_def)

text \<open>A permission key names one subject and one node, whatever characters the subject has.\<close>

lemma permission_key_inj:
  assumes "cache_key s PERMISSION [a, uuid_str i] = cache_key s PERMISSION [b, uuid_str j]"
    and "i < 2 ^ 128" "j < 2 ^ 128"
  shows "a = b \<and> i = j"
proof -
  from assms(1) have "(a @ '':'') @ uuid_str i = (b @ '':'') @ uuid_str j"
    by (simp add: cache_key_eq)
  then have "a @ '':'' = b @ '':'' \<and> uuid_str i = uuid_str j"
    by (subst (asm) append_eq_append_conv) auto
  with assms(2,3) show ?thesis using uuid_str_inj by auto
qed

lemma allows_closed [simp]: "cb_opened_at b = None \<Longrightarrow> allows now b = (True, b)"
  by (simp add: allows_def)

lemma cache_run_up:
  "cs_reachable cs \<Longrightarrow> fst (allows now (cs_breaker cs)) \<Longrightarrow>
   cache_run now cmd cs = (Inr (fst (cmd (cs_entries cs))),
     cs\<lparr>cs_entries := snd (cmd (cs_entries cs)), cs_breaker := record_success (snd (allows now (cs_breaker cs)))\<rparr>)"
  by (auto simp: cache_run_def split: prod.splits)

lemma cache_run_ok:
  "cache_run now cmd cs = (Inr x, cs') \<Longrightarrow>
   cs_reachable cs \<and> x = fst (cmd (cs_entries cs)) \<and> cs_entries cs' = snd (cmd (cs_entries cs))"
  by (auto simp: cache_run_def split: prod.splits if_splits bool.splits)

lemma cache_run_err:
  "cache_run now cmd cs = (Inl e, cs') \<Longrightarrow> e = CacheUnavailableError \<and> cs_entries cs' = cs_entries cs"
  by (auto simp: cache_run_def split: prod.splits if_splits bool.splits)

lemma cache_run_reachable [simp]: "cs_reachable (snd (cache_run now cmd cs)) = cs_reachable cs"
  by (auto simp: cache_run_def split: prod.splits if_splits bool.splits)

lemma cache_get_entries [simp]: "cs_entries (snd (cache_get now key cs)) = cs_entries cs"
proof (cases "cache_run now (redis_get now key) cs")
  case (Pair r cs')
  then show ?thesis
    by (cases r) (auto simp: cache_get_def redis_get_def dest!: cache_run_err cache_run_ok split: option.splits)
qed

lemma cache_get_Some:
  "cache_get now key cs = (Some v, cs') \<Longrightarrow> \<exists>expires. map_of (cs_entries cs) key = Some (v, expires) \<and> now < expires"
  by (auto simp: cache_get_def redis_get_def dest!: cache_run_ok
      split: prod.splits sum.splits option.splits if_splits)

text \<open>Nothing is stored for longer than its dataset's time to live.\<close>

lemma cache_set_expiry:
  "map_of (cs_entries (cache_set now key v ttl cs)) k = Some (w, expires) \<Longrightarrow>
   map_of (cs_entries cs) k = Some (w, expires) \<or> (k = key \<and> w = v \<and> expires \<le> now + ttl)"
proof (cases "cache_run now (redis_set now key v (ttl div 1000000)) cs")
  case (Pair r cs')
  assume a: "map_of (cs_entries (cache_set now key v ttl cs)) k = Some (w, expires)"
  have "ttl div 1000000 * 1000000 \<le> ttl" by (simp add: minus_mod_eq_div_mult[symmetric])
  with a Pair show ?thesis
    by (cases r) (auto simp: cache_set_def redis_set_def update_conv' dest!: cache_run_err cache_run_ok
        split: if_splits)
qed

end
