(* ===== verification/Pagination.thy ===== *)
theory Pagination
  imports Rendering Errors
begin

text \<open>
  Keyset cursors (\<open>domain/pagination.py\<close>): the URL-safe base64 token, the check digest and the filter
  fingerprint. Bytes are natural numbers below 256. The standard library's codecs are written out:
  UTF-8 in both directions, \<open>base64.urlsafe_b64encode\<close>, the non-strict decoder behind
  \<open>base64.urlsafe_b64decode\<close>, and \<open>json.dumps\<close> on the values a fingerprint is taken of.

  A decoded text with a code point above U+00FF is outside the model's alphabet and counts as
  undecodable. SHA-256 (\<open>hashlib.sha256(\<dots>).hexdigest()\<close>) is the parameter \<open>sha256_hex\<close>; what
  the cursors rely on of it, that its output is a string of hexadecimal digits, is \<open>hex_digest\<close>.
\<close>

definition CURSOR_SEPARATOR :: char where "CURSOR_SEPARATOR = CHR 0x1F"

section \<open>UTF-8\<close>

definition utf8_char :: "char \<Rightarrow> nat list" where
  "utf8_char c = (let n = of_char c in if n < 128 then [n] else [192 + n div 64, 128 + n mod 64])"

definition utf8_encode :: "string \<Rightarrow> nat list" where
  "utf8_encode s = concat (map utf8_char s)"

fun utf8_decode :: "nat list \<Rightarrow> string option" where
  "utf8_decode [] = Some []"
| "utf8_decode (b # bs) =
     (if b < 128 then map_option ((#) (char_of b)) (utf8_decode bs)
      else if b = 194 \<or> b = 195 then
        (case bs of
           [] \<Rightarrow> None
         | c # cs \<Rightarrow> if 128 \<le> c \<and> c < 192
             then map_option ((#) (char_of ((b - 192) * 64 + (c - 128)))) (utf8_decode cs)
             else None)
      else None)"

section \<open>Base64\<close>

text \<open>The URL-safe alphabet: upper case, lower case, digits, hyphen, underscore.\<close>

definition b64_char :: "nat \<Rightarrow> char" where
  "b64_char n =
     (if n < 26 then char_of (n + 65) else if n < 52 then char_of (n + 71)
      else if n < 62 then char_of (n - 4) else if n = 62 then CHR ''-'' else CHR ''_'')"

text \<open>\<open>base64.urlsafe_b64encode\<close>, padding included.\<close>

fun urlsafe_b64encode :: "nat list \<Rightarrow> string" where
  "urlsafe_b64encode [] = []"
| "urlsafe_b64encode [a] = [b64_char (a div 4), b64_char (a mod 4 * 16), CHR ''='', CHR ''='']"
| "urlsafe_b64encode [a, b] =
     [b64_char (a div 4), b64_char (a mod 4 * 16 + b div 16), b64_char (b mod 16 * 4), CHR ''='']"
| "urlsafe_b64encode (a # b # c # bs) =
     [b64_char (a div 4), b64_char (a mod 4 * 16 + b div 16), b64_char (b mod 16 * 4 + c div 64),
      b64_char (c mod 64)] @ urlsafe_b64encode bs"

text \<open>
  The value of a character, with both alphabets' last two symbols, as the translation of the
  URL-safe symbols leaves the standard ones readable.
\<close>

definition b64_value :: "char \<Rightarrow> nat option" where
  "b64_value ch = (let n = of_char ch :: nat in
     if 65 \<le> n \<and> n \<le> 90 then Some (n - 65)
     else if 97 \<le> n \<and> n \<le> 122 then Some (n - 71)
     else if 48 \<le> n \<and> n \<le> 57 then Some (n + 4)
     else if n = 43 \<or> n = 45 then Some 62
     else if n = 47 \<or> n = 95 then Some 63
     else None)"

text \<open>
  The non-strict decoder: position in the group of four, bits left over, padding seen, output.
  Characters outside the alphabet are skipped, and a sufficient run of padding ends the input.
\<close>

fun a2b_base64 :: "string \<Rightarrow> nat \<Rightarrow> nat \<Rightarrow> nat \<Rightarrow> nat list \<Rightarrow> nat list option" where
  "a2b_base64 [] quad left pads out = (if quad = 0 then Some out else None)"
| "a2b_base64 (ch # s) quad left pads out =
     (if ch = CHR ''='' then
        (if quad \<ge> 2 then
           (if quad + (pads + 1) \<ge> 4 then Some out else a2b_base64 s quad left (pads + 1) out)
         else a2b_base64 s quad left pads out)
      else case b64_value ch of
        None \<Rightarrow> a2b_base64 s quad left pads out
      | Some v \<Rightarrow>
          if quad = 0 then a2b_base64 s 1 v 0 out
          else if quad = 1 then a2b_base64 s 2 (v mod 16) 0 (out @ [left * 4 + v div 16])
          else if quad = 2 then a2b_base64 s 3 (v mod 4) 0 (out @ [left * 16 + v div 4])
          else a2b_base64 s 0 0 0 (out @ [left * 64 + v]))"

definition urlsafe_b64decode :: "string \<Rightarrow> nat list option" where
  "urlsafe_b64decode s =
     (if list_all (\<lambda>c. (of_char c :: nat) < 128) s then a2b_base64 s 0 0 0 [] else None)"

section \<open>Cursors\<close>

definition encode_cursor :: "string \<Rightarrow> string" where
  "encode_cursor val = rstrip_by (\<lambda>c. c = CHR ''='') (urlsafe_b64encode (utf8_encode val))"

definition decode_cursor :: "string \<Rightarrow> error + string" where
  "decode_cursor cursor =
     (let padded = cursor @ replicate (nat ((- int (length cursor)) mod 4)) (CHR ''='') in
      case urlsafe_b64decode padded of
        None \<Rightarrow> Inl ValidationError
      | Some bs \<Rightarrow> (case utf8_decode bs of None \<Rightarrow> Inl ValidationError | Some s \<Rightarrow> Inr s))"

text \<open>What a fingerprint is taken of, and its compact JSON rendering (ASCII only, as by default).\<close>

datatype fp_part = FNone | FStr string | FList "string list"

definition json_char :: "char \<Rightarrow> string" where
  "json_char c = (let n = of_char c :: nat in
     if n = 34 then [CHR 0x5C, CHR 0x22]
     else if n = 92 then [CHR 0x5C, CHR 0x5C]
     else if n = 10 then [CHR 0x5C, CHR ''n'']
     else if n = 13 then [CHR 0x5C, CHR ''r'']
     else if n = 9 then [CHR 0x5C, CHR ''t'']
     else if n = 8 then [CHR 0x5C, CHR ''b'']
     else if n = 12 then [CHR 0x5C, CHR ''f'']
     else if n < 32 \<or> 126 < n then [CHR 0x5C, CHR ''u''] @ hex_digits 4 n
     else [c])"

definition json_str :: "string \<Rightarrow> string" where
  "json_str s = [CHR 0x22] @ concat (map json_char s) @ [CHR 0x22]"

definition json_array :: "string list \<Rightarrow> string" where
  "json_array xs = ''['' @ join_with '','' xs @ '']''"

fun json_part :: "fp_part \<Rightarrow> string" where
  "json_part FNone = ''null''"
| "json_part (FStr s) = json_str s"
| "json_part (FList ss) = json_array (map json_str ss)"

definition json_dumps :: "fp_part list \<Rightarrow> string" where
  "json_dumps parts = json_array (map json_part parts)"

definition fingerprint_of :: "(string \<Rightarrow> string) \<Rightarrow> fp_part list \<Rightarrow> string" where
  "fingerprint_of sha256_hex parts = take 16 (sha256_hex (json_dumps parts))"

definition encode_keyed_cursor :: "(string \<Rightarrow> string) \<Rightarrow> string \<Rightarrow> string list \<Rightarrow> string" where
  "encode_keyed_cursor sha256_hex fingerprint fields =
     (let payload = join_with [CURSOR_SEPARATOR] (fingerprint # fields) in
      join_with [CURSOR_SEPARATOR] [fingerprint_of sha256_hex [FStr payload], payload])"

definition decode_keyed_cursor ::
  "(string \<Rightarrow> string) \<Rightarrow> string \<Rightarrow> string \<Rightarrow> nat \<Rightarrow> error + string list" where
  "decode_keyed_cursor sha256_hex raw fingerprint fields =
     (case partition_at CURSOR_SEPARATOR raw of
        (check, _, payload) \<Rightarrow>
          if payload = [] \<or> check \<noteq> fingerprint_of sha256_hex [FStr payload] then Inl ValidationError
          else let parts = split_max CURSOR_SEPARATOR fields payload in
            if length parts \<noteq> fields + 1 then Inl ValidationError
            else if hd parts \<noteq> fingerprint then Inl ValidationError
            else Inr (tl parts))"

definition hex_digest :: "(string \<Rightarrow> string) \<Rightarrow> bool" where
  "hex_digest f \<longleftrightarrow> (\<forall>s. length (f s) = 64 \<and> (\<forall>c\<in>set (f s). digit_value c \<noteq> None))"

text \<open>A page of results and \<open>_paginate\<close>, which trims the sentinel row.\<close>

record 'a page =
  pg_items :: "'a list"
  pg_next_cursor :: "string option"

definition paginate :: "'r list \<Rightarrow> nat \<Rightarrow> ('r \<Rightarrow> 'a) \<Rightarrow> ('r \<Rightarrow> string) \<Rightarrow> 'a page" where
  "paginate rows limit to_entity to_cursor =
     (let has_more = length rows > limit;
          visible = take limit rows;
          cursor = (if has_more \<and> visible \<noteq> [] then Some (encode_cursor (to_cursor (last visible)))
                    else None)
      in \<lparr>pg_items = map to_entity visible, pg_next_cursor = cursor\<rparr>)"

section \<open>Lemmas\<close>

lemma char_of_mod [simp]: "n < 256 \<Longrightarrow> of_char (char_of (n::nat)) = n"
  by (simp add: of_char_of)

lemma of_char_bound: "(of_char c :: nat) < 256"
  by simp

lemma utf8_decode_char: "utf8_decode (utf8_char c @ bs) = map_option ((#) c) (utf8_decode bs)"
proof (cases "(of_char c :: nat) < 128")
  case True
  then show ?thesis by (simp add: utf8_char_def)
next
  case False
  let ?n = "of_char c :: nat"
  have "?n div 64 = 2 \<or> ?n div 64 = 3"
    using False less_mult_imp_div_less[of ?n 4 64] div_le_mono[of 128 ?n 64] by auto
  moreover have "?n div 64 * 64 + ?n mod 64 = ?n" by simp
  ultimately show ?thesis using False by (auto simp: utf8_char_def Let_def)
qed

lemma utf8_roundtrip: "utf8_decode (utf8_encode s) = Some s"
  by (induction s) (simp_all add: utf8_encode_def utf8_decode_char)

lemma utf8_bytes: "b \<in> set (utf8_encode s) \<Longrightarrow> b < 256"
proof -
  have "b < 256" if "b \<in> set (utf8_char c)" for c
    using that of_char_bound[of c] less_mult_imp_div_less[of "of_char c" 4 64]
    by (auto simp: utf8_char_def Let_def split: if_splits)
  then show "b \<in> set (utf8_encode s) \<Longrightarrow> b < 256" by (auto simp: utf8_encode_def)
qed

lemma b64_value_char [simp]: "n < 64 \<Longrightarrow> b64_value (b64_char n) = Some n"
  by (auto simp: b64_value_def b64_char_def Let_def)

lemma b64_char_ascii [simp]: "n < 64 \<Longrightarrow> (of_char (b64_char n) :: nat) < 128"
  by (auto simp: b64_char_def)

lemma b64_char_pad [simp]: "n < 64 \<Longrightarrow> b64_char n \<noteq> CHR ''=''"
  using b64_value_char[of n] by (auto simp: b64_value_def)

text \<open>The token without its padding, which \<open>rstrip("=")\<close> leaves and the decoder restores.\<close>

fun b64_body :: "nat list \<Rightarrow> string" where
  "b64_body [] = []"
| "b64_body [a] = [b64_char (a div 4), b64_char (a mod 4 * 16)]"
| "b64_body [a, b] =
     [b64_char (a div 4), b64_char (a mod 4 * 16 + b div 16), b64_char (b mod 16 * 4)]"
| "b64_body (a # b # c # bs) =
     [b64_char (a div 4), b64_char (a mod 4 * 16 + b div 16), b64_char (b mod 16 * 4 + c div 64),
      b64_char (c mod 64)] @ b64_body bs"

lemma b64_index [simp]:
  fixes a b c :: nat
  shows "a < 256 \<Longrightarrow> a div 4 < 64" "a mod 4 * 16 < 64" "b mod 16 * 4 < 64" "c mod 64 < 64"
    "b < 256 \<Longrightarrow> a mod 4 * 16 + b div 16 < 64" "c < 256 \<Longrightarrow> b mod 16 * 4 + c div 64 < 64"
proof -
  have m: "a mod 4 < 4" "b mod 16 < 16" by simp_all
  show "a < 256 \<Longrightarrow> a div 4 < 64" by (simp add: less_mult_imp_div_less)
  show "a mod 4 * 16 < 64" "b mod 16 * 4 < 64" using m by linarith+
  show "c mod 64 < 64" by simp
  show "a mod 4 * 16 + b div 16 < 64" if "b < 256"
    using m that less_mult_imp_div_less[of b 16 16] by simp
  show "b mod 16 * 4 + c div 64 < 64" if "c < 256"
    using m that less_mult_imp_div_less[of c 4 64] by simp
qed

lemma b64_body_pad:
  "urlsafe_b64encode bs = b64_body bs @ replicate (nat ((- int (length (b64_body bs))) mod 4)) (CHR ''='')"
proof (induction bs rule: b64_body.induct)
  case (4 a b c bs)
  have "(- int (length (b64_body (a # b # c # bs)))) mod 4 = (- int (length (b64_body bs))) mod 4"
    by simp presburger
  with 4 show ?case by simp
qed (simp_all add: numeral_2_eq_2)

lemma b64_body_chars:
  "\<forall>b\<in>set bs. b < 256 \<Longrightarrow> ch \<in> set (b64_body bs) \<Longrightarrow> ch \<noteq> CHR ''='' \<and> (of_char ch :: nat) < 128"
  by (induction bs rule: b64_body.induct) auto

lemma b64_small: "(b::nat) < 256 \<Longrightarrow> b div 16 < 16" "(b::nat) < 256 \<Longrightarrow> b div 64 < 4"
  by (simp_all add: less_mult_imp_div_less)

lemma a2b_encode:
  "\<forall>b\<in>set bs. b < 256 \<Longrightarrow> a2b_base64 (urlsafe_b64encode bs) 0 0 0 out = Some (out @ bs)"
  by (induction bs arbitrary: out rule: urlsafe_b64encode.induct) (simp_all add: b64_small)

lemma rstrip_pad:
  "(\<And>c. c \<in> set s \<Longrightarrow> c \<noteq> x) \<Longrightarrow> rstrip_by (\<lambda>c. c = x) (s @ replicate n x) = s"
proof -
  assume "\<And>c. c \<in> set s \<Longrightarrow> c \<noteq> x"
  then have "dropWhile (\<lambda>c. c = x) (rev s) = rev s"
    using hd_in_set[of "rev s"] by (auto simp: dropWhile_eq_self_iff)
  moreover have "dropWhile (\<lambda>c. c = x) (replicate n x @ t) = dropWhile (\<lambda>c. c = x) t" for t
    by (induction n) auto
  ultimately show ?thesis by (simp add: rstrip_by_def)
qed

lemma encode_cursor_body: "encode_cursor val = b64_body (utf8_encode val)"
  unfolding encode_cursor_def b64_body_pad
  by (rule rstrip_pad) (metis b64_body_chars utf8_bytes)

lemma cursor_roundtrip: "decode_cursor (encode_cursor val) = Inr val"
proof -
  let ?bs = "utf8_encode val"
  have b: "\<forall>b\<in>set ?bs. b < 256" by (simp add: utf8_bytes)
  have "list_all (\<lambda>c. (of_char c :: nat) < 128) (urlsafe_b64encode ?bs)"
    unfolding b64_body_pad using b64_body_chars[OF b] by (auto simp: list_all_iff)
  then have "urlsafe_b64decode (urlsafe_b64encode ?bs) = Some ?bs"
    using a2b_encode[OF b] by (simp add: urlsafe_b64decode_def)
  then show ?thesis
    by (simp add: decode_cursor_def encode_cursor_body utf8_roundtrip Let_def flip: b64_body_pad)
qed

lemma split_max_join:
  assumes "\<And>x. x \<in> set (butlast xs) \<Longrightarrow> c \<notin> set x" "xs \<noteq> []"
  shows "split_max c (length xs - 1) (join_with [c] xs) = xs"
  using assms by (induction xs rule: induct_list012) auto

lemma split_max_not_Nil: "split_max c n s \<noteq> []"
  by (cases n) (auto split: prod.splits)

lemma split_max_inverse: "join_with [c] (split_max c n s) = s"
proof (induction n arbitrary: s)
  case (Suc n)
  obtain a f b where p: "partition_at c s = (a, f, b)" by (cases "partition_at c s")
  then have s: "s = (if f then a @ c # b else a)"
    by (induction s arbitrary: a f b) (auto split: prod.splits if_splits)
  obtain x xs where "split_max c n b = x # xs"
    using split_max_not_Nil[of c n b] by (cases "split_max c n b") auto
  with Suc[of b] p s show ?case by simp
qed simp

lemma partition_inverse:
  "partition_at c s = (a, f, b) \<Longrightarrow> c \<notin> set a \<and> s = (if f then a @ c # b else a) \<and> (\<not> f \<longrightarrow> b = [])"
  by (induction s arbitrary: a f b) (auto split: prod.splits if_splits)

lemma digest_no_separator:
  assumes "hex_digest H"
  shows "CURSOR_SEPARATOR \<notin> set (fingerprint_of H parts)"
proof -
  have "digit_value CURSOR_SEPARATOR = None" by (simp add: CURSOR_SEPARATOR_def digit_value_def)
  with assms have "CURSOR_SEPARATOR \<notin> set (H x)" for x unfolding hex_digest_def by blast
  then show ?thesis unfolding fingerprint_of_def by (meson in_set_takeD)
qed

lemma keyed_decode_sound:
  assumes "decode_keyed_cursor H raw fp n = Inr fs"
  shows "raw = encode_keyed_cursor H fp fs \<and> length fs = n"
proof -
  obtain chk f payload where p: "partition_at CURSOR_SEPARATOR raw = (chk, f, payload)"
    by (cases "partition_at CURSOR_SEPARATOR raw")
  let ?parts = "split_max CURSOR_SEPARATOR n payload"
  from assms p have *: "payload \<noteq> []" "chk = fingerprint_of H [FStr payload]"
    "length ?parts = n + 1" "hd ?parts = fp" "fs = tl ?parts"
    by (simp_all add: decode_keyed_cursor_def Let_def split: if_splits)
  then have parts: "?parts = fp # fs" by (cases ?parts) auto
  have "payload = join_with [CURSOR_SEPARATOR] (fp # fs)"
    using split_max_inverse[of CURSOR_SEPARATOR n payload] parts by simp
  moreover have "raw = chk @ CURSOR_SEPARATOR # payload"
    using partition_inverse[OF p] *(1) by (cases f) auto
  moreover have "length fs = n" using *(3) parts by simp
  ultimately show ?thesis using *(2) by (simp add: encode_keyed_cursor_def Let_def)
qed

lemma keyed_roundtrip:
  assumes "hex_digest H" "CURSOR_SEPARATOR \<notin> set fp" "fs \<noteq> []"
    and "\<forall>x\<in>set (butlast fs). CURSOR_SEPARATOR \<notin> set x"
  shows "decode_keyed_cursor H (encode_keyed_cursor H fp fs) fp (length fs) = Inr fs"
proof -
  let ?c = CURSOR_SEPARATOR
  let ?payload = "join_with [?c] (fp # fs)"
  have "partition_at ?c (encode_keyed_cursor H fp fs) = (fingerprint_of H [FStr ?payload], True, ?payload)"
    using digest_no_separator[OF assms(1)] by (simp add: encode_keyed_cursor_def Let_def)
  moreover have "split_max ?c (length fs) ?payload = fp # fs"
    using split_max_join[of "fp # fs" ?c] assms by auto
  moreover have "?payload \<noteq> []" using assms(3) by (cases fs) auto
  ultimately show ?thesis by (simp add: decode_keyed_cursor_def Let_def)
qed

section \<open>The filter set behind a fingerprint\<close>

text \<open>
  The JSON rendering is a prefix code, so two different filter sets never have the same one: a
  separator or a quote inside a search term cannot imitate the structure around it.
\<close>

fun json_read :: "string \<Rightarrow> nat \<times> string" where
  "json_read (x # y # r) =
     (if x \<noteq> CHR 0x5C then (of_char x, y # r)
      else if y = CHR ''n'' then (10, r) else if y = CHR ''r'' then (13, r)
      else if y = CHR ''t'' then (9, r) else if y = CHR ''b'' then (8, r)
      else if y = CHR ''f'' then (12, r)
      else if y = CHR ''u'' then (the (read_hex (take 4 r)), drop 4 r)
      else (of_char y, r))"
| "json_read [x] = (of_char x, [])"
| "json_read [] = (0, [])"

lemma json_read_char: "json_read (json_char c @ u) = (of_char c, u)"
proof -
  have "read_hex (hex_digits 4 (of_char c)) = Some (of_char c)"
    by (rule read_hex_digits) (rule less_trans[OF of_char_bound], simp)
  moreover have "(of_char c :: nat) \<noteq> 92 \<Longrightarrow> c \<noteq> CHR 0x5C" by auto
  ultimately show ?thesis
    by (cases u) (simp_all add: json_char_def Let_def del: read_hex.simps)
qed

lemma json_char_inj: "json_char c @ u = json_char d @ v \<Longrightarrow> c = d \<and> u = v"
  by (metis json_read_char of_char_eq_iff prod.inject)

lemma json_char_not_quote: "json_char c @ u \<noteq> CHR 0x22 # v"
  by (auto simp: json_char_def Let_def)

lemma json_str_inj: "json_str s @ x = json_str t @ y \<Longrightarrow> s = t \<and> x = y"
proof -
  have "concat (map json_char s) @ CHR 0x22 # x = concat (map json_char t) @ CHR 0x22 # y \<Longrightarrow>
      s = t \<and> x = y"
  proof (induction s arbitrary: t)
    case Nil
    then show ?case
      by (cases t) (auto dest!: sym[of "CHR 0x22 # _"] simp: json_char_not_quote)
  next
    case (Cons c s)
    then obtain d t' where t: "t = d # t'"
      by (cases t) (auto simp: json_char_not_quote)
    with Cons.prems have "json_char c @ concat (map json_char s) @ CHR 0x22 # x =
        json_char d @ concat (map json_char t') @ CHR 0x22 # y" by simp
    from json_char_inj[OF this] Cons.IH t show ?case by auto
  qed
  then show "json_str s @ x = json_str t @ y \<Longrightarrow> s = t \<and> x = y" by (simp add: json_str_def)
qed

fun json_tail :: "('a \<Rightarrow> string) \<Rightarrow> 'a list \<Rightarrow> string \<Rightarrow> string" where
  "json_tail f [] u = CHR '']'' # u"
| "json_tail f (x # xs) u = CHR '','' # f x @ json_tail f xs u"

lemma join_tail: "join_with '','' (map f (x # xs)) @ CHR '']'' # u = f x @ json_tail f xs u"
  by (induction xs arbitrary: x) simp_all

lemma json_tail_inj:
  assumes inj: "\<And>a b x y. f a @ x = f b @ y \<Longrightarrow> a = b \<and> x = y"
  shows "json_tail f xs u = json_tail f ys v \<Longrightarrow> xs = ys \<and> u = v"
proof (induction xs arbitrary: ys)
  case Nil
  then show ?case by (cases ys) auto
next
  case (Cons x xs)
  then obtain y ys' where ys: "ys = y # ys'" by (cases ys) auto
  with Cons.prems have "f x @ json_tail f xs u = f y @ json_tail f ys' v" by simp
  from inj[OF this] Cons.IH ys show ?case by blast
qed

lemma join_prefix_code:
  assumes inj: "\<And>a b x y. f a @ x = f b @ y \<Longrightarrow> a = b \<and> x = y"
    and start: "\<And>a x y. f a @ x \<noteq> CHR '']'' # y"
    and eq: "join_with '','' (map f xs) @ CHR '']'' # u = join_with '','' (map f ys) @ CHR '']'' # v"
  shows "xs = ys \<and> u = v"
proof (cases xs; cases ys)
  fix x xs' y ys' assume l: "xs = x # xs'" "ys = y # ys'"
  from eq have "f x @ json_tail f xs' u = f y @ json_tail f ys' v" unfolding l join_tail .
  from inj[OF this] json_tail_inj[of f xs' u ys' v, OF inj] l show ?thesis by blast
next
  fix x xs' assume l: "xs = x # xs'" "ys = []"
  show ?thesis using eq start[of x "json_tail f xs' u" v] unfolding l join_tail by simp
next
  fix y ys' assume l: "xs = []" "ys = y # ys'"
  show ?thesis using eq[symmetric] start[of y "json_tail f ys' v" u] unfolding l join_tail by simp
qed (use eq in simp_all)

lemma json_part_inj:
  assumes eq: "json_part p @ x = json_part q @ y"
  shows "p = q \<and> x = y"
proof (cases p; cases q)
  fix ss ts assume l: "p = FList ss" "q = FList ts"
  have nostart: "\<And>a x y. json_str a @ x \<noteq> CHR '']'' # y" by (simp add: json_str_def)
  from eq l have "join_with '','' (map json_str ss) @ CHR '']'' # x =
      join_with '','' (map json_str ts) @ CHR '']'' # y" by (simp add: json_array_def)
  from join_prefix_code[OF json_str_inj nostart this] l show ?thesis by blast
next
  fix s t assume l: "p = FStr s" "q = FStr t"
  from eq have "json_str s @ x = json_str t @ y" by (simp add: l)
  from json_str_inj[OF this] l show ?thesis by blast
qed (use eq in \<open>simp_all add: json_array_def json_str_def\<close>)

lemma json_part_start: "json_part p @ x \<noteq> CHR '']'' # y"
  by (cases p) (auto simp: json_array_def json_str_def)

lemma json_dumps_inj: "json_dumps ps = json_dumps qs \<longleftrightarrow> ps = qs"
  using join_prefix_code[OF json_part_inj json_part_start, where xs = ps and ys = qs and u = "[]" and v = "[]"]
  by (auto simp: json_dumps_def json_array_def)

end
