(* ===== verification/Store.thy ===== *)
theory Store
  imports Auditing Labels Cache Pagination "HOL-Library.Product_Lexorder"
begin

text \<open>
  The database and what surrounds it: the tables (\<open>adapters/outbound/db/models.py\<close>), the repositories
  (\<open>adapters/outbound/db/repositories.py\<close>), the unit of work (\<open>unit_of_work.py\<close>) and the state of the
  whole system that a use case runs in.

  A table is a list of rows; where the SQL gives no order the rows come in the order of the list, and
  text is ordered by code points. A row of the model is the domain entity the mapper builds from it.
  Foreign keys are the \<open>ON DELETE CASCADE\<close> clauses of the tables that refer to a node.
\<close>

record user_key =
  uk_user_id :: uuid
  uk_wrapped_kek :: "nat list"
  uk_master_key_id :: string
  uk_created_at :: datetime
  uk_rotated_at :: "datetime option"

definition rewrapped :: "user_key \<Rightarrow> nat list \<Rightarrow> string \<Rightarrow> datetime \<Rightarrow> user_key" where
  "rewrapped k wrapped_kek master_key_id now =
     \<lparr>uk_user_id = uk_user_id k, uk_wrapped_kek = wrapped_kek, uk_master_key_id = master_key_id,
      uk_created_at = uk_created_at k, uk_rotated_at = Some now\<rparr>"

record data_key =
  dk_id :: uuid
  dk_node_id :: uuid
  dk_subject :: string
  dk_wrapped_dek :: "nat list"
  dk_created_at :: datetime

definition rewrapped_for :: "data_key \<Rightarrow> string \<Rightarrow> nat list \<Rightarrow> datetime \<Rightarrow> uuid \<Rightarrow> data_key" where
  "rewrapped_for k subject wrapped_dek now key_id =
     \<lparr>dk_id = key_id, dk_node_id = dk_node_id k, dk_subject = subject, dk_wrapped_dek = wrapped_dek,
      dk_created_at = now\<rparr>"

text \<open>The rows of the S3 surface: access-key credentials, multipart uploads and their staged parts.\<close>

record s3_access_key =
  ak_key_id :: string
  ak_sealed_secret :: "nat list"
  ak_secret_master_key_id :: string
  ak_label :: string
  ak_owner_id :: uuid
  ak_owner_subject :: string
  ak_created_at :: datetime
  ak_last_used_at :: "datetime option"
  ak_revoked_at :: "datetime option"

record multipart_upload =
  mu_upload_id :: string
  mu_initiator_subject :: string
  mu_target_owner_subject :: string
  mu_target_key :: string
  mu_via_shared :: bool
  mu_content_type :: "string option"
  mu_created_at :: datetime

record multipart_part =
  mp_upload_id :: string
  mp_part_number :: int
  mp_etag :: string
  mp_size :: int
  mp_object_key :: string
  mp_uploaded_at :: datetime

record db =
  db_users :: "user list"
  db_nodes :: "node list"
  db_versions :: "file_version list"
  db_tags :: "(uuid \<times> string) list"
  db_metadata :: "(uuid \<times> string \<times> string) list"
  db_grants :: "grant list"
  db_links :: "public_link list"
  db_user_keys :: "user_key list"
  db_data_keys :: "data_key list"
  db_quotas :: "quota_usage list"
  db_audit :: "audit_record list"
  db_s3_keys :: "s3_access_key list"
  db_uploads :: "multipart_upload list"
  db_parts :: "multipart_part list"

section \<open>Users and quotas\<close>

definition users_get :: "db \<Rightarrow> uuid \<Rightarrow> user option" where
  "users_get d uid = row_by us_id uid (db_users d)"

definition users_get_by_subject :: "db \<Rightarrow> string \<Rightarrow> user option" where
  "users_get_by_subject d subject = row_by us_subject subject (db_users d)"

definition users_add :: "user \<Rightarrow> db \<Rightarrow> db" where
  "users_add u d = d\<lparr>db_users := db_users d @ [u]\<rparr>"

text \<open>\<open>apply_user\<close> copies the mutable columns; identity, subject, root and creation time stay.\<close>

definition apply_user :: "user \<Rightarrow> user \<Rightarrow> user" where
  "apply_user u r = r\<lparr>us_quota_bytes := us_quota_bytes u, us_is_admin := us_is_admin u, us_org := us_org u,
     us_orgs := us_orgs u, us_updated_at := us_updated_at u, us_last_seen_at := us_last_seen_at u\<rparr>"

definition users_update :: "user \<Rightarrow> db \<Rightarrow> db" where
  "users_update u d = d\<lparr>db_users := upd_row us_id (us_id u) (apply_user u) (db_users d)\<rparr>"

definition users_list_all :: "db \<Rightarrow> nat \<Rightarrow> string option \<Rightarrow> error + user page" where
  "users_list_all d limit cursor =
     (let rows = sort_key us_subject (db_users d) in
      case cursor of
        None \<Rightarrow> Inr (paginate (take (limit + 1) rows) limit id us_subject)
      | Some c \<Rightarrow> (case decode_cursor c of
          Inl e \<Rightarrow> Inl e
        | Inr after \<Rightarrow>
            Inr (paginate (take (limit + 1) (filter (\<lambda>u. us_subject u > after) rows)) limit id us_subject)))"

definition quotas_get :: "db \<Rightarrow> uuid \<Rightarrow> quota_usage option" where
  "quotas_get d uid = row_by qu_user_id uid (db_quotas d)"

definition quotas_add :: "quota_usage \<Rightarrow> db \<Rightarrow> db" where
  "quotas_add q d = d\<lparr>db_quotas := db_quotas d @ [q]\<rparr>"

definition quotas_update :: "quota_usage \<Rightarrow> db \<Rightarrow> db" where
  "quotas_update q d = d\<lparr>db_quotas := upd_row qu_user_id (qu_user_id q) (\<lambda>_. q) (db_quotas d)\<rparr>"

section \<open>Nodes\<close>

definition nodes_get :: "db \<Rightarrow> uuid \<Rightarrow> node option" where
  "nodes_get d nid = row_by nd_id nid (db_nodes d)"

definition nodes_add :: "node \<Rightarrow> db \<Rightarrow> db" where
  "nodes_add n d = d\<lparr>db_nodes := db_nodes d @ [n]\<rparr>"

text \<open>\<open>apply_node\<close>: everything but the identity, the kind and the creation time.\<close>

definition apply_node :: "node \<Rightarrow> node \<Rightarrow> node" where
  "apply_node n r = n\<lparr>nd_id := nd_id r, nd_kind := nd_kind r, nd_created_at := nd_created_at r\<rparr>"

definition nodes_update :: "node \<Rightarrow> db \<Rightarrow> db" where
  "nodes_update n d = d\<lparr>db_nodes := upd_row nd_id (nd_id n) (apply_node n) (db_nodes d)\<rparr>"

definition get_child_by_name :: "text_rules \<Rightarrow> db \<Rightarrow> uuid \<Rightarrow> string \<Rightarrow> node option" where
  "get_child_by_name T d parent name =
     find (\<lambda>r. nd_parent_id r = Some parent \<and> normalized_name T r = name \<and> \<not> is_deleted r) (db_nodes d)"

definition kind_rank :: "node_kind \<Rightarrow> nat" where
  "kind_rank k = (if k = FOLDER then 0 else 1)"

text \<open>Folders before files, then name, then id: the order of a listing and of its cursor.\<close>

definition child_order :: "text_rules \<Rightarrow> node \<Rightarrow> nat \<times> string \<times> uuid" where
  "child_order T r = (kind_rank (nd_kind r), normalized_name T r, nd_id r)"

definition child_cursor :: "text_rules \<Rightarrow> node \<Rightarrow> string" where
  "child_cursor T r = show_nat (kind_rank (nd_kind r)) @ [CURSOR_SEPARATOR] @ normalized_name T r
     @ [CURSOR_SEPARATOR] @ uuid_str (nd_id r)"

text \<open>
  \<open>_child_cursor_predicate\<close>: the tuple a cursor names, or \<open>None\<close> where unpacking, \<open>int\<close> or \<open>UUID\<close> raises a
  \<open>ValueError\<close>, which no handler translates. The text is split at the first two separators; a rank
  is a run of digits.
\<close>

definition child_cursor_key :: "string \<Rightarrow> (nat \<times> string \<times> uuid) option" where
  "child_cursor_key raw =
     (case split_max CURSOR_SEPARATOR 2 raw of
        [rank, name, nid] \<Rightarrow>
          (if isdigit rank then map_option (\<lambda>u. (read_nat rank, name, u)) (parse_uuid nid) else None)
      | _ \<Rightarrow> None)"

definition child_rows :: "text_rules \<Rightarrow> db \<Rightarrow> uuid \<Rightarrow> bool \<Rightarrow> node list" where
  "child_rows T d parent include_deleted =
     sort_key (child_order T)
       (filter (\<lambda>r. nd_parent_id r = Some parent \<and> (include_deleted \<or> \<not> is_deleted r)) (db_nodes d))"

definition nodes_list_children ::
  "text_rules \<Rightarrow> db \<Rightarrow> uuid \<Rightarrow> nat \<Rightarrow> string option \<Rightarrow> bool \<Rightarrow> error + node page" where
  "nodes_list_children T d parent limit cursor include_deleted =
     (let rows = child_rows T d parent include_deleted in
      case cursor of
        None \<Rightarrow> Inr (paginate (take (limit + 1) rows) limit id (child_cursor T))
      | Some c \<Rightarrow> (case decode_cursor c of
          Inl e \<Rightarrow> Inl e
        | Inr raw \<Rightarrow> (case child_cursor_key raw of
            None \<Rightarrow> Inl CyberFSError
          | Some key \<Rightarrow>
              Inr (paginate (take (limit + 1) (filter (\<lambda>r. child_order T r > key) rows)) limit id
                     (child_cursor T)))))"

section \<open>Tree walks\<close>

definition CYCLE_GUARD_DEPTH :: nat where "CYCLE_GUARD_DEPTH = 512"

text \<open>
  The recursive queries are bounded by depth. The upward walk lists the parents of a node, nearest
  first; the downward walk lists a level of the tree and everything below it.
\<close>

fun chain_up :: "node list \<Rightarrow> nat \<Rightarrow> node \<Rightarrow> node list" where
  "chain_up rows 0 n = []"
| "chain_up rows (Suc k) n =
     (case nd_parent_id n of
        None \<Rightarrow> []
      | Some p \<Rightarrow> (case row_by nd_id p rows of None \<Rightarrow> [] | Some m \<Rightarrow> m # chain_up rows k m))"

definition nodes_ancestors :: "db \<Rightarrow> uuid \<Rightarrow> nat \<Rightarrow> node list" where
  "nodes_ancestors d nid max_depth =
     (case nodes_get d nid of
        None \<Rightarrow> []
      | Some n \<Rightarrow> rev (filter (\<lambda>m. nd_id m \<noteq> nid) (chain_up (db_nodes d) max_depth n)))"

definition children_of :: "node list \<Rightarrow> uuid list \<Rightarrow> node list" where
  "children_of rows ids =
     filter (\<lambda>r. case nd_parent_id r of None \<Rightarrow> False | Some p \<Rightarrow> p \<in> set ids) rows"

fun subtree_levels :: "node list \<Rightarrow> nat \<Rightarrow> node list \<Rightarrow> node list" where
  "subtree_levels rows 0 level = level"
| "subtree_levels rows (Suc k) level = level @ subtree_levels rows k (children_of rows (map nd_id level))"

definition nodes_descendants :: "db \<Rightarrow> uuid \<Rightarrow> nat \<Rightarrow> bool \<Rightarrow> node list" where
  "nodes_descendants d nid max_depth include_deleted =
     filter (\<lambda>n. include_deleted \<or> \<not> is_deleted n)
       (subtree_levels (db_nodes d) max_depth (children_of (db_nodes d) [nid]))"

definition is_ancestor_of :: "db \<Rightarrow> uuid \<Rightarrow> uuid \<Rightarrow> bool" where
  "is_ancestor_of d candidate nid \<longleftrightarrow>
     candidate = nid \<or> candidate \<in> nd_id ` set (nodes_ancestors d nid CYCLE_GUARD_DEPTH)"

section \<open>Trash\<close>

definition update_where :: "('r \<Rightarrow> bool) \<Rightarrow> ('r \<Rightarrow> 'r) \<Rightarrow> 'r list \<Rightarrow> 'r list" where
  "update_where p g rows = map (\<lambda>r. if p r then g r else r) rows"

text \<open>\<open>for node in nodes: node.soft_delete(now)\<close>, which stops at a root.\<close>

fun soft_delete_all :: "datetime \<Rightarrow> node list \<Rightarrow> error + node list" where
  "soft_delete_all now [] = Inr []"
| "soft_delete_all now (n # ns) =
     (case soft_delete now n of
        Inl e \<Rightarrow> Inl e
      | Inr m \<Rightarrow> (case soft_delete_all now ns of Inl e \<Rightarrow> Inl e | Inr ms \<Rightarrow> Inr (m # ms)))"

definition soft_delete_subtree :: "uuid \<Rightarrow> datetime \<Rightarrow> (db, error, node list) op" where
  "soft_delete_subtree nid now d =
     (case nodes_get d nid of
        None \<Rightarrow> (Inr [], d)
      | Some row \<Rightarrow>
         (let subtree = nodes_descendants d nid CYCLE_GUARD_DEPTH True;
              moving = row # filter (\<lambda>n. \<not> is_deleted n) subtree;
              moving = (if is_deleted row then filter (\<lambda>n. nd_id n \<noteq> nid) moving else moving);
              ids = nd_id ` set moving;
              d' = d\<lparr>db_nodes := update_where (\<lambda>r. nd_id r \<in> ids \<and> \<not> is_deleted r)
                     (\<lambda>r. r\<lparr>nd_deleted_at := Some now, nd_updated_at := now, nd_revision := nd_revision r + 1\<rparr>)
                     (db_nodes d)\<rparr>
          in (soft_delete_all now moving, d')))"

definition restore_subtree :: "uuid \<Rightarrow> datetime \<Rightarrow> db \<Rightarrow> node list \<times> db" where
  "restore_subtree nid now d =
     (case nodes_get d nid of
        None \<Rightarrow> ([], d)
      | Some row \<Rightarrow>
          if nd_deleted_at row = None then ([], d)
          else
           (let batch = nd_deleted_at row;
                subtree = nodes_descendants d nid CYCLE_GUARD_DEPTH True;
                cleared = row # filter (\<lambda>n. nd_deleted_at n = batch) subtree;
                ids = nd_id ` set cleared;
                d' = d\<lparr>db_nodes := update_where (\<lambda>r. nd_id r \<in> ids \<and> nd_deleted_at r = batch)
                       (\<lambda>r. r\<lparr>nd_deleted_at := None, nd_updated_at := now, nd_revision := nd_revision r + 1\<rparr>)
                       (db_nodes d)\<rparr>
            in (map (restore_node now) cleared, d')))"

text \<open>A trash entry: a trashed row whose parent exists and is live.\<close>

definition trash_entry_condition :: "db \<Rightarrow> uuid \<Rightarrow> node \<Rightarrow> bool" where
  "trash_entry_condition d owner r \<longleftrightarrow>
     nd_owner_id r = owner \<and> is_deleted r \<and> nd_parent_id r \<noteq> None \<and>
     \<not> (\<exists>p\<in>set (db_nodes d). Some (nd_id p) = nd_parent_id r \<and> is_deleted p)"

definition trash_order :: "node \<Rightarrow> datetime \<times> uuid" where
  "trash_order r = (case nd_deleted_at r of Some t \<Rightarrow> (t, nd_id r) | None \<Rightarrow> (0, nd_id r))"

definition trash_rows :: "db \<Rightarrow> uuid \<Rightarrow> bool \<Rightarrow> node list" where
  "trash_rows d owner oldest_first =
     (let rows = sort_key trash_order (filter (trash_entry_condition d owner) (db_nodes d))
      in if oldest_first then rows else rev rows)"

definition count_trash_entries :: "db \<Rightarrow> uuid \<Rightarrow> int" where
  "count_trash_entries d owner = int (length (filter (trash_entry_condition d owner) (db_nodes d)))"

text \<open>
  \<open>delete_batch_totals\<close>: per root, the rows of its subtree that carry the root's own deletion stamp;
  a live root drops out.
\<close>

definition batch_rows :: "db \<Rightarrow> node \<Rightarrow> node list" where
  "batch_rows d root =
     filter (\<lambda>n. nd_deleted_at n \<noteq> None \<and> nd_deleted_at n = nd_deleted_at root)
       (subtree_levels (db_nodes d) CYCLE_GUARD_DEPTH [root])"

definition delete_batch_totals :: "db \<Rightarrow> uuid list \<Rightarrow> (uuid \<times> subtree_totals) list" where
  "delete_batch_totals d ids =
     map (\<lambda>root. (nd_id root,
            \<lparr>st_size_bytes = sum_list (map nd_size_bytes (filter is_file (batch_rows d root))),
             st_nodes = int (length (batch_rows d root))\<rparr>))
       (filter (\<lambda>r. nd_id r \<in> set ids \<and> batch_rows d r \<noteq> []) (db_nodes d))"

definition ancestor_chains :: "db \<Rightarrow> uuid list \<Rightarrow> nat \<Rightarrow> (uuid \<times> node list) list" where
  "ancestor_chains d ids max_depth =
     map (\<lambda>nid. (nid, case nodes_get d nid of None \<Rightarrow> [] | Some n \<Rightarrow> rev (chain_up (db_nodes d) (max_depth + 1) n)))
       ids"

definition list_trashed_before :: "db \<Rightarrow> datetime \<Rightarrow> nat \<Rightarrow> node list" where
  "list_trashed_before d cutoff limit =
     take limit (sort_key (\<lambda>r. the (nd_deleted_at r))
       (filter (\<lambda>r. case nd_deleted_at r of None \<Rightarrow> False | Some t \<Rightarrow> t < cutoff) (db_nodes d)))"

text \<open>
  Deleting a node's row: the foreign key on \<open>parent_id\<close> takes every row below it, and those on
  \<open>node_id\<close> take the versions, labels, grants, links and wrapped keys of all of them.
\<close>

definition doomed_ids :: "node list \<Rightarrow> uuid \<Rightarrow> uuid set" where
  "doomed_ids rows nid =
     insert nid (nd_id ` set (subtree_levels rows (length rows) (children_of rows [nid])))"

definition delete_permanently :: "uuid \<Rightarrow> db \<Rightarrow> db" where
  "delete_permanently nid d =
     (let gone = doomed_ids (db_nodes d) nid in
      d\<lparr>db_nodes := filter (\<lambda>r. nd_id r \<notin> gone) (db_nodes d),
        db_versions := filter (\<lambda>v. fv_node_id v \<notin> gone) (db_versions d),
        db_tags := filter (\<lambda>(n, _). n \<notin> gone) (db_tags d),
        db_metadata := filter (\<lambda>(n, _). n \<notin> gone) (db_metadata d),
        db_grants := filter (\<lambda>g. gr_node_id g \<notin> gone) (db_grants d),
        db_links := filter (\<lambda>l. pl_node_id l \<notin> gone) (db_links d),
        db_data_keys := filter (\<lambda>k. dk_node_id k \<notin> gone) (db_data_keys d)\<rparr>)"

end
