(* ===== verification/Search.thy ===== *)
theory Search
  imports Nodes Pagination
begin

text \<open>
  Search filters (\<open>domain/search.py\<close>): normalised once, each with the fingerprint a cursor is bound to.
  The fingerprint's digest is the parameter \<open>H\<close> (see \<open>Pagination\<close>).
\<close>

datatype tag_match = MATCH_ALL | MATCH_ANY

fun tag_match_value :: "tag_match \<Rightarrow> string" where
  "tag_match_value MATCH_ALL = ''all''"
| "tag_match_value MATCH_ANY = ''any''"

definition parse_tag_match :: "string \<Rightarrow> error + tag_match" where
  "parse_tag_match val =
     (if val = ''all'' then Inr MATCH_ALL else if val = ''any'' then Inr MATCH_ANY else Inl ValidationError)"

record search_filters =
  sf_term :: "string option"
  sf_tags :: "string list"
  sf_match :: tag_match
  sf_key :: "string option"
  sf_value :: "string option"

definition search_filters_of ::
  "text_rules \<Rightarrow> string option \<Rightarrow> string list \<Rightarrow> tag_match \<Rightarrow> string option \<Rightarrow> string option
     \<Rightarrow> error + search_filters" where
  "search_filters_of T term tags match key val =
     (let cleaned = strip (case term of None \<Rightarrow> [] | Some t \<Rightarrow> t);
          normalized = sorted_list_of_set {t \<in> normalize_tag T ` set tags. t \<noteq> []}
      in if length normalized > MAX_TAGS_PER_NODE then Inl ValidationError
         else if list_ex (\<lambda>t. length t > MAX_TAG_LENGTH) normalized then Inl ValidationError
         else if val \<noteq> None \<and> key = None then Inl ValidationError
         else if cleaned = [] \<and> normalized = [] \<and> key = None then Inl ValidationError
         else Inr \<lparr>sf_term = (if cleaned = [] then None else Some cleaned), sf_tags = normalized,
                   sf_match = match, sf_key = key, sf_value = val\<rparr>)"

definition opt_part :: "string option \<Rightarrow> fp_part" where
  "opt_part x = (case x of None \<Rightarrow> FNone | Some s \<Rightarrow> FStr s)"

definition search_parts :: "search_filters \<Rightarrow> fp_part list" where
  "search_parts f = [opt_part (sf_term f), FStr (tag_match_value (sf_match f)), opt_part (sf_key f),
     opt_part (sf_value f), FList (sf_tags f)]"

definition search_fingerprint :: "(string \<Rightarrow> string) \<Rightarrow> search_filters \<Rightarrow> string" where
  "search_fingerprint H f = fingerprint_of H (search_parts f)"

record tag_filters =
  tf_prefix :: "string option"

definition tag_filters_of :: "text_rules \<Rightarrow> string option \<Rightarrow> tag_filters" where
  "tag_filters_of T pre =
     (let normalized = (case pre of None \<Rightarrow> [] | Some p \<Rightarrow> if p = [] then [] else normalize_tag T p)
      in \<lparr>tf_prefix = (if normalized = [] then None else Some normalized)\<rparr>)"

definition tag_fingerprint :: "(string \<Rightarrow> string) \<Rightarrow> tag_filters \<Rightarrow> string" where
  "tag_fingerprint H f = fingerprint_of H [opt_part (tf_prefix f)]"

record tag_usage =
  tu_tag :: string
  tu_count :: int

section \<open>Lemmas\<close>

lemma opt_part_inj: "opt_part a = opt_part b \<longleftrightarrow> a = b"
  by (auto simp: opt_part_def split: option.splits)

lemma tag_match_value_inj: "tag_match_value a = tag_match_value b \<longleftrightarrow> a = b"
  by (cases a; cases b) auto

text \<open>Two searches have the same canonical form exactly when every filter agrees.\<close>

lemma search_parts_inj:
  fixes a b :: search_filters
  shows "json_dumps (search_parts a) = json_dumps (search_parts b) \<longleftrightarrow> a = b"
  by (auto simp: json_dumps_inj search_parts_def opt_part_inj tag_match_value_inj)

lemma search_filters_ok:
  assumes "search_filters_of T term tags match key val = Inr f"
  shows "(sf_term f \<noteq> None \<or> sf_tags f \<noteq> [] \<or> sf_key f \<noteq> None) \<and>
    (sf_value f \<noteq> None \<longrightarrow> sf_key f \<noteq> None) \<and> sf_term f \<noteq> Some [] \<and>
    length (sf_tags f) \<le> MAX_TAGS_PER_NODE \<and> sorted (sf_tags f) \<and> distinct (sf_tags f) \<and>
    (\<forall>t\<in>set (sf_tags f). t \<noteq> [] \<and> length t \<le> MAX_TAG_LENGTH)"
  using assms
  by (auto simp: search_filters_of_def Let_def list_ex_iff not_less split: if_splits)

text \<open>The order and the repetition of the tags a caller names do not matter.\<close>

lemma search_filters_tag_set:
  "set tags = set tags' \<Longrightarrow>
   search_filters_of T term tags match key val = search_filters_of T term tags' match key val"
  by (simp add: search_filters_of_def)

end
