(* ===== verification/Calendar.thy ===== *)
theory Calendar
  imports Rendering
begin

text \<open>
  The proleptic Gregorian calendar behind Python's \<open>datetime\<close>: the date and the time of day of an
  instant, the weekday, \<open>isoformat\<close> of a UTC instant and \<open>fromisoformat\<close> on that spelling. The
  conversion between ordinals and dates follows the standard library's \<open>_ord2ymd\<close> and \<open>_ymd2ord\<close>.
\<close>

definition is_leap :: "int \<Rightarrow> bool" where
  "is_leap y \<longleftrightarrow> y mod 4 = 0 \<and> (y mod 100 \<noteq> 0 \<or> y mod 400 = 0)"

definition days_before_year :: "int \<Rightarrow> int" where
  "days_before_year year = (let y = year - 1 in y * 365 + y div 4 - y div 100 + y div 400)"

text \<open>Days before a month in a common year, from January.\<close>

definition days_before_month_table :: "int list" where
  "days_before_month_table = [0, 31, 59, 90, 120, 151, 181, 212, 243, 273, 304, 334]"

definition days_before_month :: "int \<Rightarrow> int \<Rightarrow> int" where
  "days_before_month year month =
     days_before_month_table ! nat (month - 1) + (if month > 2 \<and> is_leap year then 1 else 0)"

definition days_in_month :: "int \<Rightarrow> int \<Rightarrow> int" where
  "days_in_month year month =
     (if month = 2 \<and> is_leap year then 29
      else [31, 28, 31, 30, 31, 30, 31, 31, 30, 31, 30, 31] ! nat (month - 1))"

definition ymd2ord :: "int \<times> int \<times> int \<Rightarrow> int" where
  "ymd2ord = (\<lambda>(year, month, day). days_before_year year + days_before_month year month + day)"

definition month_day :: "int \<Rightarrow> int \<Rightarrow> int \<times> int" where
  "month_day year n =
     (let month = (n + 50) div 32;
          preceding = days_before_month year month
      in if preceding > n then
           (month - 1, n - (preceding - days_in_month year (month - 1)) + 1)
         else (month, n - preceding + 1))"

definition ord2ymd :: "int \<Rightarrow> int \<times> int \<times> int" where
  "ord2ymd ordinal =
     (let n = ordinal - 1;
          n400 = n div 146097; n = n mod 146097;
          n100 = n div 36524; n = n mod 36524;
          n4 = n div 1461; n = n mod 1461;
          n1 = n div 365; n = n mod 365;
          year = n400 * 400 + 1 + n100 * 100 + n4 * 4 + n1
      in if n1 = 4 \<or> n100 = 4 then (year - 1, 12, 31)
         else (case month_day year n of (month, day) \<Rightarrow> (year, month, day)))"

definition EPOCH_ORDINAL :: int where "EPOCH_ORDINAL = 719163"

definition DAY_MICROS :: int where "DAY_MICROS = 86400000000"

definition toordinal :: "datetime \<Rightarrow> int" where
  "toordinal t = EPOCH_ORDINAL + t div DAY_MICROS"

definition date_of :: "datetime \<Rightarrow> int \<times> int \<times> int" where
  "date_of t = ord2ymd (toordinal t)"

definition hour_of :: "datetime \<Rightarrow> int" where "hour_of t = t mod DAY_MICROS div 3600000000"
definition minute_of :: "datetime \<Rightarrow> int" where "minute_of t = t mod 3600000000 div 60000000"
definition second_of :: "datetime \<Rightarrow> int" where "second_of t = t mod 60000000 div 1000000"
definition micro_of :: "datetime \<Rightarrow> int" where "micro_of t = t mod 1000000"

text \<open>\<open>datetime.weekday()\<close>: Monday is 0.\<close>

definition weekday :: "datetime \<Rightarrow> int" where
  "weekday t = (toordinal t + 6) mod 7"

definition datetime_of :: "int \<times> int \<times> int \<Rightarrow> int \<Rightarrow> int \<Rightarrow> int \<Rightarrow> int \<Rightarrow> datetime" where
  "datetime_of ymd h mi s us =
     (ymd2ord ymd - EPOCH_ORDINAL) * DAY_MICROS + h * 3600000000 + mi * 60000000 + s * 1000000 + us"

section \<open>ISO 8601\<close>

fun dec_digits :: "nat \<Rightarrow> nat \<Rightarrow> string" where
  "dec_digits 0 n = []"
| "dec_digits (Suc k) n = dec_digits k (n div 10) @ [digit (n mod 10)]"

definition isoformat :: "datetime \<Rightarrow> string" where
  "isoformat t = (case date_of t of (y, mo, da) \<Rightarrow>
     dec_digits 4 (nat y) @ ''-'' @ dec_digits 2 (nat mo) @ ''-'' @ dec_digits 2 (nat da) @ ''T''
     @ dec_digits 2 (nat (hour_of t)) @ '':'' @ dec_digits 2 (nat (minute_of t)) @ '':''
     @ dec_digits 2 (nat (second_of t))
     @ (if micro_of t = 0 then [] else ''.'' @ dec_digits 6 (nat (micro_of t))) @ ''+00:00'')"

definition num_at :: "nat \<Rightarrow> nat \<Rightarrow> string \<Rightarrow> int option" where
  "num_at i k s = (let f = take k (drop i s) in
     if length f = k \<and> isdigit f then Some (int (read_nat f)) else None)"

text \<open>
  \<open>fromisoformat\<close> on \<open>YYYY-MM-DDTHH:MM:SS[.ffffff]+00:00\<close>, the spelling \<open>isoformat\<close> writes; every field
  is checked against its range, and another spelling counts as unreadable.
\<close>

definition fromisoformat :: "string \<Rightarrow> datetime option" where
  "fromisoformat s =
     (case (num_at 0 4 s, num_at 5 2 s, num_at 8 2 s, num_at 11 2 s, num_at 14 2 s, num_at 17 2 s) of
        (Some y, Some mo, Some da, Some h, Some mi, Some se) \<Rightarrow>
          if take 1 (drop 4 s) = ''-'' \<and> take 1 (drop 7 s) = ''-'' \<and> take 1 (drop 10 s) = ''T'' \<and>
             take 1 (drop 13 s) = '':'' \<and> take 1 (drop 16 s) = '':'' \<and>
             1 \<le> y \<and> 1 \<le> mo \<and> mo \<le> 12 \<and> 1 \<le> da \<and> da \<le> days_in_month y mo \<and>
             h < 24 \<and> mi < 60 \<and> se < 60
          then
            (if drop 19 s = ''+00:00'' then Some (datetime_of (y, mo, da) h mi se 0)
             else if take 1 (drop 19 s) = ''.'' \<and> drop 26 s = ''+00:00'' then
               map_option (datetime_of (y, mo, da) h mi se) (num_at 20 6 s)
             else None)
          else None
      | _ \<Rightarrow> None)"

section \<open>Lemmas\<close>

lemma year_split:
  fixes n400 n100 n4 n1 :: int
  assumes "0 \<le> n400" "0 \<le> n100" "n100 \<le> 3" "0 \<le> n4" "n4 \<le> 24" "0 \<le> n1" "n1 \<le> 3"
  shows "days_before_year (n400 * 400 + 1 + n100 * 100 + n4 * 4 + n1) =
    n400 * 146097 + n100 * 36524 + n4 * 1461 + n1 * 365"
proof -
  let ?y = "n400 * 400 + n100 * 100 + n4 * 4 + n1"
  have "?y div 4 = n400 * 100 + n100 * 25 + n4"
    by (rule int_div_pos_eq[where r = n1]) (use assms in auto)
  moreover have "?y div 100 = n400 * 4 + n100"
    by (rule int_div_pos_eq[where r = "n4 * 4 + n1"]) (use assms in auto)
  moreover have "?y div 400 = n400"
    by (rule int_div_pos_eq[where r = "n100 * 100 + n4 * 4 + n1"]) (use assms in auto)
  ultimately show ?thesis by (simp add: days_before_year_def Let_def algebra_simps)
qed

lemma leap_split:
  fixes n400 n100 n4 n1 :: int
  assumes "0 \<le> n400" "0 \<le> n100" "n100 \<le> 3" "0 \<le> n4" "n4 \<le> 24" "0 \<le> n1" "n1 \<le> 3"
  shows "is_leap (n400 * 400 + 1 + n100 * 100 + n4 * 4 + n1) \<longleftrightarrow> n1 = 3 \<and> (n4 \<noteq> 24 \<or> n100 = 3)"
proof (cases "n1 = 3")
  case False
  have "(n400 * 400 + 1 + n100 * 100 + n4 * 4 + n1) mod 4 = n1 + 1"
    by (rule int_mod_pos_eq[where q = "n400 * 100 + n100 * 25 + n4"]) (use assms False in auto)
  with False assms show ?thesis by (simp add: is_leap_def)
next
  case True
  let ?y = "n400 * 400 + 1 + n100 * 100 + n4 * 4 + n1"
  have m4: "?y mod 4 = 0"
    by (rule int_mod_pos_eq[where q = "n400 * 100 + n100 * 25 + n4 + 1"]) (use True in auto)
  show ?thesis
  proof (cases "n4 = 24")
    case False
    have "?y mod 100 = n4 * 4 + 4"
      by (rule int_mod_pos_eq[where q = "n400 * 4 + n100"]) (use True False assms in auto)
    with m4 True False assms show ?thesis by (simp add: is_leap_def)
  next
    case n4: True
    have "?y mod 100 = 0"
      by (rule int_mod_pos_eq[where q = "n400 * 4 + n100 + 1"]) (use True n4 in auto)
    moreover have "?y mod 400 = (if n100 = 3 then 0 else n100 * 100 + 100)"
      by (rule int_mod_pos_eq[where q = "if n100 = 3 then n400 + 1 else n400"]) (use True n4 assms in auto)
    ultimately show ?thesis using m4 True n4 assms by (auto simp: is_leap_def)
  qed
qed

lemma month_cases:
  fixes m :: int
  assumes "1 \<le> m" "m \<le> 12"
  obtains "m = 1" | "m = 2" | "m = 3" | "m = 4" | "m = 5" | "m = 6" | "m = 7" | "m = 8" | "m = 9"
    | "m = 10" | "m = 11" | "m = 12"
proof -
  have "m \<in> set [1..12]" using assms by simp
  then have "m \<in> set [1, 2, 3, 4, 5, 6, 7, 8, 9, 10, 11, 12]" by (simp only: upto_rec1) simp
  then show thesis using that by auto
qed

lemma month_day_correct:
  assumes "0 \<le> n" "n \<le> 364"
  shows "case month_day y n of (m, d) \<Rightarrow> 1 \<le> m \<and> m \<le> 12 \<and> 1 \<le> d \<and> d \<le> days_in_month y m \<and>
    days_before_month y m + d = n + 1"
proof -
  define m where "m = (n + 50) div 32"
  have m: "32 * m \<le> n + 50" "n + 50 < 32 * m + 32" unfolding m_def by auto
  then have "1 \<le> m" "m \<le> 12" using assms by auto
  then show ?thesis
    using assms m
    by (cases rule: month_cases)
      (auto simp: month_day_def m_def[symmetric] days_before_month_def days_before_month_table_def
        days_in_month_def Let_def)
qed

text \<open>The ordinal of the date of an ordinal is that ordinal, and the date is a valid one.\<close>

lemma ymd_roundtrip:
  assumes "1 \<le> k"
  shows "ymd2ord (ord2ymd k) = k \<and>
    (case ord2ymd k of (y, m, d) \<Rightarrow> 1 \<le> y \<and> 1 \<le> m \<and> m \<le> 12 \<and> 1 \<le> d \<and> d \<le> days_in_month y m)"
proof -
  define n0 n400 a n100 b n4 c n1 r where defs: "n0 = k - 1" "n400 = n0 div 146097" "a = n0 mod 146097"
    "n100 = a div 36524" "b = a mod 36524" "n4 = b div 1461" "c = b mod 1461" "n1 = c div 365" "r = c mod 365"
  let ?y = "n400 * 400 + 1 + n100 * 100 + n4 * 4 + n1"
  have k: "k = n400 * 146097 + n100 * 36524 + n4 * 1461 + n1 * 365 + r + 1"
    by (simp add: defs)
  have bounds: "0 \<le> n400" "0 \<le> n100" "0 \<le> n4" "0 \<le> n1" "0 \<le> r" "r \<le> 364" "a < 146097" "b < 36524" "c < 1461"
    using assms by (auto simp: defs pos_imp_zdiv_nonneg_iff)
  have eqs: "a = n100 * 36524 + b" "b = n4 * 1461 + c" "c = n1 * 365 + r" "0 \<le> b" "0 \<le> c"
    by (simp_all add: defs)
  have le: "n100 \<le> 4" "n4 \<le> 24" "n1 \<le> 4" using bounds eqs by linarith+
  have form: "ord2ymd k = (if n1 = 4 \<or> n100 = 4 then (?y - 1, 12, 31)
      else (case month_day ?y r of (m, d) \<Rightarrow> (?y, m, d)))"
    unfolding ord2ymd_def Let_def defs by simp
  show ?thesis
  proof (cases "n1 = 4 \<or> n100 = 4")
    case False
    then have n: "n100 \<le> 3" "n1 \<le> 3" using le by auto
    from month_day_correct[OF bounds(5,6), of ?y] year_split[OF bounds(1,2) n(1) bounds(3) le(2) bounds(4) n(2)]
    show ?thesis unfolding form using False k bounds
      by (auto simp: ymd2ord_def split: prod.splits)
  next
    case True
    have "\<exists>m100 m4. ?y - 1 = n400 * 400 + 1 + m100 * 100 + m4 * 4 + 3 \<and> 0 \<le> m100 \<and> m100 \<le> 3 \<and> 0 \<le> m4 \<and>
        m4 \<le> 24 \<and> (m4 \<noteq> 24 \<or> m100 = 3) \<and> k = n400 * 146097 + m100 * 36524 + m4 * 1461 + 3 * 365 + 366"
    proof (cases "n100 = 4")
      case True
      with bounds eqs have "n4 = 0" "n1 = 0" "r = 0" by linarith+
      with True k show ?thesis by (intro exI[of _ 3] exI[of _ 24]) simp
    next
      case False
      with \<open>n1 = 4 \<or> n100 = 4\<close> have n1: "n1 = 4" by simp
      with bounds eqs have "r = 0" "n4 \<le> 23" by linarith+
      with n1 False k le bounds show ?thesis by (intro exI[of _ n100] exI[of _ n4]) simp
    qed
    then obtain m100 m4 where m: "?y - 1 = n400 * 400 + 1 + m100 * 100 + m4 * 4 + 3" "0 \<le> m100" "m100 \<le> 3"
      "0 \<le> m4" "m4 \<le> 24" "m4 \<noteq> 24 \<or> m100 = 3" "k = n400 * 146097 + m100 * 36524 + m4 * 1461 + 3 * 365 + 366"
      by blast
    have "is_leap (?y - 1)" unfolding m(1) using leap_split[OF bounds(1) m(2-5), of 3] m(6) by simp
    moreover have "days_before_year (?y - 1) = k - 366"
      unfolding m(1) using year_split[OF bounds(1) m(2-5), of 3] m(7) by simp
    moreover have "1 \<le> ?y - 1" using m bounds by simp
    ultimately show ?thesis unfolding form using True
      by (simp add: ymd2ord_def days_before_month_def days_before_month_table_def days_in_month_def)
  qed
qed

lemma length_dec_digits [simp]: "length (dec_digits k n) = k"
  by (induction k arbitrary: n) auto

lemma isdigit_dec_digits: "0 < k \<Longrightarrow> isdigit (dec_digits k n)"
proof -
  have "list_all is_digit (dec_digits k n)" by (induction k arbitrary: n) auto
  moreover have "0 < k \<Longrightarrow> dec_digits k n \<noteq> []" using length_dec_digits[of k n] by force
  ultimately show "0 < k \<Longrightarrow> isdigit (dec_digits k n)" by (simp add: isdigit_def)
qed

lemma read_dec_digits: "n < 10 ^ k \<Longrightarrow> read_nat (dec_digits k n) = n"
proof (induction k arbitrary: n)
  case (Suc k)
  have "n div 10 < 10 ^ k" using Suc.prems by (simp add: less_mult_imp_div_less mult.commute)
  from Suc.IH[OF this] show ?case by (simp add: read_nat_def)
qed (simp add: read_nat_def)

text \<open>
  The instants a \<open>datetime\<close> can hold: from the first day of year 1 to the last of year 9999.
\<close>

definition representable :: "datetime \<Rightarrow> bool" where
  "representable t \<longleftrightarrow> 1 \<le> toordinal t \<and> fst (date_of t) \<le> 9999"

lemma date_parts:
  "datetime_of (date_of t) (hour_of t) (minute_of t) (second_of t) (micro_of t) = t" if "1 \<le> toordinal t"
proof -
  have "ymd2ord (date_of t) = toordinal t" using ymd_roundtrip[OF that] by (simp add: date_of_def)
  then have "datetime_of (date_of t) (hour_of t) (minute_of t) (second_of t) (micro_of t) =
      t div 86400000000 * 86400000000 + t mod 86400000000 div 3600000000 * 3600000000
      + t mod 3600000000 div 60000000 * 60000000 + t mod 60000000 div 1000000 * 1000000 + t mod 1000000"
    by (simp add: datetime_of_def toordinal_def DAY_MICROS_def hour_of_def minute_of_def second_of_def micro_of_def)
  moreover have "t mod 86400000000 mod 3600000000 = t mod 3600000000"
    "t mod 3600000000 mod 60000000 = t mod 60000000" "t mod 60000000 mod 1000000 = t mod 1000000"
    by (simp_all add: mod_mod_cancel)
  ultimately show ?thesis
    using div_mult_mod_eq[of "t mod 86400000000" 3600000000] div_mult_mod_eq[of "t mod 3600000000" 60000000]
      div_mult_mod_eq[of "t mod 60000000" 1000000] div_mult_mod_eq[of t 86400000000] by linarith
qed

lemma time_ranges:
  "0 \<le> hour_of t" "hour_of t < 24" "0 \<le> minute_of t" "minute_of t < 60" "0 \<le> second_of t"
  "second_of t < 60" "0 \<le> micro_of t" "micro_of t < 1000000"
proof -
  have a: "0 \<le> t mod 86400000000" "t mod 86400000000 < 86400000000" "0 \<le> t mod 3600000000"
    "t mod 3600000000 < 3600000000" "0 \<le> t mod 60000000" "t mod 60000000 < 60000000" by simp_all
  then show "0 \<le> hour_of t" "hour_of t < 24" "0 \<le> minute_of t" "minute_of t < 60" "0 \<le> second_of t"
    "second_of t < 60" "0 \<le> micro_of t" "micro_of t < 1000000"
    unfolding hour_of_def minute_of_def second_of_def micro_of_def DAY_MICROS_def by linarith+
qed

lemma num_at_digits:
  "length a = i \<Longrightarrow> 0 < k \<Longrightarrow> n < 10 ^ k \<Longrightarrow> num_at i k (a @ dec_digits k n @ b) = Some (int n)"
  by (simp add: num_at_def isdigit_dec_digits read_dec_digits)

lemma days_in_month_le: "1 \<le> m \<Longrightarrow> m \<le> 12 \<Longrightarrow> days_in_month y m \<le> 31"
  by (cases rule: month_cases[of m]) (auto simp: days_in_month_def)

lemma isoformat_roundtrip:
  assumes "representable t"
  shows "fromisoformat (isoformat t) = Some t"
proof -
  obtain y mo da where ymd: "date_of t = (y, mo, da)" by (cases "date_of t")
  from assms ymd_roundtrip[of "toordinal t"] ymd
  have v: "1 \<le> y" "y \<le> 9999" "1 \<le> mo" "mo \<le> 12" "1 \<le> da" "da \<le> days_in_month y mo"
    by (auto simp: representable_def date_of_def)
  let ?Y = "dec_digits 4 (nat y)" and ?M = "dec_digits 2 (nat mo)" and ?D = "dec_digits 2 (nat da)"
    and ?h = "dec_digits 2 (nat (hour_of t))" and ?m = "dec_digits 2 (nat (minute_of t))"
    and ?s = "dec_digits 2 (nat (second_of t))"
    and ?f = "(if micro_of t = 0 then [] else ''.'' @ dec_digits 6 (nat (micro_of t))) @ ''+00:00''"
  have iso: "isoformat t = ?Y @ ''-'' @ ?M @ ''-'' @ ?D @ ''T'' @ ?h @ '':'' @ ?m @ '':'' @ ?s @ ?f"
    by (simp add: isoformat_def ymd)
  note r = time_ranges[of t]
  have da: "da < 100" using v days_in_month_le[of mo y] by linarith
  have n: "num_at 0 4 (isoformat t) = Some y" "num_at 5 2 (isoformat t) = Some mo"
    "num_at 8 2 (isoformat t) = Some da" "num_at 11 2 (isoformat t) = Some (hour_of t)"
    "num_at 14 2 (isoformat t) = Some (minute_of t)" "num_at 17 2 (isoformat t) = Some (second_of t)"
    unfolding iso
    using num_at_digits[of "[]" 0 4 "nat y"] num_at_digits[of "?Y @ ''-''" 5 2 "nat mo"]
      num_at_digits[of "?Y @ ''-'' @ ?M @ ''-''" 8 2 "nat da"]
      num_at_digits[of "?Y @ ''-'' @ ?M @ ''-'' @ ?D @ ''T''" 11 2 "nat (hour_of t)"]
      num_at_digits[of "?Y @ ''-'' @ ?M @ ''-'' @ ?D @ ''T'' @ ?h @ '':''" 14 2 "nat (minute_of t)"]
      num_at_digits[of "?Y @ ''-'' @ ?M @ ''-'' @ ?D @ ''T'' @ ?h @ '':'' @ ?m @ '':''" 17 2 "nat (second_of t)"]
      v r da by simp_all
  have us: "micro_of t \<noteq> 0 \<Longrightarrow> num_at 20 6 (isoformat t) = Some (micro_of t)"
    unfolding iso
    using num_at_digits[of "?Y @ ''-'' @ ?M @ ''-'' @ ?D @ ''T'' @ ?h @ '':'' @ ?m @ '':'' @ ?s @ ''.''" 20 6
        "nat (micro_of t)"] r by simp
  have p: "take 1 (drop 4 (isoformat t)) = ''-''" "take 1 (drop 7 (isoformat t)) = ''-''"
    "take 1 (drop 10 (isoformat t)) = ''T''" "take 1 (drop 13 (isoformat t)) = '':''"
    "take 1 (drop 16 (isoformat t)) = '':''" "drop 19 (isoformat t) = ?f"
    "micro_of t \<noteq> 0 \<Longrightarrow> drop 26 (isoformat t) = ''+00:00''"
    unfolding iso by simp_all
  have "datetime_of (y, mo, da) (hour_of t) (minute_of t) (second_of t) (micro_of t) = t"
    using date_parts[of t] assms by (simp add: ymd representable_def)
  then show ?thesis unfolding fromisoformat_def
    by (cases "micro_of t = 0") (simp_all add: n us p p[unfolded One_nat_def] v r)
qed

end
