(* ===== verification/Repositories.thy ===== *)
theory Repositories
  imports Store Search Calendar
begin

text \<open>
  The remaining repositories (labels, search, keys, grants, versions, links, quotas, audit), the state
  a use case runs in and the unit of work that commits or rolls it back
  (\<open>adapters/outbound/db/repositories.py\<close>, \<open>unit_of_work.py\<close>).
\<close>

section \<open>Labels\<close>

definition tags_for :: "db \<Rightarrow> uuid \<Rightarrow> string set" where
  "tags_for d nid = set (map snd (filter (\<lambda>(n, _). n = nid) (db_tags d)))"

definition nodes_replace_tags :: "uuid \<Rightarrow> string set \<Rightarrow> db \<Rightarrow> db" where
  "nodes_replace_tags nid tags d =
     d\<lparr>db_tags := filter (\<lambda>(n, _). n \<noteq> nid) (db_tags d) @ map (Pair nid) (sorted_list_of_set tags)\<rparr>"

definition nodes_add_tags :: "uuid \<Rightarrow> string set \<Rightarrow> db \<Rightarrow> db" where
  "nodes_add_tags nid tags d =
     d\<lparr>db_tags := db_tags d @
        filter (\<lambda>row. row \<notin> set (db_tags d)) (map (Pair nid) (sorted_list_of_set tags))\<rparr>"

definition nodes_remove_tags :: "uuid \<Rightarrow> string set \<Rightarrow> db \<Rightarrow> db" where
  "nodes_remove_tags nid tags d =
     d\<lparr>db_tags := filter (\<lambda>(n, t). \<not> (n = nid \<and> t \<in> tags)) (db_tags d)\<rparr>"

definition metadata_for :: "db \<Rightarrow> uuid \<Rightarrow> dict" where
  "metadata_for d nid = map snd (filter (\<lambda>(n, _). n = nid) (db_metadata d))"

definition unreserved_key :: "text_rules \<Rightarrow> string \<Rightarrow> bool" where
  "unreserved_key T key \<longleftrightarrow> \<not> prefix RESERVED_METADATA_PREFIX (sql_lower T key)"

definition nodes_replace_metadata :: "text_rules \<Rightarrow> uuid \<Rightarrow> dict \<Rightarrow> db \<Rightarrow> db" where
  "nodes_replace_metadata T nid pairs d =
     d\<lparr>db_metadata := filter (\<lambda>(n, k, v). \<not> (n = nid \<and> unreserved_key T k)) (db_metadata d)
        @ map (Pair nid) (sort_key fst pairs)\<rparr>"

text \<open>An upsert of each pair, keyed by node and key.\<close>

definition nodes_set_metadata :: "uuid \<Rightarrow> dict \<Rightarrow> db \<Rightarrow> db" where
  "nodes_set_metadata nid pairs d =
     d\<lparr>db_metadata :=
        map (\<lambda>(n, k, v). (n, k, if n = nid then (case map_of pairs k of Some v' \<Rightarrow> v' | None \<Rightarrow> v) else v))
          (db_metadata d)
        @ map (Pair nid) (filter (\<lambda>(k, v). k \<notin> fst ` set (metadata_for d nid)) (sort_key fst pairs))\<rparr>"

definition remove_metadata_keys :: "uuid \<Rightarrow> string set \<Rightarrow> db \<Rightarrow> db" where
  "remove_metadata_keys nid keys d =
     d\<lparr>db_metadata := filter (\<lambda>(n, k, v). \<not> (n = nid \<and> k \<in> keys)) (db_metadata d)\<rparr>"

section \<open>Search\<close>

text \<open>
  The live nodes a caller may search: those of the user with that subject, and those with an active
  grant to it. The scalar subquery is NULL for an unknown subject, which owns nothing.
\<close>

definition visible_to :: "db \<Rightarrow> string \<Rightarrow> node \<Rightarrow> bool" where
  "visible_to d subject r \<longleftrightarrow>
     \<not> is_deleted r \<and>
     ((case users_get_by_subject d subject of None \<Rightarrow> False | Some u \<Rightarrow> nd_owner_id r = us_id u)
      \<or> (\<exists>g\<in>set (db_grants d). gr_subject g = subject \<and> \<not> gr_pending g \<and> gr_node_id g = nd_id r))"

definition tag_conditions :: "db \<Rightarrow> search_filters \<Rightarrow> node \<Rightarrow> bool" where
  "tag_conditions d f r \<longleftrightarrow>
     sf_tags f = [] \<or>
     (if sf_match f = MATCH_ANY then \<exists>t\<in>set (sf_tags f). (nd_id r, t) \<in> set (db_tags d)
      else \<forall>t\<in>set (sf_tags f). (nd_id r, t) \<in> set (db_tags d))"

text \<open>\<open>ILIKE '%term%'\<close> with the wildcards of the term escaped: a substring, letter case aside.\<close>

definition ilike_contains :: "text_rules \<Rightarrow> string \<Rightarrow> string \<Rightarrow> bool" where
  "ilike_contains T term s \<longleftrightarrow> sublist (sql_lower T term) (sql_lower T s)"

definition search_conditions :: "text_rules \<Rightarrow> db \<Rightarrow> string \<Rightarrow> search_filters \<Rightarrow> node \<Rightarrow> bool" where
  "search_conditions T d subject f r \<longleftrightarrow>
     visible_to d subject r \<and>
     (case sf_term f of None \<Rightarrow> True | Some t \<Rightarrow> ilike_contains T t (normalized_name T r)) \<and>
     tag_conditions d f r \<and>
     (case sf_key f of
        None \<Rightarrow> True
      | Some key \<Rightarrow> (\<exists>(n, k, v)\<in>set (db_metadata d). n = nd_id r \<and> k = key \<and>
          (case sf_value f of None \<Rightarrow> True | Some val \<Rightarrow> v = val)))"

definition search_order :: "text_rules \<Rightarrow> node \<Rightarrow> string \<times> uuid" where
  "search_order T r = (normalized_name T r, nd_id r)"

definition search_rows :: "text_rules \<Rightarrow> db \<Rightarrow> string \<Rightarrow> search_filters \<Rightarrow> (string \<times> uuid) option \<Rightarrow> node list" where
  "search_rows T d subject f after =
     sort_key (search_order T)
       (filter (\<lambda>r. search_conditions T d subject f r \<and>
          (case after of None \<Rightarrow> True | Some k \<Rightarrow> search_order T r > k)) (db_nodes d))"

definition nodes_search ::
  "text_rules \<Rightarrow> (string \<Rightarrow> string) \<Rightarrow> db \<Rightarrow> string \<Rightarrow> search_filters \<Rightarrow> nat \<Rightarrow> (string \<times> uuid) option \<Rightarrow> node page" where
  "nodes_search T H d subject f limit after =
     paginate (take (limit + 1) (search_rows T d subject f after)) limit id
       (\<lambda>r. encode_keyed_cursor H (search_fingerprint H f) [uuid_str (nd_id r), normalized_name T r])"

definition tag_rows :: "db \<Rightarrow> string \<Rightarrow> tag_filters \<Rightarrow> string option \<Rightarrow> tag_usage list" where
  "tag_rows d subject f after =
     (let carried = filter (\<lambda>(n, t). \<exists>r\<in>set (db_nodes d). nd_id r = n \<and> visible_to d subject r) (db_tags d);
          tags = sorted_list_of_set (set (map snd carried))
      in map (\<lambda>t. \<lparr>tu_tag = t, tu_count = int (length (filter (\<lambda>(n, u). u = t) carried))\<rparr>)
           (filter (\<lambda>t. (case tf_prefix f of None \<Rightarrow> True | Some p \<Rightarrow> prefix p t) \<and>
                        (case after of None \<Rightarrow> True | Some a \<Rightarrow> t > a)) tags))"

definition tag_counts ::
  "(string \<Rightarrow> string) \<Rightarrow> db \<Rightarrow> string \<Rightarrow> tag_filters \<Rightarrow> nat \<Rightarrow> string option \<Rightarrow> tag_usage page" where
  "tag_counts H d subject f limit after =
     paginate (take (limit + 1) (tag_rows d subject f after)) limit id
       (\<lambda>u. encode_keyed_cursor H (tag_fingerprint H f) [tu_tag u])"

section \<open>Keys, grants, versions and links\<close>

definition get_user_key :: "db \<Rightarrow> uuid \<Rightarrow> user_key option" where
  "get_user_key d uid = row_by uk_user_id uid (db_user_keys d)"

definition add_user_key :: "user_key \<Rightarrow> db \<Rightarrow> db" where
  "add_user_key k d = d\<lparr>db_user_keys := db_user_keys d @ [k]\<rparr>"

definition update_user_key :: "user_key \<Rightarrow> db \<Rightarrow> db" where
  "update_user_key k d = d\<lparr>db_user_keys := upd_row uk_user_id (uk_user_id k)
     (\<lambda>r. r\<lparr>uk_wrapped_kek := uk_wrapped_kek k, uk_master_key_id := uk_master_key_id k,
            uk_rotated_at := uk_rotated_at k\<rparr>) (db_user_keys d)\<rparr>"

definition list_user_keys_wrapped_under :: "db \<Rightarrow> string \<Rightarrow> nat \<Rightarrow> user_key list" where
  "list_user_keys_wrapped_under d master_key_id limit =
     take limit (sort_key uk_user_id (filter (\<lambda>k. uk_master_key_id k = master_key_id) (db_user_keys d)))"

definition get_data_key :: "db \<Rightarrow> uuid \<Rightarrow> string \<Rightarrow> data_key option" where
  "get_data_key d nid subject = find (\<lambda>k. dk_node_id k = nid \<and> dk_subject k = subject) (db_data_keys d)"

definition add_data_key :: "data_key \<Rightarrow> db \<Rightarrow> db" where
  "add_data_key k d = d\<lparr>db_data_keys := db_data_keys d @ [k]\<rparr>"

definition list_data_keys :: "db \<Rightarrow> uuid \<Rightarrow> data_key list" where
  "list_data_keys d nid = filter (\<lambda>k. dk_node_id k = nid) (db_data_keys d)"

definition delete_data_key :: "uuid \<Rightarrow> string \<Rightarrow> db \<Rightarrow> db" where
  "delete_data_key nid subject d =
     d\<lparr>db_data_keys := filter (\<lambda>k. \<not> (dk_node_id k = nid \<and> dk_subject k = subject)) (db_data_keys d)\<rparr>"

definition delete_data_keys_for_node :: "uuid \<Rightarrow> db \<Rightarrow> db" where
  "delete_data_keys_for_node nid d =
     d\<lparr>db_data_keys := filter (\<lambda>k. dk_node_id k \<noteq> nid) (db_data_keys d)\<rparr>"

definition grants_get :: "db \<Rightarrow> uuid \<Rightarrow> grant option" where
  "grants_get d gid = row_by gr_id gid (db_grants d)"

definition grants_add :: "grant \<Rightarrow> db \<Rightarrow> db" where
  "grants_add g d = d\<lparr>db_grants := db_grants d @ [g]\<rparr>"

definition grants_update :: "grant \<Rightarrow> db \<Rightarrow> db" where
  "grants_update g d = d\<lparr>db_grants := upd_row gr_id (gr_id g)
     (\<lambda>r. r\<lparr>gr_role := gr_role g, gr_updated_at := gr_updated_at g, gr_pending := gr_pending g\<rparr>) (db_grants d)\<rparr>"

definition grants_delete :: "uuid \<Rightarrow> db \<Rightarrow> db" where
  "grants_delete gid d = d\<lparr>db_grants := filter (\<lambda>g. gr_id g \<noteq> gid) (db_grants d)\<rparr>"

definition grants_find :: "db \<Rightarrow> uuid \<Rightarrow> string \<Rightarrow> grant option" where
  "grants_find d nid subject = find (\<lambda>g. gr_node_id g = nid \<and> gr_subject g = subject) (db_grants d)"

definition grants_list_for_node :: "db \<Rightarrow> uuid \<Rightarrow> grant list" where
  "grants_list_for_node d nid = sort_key gr_subject (filter (\<lambda>g. gr_node_id g = nid) (db_grants d))"

definition grants_list_for_subject :: "db \<Rightarrow> string \<Rightarrow> grant list" where
  "grants_list_for_subject d subject =
     sort_key gr_created_at (filter (\<lambda>g. gr_subject g = subject \<and> \<not> gr_pending g) (db_grants d))"

definition grants_list_pending :: "db \<Rightarrow> nat \<Rightarrow> grant list" where
  "grants_list_pending d limit = take limit (sort_key gr_created_at (filter gr_pending (db_grants d)))"

text \<open>\<open>MAX(role)\<close> over the active grants of a subject on a chain of nodes.\<close>

definition highest_role_over :: "db \<Rightarrow> string \<Rightarrow> uuid list \<Rightarrow> role option" where
  "highest_role_over d subject ids =
     (if ids = [] then None
      else max_default (map gr_role
        (filter (\<lambda>g. gr_subject g = subject \<and> gr_node_id g \<in> set ids \<and> \<not> gr_pending g) (db_grants d))))"

definition grants_delete_for_node :: "uuid \<Rightarrow> db \<Rightarrow> db" where
  "grants_delete_for_node nid d = d\<lparr>db_grants := filter (\<lambda>g. gr_node_id g \<noteq> nid) (db_grants d)\<rparr>"

definition versions_get :: "db \<Rightarrow> uuid \<Rightarrow> file_version option" where
  "versions_get d vid = row_by fv_id vid (db_versions d)"

definition versions_add :: "file_version \<Rightarrow> db \<Rightarrow> db" where
  "versions_add v d = d\<lparr>db_versions := db_versions d @ [v]\<rparr>"

definition versions_list_for_node :: "db \<Rightarrow> uuid \<Rightarrow> file_version list" where
  "versions_list_for_node d nid =
     rev (sort_key fv_sequence (filter (\<lambda>v. fv_node_id v = nid) (db_versions d)))"

definition next_sequence :: "db \<Rightarrow> uuid \<Rightarrow> int" where
  "next_sequence d nid =
     (case max_default (map fv_sequence (filter (\<lambda>v. fv_node_id v = nid) (db_versions d))) of
        None \<Rightarrow> 1 | Some h \<Rightarrow> h + 1)"

definition versions_delete :: "uuid \<Rightarrow> db \<Rightarrow> db" where
  "versions_delete vid d = d\<lparr>db_versions := filter (\<lambda>v. fv_id v \<noteq> vid) (db_versions d)\<rparr>"

definition prune_beyond :: "uuid \<Rightarrow> nat \<Rightarrow> db \<Rightarrow> file_version list \<times> db" where
  "prune_beyond nid keep d =
     (let doomed = drop keep (versions_list_for_node d nid) in
      (doomed, fold (\<lambda>v. versions_delete (fv_id v)) doomed d))"

definition links_get :: "db \<Rightarrow> uuid \<Rightarrow> public_link option" where
  "links_get d lid = row_by pl_id lid (db_links d)"

definition get_by_token_hash :: "db \<Rightarrow> string \<Rightarrow> public_link option" where
  "get_by_token_hash d h = row_by pl_token_hash h (db_links d)"

definition links_add :: "public_link \<Rightarrow> db \<Rightarrow> db" where
  "links_add l d = d\<lparr>db_links := db_links d @ [l]\<rparr>"

definition links_list_for_node :: "db \<Rightarrow> uuid \<Rightarrow> public_link list" where
  "links_list_for_node d nid = rev (sort_key pl_created_at (filter (\<lambda>l. pl_node_id l = nid) (db_links d)))"

definition audit_add :: "audit_record \<Rightarrow> db \<Rightarrow> db" where
  "audit_add a d = d\<lparr>db_audit := db_audit d @ [a]\<rparr>"

definition prune_activity :: "datetime \<Rightarrow> audit_action list \<Rightarrow> db \<Rightarrow> nat \<times> db" where
  "prune_activity cutoff actions d =
     (if actions = [] then (0, d)
      else let stale = (\<lambda>a. ar_action a \<in> set actions \<and> ar_occurred_at a < cutoff) in
        (length (filter stale (db_audit d)), d\<lparr>db_audit := filter (\<lambda>a. \<not> stale a) (db_audit d)\<rparr>))"

section \<open>Quota recomputation\<close>

definition sum_nodes :: "db \<Rightarrow> uuid \<Rightarrow> bool \<Rightarrow> int" where
  "sum_nodes d uid deleted =
     sum_list (map nd_size_bytes
       (filter (\<lambda>r. nd_owner_id r = uid \<and> is_file r \<and> is_deleted r = deleted) (db_nodes d)))"

definition quotas_recompute :: "db \<Rightarrow> uuid \<Rightarrow> quota_usage" where
  "quotas_recompute d uid =
     \<lparr>qu_user_id = uid, qu_live_bytes = sum_nodes d uid False, qu_trashed_bytes = sum_nodes d uid True,
      qu_version_bytes = sum_list (map fv_size_bytes
        (filter (\<lambda>v. fv_owner_id v = uid \<and>
           (case nodes_get d (fv_node_id v) of None \<Rightarrow> False
            | Some r \<Rightarrow> nd_current_version_id r \<noteq> Some (fv_id v))) (db_versions d))),
      qu_updated_at = None\<rparr>"

section \<open>The trash listing\<close>

definition trash_fingerprint :: "(string \<Rightarrow> string) \<Rightarrow> uuid \<Rightarrow> bool \<Rightarrow> string" where
  "trash_fingerprint H owner oldest_first =
     fingerprint_of H [FStr ''trash'', FStr (uuid_str owner), FStr (if oldest_first then ''oldest'' else ''newest'')]"

definition trash_cursor :: "(string \<Rightarrow> string) \<Rightarrow> string \<Rightarrow> node \<Rightarrow> string" where
  "trash_cursor H fingerprint r =
     encode_keyed_cursor H fingerprint [isoformat (fst (trash_order r)), uuid_str (nd_id r)]"

definition trash_cursor_key ::
  "(string \<Rightarrow> string) \<Rightarrow> string \<Rightarrow> string \<Rightarrow> error + (datetime \<times> uuid)" where
  "trash_cursor_key H cursor fingerprint =
     (case decode_cursor cursor of
        Inl e \<Rightarrow> Inl e
      | Inr raw \<Rightarrow> (case decode_keyed_cursor H raw fingerprint 2 of
          Inl e \<Rightarrow> Inl e
        | Inr parts \<Rightarrow> (case (fromisoformat (parts ! 0), parse_uuid (parts ! 1)) of
            (Some stamp, Some edge) \<Rightarrow> Inr (stamp, edge)
          | _ \<Rightarrow> Inl ValidationError)))"

definition list_trash_entries ::
  "(string \<Rightarrow> string) \<Rightarrow> db \<Rightarrow> uuid \<Rightarrow> nat \<Rightarrow> string option \<Rightarrow> bool \<Rightarrow> error + node page" where
  "list_trash_entries H d owner limit cursor oldest_first =
     (let fingerprint = trash_fingerprint H owner oldest_first;
          rows = trash_rows d owner oldest_first
      in case cursor of
           None \<Rightarrow> Inr (paginate (take (limit + 1) rows) limit id (trash_cursor H fingerprint))
         | Some c \<Rightarrow> (case trash_cursor_key H c fingerprint of
             Inl e \<Rightarrow> Inl e
           | Inr key \<Rightarrow>
               Inr (paginate
                 (take (limit + 1) (filter (\<lambda>r. if oldest_first then trash_order r > key else trash_order r < key) rows))
                 limit id (trash_cursor H fingerprint))))"

text \<open>
  \<open>SqlAuditRepository.query\<close>, newest first, with the cursor the instant of the last row shown; a
  cursor that is no instant is a \<open>ValueError\<close>, which no handler translates.
\<close>

definition audit_filter ::
  "string option \<Rightarrow> audit_action option \<Rightarrow> string option \<Rightarrow> datetime option \<Rightarrow> datetime option \<Rightarrow> audit_record \<Rightarrow> bool" where
  "audit_filter actor action target since until a \<longleftrightarrow>
     (actor = None \<or> ar_actor_subject a = actor) \<and> (action = None \<or> Some (ar_action a) = action) \<and>
     (target = None \<or> ar_target_id a = target) \<and>
     (case since of None \<Rightarrow> True | Some t \<Rightarrow> t \<le> ar_occurred_at a) \<and>
     (case until of None \<Rightarrow> True | Some t \<Rightarrow> ar_occurred_at a < t)"

definition audit_query ::
  "db \<Rightarrow> (audit_record \<Rightarrow> bool) \<Rightarrow> nat \<Rightarrow> string option \<Rightarrow> error + audit_record page" where
  "audit_query d p limit cursor =
     (let rows = rev (sort_key ar_occurred_at (filter p (db_audit d))) in
      case cursor of
        None \<Rightarrow> Inr (paginate (take (limit + 1) rows) limit id (\<lambda>a. isoformat (ar_occurred_at a)))
      | Some c \<Rightarrow> (case decode_cursor c of
          Inl e \<Rightarrow> Inl e
        | Inr raw \<Rightarrow> (case fromisoformat raw of
            None \<Rightarrow> Inl CyberFSError
          | Some t \<Rightarrow> Inr (paginate (take (limit + 1) (filter (\<lambda>a. ar_occurred_at a < t) rows)) limit id
                            (\<lambda>a. isoformat (ar_occurred_at a))))))"

text \<open>\<open>SqlPublicLinkRepository.list_active\<close>: the cursor is accepted and not read.\<close>

definition links_list_active :: "db \<Rightarrow> nat \<Rightarrow> string option \<Rightarrow> public_link page" where
  "links_list_active d limit cursor =
     paginate (take (limit + 1) (rev (sort_key pl_created_at (filter (\<lambda>l. pl_revoked_at l = None) (db_links d)))))
       limit id (\<lambda>l. isoformat (pl_created_at l))"

definition links_update :: "public_link \<Rightarrow> db \<Rightarrow> db" where
  "links_update l d = d\<lparr>db_links := upd_row pl_id (pl_id l)
     (\<lambda>r. r\<lparr>pl_revoked_at := pl_revoked_at l, pl_access_count := pl_access_count l,
            pl_last_accessed_at := pl_last_accessed_at l\<rparr>) (db_links d)\<rparr>"

end
