(* ===== verification/Framing.thy ===== *)
theory Framing
  imports Errors
begin

text \<open>
  Ciphertext framing (\<open>domain/framing.py\<close>): the object header, what a frame's tag commits to, and the
  offset arithmetic. A \<open>bytes\<close> value is a list of naturals below 256. Python's \<open>//\<close> on integers is
  HOL's \<open>div\<close>; a division by zero, and an integer that \<open>int.to_bytes\<close> cannot hold, raise.
\<close>

type_synonym bytes = "nat list"

definition is_bytes :: "bytes \<Rightarrow> bool" where
  "is_bytes bs \<longleftrightarrow> (\<forall>b\<in>set bs. b < 256)"

text \<open>\<open>v.to_bytes(n, "big")\<close> and \<open>int.from_bytes(bs, "big")\<close>.\<close>

fun big_endian :: "nat \<Rightarrow> nat \<Rightarrow> bytes" where
  "big_endian 0 v = []"
| "big_endian (Suc n) v = big_endian n (v div 256) @ [v mod 256]"

definition int_to_bytes :: "nat \<Rightarrow> int \<Rightarrow> error + bytes" where
  "int_to_bytes n v = (if 0 \<le> v \<and> v < 256 ^ n then Inr (big_endian n (nat v)) else Inl CyberFSError)"

definition int_from_bytes :: "bytes \<Rightarrow> int" where
  "int_from_bytes bs = int (foldl (\<lambda>a b. a * 256 + b) 0 bs)"

section \<open>Header\<close>

definition MAGIC :: bytes where "MAGIC = [67, 70, 83, 69, 78, 67]"
definition FORMAT_VERSION :: nat where "FORMAT_VERSION = 1"
definition HEADER_BYTES :: nat where "HEADER_BYTES = length MAGIC + 1 + 4"
definition NONCE_BYTES :: nat where "NONCE_BYTES = 12"
definition TAG_BYTES :: nat where "TAG_BYTES = 16"
definition FRAME_OVERHEAD :: nat where "FRAME_OVERHEAD = NONCE_BYTES + TAG_BYTES"
definition DEFAULT_FRAME_BYTES :: int where "DEFAULT_FRAME_BYTES = 64 * 1024"
definition MIN_FRAME_BYTES :: int where "MIN_FRAME_BYTES = 1024"
definition MAX_FRAME_BYTES :: int where "MAX_FRAME_BYTES = 8 * 1024 * 1024"

definition encode_header :: "int \<Rightarrow> error + bytes" where
  "encode_header frame_bytes =
     (if \<not> (MIN_FRAME_BYTES \<le> frame_bytes \<and> frame_bytes \<le> MAX_FRAME_BYTES) then Inl ValidationError
      else (case int_to_bytes 4 frame_bytes of
              Inl e \<Rightarrow> Inl e
            | Inr sz \<Rightarrow> Inr (MAGIC @ [FORMAT_VERSION] @ sz)))"

definition decode_header :: "bytes \<Rightarrow> error + int" where
  "decode_header header =
     (if length header < HEADER_BYTES \<or> take (length MAGIC) header \<noteq> MAGIC then Inl IntegrityFailureError
      else if header ! length MAGIC \<noteq> FORMAT_VERSION then Inl IntegrityFailureError
      else
       (let frame_bytes = int_from_bytes (drop (length MAGIC + 1) (take HEADER_BYTES header)) in
        if MIN_FRAME_BYTES \<le> frame_bytes \<and> frame_bytes \<le> MAX_FRAME_BYTES then Inr frame_bytes
        else Inl IntegrityFailureError))"

section \<open>Frames\<close>

definition associated_data :: "bytes \<Rightarrow> int \<Rightarrow> bool \<Rightarrow> error + bytes" where
  "associated_data version_id index final =
     (case int_to_bytes 8 index of
        Inl e \<Rightarrow> Inl e
      | Inr i \<Rightarrow> Inr (version_id @ i @ [if final then 1 else 0]))"

definition frame_count :: "int \<Rightarrow> int \<Rightarrow> error + int" where
  "frame_count plaintext_bytes frame_bytes =
     (if plaintext_bytes \<le> 0 then Inr 1
      else if frame_bytes = 0 then Inl CyberFSError
      else Inr (- (- plaintext_bytes div frame_bytes)))"

definition sealed_frame_bytes :: "int \<Rightarrow> int" where
  "sealed_frame_bytes frame_bytes = frame_bytes + int FRAME_OVERHEAD"

definition ciphertext_offset :: "int \<Rightarrow> int \<Rightarrow> int" where
  "ciphertext_offset index frame_bytes = int HEADER_BYTES + index * sealed_frame_bytes frame_bytes"

definition ciphertext_size :: "int \<Rightarrow> int \<Rightarrow> error + int" where
  "ciphertext_size plaintext_bytes frame_bytes =
     (if frame_bytes = 0 then Inl CyberFSError
      else
       (let full = max plaintext_bytes 0 div frame_bytes;
            remainder = max plaintext_bytes 0 mod frame_bytes;
            body = full * sealed_frame_bytes frame_bytes;
            body = (if remainder \<noteq> 0 \<or> plaintext_bytes \<le> 0 then body + (remainder + int FRAME_OVERHEAD) else body)
        in Inr (int HEADER_BYTES + body)))"

record frame_span =
  fs_first_index :: int
  fs_last_index :: int
  fs_lead_skip :: int
  fs_take :: int

definition span_frame_count :: "frame_span \<Rightarrow> int" where
  "span_frame_count s = fs_last_index s - fs_first_index s + 1"

definition ciphertext_range :: "frame_span \<Rightarrow> int \<Rightarrow> int \<times> int" where
  "ciphertext_range s frame_bytes =
     (let start = ciphertext_offset (fs_first_index s) frame_bytes;
          stop = ciphertext_offset (fs_last_index s + 1) frame_bytes
      in (start, stop - start))"

definition frames_for_range :: "int \<Rightarrow> int \<Rightarrow> int \<Rightarrow> int \<Rightarrow> error + frame_span" where
  "frames_for_range start len frame_bytes plaintext_bytes =
     (if start < 0 \<or> len \<le> 0 then Inl ValidationError
      else
       (let clamped = min len (max (plaintext_bytes - start) 0) in
        if clamped \<le> 0 then Inl ValidationError
        else if frame_bytes = 0 then Inl CyberFSError
        else
         (let first = start div frame_bytes;
              last = (start + clamped - 1) div frame_bytes
          in Inr \<lparr>fs_first_index = first, fs_last_index = last,
                  fs_lead_skip = start - first * frame_bytes, fs_take = clamped\<rparr>)))"

lemmas frame_sizes = MAGIC_def FORMAT_VERSION_def HEADER_BYTES_def NONCE_BYTES_def TAG_BYTES_def
  FRAME_OVERHEAD_def MIN_FRAME_BYTES_def MAX_FRAME_BYTES_def

section \<open>Integers as bytes\<close>

lemma length_big_endian [simp]: "length (big_endian n v) = n"
  by (induction n arbitrary: v) auto

lemma foldl_big_endian: "v < 256 ^ n \<Longrightarrow> foldl (\<lambda>a b. a * 256 + b) 0 (big_endian n v) = v"
proof (induction n arbitrary: v)
  case (Suc n)
  then have "v div 256 < 256 ^ n" by (simp add: less_mult_imp_div_less mult.commute)
  then show ?case using Suc.IH by simp
qed simp

lemma int_to_bytes_ok: "int_to_bytes n v = Inr bs \<longleftrightarrow> 0 \<le> v \<and> v < 256 ^ n \<and> bs = big_endian n (nat v)"
  by (auto simp: int_to_bytes_def)

lemma int_bytes_roundtrip: "int_to_bytes n v = Inr bs \<Longrightarrow> int_from_bytes bs = v"
  by (auto simp: int_to_bytes_ok int_from_bytes_def foldl_big_endian zless_nat_eq_int_zless
      nat_less_iff)

lemma int_to_bytes_length: "int_to_bytes n v = Inr bs \<Longrightarrow> length bs = n"
  by (auto simp: int_to_bytes_ok)

lemma is_bytes_big_endian: "is_bytes (big_endian n v)"
  by (induction n arbitrary: v) (auto simp: is_bytes_def)

lemma big_endian_foldl:
  assumes "is_bytes bs"
  shows "big_endian (length bs) (foldl (\<lambda>a b. a * 256 + b) 0 bs) = bs"
  using assms
proof (induction bs rule: rev_induct)
  case (snoc b bs)
  then have "b < 256" "is_bytes bs" by (auto simp: is_bytes_def)
  then show ?case using snoc.IH by simp
qed simp

lemma foldl_bytes_bound:
  assumes "is_bytes bs"
  shows "foldl (\<lambda>a b. a * 256 + b) 0 bs < 256 ^ length bs"
  using assms
proof (induction bs rule: rev_induct)
  case (snoc b bs)
  then have "b < 256" "foldl (\<lambda>a b. a * 256 + b) 0 bs < 256 ^ length bs" by (auto simp: is_bytes_def)
  then show ?case by simp
qed simp

lemma bytes_int_roundtrip: "is_bytes bs \<Longrightarrow> int_to_bytes (length bs) (int_from_bytes bs) = Inr bs"
  using foldl_bytes_bound[of bs] big_endian_foldl[of bs]
  by (simp add: int_to_bytes_def int_from_bytes_def flip: of_nat_less_iff)

lemma length_header: "length MAGIC = 6" "HEADER_BYTES = 11"
  by (simp_all add: frame_sizes)

lemma encode_header_length: "encode_header fb = Inr h \<Longrightarrow> length h = HEADER_BYTES"
  by (auto simp: encode_header_def frame_sizes int_to_bytes_length split: if_splits sum.splits)

lemma encode_header_ok:
  "encode_header fb = Inr h \<longleftrightarrow>
     MIN_FRAME_BYTES \<le> fb \<and> fb \<le> MAX_FRAME_BYTES \<and>
     h = MAGIC @ [FORMAT_VERSION] @ big_endian 4 (nat fb)"
  by (auto simp: encode_header_def int_to_bytes_def frame_sizes split: if_splits)

lemma header_roundtrip:
  assumes "encode_header fb = Inr h"
  shows "decode_header (h @ rest) = Inr fb"
proof -
  have h: "h = MAGIC @ [FORMAT_VERSION] @ big_endian 4 (nat fb)"
    and b: "MIN_FRAME_BYTES \<le> fb" "fb \<le> MAX_FRAME_BYTES"
    using assms by (auto simp: encode_header_ok)
  have "int_from_bytes (big_endian 4 (nat fb)) = fb"
    using b by (intro int_bytes_roundtrip[of 4]) (auto simp: int_to_bytes_ok frame_sizes)
  then show ?thesis using b
    by (simp add: decode_header_def h length_header nth_append)
qed

lemma header_decoded:
  assumes "decode_header h = Inr fb" and "is_bytes h"
  shows "encode_header fb = Inr (take HEADER_BYTES h)"
proof -
  let ?size = "drop (length MAGIC + 1) (take HEADER_BYTES h)"
  have len: "11 \<le> length h" and magic: "take 6 h = MAGIC" and ver: "h ! 6 = FORMAT_VERSION"
    and b: "MIN_FRAME_BYTES \<le> fb" "fb \<le> MAX_FRAME_BYTES" and fb: "fb = int_from_bytes ?size"
    using assms(1) by (auto simp: decode_header_def length_header Let_def split: if_splits)
  have "is_bytes ?size" using assms(2) by (auto simp: is_bytes_def dest!: in_set_dropD in_set_takeD)
  from bytes_int_roundtrip[OF this] have s: "int_to_bytes 4 fb = Inr ?size"
    using len by (simp add: fb length_header)
  have "take 11 h = take 6 h @ h ! 6 # drop 7 (take 11 h)"
    using len id_take_nth_drop[of 6 "take 11 h"] by (simp add: take_take)
  then show ?thesis using s b by (simp add: encode_header_def magic ver length_header)
qed

end
