(* ===== verification/Cipher.thy ===== *)
theory Cipher
  imports Framing
begin

text \<open>
  Framed content sealing (\<open>adapters/outbound/cipher.py\<close>).

  An asynchronous iterator is the list of chunks it yields together with the exception it ends with,
  if any; a consumer that stops early leaves the rest unread. AES-GCM is a parameter: \<open>ae_encrypt\<close> and
  \<open>ae_decrypt\<close> take the key, the nonce, the data and the associated data, and decryption is \<open>None\<close>
  where the library raises \<open>InvalidTag\<close>. The nonces \<open>os.urandom\<close> returns are a parameter too, one per
  frame. The frame size the cipher is constructed with is a positive setting, and the numbers of the
  spans it is given, which \<open>frames_for_range\<close> made, are not negative.
\<close>

type_synonym stream = "bytes list \<times> error option"

record aead =
  ae_encrypt :: "bytes \<Rightarrow> bytes \<Rightarrow> bytes \<Rightarrow> bytes \<Rightarrow> bytes"
  ae_decrypt :: "bytes \<Rightarrow> bytes \<Rightarrow> bytes \<Rightarrow> bytes \<Rightarrow> bytes option"

definition KEY_BYTES :: nat where "KEY_BYTES = 32"

text \<open>\<open>AESGCM(key)\<close> raises a \<open>ValueError\<close> on a key that is not 128, 192 or 256 bits long.\<close>

definition aes_key :: "bytes \<Rightarrow> bool" where
  "aes_key key \<longleftrightarrow> length key \<in> {16, 24, 32}"

definition prepend :: "bytes list \<Rightarrow> stream \<Rightarrow> stream" where
  "prepend out s = (out @ fst s, snd s)"

section \<open>Sealing\<close>

definition seal_frame ::
  "aead \<Rightarrow> bytes \<Rightarrow> (nat \<Rightarrow> bytes) \<Rightarrow> bytes \<Rightarrow> bytes \<Rightarrow> nat \<Rightarrow> bool \<Rightarrow> error + bytes" where
  "seal_frame A key nonces frame version_id index final =
     (case associated_data version_id (int index) final of
        Inl e \<Rightarrow> Inl e
      | Inr aad \<Rightarrow> Inr (nonces index @ ae_encrypt A key (nonces index) frame aad))"

text \<open>
  The inner loop: while more than a frame is buffered, a frame leaves the buffer. The size is that of
  a header already encoded, hence positive.
\<close>

fun drain :: "nat \<Rightarrow> bytes \<Rightarrow> bytes list \<times> bytes" where
  "drain fb buffer =
     (if 0 < fb \<and> fb < length buffer
      then (case drain fb (drop fb buffer) of (fs, left) \<Rightarrow> (take fb buffer # fs, left))
      else ([], buffer))"

declare drain.simps [simp del]

fun seal_run :: "aead \<Rightarrow> bytes \<Rightarrow> (nat \<Rightarrow> bytes) \<Rightarrow> bytes \<Rightarrow> nat \<Rightarrow> bytes list \<Rightarrow> stream" where
  "seal_run A key nonces version_id index [] = ([], None)"
| "seal_run A key nonces version_id index (f # fs) =
     (case seal_frame A key nonces f version_id index False of
        Inl e \<Rightarrow> ([], Some e)
      | Inr sealed \<Rightarrow> prepend [sealed] (seal_run A key nonces version_id (index + 1) fs))"

fun seal_chunks ::
  "aead \<Rightarrow> bytes \<Rightarrow> (nat \<Rightarrow> bytes) \<Rightarrow> bytes \<Rightarrow> nat \<Rightarrow> nat \<Rightarrow> bytes \<Rightarrow> bytes list \<Rightarrow> error option \<Rightarrow> stream" where
  "seal_chunks A key nonces version_id fb index buffer [] ending =
     (case ending of
        Some e \<Rightarrow> ([], Some e)
      | None \<Rightarrow> (case seal_frame A key nonces buffer version_id index True of
                   Inl e \<Rightarrow> ([], Some e)
                 | Inr sealed \<Rightarrow> ([sealed], None)))"
| "seal_chunks A key nonces version_id fb index buffer (c # cs) ending =
     (case drain fb (buffer @ c) of (fs, left) \<Rightarrow>
       (case seal_run A key nonces version_id index fs of
          (out, Some e) \<Rightarrow> (out, Some e)
        | (out, None) \<Rightarrow>
            prepend out (seal_chunks A key nonces version_id fb (index + length fs) left cs ending)))"

definition cipher_seal :: "aead \<Rightarrow> nat \<Rightarrow> (nat \<Rightarrow> bytes) \<Rightarrow> stream \<Rightarrow> bytes \<Rightarrow> bytes \<Rightarrow> stream" where
  "cipher_seal A fb nonces plaintext key version_id =
     (if \<not> aes_key key then ([], Some CyberFSError)
      else (case encode_header (int fb) of
              Inl e \<Rightarrow> ([], Some e)
            | Inr h \<Rightarrow>
                prepend [h] (seal_chunks A key nonces version_id fb 0 [] (fst plaintext) (snd plaintext))))"

section \<open>Reassembling frames\<close>

fun pull :: "nat \<Rightarrow> bytes \<Rightarrow> bytes list \<Rightarrow> bytes \<times> bytes list" where
  "pull wanted buffer [] = (buffer, [])"
| "pull wanted buffer (c # cs) = (if length buffer < wanted then pull wanted (buffer @ c) cs else (buffer, c # cs))"

definition reader_frame_size :: "nat \<Rightarrow> bool \<Rightarrow> stream \<Rightarrow> error + nat \<times> bytes \<times> stream" where
  "reader_frame_size configured skip_header source =
     (if \<not> skip_header then Inr (configured, [], source)
      else
       (case pull HEADER_BYTES [] (fst source) of (buffer, rest) \<Rightarrow>
          if length buffer < HEADER_BYTES
          then Inl (case snd source of Some e \<Rightarrow> e | None \<Rightarrow> IntegrityFailureError)
          else (case decode_header (take HEADER_BYTES buffer) of
                  Inl e \<Rightarrow> Inl e
                | Inr fb \<Rightarrow> Inr (nat fb, drop HEADER_BYTES buffer, (rest, snd source)))))"

lemma pull_length: "length (fst (pull n b cs)) + length (concat (snd (pull n b cs))) = length b + length (concat cs)"
  by (induction n b cs rule: pull.induct) auto

lemma pull_eq: "pull n b cs = (b', rest) \<Longrightarrow> b' @ concat rest = b @ concat cs \<and> (length b' < n \<longrightarrow> rest = [])"
  by (induction n b cs rule: pull.induct) (auto split: if_splits)

function reader_frames :: "nat \<Rightarrow> bytes \<Rightarrow> stream \<Rightarrow> stream" where
  "reader_frames fb buffer source =
     (let sealed_size = fb + FRAME_OVERHEAD;
          p = pull sealed_size buffer (fst source)
      in if length (fst p) < sealed_size
         then (case snd source of
                 Some e \<Rightarrow> ([], Some e)
               | None \<Rightarrow> if length (fst p) > FRAME_OVERHEAD - 1 then ([fst p], None)
                         else if fst p \<noteq> [] then ([], Some IntegrityFailureError)
                         else ([], None))
         else prepend [take sealed_size (fst p)] (reader_frames fb (drop sealed_size (fst p)) (snd p, snd source)))"
  by pat_completeness auto
termination
proof (relation "measure (\<lambda>(fb, buffer, source). length buffer + length (concat (fst source)))")
  fix fb :: nat and buffer :: bytes and source :: stream and sealed_size p
  assume s: "sealed_size = fb + FRAME_OVERHEAD" and p: "p = pull sealed_size buffer (fst source)"
    and l: "\<not> length (fst p) < sealed_size"
  have "0 < sealed_size" by (simp add: s FRAME_OVERHEAD_def NONCE_BYTES_def)
  then show "((fb, drop sealed_size (fst p), snd p, snd source), fb, buffer, source)
      \<in> measure (\<lambda>(fb, buffer, source). length buffer + length (concat (fst source)))"
    using l pull_length[of sealed_size buffer "fst source"] p by simp
qed simp

declare reader_frames.simps [simp del]

section \<open>Opening\<close>

fun try_open :: "aead \<Rightarrow> bytes \<Rightarrow> bytes \<Rightarrow> bytes \<Rightarrow> nat \<Rightarrow> bool list \<Rightarrow> error + bytes \<times> bool" where
  "try_open A key sealed version_id index [] = Inl IntegrityFailureError"
| "try_open A key sealed version_id index (final # finals) =
     (case associated_data version_id (int index) final of
        Inl e \<Rightarrow> Inl e
      | Inr aad \<Rightarrow>
         (case ae_decrypt A key (take NONCE_BYTES sealed) (drop NONCE_BYTES sealed) aad of
            Some data \<Rightarrow> Inr (data, final)
          | None \<Rightarrow> try_open A key sealed version_id index finals))"

definition open_frame :: "aead \<Rightarrow> bytes \<Rightarrow> bytes \<Rightarrow> bytes \<Rightarrow> nat \<Rightarrow> error + bytes \<times> bool" where
  "open_frame A key sealed version_id index = try_open A key sealed version_id index [False, True]"

text \<open>
  The loop over the frames. \<open>remaining\<close> is \<open>None\<close> on a whole read; a range read stops as soon as it
  has served its bytes.
\<close>

fun open_frames ::
  "aead \<Rightarrow> bytes \<Rightarrow> bytes \<Rightarrow> nat \<Rightarrow> nat option \<Rightarrow> nat \<Rightarrow> bool \<Rightarrow> bytes list \<Rightarrow> error option \<Rightarrow> stream" where
  "open_frames A key version_id index remaining lead_skip saw_final [] ending =
     (case ending of
        Some e \<Rightarrow> ([], Some e)
      | None \<Rightarrow> if remaining = None \<and> \<not> saw_final then ([], Some IntegrityFailureError) else ([], None))"
| "open_frames A key version_id index remaining lead_skip saw_final (sealed # frames) ending =
     (case open_frame A key sealed version_id index of
        Inl e \<Rightarrow> ([], Some e)
      | Inr (data, final) \<Rightarrow>
         (let piece = drop lead_skip data;
              piece = (case remaining of None \<Rightarrow> piece | Some n \<Rightarrow> take n piece);
              remaining = map_option (\<lambda>n. n - length piece) remaining;
              out = (if piece = [] then [] else [piece])
          in if remaining = Some 0 then (out, None)
             else prepend out (open_frames A key version_id (index + 1) remaining 0 final frames ending)))"

definition cipher_open :: "aead \<Rightarrow> nat \<Rightarrow> stream \<Rightarrow> bytes \<Rightarrow> bytes \<Rightarrow> frame_span option \<Rightarrow> stream" where
  "cipher_open A configured ciphertext key version_id span =
     (if \<not> aes_key key then ([], Some CyberFSError)
      else (case reader_frame_size configured (span = None) ciphertext of
              Inl e \<Rightarrow> ([], Some e)
            | Inr (fb, buffer, source) \<Rightarrow>
               (case reader_frames fb buffer source of (frames, ending) \<Rightarrow>
                  open_frames A key version_id
                    (case span of None \<Rightarrow> 0 | Some s \<Rightarrow> nat (fs_first_index s))
                    (map_option (\<lambda>s. nat (fs_take s)) span)
                    (case span of None \<Rightarrow> 0 | Some s \<Rightarrow> nat (fs_lead_skip s))
                    False frames ending)))"

definition ciphertext_length :: "nat \<Rightarrow> int \<Rightarrow> error + int" where
  "ciphertext_length fb plaintext_bytes = ciphertext_size plaintext_bytes (int fb)"

end
