(* ===== verification/Sealing.thy ===== *)
theory Sealing
  imports Cipher
begin

text \<open>
  Correctness of the framed cipher. The reference description of a sealed object is the list of its
  plaintext frames (\<open>plain_frames\<close>) and the list of sealed frames made of them; sealing and opening
  are related to it whatever the chunks the bytes arrive in.
\<close>

fun plain_frames :: "nat \<Rightarrow> bytes \<Rightarrow> bytes list" where
  "plain_frames fb p = (if 0 < fb \<and> fb < length p then take fb p # plain_frames fb (drop fb p) else [p])"

declare plain_frames.simps [simp del]

definition frame_aad :: "bytes \<Rightarrow> nat \<Rightarrow> bool \<Rightarrow> bytes" where
  "frame_aad version_id i final = version_id @ big_endian 8 i @ [if final then 1 else 0]"

definition sealed :: "aead \<Rightarrow> bytes \<Rightarrow> (nat \<Rightarrow> bytes) \<Rightarrow> bytes \<Rightarrow> nat \<Rightarrow> bool \<Rightarrow> bytes \<Rightarrow> bytes" where
  "sealed A key nonces version_id i final f =
     nonces i @ ae_encrypt A key (nonces i) f (frame_aad version_id i final)"

text \<open>The sealed frames of a list of plaintext frames; the last one carries the flag.\<close>

fun sealed_frames :: "aead \<Rightarrow> bytes \<Rightarrow> (nat \<Rightarrow> bytes) \<Rightarrow> bytes \<Rightarrow> nat \<Rightarrow> bytes list \<Rightarrow> bytes list" where
  "sealed_frames A key nonces version_id i [] = []"
| "sealed_frames A key nonces version_id i (f # fs) =
     sealed A key nonces version_id i (fs = []) f # sealed_frames A key nonces version_id (i + 1) fs"

text \<open>
  What the service relies on of AES-GCM: the tag adds sixteen bytes, what was encrypted decrypts under
  the same associated data, and a ciphertext made with the final flag set does not authenticate with
  the flag cleared.
\<close>

definition aead_law :: "aead \<Rightarrow> bool" where
  "aead_law A \<longleftrightarrow>
     (\<forall>k n d a. aes_key k \<longrightarrow> length n = NONCE_BYTES \<longrightarrow>
        length (ae_encrypt A k n d a) = length d + TAG_BYTES \<and>
        ae_decrypt A k n (ae_encrypt A k n d a) a = Some d)"

definition flag_bound :: "aead \<Rightarrow> bytes \<Rightarrow> bool" where
  "flag_bound A k \<longleftrightarrow> (\<forall>n d a. length n = NONCE_BYTES \<longrightarrow>
     ae_decrypt A k n (ae_encrypt A k n d (a @ [1])) (a @ [0]) = None)"

definition nonce_source :: "(nat \<Rightarrow> bytes) \<Rightarrow> bool" where
  "nonce_source nonces \<longleftrightarrow> (\<forall>i. length (nonces i) = NONCE_BYTES)"

lemma aead_length:
  "aead_law A \<Longrightarrow> aes_key k \<Longrightarrow> length n = NONCE_BYTES \<Longrightarrow> length (ae_encrypt A k n d a) = length d + TAG_BYTES"
  by (simp add: aead_law_def)

lemma aead_open:
  "aead_law A \<Longrightarrow> aes_key k \<Longrightarrow> length n = NONCE_BYTES \<Longrightarrow> ae_decrypt A k n (ae_encrypt A k n d a) a = Some d"
  by (simp add: aead_law_def)

section \<open>Plaintext frames\<close>

lemma plain_frames_not_Nil [simp]: "plain_frames fb p \<noteq> []"
  by (subst plain_frames.simps) auto

lemma plain_frames_small: "length p \<le> fb \<Longrightarrow> plain_frames fb p = [p]"
  by (subst plain_frames.simps) auto

lemma plain_frames_step:
  "0 < fb \<Longrightarrow> fb < length p \<Longrightarrow> plain_frames fb p = take fb p # plain_frames fb (drop fb p)"
  by (subst plain_frames.simps) auto

lemma concat_plain_frames [simp]: "concat (plain_frames fb p) = p"
proof (induction fb p rule: plain_frames.induct)
  case (1 fb p)
  then show ?case by (subst plain_frames.simps) auto
qed

lemma plain_frames_sizes:
  assumes "0 < fb"
  shows "(\<forall>f\<in>set (butlast (plain_frames fb p)). length f = fb) \<and> length (last (plain_frames fb p)) \<le> fb"
  using assms
proof (induction fb p rule: plain_frames.induct)
  case (1 fb p)
  show ?case
  proof (cases "fb < length p")
    case True
    then have e: "plain_frames fb p = take fb p # plain_frames fb (drop fb p)"
      using 1(2) by (simp add: plain_frames_step)
    show ?thesis unfolding e using 1 True by auto
  qed (use 1(2) in \<open>simp add: plain_frames_small\<close>)
qed

lemma drain_frames: "drain fb b = (fs, left) \<Longrightarrow> plain_frames fb (b @ rest) = fs @ plain_frames fb (left @ rest)"
proof (induction fb b arbitrary: fs left rule: drain.induct)
  case (1 fb b)
  show ?case
  proof (cases "0 < fb \<and> fb < length b")
    case True
    obtain fs' where d: "drain fb (drop fb b) = (fs', left)" and fs: "fs = take fb b # fs'"
      using 1(2) True by (subst (asm) drain.simps) (auto split: prod.splits)
    have "plain_frames fb (b @ rest) = take fb b # plain_frames fb (drop fb b @ rest)"
      using True by (subst plain_frames_step) auto
    also have "\<dots> = take fb b # fs' @ plain_frames fb (left @ rest)"
      using 1(1)[OF True d] by simp
    finally show ?thesis by (simp add: fs)
  next
    case False
    then show ?thesis using 1(2) by (subst (asm) drain.simps) auto
  qed
qed

lemma drain_left: "0 < fb \<Longrightarrow> drain fb b = (fs, left) \<Longrightarrow> length left \<le> fb"
proof (induction fb b arbitrary: fs left rule: drain.induct)
  case (1 fb b)
  show ?case
  proof (cases "fb < length b")
    case True
    then have "\<exists>fs'. drain fb (drop fb b) = (fs', left)"
      using 1(2,3) drain.simps[of fb b] by (auto split: prod.splits)
    then show ?thesis using 1(1,2) True by blast
  next
    case False
    then show ?thesis using 1(3) drain.simps[of fb b] by simp
  qed
qed

section \<open>Sealing\<close>

lemma associated_data_ok: "i < 2 ^ 64 \<Longrightarrow> associated_data v (int i) final = Inr (frame_aad v i final)"
  by (simp add: associated_data_def int_to_bytes_def frame_aad_def flip: of_nat_less_iff)

lemma seal_frame_ok: "i < 2 ^ 64 \<Longrightarrow> seal_frame A k nonces f v i final = Inr (sealed A k nonces v i final f)"
  by (simp add: seal_frame_def sealed_def associated_data_ok)

lemma seal_run_ok:
  "i + length fs \<le> 2 ^ 64 \<Longrightarrow> rest \<noteq> [] \<Longrightarrow>
   seal_run A k nonces v i fs = (take (length fs) (sealed_frames A k nonces v i (fs @ rest)), None)"
  by (induction fs arbitrary: i) (auto simp: seal_frame_ok prepend_def)

lemma sealed_frames_append:
  "rest \<noteq> [] \<Longrightarrow> drop (length fs) (sealed_frames A k nonces v i (fs @ rest)) = sealed_frames A k nonces v (i + length fs) rest"
  by (induction fs arbitrary: i) auto

lemma length_sealed_frames [simp]: "length (sealed_frames A k nonces v i fs) = length fs"
  by (induction fs arbitrary: i) auto

lemma seal_chunks_ok:
  assumes "0 < fb" and "length b \<le> fb" and "i + length (plain_frames fb (b @ concat cs)) \<le> 2 ^ 64"
  shows "seal_chunks A k nonces v fb i b cs None = (sealed_frames A k nonces v i (plain_frames fb (b @ concat cs)), None)"
  using assms
proof (induction cs arbitrary: i b)
  case Nil
  then show ?case by (simp add: plain_frames_small seal_frame_ok)
next
  case (Cons c cs)
  obtain fs left where d: "drain fb (b @ c) = (fs, left)" by (cases "drain fb (b @ c)")
  let ?tail = "plain_frames fb (left @ concat cs)"
  have e: "plain_frames fb (b @ concat (c # cs)) = fs @ ?tail"
    using drain_frames[OF d, of "concat cs"] by simp
  have l: "length left \<le> fb" by (rule drain_left[OF Cons(2) d])
  have r: "seal_run A k nonces v i fs = (take (length fs) (sealed_frames A k nonces v i (fs @ ?tail)), None)"
    by (rule seal_run_ok) (use Cons(4) e in auto)
  have "seal_chunks A k nonces v fb (i + length fs) left cs None = (sealed_frames A k nonces v (i + length fs) ?tail, None)"
    using Cons(4) e by (intro Cons.IH[OF Cons(2) l]) simp
  then show ?case
    using e by (simp add: d r prepend_def flip: sealed_frames_append)
qed

lemma header_positive: "encode_header (int fb) = Inr h \<Longrightarrow> 0 < fb"
  by (auto simp: encode_header_ok frame_sizes)

theorem seal_spec:
  assumes "encode_header (int fb) = Inr h" and "aes_key key"
    and "length (plain_frames fb (concat chunks)) \<le> 2 ^ 64"
  shows "cipher_seal A fb nonces (chunks, None) key v =
           (h # sealed_frames A key nonces v 0 (plain_frames fb (concat chunks)), None)"
  using seal_chunks_ok[of fb "[]" 0 chunks A key nonces v] header_positive[OF assms(1)] assms
  by (simp add: cipher_seal_def prepend_def)

section \<open>Reassembling\<close>

text \<open>The frames of a byte string, independently of how it was chunked.\<close>

function chop :: "nat \<Rightarrow> bytes \<Rightarrow> stream" where
  "chop fb bs =
     (if length bs < fb + FRAME_OVERHEAD
      then (if length bs > FRAME_OVERHEAD - 1 then ([bs], None)
            else if bs \<noteq> [] then ([], Some IntegrityFailureError) else ([], None))
      else prepend [take (fb + FRAME_OVERHEAD) bs] (chop fb (drop (fb + FRAME_OVERHEAD) bs)))"
  by pat_completeness auto
termination by (relation "measure (\<lambda>(fb, bs). length bs)") (auto simp: frame_sizes)

declare chop.simps [simp del]

lemma pull_enough:
  assumes "pull n b cs = (b', rest)"
  shows "length b' < n \<longleftrightarrow> length (b @ concat cs) < n"
proof -
  have e: "b' @ concat rest = b @ concat cs" and r: "length b' < n \<longrightarrow> rest = []"
    using pull_eq[OF assms] by auto
  have "length b' + length (concat rest) = length (b @ concat cs)"
    using arg_cong[OF e, of length] by simp
  then show ?thesis using r by auto
qed

lemma reader_frames_chop: "reader_frames fb b (cs, None) = chop fb (b @ concat cs)"
proof (induction "length (b @ concat cs)" arbitrary: b cs rule: less_induct)
  case less
  let ?n = "fb + FRAME_OVERHEAD"
  obtain b' rest where p: "pull ?n b cs = (b', rest)" by (cases "pull ?n b cs")
  have e: "b' @ concat rest = b @ concat cs" and r: "length b' < ?n \<Longrightarrow> rest = []"
    using pull_eq[OF p] by auto
  show ?case
  proof (cases "length b' < ?n")
    case True
    then have "b' = b @ concat cs" using e r by auto
    then show ?thesis using True by (subst reader_frames.simps, subst chop.simps) (simp add: p Let_def)
  next
    case False
    have "FRAME_OVERHEAD > 0" by (simp add: frame_sizes)
    moreover have l: "length (b @ concat cs) = length b' + length (concat rest)"
      using arg_cong[OF e, of length] by simp
    ultimately have "length (drop ?n b' @ concat rest) < length (b @ concat cs)" using False by simp
    from less[OF this] have "reader_frames fb (drop ?n b') (rest, None) = chop fb (drop ?n (b @ concat cs))"
      using False by (simp flip: e)
    then show ?thesis using False l
      by (subst reader_frames.simps, subst chop.simps) (simp add: p Let_def flip: e)
  qed
qed

lemma chop_frames:
  assumes "\<forall>f\<in>set (butlast fs). length f = fb + FRAME_OVERHEAD"
    and "fs \<noteq> [] \<Longrightarrow> FRAME_OVERHEAD \<le> length (last fs) \<and> length (last fs) \<le> fb + FRAME_OVERHEAD"
  shows "chop fb (concat fs) = (fs, None)"
  using assms
proof (induction fs)
  case Nil
  then show ?case by (subst chop.simps) (simp add: frame_sizes)
next
  case (Cons f fs)
  have o: "0 < FRAME_OVERHEAD" by (simp add: frame_sizes)
  show ?case
  proof (cases "fs = [] \<and> length f < fb + FRAME_OVERHEAD")
    case True
    then show ?thesis using Cons(3) o by (subst chop.simps) auto
  next
    case False
    then have l: "length f = fb + FRAME_OVERHEAD" using Cons(2,3) by (cases "fs = []") auto
    have "chop fb (concat fs) = (fs, None)" using Cons by (intro Cons.IH) (auto split: if_splits)
    then show ?thesis by (subst chop.simps) (simp add: l prepend_def)
  qed
qed

lemma reader_header:
  assumes "encode_header (int fb) = Inr h" and "concat cs = h @ body"
  obtains buf rest where "reader_frame_size d True (cs, None) = Inr (fb, buf, (rest, None))" and "buf @ concat rest = body"
proof -
  obtain b rest where p: "pull HEADER_BYTES [] cs = (b, rest)" by (cases "pull HEADER_BYTES [] cs")
  have lh: "length h = HEADER_BYTES" by (rule encode_header_length[OF assms(1)])
  have e: "b @ concat rest = h @ body" using pull_eq[OF p] assms(2) by simp
  have "\<not> length b < HEADER_BYTES" using pull_enough[OF p] assms(2) lh by simp
  then have "take HEADER_BYTES b = h" and d: "drop HEADER_BYTES b @ concat rest = body"
    using arg_cong[OF e, of "take HEADER_BYTES"] arg_cong[OF e, of "drop HEADER_BYTES"] lh by auto
  moreover have "decode_header h = Inr (int fb)" using header_roundtrip[OF assms(1), of "[]"] by simp
  ultimately have "reader_frame_size d True (cs, None) = Inr (fb, drop HEADER_BYTES b, (rest, None))"
    using \<open>\<not> length b < HEADER_BYTES\<close> by (simp add: reader_frame_size_def p)
  then show ?thesis using d that by blast
qed

section \<open>Opening\<close>

lemma try_open_ok:
  assumes "aead_law A" and "flag_bound A key" and "aes_key key" and "nonce_source nonces" and "i < 2 ^ 64"
  shows "open_frame A key (sealed A key nonces v i final f) v i = Inr (f, final)"
proof -
  have n: "length (nonces i) = NONCE_BYTES" using assms(4) by (simp add: nonce_source_def)
  have t: "ae_decrypt A key (nonces i) (ae_encrypt A key (nonces i) f (frame_aad v i b)) (frame_aad v i b) = Some f" for b
    by (rule aead_open[OF assms(1,3) n])
  have "ae_decrypt A key (nonces i) (ae_encrypt A key (nonces i) f (frame_aad v i True)) (frame_aad v i False) = None"
    using assms(2) n by (simp add: flag_bound_def frame_aad_def flip: append_assoc)
  then show ?thesis
    using t by (cases final) (simp_all add: open_frame_def sealed_def associated_data_ok[OF assms(5)] n)
qed

text \<open>
  A list of sealed frames at consecutive indices: what every frame carries, and whether it is the final one
  of its object.
\<close>

fun opens_as :: "aead \<Rightarrow> bytes \<Rightarrow> bytes \<Rightarrow> nat \<Rightarrow> bytes list \<Rightarrow> (bytes \<times> bool) list \<Rightarrow> bool" where
  "opens_as A key v i [] [] = True"
| "opens_as A key v i (s # ss) (p # ps) \<longleftrightarrow> open_frame A key s v i = Inr p \<and> opens_as A key v (i + 1) ss ps"
| "opens_as A key v i _ _ = False"

lemma open_whole:
  assumes "opens_as A key v i ss ps"
  shows "concat (fst (open_frames A key v i None 0 saw ss None)) = concat (map fst ps) \<and>
         snd (open_frames A key v i None 0 saw ss None) =
           (if (if ps = [] then saw else snd (last ps)) then None else Some IntegrityFailureError)"
  using assms
proof (induction A key v i ss ps arbitrary: saw rule: opens_as.induct)
  case (2 A key v i s ss p ps)
  then show ?case by (cases p) (auto simp: prepend_def Let_def)
qed auto

lemma open_range:
  assumes "opens_as A key v i ss ps" and "ps \<noteq> [] \<Longrightarrow> lead \<le> length (fst (hd ps))" and "0 < n"
  shows "\<exists>out. open_frames A key v i (Some n) lead saw ss None = (out, None) \<and>
           concat out = take n (drop lead (concat (map fst ps)))"
  using assms
proof (induction A key v i ss ps arbitrary: saw lead n rule: opens_as.induct)
  case (2 A key v i s ss p ps)
  obtain d f where p: "p = (d, f)" by (cases p)
  let ?piece = "take n (drop lead d)"
  have o: "open_frame A key s v i = Inr (d, f)" and rest: "opens_as A key v (i + 1) ss ps"
    and l: "lead \<le> length d" using 2 p by auto
  show ?case
  proof (cases "n - length ?piece = 0")
    case True
    then have "length ?piece = n" by auto
    then show ?thesis using True l by (auto simp: o p Let_def)
  next
    case False
    then obtain out where out: "open_frames A key v (i + 1) (Some (n - length ?piece)) 0 f ss None = (out, None)"
      "concat out = take (n - length ?piece) (concat (map fst ps))"
      using 2(1)[OF rest, of 0 "n - length ?piece" f] by auto
    have "?piece = drop lead d" using False by auto
    then show ?thesis using out False l by (auto simp: o p Let_def prepend_def)
  qed
qed auto

lemma opens_as_sealed:
  assumes "aead_law A" and "flag_bound A key" and "aes_key key" and "nonce_source nonces" and "i + length fs \<le> 2 ^ 64"
  shows "opens_as A key v i (sealed_frames A key nonces v i fs) (zip fs (replicate (length fs - 1) False @ [True]))"
  using assms(5)
proof (induction fs arbitrary: i)
  case (Cons f fs)
  show ?case using Cons try_open_ok[OF assms(1-4), of i v _ f] by (cases fs) auto
qed simp

lemma opens_as_slice:
  "opens_as A key v i ss ps \<Longrightarrow> opens_as A key v (i + k) (take m (drop k ss)) (take m (drop k ps))"
proof (induction A key v i ss ps arbitrary: k m rule: opens_as.induct)
  case (2 A key v i s ss p ps)
  show ?case
  proof (cases k)
    case 0
    then show ?thesis using 2(2) 2(1)[of 0] by (cases m) auto
  next
    case (Suc k')
    then show ?thesis using 2(2) 2(1)[of k' m] by simp
  qed
qed auto

lemma sealed_sizes:
  assumes "aead_law A" and "aes_key key" and "nonce_source nonces"
  shows "map length (sealed_frames A key nonces v i fs) = map (\<lambda>f. length f + FRAME_OVERHEAD) fs"
  using assms
  by (induction fs arbitrary: i) (auto simp: sealed_def aead_length nonce_source_def FRAME_OVERHEAD_def)

section \<open>Whole reads, ranges and truncation\<close>

text \<open>The conditions under which an object was sealed.\<close>

definition sealing :: "aead \<Rightarrow> bytes \<Rightarrow> (nat \<Rightarrow> bytes) \<Rightarrow> nat \<Rightarrow> bytes \<Rightarrow> bool" where
  "sealing A key nonces fb plaintext \<longleftrightarrow>
     aead_law A \<and> flag_bound A key \<and> aes_key key \<and> nonce_source nonces \<and>
     MIN_FRAME_BYTES \<le> int fb \<and> int fb \<le> MAX_FRAME_BYTES \<and> length (plain_frames fb plaintext) \<le> 2 ^ 64"

lemma sealing_header:
  assumes "sealing A key nonces fb p"
  obtains h where "encode_header (int fb) = Inr h"
  using assms by (auto simp: sealing_def encode_header_ok)

lemma sealing_pos: "sealing A key nonces fb p \<Longrightarrow> 0 < fb"
  by (auto simp: sealing_def frame_sizes)

lemma sealed_object:
  assumes "sealing A key nonces fb (concat chunks)" and "encode_header (int fb) = Inr h"
  shows "cipher_seal A fb nonces (chunks, None) key v =
           (h # sealed_frames A key nonces v 0 (plain_frames fb (concat chunks)), None)"
  using assms by (intro seal_spec) (auto simp: sealing_def)

lemma sizes_shifted:
  assumes "map length xs = map (\<lambda>f. length f + c) ys" and "ys \<noteq> []"
    and "\<forall>f\<in>set (butlast ys). length f = n" and "length (last ys) \<le> n"
  shows "(\<forall>f\<in>set (butlast xs). length f = n + c) \<and> c \<le> length (last xs) \<and> length (last xs) \<le> n + c"
  using assms
proof (induction xs arbitrary: ys)
  case (Cons x xs)
  then obtain y zs where ys: "ys = y # zs" by (cases ys) auto
  show ?case
  proof (cases "zs = []")
    case False
    then have "xs \<noteq> []" using Cons(2) ys by auto
    then show ?thesis using Cons(1)[of zs] Cons(2-) ys False by auto
  qed (use Cons ys in auto)
qed simp

lemma sealed_uniform:
  assumes "sealing A key nonces fb p" and "ss = sealed_frames A key nonces v 0 (plain_frames fb p)"
  shows "(\<forall>f\<in>set (butlast ss). length f = fb + FRAME_OVERHEAD) \<and> FRAME_OVERHEAD \<le> length (last ss) \<and>
         length (last ss) \<le> fb + FRAME_OVERHEAD"
proof -
  have "map length ss = map (\<lambda>f. length f + FRAME_OVERHEAD) (plain_frames fb p)"
    using assms by (auto simp: sealing_def intro: sealed_sizes)
  then show ?thesis
    using sizes_shifted[of ss FRAME_OVERHEAD "plain_frames fb p" fb] plain_frames_sizes[OF sealing_pos[OF assms(1)], of p]
    by simp
qed

lemma set_butlast_slice:
  assumes "x \<in> set (butlast (take m (drop k xs)))"
  shows "x \<in> set (butlast xs)"
proof (cases "m < length (drop k xs)")
  case True
  then have "take m (drop k xs) = take m (drop k (butlast xs))" by (simp add: drop_butlast take_butlast)
  then show ?thesis using assms by (metis in_set_butlastD in_set_dropD in_set_takeD)
next
  case False
  then show ?thesis using assms by (auto simp flip: drop_butlast dest: in_set_dropD)
qed

lemma in_butlast_or_last: "x \<in> set xs \<Longrightarrow> x \<in> set (butlast xs) \<or> x = last xs"
  by (induction xs) auto

lemma chop_sealed:
  assumes "sealing A key nonces fb p" and ss: "ss = sealed_frames A key nonces v 0 (plain_frames fb p)"
  shows "chop fb (concat (take m (drop k ss))) = (take m (drop k ss), None)"
proof (rule chop_frames)
  have u: "length f = fb + FRAME_OVERHEAD" if "f \<in> set (butlast ss)" for f
    using sealed_uniform[OF assms] that by blast
  then show "\<forall>f\<in>set (butlast (take m (drop k ss))). length f = fb + FRAME_OVERHEAD"
    by (intro ballI) (rule u[OF set_butlast_slice])
  assume "take m (drop k ss) \<noteq> []"
  then have "last (take m (drop k ss)) \<in> set (take m (drop k ss))" by (rule last_in_set)
  then have "last (take m (drop k ss)) \<in> set ss" by (rule in_set_dropD[OF in_set_takeD])
  from in_butlast_or_last[OF this]
  show "FRAME_OVERHEAD \<le> length (last (take m (drop k ss))) \<and> length (last (take m (drop k ss))) \<le> fb + FRAME_OVERHEAD"
    using u sealed_uniform[OF assms] by auto
qed

lemma sealed_prefix_opens:
  assumes "sealing A key nonces fb (concat chunks)"
    and obj: "concat cs = concat (take (Suc k) (fst (cipher_seal A fb nonces (chunks, None) key v)))"
    and k: "k \<le> length (plain_frames fb (concat chunks))"
  shows "concat (fst (cipher_open A d (cs, None) key v None)) = concat (take k (plain_frames fb (concat chunks))) \<and>
         snd (cipher_open A d (cs, None) key v None) =
           (if k = length (plain_frames fb (concat chunks)) then None else Some IntegrityFailureError)"
proof -
  let ?ps = "plain_frames fb (concat chunks)" and ?ss = "sealed_frames A key nonces v 0 (plain_frames fb (concat chunks))"
  obtain h where h: "encode_header (int fb) = Inr h" by (rule sealing_header[OF assms(1)])
  have "concat cs = h @ concat (take k ?ss)" using obj by (simp add: sealed_object[OF assms(1) h])
  from reader_header[OF h this, of d] obtain buf rest where
    r: "reader_frame_size d True (cs, None) = Inr (fb, buf, (rest, None))" "buf @ concat rest = concat (take k ?ss)" by blast
  have f: "reader_frames fb buf (rest, None) = (take k ?ss, None)"
    using chop_sealed[OF assms(1) refl, of k 0] r(2) by (simp add: reader_frames_chop)
  let ?os = "zip ?ps (replicate (length ?ps - 1) False @ [True])"
  have "opens_as A key v 0 ?ss ?os" using assms(1) by (intro opens_as_sealed) (auto simp: sealing_def)
  from opens_as_slice[OF this, of 0 k] have o: "opens_as A key v 0 (take k ?ss) (take k ?os)" by simp
  have len: "length ?os = length ?ps" by (simp add: Suc_leI)
  have m: "map fst (take k ?os) = take k ?ps" using len by (simp add: take_map[symmetric])
  have l: "snd (last (take k ?os)) = (k = length ?ps)" if "k \<noteq> 0"
  proof -
    have "last (take k ?os) = ?os ! (k - 1)" using that k len by (simp add: last_conv_nth)
    then show ?thesis using that k len by (auto simp: nth_append)
  qed
  have "aes_key key" using assms(1) by (simp add: sealing_def)
  then show ?thesis using open_whole[OF o, of False] m l k
    by (auto simp: cipher_open_def r(1) f len)
qed

theorem open_seal:
  assumes "sealing A key nonces fb (concat chunks)"
    and "concat cs = concat (fst (cipher_seal A fb nonces (chunks, None) key v))"
  shows "concat (fst (cipher_open A d (cs, None) key v None)) = concat chunks \<and>
         snd (cipher_open A d (cs, None) key v None) = None"
proof -
  obtain h where h: "encode_header (int fb) = Inr h" by (rule sealing_header[OF assms(1)])
  have "take (Suc (length (plain_frames fb (concat chunks)))) (fst (cipher_seal A fb nonces (chunks, None) key v)) =
        fst (cipher_seal A fb nonces (chunks, None) key v)"
    by (simp add: sealed_object[OF assms(1) h])
  then show ?thesis
    using sealed_prefix_opens[OF assms(1), of cs "length (plain_frames fb (concat chunks))" v d] assms(2) by simp
qed

section \<open>Sizes and ranges\<close>

lemma plain_frames_length:
  assumes "0 < fb"
  shows "length (plain_frames fb p) = length p div fb + (if length p mod fb \<noteq> 0 \<or> p = [] then 1 else 0)"
  using assms
proof (induction fb p rule: plain_frames.induct)
  case (1 fb p)
  show ?case
  proof (cases "fb < length p")
    case True
    then have dm: "length p div fb = Suc ((length p - fb) div fb)" "(length p - fb) mod fb = length p mod fb"
      using 1(2) le_div_geq[of fb "length p"] by (simp_all add: le_mod_geq[of fb "length p", symmetric])
    have "length (plain_frames fb (drop fb p)) = (length p - fb) div fb + (if (length p - fb) mod fb \<noteq> 0 then 1 else 0)"
      using 1 True by simp
    then show ?thesis using True 1(2) by (auto simp: plain_frames_step dm)
  next
    case False
    then show ?thesis using 1(2)
      by (cases "length p = fb") (auto simp: plain_frames_small)
  qed
qed

lemma frame_count_frames:
  assumes "0 < fb"
  shows "frame_count (int (length p)) (int fb) = Inr (int (length (plain_frames fb p)))"
  using assms by (auto simp: frame_count_def plain_frames_length zdiv_zminus1_eq_if zdiv_int zmod_int)

lemma length_concat_sum: "length (concat xs) = sum_list (map length xs)"
  by (induction xs) auto

lemma sum_list_overhead: "sum_list (map (\<lambda>f. length f + n) fs) = length (concat fs) + n * length fs"
  by (induction fs) auto

theorem sealed_size:
  assumes "sealing A key nonces fb (concat chunks)"
  shows "ciphertext_length fb (int (length (concat chunks))) =
           Inr (int (length (concat (fst (cipher_seal A fb nonces (chunks, None) key v)))))"
proof -
  let ?p = "concat chunks"
  obtain h where h: "encode_header (int fb) = Inr h" by (rule sealing_header[OF assms])
  have pos: "0 < fb" by (rule sealing_pos[OF assms])
  let ?ss = "sealed_frames A key nonces v 0 (plain_frames fb ?p)"
  have "map length ?ss = map (\<lambda>f. length f + FRAME_OVERHEAD) (plain_frames fb ?p)"
    using assms by (intro sealed_sizes) (auto simp: sealing_def)
  then have body: "length (concat ?ss) = length ?p + FRAME_OVERHEAD * length (plain_frames fb ?p)"
    by (simp only: length_concat_sum[of ?ss] sum_list_overhead concat_plain_frames)
  define n q r where "n = length ?p" and "q = n div fb" and "r = n mod fb"
  have d: "int n div int fb = int q" "int n mod int fb = int r" by (simp_all add: q_def r_def zdiv_int zmod_int)
  have n: "n = q * fb + r" by (simp add: q_def r_def)
  have "length (plain_frames fb ?p) = q + (if r \<noteq> 0 \<or> n = 0 then 1 else 0)"
    using plain_frames_length[OF pos, of ?p] by (simp add: n_def q_def r_def)
  then have "int (length (concat ?ss)) = int q * (int fb + int FRAME_OVERHEAD) + (if r \<noteq> 0 \<or> n = 0 then int r + int FRAME_OVERHEAD else 0)"
    using body n by (auto simp: n_def[symmetric] algebra_simps)
  then have "ciphertext_size (int n) (int fb) = Inr (int HEADER_BYTES + int (length (concat ?ss)))"
    using pos d by (auto simp: ciphertext_size_def sealed_frame_bytes_def Let_def)
  then show ?thesis
    by (simp add: sealed_object[OF assms h] encode_header_length[OF h] ciphertext_length_def n_def)
qed

lemma take_concat_full:
  assumes "\<forall>f\<in>set (butlast fs). length f = n" and "fs \<noteq> [] \<Longrightarrow> length (last fs) \<le> n"
  shows "take (m * n) (concat fs) = concat (take m fs) \<and> drop (m * n) (concat fs) = concat (drop m fs)"
  using assms
proof (induction fs arbitrary: m)
  case (Cons f fs)
  show ?case
  proof (cases m)
    case (Suc m')
    show ?thesis
    proof (cases "fs = []")
      case True
      then show ?thesis using Cons(3) Suc by simp
    next
      case False
      then have "length f = n" and IH: "take (m' * n) (concat fs) = concat (take m' fs) \<and> drop (m' * n) (concat fs) = concat (drop m' fs)"
        using Cons by auto
      then show ?thesis using Suc by simp
    qed
  qed simp
qed simp

lemma range_span:
  assumes "frames_for_range start len (int fb) (int size_p) = Inr span" and "0 < fb"
  obtains s c where "start = int s" "c = min (nat len) (size_p - s)" "0 < c" "s + c \<le> size_p"
    "fs_first_index span = int (s div fb)" "fs_last_index span = int ((s + c - 1) div fb)"
    "fs_lead_skip span = int (s mod fb)" "fs_take span = int c"
proof -
  have "0 \<le> start" using assms(1) by (auto simp: frames_for_range_def split: if_splits)
  then obtain s where s: "start = int s" using zero_le_imp_eq_int by blast
  define c where "c = min (nat len) (size_p - s)"
  have len: "0 < len" and cl: "0 < min len (max (int size_p - start) 0)"
    using assms(1) by (auto simp: frames_for_range_def Let_def split: if_splits)
  have c: "min len (max (int size_p - start) 0) = int c" using len by (auto simp: c_def s)
  have pos: "0 < c" using cl c by simp
  then have le: "s + c \<le> size_p" by (auto simp: c_def)
  have "int s + int c - 1 = int (s + c - 1)" using pos by simp
  then have l: "(start + int c - 1) div int fb = int ((s + c - 1) div fb)" by (simp only: s zdiv_int)
  have f: "start div int fb = int (s div fb)" by (simp only: s zdiv_int)
  have k: "start - int (s div fb) * int fb = int (s mod fb)"
    by (simp add: s minus_div_mult_eq_mod[symmetric] of_nat_diff flip: of_nat_mult)
  have nz: "\<not> (start < 0 \<or> len \<le> 0)" "\<not> int c \<le> 0" "int fb \<noteq> 0" using s len pos assms(2) by auto
  have sp: "span = \<lparr>fs_first_index = int (s div fb), fs_last_index = int ((s + c - 1) div fb),
      fs_lead_skip = int (s mod fb), fs_take = int c\<rparr>"
    using assms(1) unfolding frames_for_range_def Let_def c by (simp only: nz f l k if_False sum.inject)
  show ?thesis by (rule that[of s c]) (use s c_def pos le sp in auto)
qed

text \<open>The object store answers a range request with that slice of the stored bytes.\<close>

definition byte_slice :: "int \<times> int \<Rightarrow> bytes \<Rightarrow> bytes" where
  "byte_slice r bs = take (nat (snd r)) (drop (nat (fst r)) bs)"

lemma sealed_frame_sizes:
  assumes "sealing A key nonces fb p" and ss: "ss = sealed_frames A key nonces v 0 (plain_frames fb p)"
  shows "take (m * (fb + FRAME_OVERHEAD)) (drop (k * (fb + FRAME_OVERHEAD)) (concat ss)) = concat (take m (drop k ss))"
proof -
  let ?n = "fb + FRAME_OVERHEAD"
  have b: "\<forall>f\<in>set (butlast ss). length f = ?n" and l: "length (last ss) \<le> ?n"
    using sealed_uniform[OF assms] by auto
  have "drop (k * ?n) (concat ss) = concat (drop k ss)" using take_concat_full[OF b] l by blast
  moreover have "\<forall>f\<in>set (butlast (drop k ss)). length f = ?n"
    using b by (metis drop_butlast in_set_dropD)
  then have "take (m * ?n) (concat (drop k ss)) = concat (take m (drop k ss))"
    using take_concat_full[of "drop k ss" ?n m] l by (cases "drop k ss = []") auto
  ultimately show ?thesis by simp
qed

lemma plain_slice:
  assumes "0 < fb"
  shows "concat (take j (drop k (plain_frames fb p))) = take (j * fb) (drop (k * fb) p)"
proof -
  let ?ps = "plain_frames fb p"
  have pl: "\<forall>f\<in>set (butlast ?ps). length f = fb" "length (last ?ps) \<le> fb" using plain_frames_sizes[OF assms, of p] by auto
  have tail: "concat (drop k ?ps) = drop (k * fb) p" using take_concat_full[OF pl(1), of k] pl(2) by simp
  show ?thesis
  proof (cases "drop k ?ps = []")
    case False
    have "\<forall>f\<in>set (butlast (drop k ?ps)). length f = fb"
      using pl(1) by (metis drop_butlast in_set_dropD)
    then show ?thesis using take_concat_full[of "drop k ?ps" fb j] pl(2) False by (simp add: tail)
  qed (use tail in auto)
qed

text \<open>A range that starts in frame \<open>k\<close> and ends in frame \<open>k + l\<close>, read from those frames alone.\<close>

lemma slice_in_frames:
  assumes "0 < fb" and "0 < c" and "s + c \<le> length p" and "k = s div fb" and "(s + c - 1) div fb = k + l"
  shows "take c (drop (s mod fb) (concat (take (Suc l) (drop k (plain_frames fb p))))) = take c (drop s p)"
    and "s mod fb \<le> length (concat (take 1 (drop k (plain_frames fb p))))"
proof -
  have s: "s = k * fb + s mod fb" by (simp add: assms(4))
  have "s + c - 1 < Suc (k + l) * fb" using assms(1,5) by (metis dividend_less_div_times mult_Suc add.commute)
  then have "s mod fb + c \<le> Suc l * fb" using s by (simp add: algebra_simps)
  then show "take c (drop (s mod fb) (concat (take (Suc l) (drop k (plain_frames fb p))))) = take c (drop s p)"
    using s by (simp add: plain_slice[OF assms(1)] drop_take min_def add.commute)
  have "k * fb < length p" using s assms(2,3) by linarith
  then show "s mod fb \<le> length (concat (take 1 (drop k (plain_frames fb p))))"
    unfolding plain_slice[OF assms(1)] using s assms(1-3) by (simp add: less_imp_le)
qed

lemma open_slice:
  assumes "sealing A key nonces fb p" and ss: "ss = sealed_frames A key nonces v 0 (plain_frames fb p)"
    and "concat cs = concat (take (Suc l) (drop k ss))" and "0 < c"
    and "lead \<le> length (concat (take 1 (drop k (plain_frames fb p))))"
  shows "\<exists>out. cipher_open A fb (cs, None) key v
             (Some \<lparr>fs_first_index = int k, fs_last_index = j, fs_lead_skip = int lead, fs_take = int c\<rparr>) = (out, None) \<and>
           concat out = take c (drop lead (concat (take (Suc l) (drop k (plain_frames fb p)))))"
proof -
  let ?ps = "plain_frames fb p" and ?m = "Suc l"
  let ?os = "zip ?ps (replicate (length ?ps - 1) False @ [True])"
  have f: "reader_frames fb [] (cs, None) = (take ?m (drop k ss), None)"
    using chop_sealed[OF assms(1) ss] by (simp add: reader_frames_chop assms(3))
  have "opens_as A key v 0 ss ?os" unfolding ss using assms(1) by (intro opens_as_sealed) (auto simp: sealing_def)
  from opens_as_slice[OF this, of k ?m] have o: "opens_as A key v k (take ?m (drop k ss)) (take ?m (drop k ?os))" by simp
  have fst: "map fst (take ?m (drop k ?os)) = take ?m (drop k ?ps)"
    by (simp add: take_map[symmetric] drop_map[symmetric] Suc_leI)
  then have "lead \<le> length (fst (hd (take ?m (drop k ?os))))" if "take ?m (drop k ?os) \<noteq> []"
    using assms(5) that by (cases "drop k ?ps"; cases "take ?m (drop k ?os)") auto
  from open_range[OF o this assms(4), of False] show ?thesis
    using f assms(1) by (simp only: fst) (auto simp: cipher_open_def reader_frame_size_def sealing_def)
qed

theorem open_seal_range:
  assumes "sealing A key nonces fb (concat chunks)"
    and "frames_for_range start len (int fb) (int (length (concat chunks))) = Inr span"
    and "concat cs = byte_slice (ciphertext_range span (int fb)) (concat (fst (cipher_seal A fb nonces (chunks, None) key v)))"
  shows "\<exists>out. cipher_open A fb (cs, None) key v (Some span) = (out, None) \<and>
           concat out = take (nat len) (drop (nat start) (concat chunks))"
proof -
  let ?p = "concat chunks" and ?n = "fb + FRAME_OVERHEAD"
  have pos: "0 < fb" by (rule sealing_pos[OF assms(1)])
  obtain h where h: "encode_header (int fb) = Inr h" by (rule sealing_header[OF assms(1)])
  obtain s c where sp: "start = int s" "c = min (nat len) (length ?p - s)" "0 < c" "s + c \<le> length ?p"
    "fs_first_index span = int (s div fb)" "fs_last_index span = int ((s + c - 1) div fb)"
    "fs_lead_skip span = int (s mod fb)" "fs_take span = int c"
    by (rule range_span[OF assms(2) pos])
  define k l where "k = s div fb" and "l = (s + c - 1) div fb - k"
  have kl: "(s + c - 1) div fb = k + l" using sp(3) by (simp add: k_def l_def div_le_mono)
  define ss where "ss = sealed_frames A key nonces v 0 (plain_frames fb ?p)"
  have r: "ciphertext_range span (int fb) = (int (HEADER_BYTES + k * ?n), int (Suc l * ?n))"
    using sp(5,6) unfolding kl k_def[symmetric]
    by (simp add: ciphertext_range_def ciphertext_offset_def sealed_frame_bytes_def Let_def algebra_simps)
  have "concat cs = take (Suc l * ?n) (drop (k * ?n) (concat ss))"
    using assms(3) unfolding r by (simp add: byte_slice_def sealed_object[OF assms(1) h] encode_header_length[OF h] ss_def
        nat_add_distrib del: of_nat_add of_nat_mult)
  then have cs: "concat cs = concat (take (Suc l) (drop k ss))"
    by (simp only: sealed_frame_sizes[OF assms(1) ss_def])
  note slice = slice_in_frames[OF pos sp(3,4) k_def kl]
  have "span = \<lparr>fs_first_index = int k, fs_last_index = int (k + l), fs_lead_skip = int (s mod fb), fs_take = int c\<rparr>"
    using sp(5-8) kl k_def by simp
  moreover have "take c (drop s ?p) = take (nat len) (drop s ?p)" using sp(2) by (simp add: min_def)
  ultimately show ?thesis
    using open_slice[OF assms(1) ss_def cs sp(3) slice(2), of "int (k + l)"] slice(1) sp(1) by simp
qed

section \<open>Tampered objects\<close>

text \<open>
  The versions of a file share its key. \<open>sealed_log\<close> is what was ever sealed under it: for every version,
  the associated data and the plaintext of each of its frames. \<open>unforged\<close> is the authenticity AES-GCM
  gives: no frame of a presented object authenticates, as a frame of version \<open>v\<close>, unless that very
  plaintext was sealed with that associated data.
\<close>

definition sealed_log :: "nat \<Rightarrow> (bytes \<times> bytes) list \<Rightarrow> (bytes \<times> bytes) set" where
  "sealed_log fb versions =
     {(a, f). \<exists>(v, p)\<in>set versions. \<exists>i < length (plain_frames fb p).
        a = frame_aad v i (i + 1 = length (plain_frames fb p)) \<and> f = plain_frames fb p ! i}"

definition presented_frames :: "nat \<Rightarrow> bytes list \<Rightarrow> bytes list" where
  "presented_frames d cs =
     (case reader_frame_size d True (cs, None) of
        Inl e \<Rightarrow> []
      | Inr (fb, buffer, source) \<Rightarrow> fst (reader_frames fb buffer source))"

definition unforged :: "aead \<Rightarrow> bytes \<Rightarrow> bytes \<Rightarrow> (bytes \<times> bytes) set \<Rightarrow> bytes list \<Rightarrow> bool" where
  "unforged A key v sealings frames \<longleftrightarrow>
     (\<forall>s\<in>set frames. \<forall>i < 2 ^ 64. \<forall>final d.
        ae_decrypt A key (take NONCE_BYTES s) (drop NONCE_BYTES s) (frame_aad v i final) = Some d \<longrightarrow>
        (frame_aad v i final, d) \<in> sealings)"

lemma frame_aad_inj:
  assumes "frame_aad v i f = frame_aad v' i' f'" and "length v = length v'" and "i < 2 ^ 64" and "i' < 2 ^ 64"
  shows "v = v'" and "i = i'" and "f = f'"
proof -
  have e: "v = v'" "big_endian 8 i = big_endian 8 i'" "f = f'"
    using assms(1,2) by (auto simp: frame_aad_def split: if_splits)
  then show "v = v'" "f = f'" by simp_all
  have read: "foldl (\<lambda>a b. a * 256 + b) 0 (big_endian 8 j) = j" if "j < 2 ^ 64" for j
    by (rule foldl_big_endian) (use that in simp)
  show "i = i'"
    using arg_cong[OF e(2), of "foldl (\<lambda>a b. a * 256 + b) 0"] unfolding read[OF assms(3)] read[OF assms(4)] .
qed

definition version_log :: "nat \<Rightarrow> (bytes \<times> bytes) list \<Rightarrow> bool" where
  "version_log fb versions \<longleftrightarrow> distinct (map fst versions) \<and>
     (\<forall>(v, p)\<in>set versions. length v = 16 \<and> length (plain_frames fb p) \<le> 2 ^ 64)"

lemma log_entry:
  assumes "version_log fb versions" and "(v, p) \<in> set versions" and "i < 2 ^ 64"
    and "(frame_aad v i final, d) \<in> sealed_log fb versions"
  shows "i < length (plain_frames fb p) \<and> d = plain_frames fb p ! i \<and> (final \<longleftrightarrow> i + 1 = length (plain_frames fb p))"
proof -
  obtain v' p' j where j: "(v', p') \<in> set versions" "j < length (plain_frames fb p')" "d = plain_frames fb p' ! j"
    "frame_aad v i final = frame_aad v' j (j + 1 = length (plain_frames fb p'))"
    using assms(4) by (auto simp: sealed_log_def)
  have wf: "length u = 16" "length (plain_frames fb q) \<le> 2 ^ 64" if "(u, q) \<in> set versions" for u q
    using assms(1) that by (auto simp: version_log_def)
  have "length v = length v'" "j < 2 ^ 64" using wf[OF assms(2)] wf[OF j(1)] j(2) by simp_all
  from frame_aad_inj[OF j(4) this(1) assms(3) this(2)] have e: "v = v'" "i = j"
    "final \<longleftrightarrow> j + 1 = length (plain_frames fb p')" by auto
  have "p = p'" using assms(1,2) j(1) e(1) eq_key_imp_eq_value by (fastforce simp: version_log_def)
  then show ?thesis using j e by simp
qed

lemma open_frame_authentic:
  assumes "open_frame A key s v i = Inr (d, final)" and "unforged A key v sealings (s # ss)"
  shows "i < 2 ^ 64 \<and> (frame_aad v i final, d) \<in> sealings"
proof -
  have i: "i < 2 ^ 64"
  proof (rule ccontr)
    assume "\<not> i < 2 ^ 64"
    then have "associated_data v (int i) False = Inl CyberFSError"
      by (simp add: associated_data_def int_to_bytes_def flip: of_nat_less_iff)
    then show False using assms(1) by (simp add: open_frame_def)
  qed
  then have "ae_decrypt A key (take NONCE_BYTES s) (drop NONCE_BYTES s) (frame_aad v i final) = Some d"
    using assms(1) by (auto simp: open_frame_def associated_data_ok split: option.splits)
  then show ?thesis using assms(2) i by (simp add: unforged_def)
qed

lemma open_frames_authentic:
  assumes "version_log fb versions" and "(v, p) \<in> set versions" and "unforged A key v (sealed_log fb versions) ss"
    and "saw \<Longrightarrow> i = length (plain_frames fb p)"
    and "open_frames A key v i None 0 saw ss ending = (out, e)"
  shows "prefix (concat out) (concat (drop i (plain_frames fb p))) \<and>
         (e = None \<longrightarrow> concat out = concat (drop i (plain_frames fb p)))"
  using assms(3-)
proof (induction ss arbitrary: i saw out e)
  case Nil
  then show ?case by (auto split: option.splits if_splits)
next
  case (Cons s ss)
  let ?ps = "plain_frames fb p"
  show ?case
  proof (cases "open_frame A key s v i")
    case (Inr r)
    then obtain d f where r: "open_frame A key s v i = Inr (d, f)" by (cases r) auto
    from open_frame_authentic[OF this Cons(2)] have "i < 2 ^ 64" "(frame_aad v i f, d) \<in> sealed_log fb versions" by auto
    from log_entry[OF assms(1,2) this] have i: "i < length ?ps" "d = ?ps ! i" "f \<longleftrightarrow> i + 1 = length ?ps" by auto
    obtain out' where o: "open_frames A key v (i + 1) None 0 f ss ending = (out', e)"
      and out: "concat out = d @ concat out'"
      using Cons(4) r by (auto simp: prepend_def Let_def split: if_splits) (metis prod.collapse)+
    have "unforged A key v (sealed_log fb versions) ss" using Cons(2) by (simp add: unforged_def)
    from Cons.IH[OF this _ o] have "prefix (concat out') (concat (drop (i + 1) ?ps)) \<and> (e = None \<longrightarrow> concat out' = concat (drop (i + 1) ?ps))"
      using i(3) by blast
    moreover have "drop i ?ps = d # drop (i + 1) ?ps" using i by (simp add: Cons_nth_drop_Suc)
    ultimately show ?thesis using out by simp
  qed (use Cons(4) in auto)
qed

theorem tampered_object:
  assumes "version_log fb versions" and "(v, p) \<in> set versions"
    and "unforged A key v (sealed_log fb versions) (presented_frames d cs)"
    and "cipher_open A d (cs, None) key v None = (out, e)"
  shows "prefix (concat out) p \<and> (e = None \<longrightarrow> concat out = p)"
proof (cases "aes_key key \<and> (\<exists>r. reader_frame_size d True (cs, None) = Inr r)")
  case True
  then obtain fb' b src where r: "reader_frame_size d True (cs, None) = Inr (fb', b, src)" by (metis prod_cases3)
  obtain ss ending where f: "reader_frames fb' b src = (ss, ending)" by (cases "reader_frames fb' b src")
  have "open_frames A key v 0 None 0 False ss ending = (out, e)"
    using assms(4) True r f by (auto simp: cipher_open_def split: if_splits)
  from open_frames_authentic[OF assms(1,2) _ _ this] show ?thesis
    using assms(3) by (simp add: presented_frames_def r f)
next
  case False
  then show ?thesis using assms(4)
    by (cases "reader_frame_size d True (cs, None)") (auto simp: cipher_open_def split: if_splits)
qed

end
