(* ===== verification/KeyProvider.thy ===== *)
theory KeyProvider
  imports Sealing
begin

text \<open>
  Key wrapping under the deployment master key (\<open>adapters/outbound/crypto.py\<close>). Every wrap is an
  AES-GCM encryption under a nonce \<open>os.urandom\<close> has drawn, prepended to the ciphertext; the associated
  data names the layer. SHA-256 (\<open>H\<close>, to hexadecimal) is a parameter.
\<close>

definition ascii :: "string \<Rightarrow> bytes" where
  "ascii s = map of_char s"

definition KEK_ASSOCIATED_DATA :: bytes where "KEK_ASSOCIATED_DATA = ascii ''cyberfs/kek/v1''"
definition DEK_ASSOCIATED_DATA :: bytes where "DEK_ASSOCIATED_DATA = ascii ''cyberfs/dek/v1''"
definition S3_SECRET_ASSOCIATED_DATA :: bytes where "S3_SECRET_ASSOCIATED_DATA = ascii ''cyberfs/s3-secret/v1''"

definition master_key_id :: "(bytes \<Rightarrow> string) \<Rightarrow> bytes \<Rightarrow> string" where
  "master_key_id H key = take 16 (H (ascii ''cyberfs/master-key-id/v1'' @ key))"

record key_provider =
  kp_current :: bytes
  kp_previous :: "bytes option"
  kp_current_id :: string
  kp_previous_id :: "string option"

definition master_key_provider :: "(bytes \<Rightarrow> string) \<Rightarrow> bytes \<Rightarrow> bytes option \<Rightarrow> error + key_provider" where
  "master_key_provider H master_key previous =
     (if length master_key \<noteq> KEY_BYTES then Inl KeyUnavailableError
      else if (case previous of None \<Rightarrow> False | Some p \<Rightarrow> length p \<noteq> KEY_BYTES) then Inl KeyUnavailableError
      else Inr \<lparr>kp_current = master_key, kp_previous = previous, kp_current_id = master_key_id H master_key,
                kp_previous_id = map_option (master_key_id H) previous\<rparr>)"

definition key_for :: "key_provider \<Rightarrow> string \<Rightarrow> error + bytes" where
  "key_for P key_id =
     (if key_id = kp_current_id P then Inr (kp_current P)
      else (case kp_previous P of
              Some p \<Rightarrow> if Some key_id = kp_previous_id P then Inr p else Inl KeyUnavailableError
            | None \<Rightarrow> Inl KeyUnavailableError))"

text \<open>
  \<open>AESGCM(key).encrypt\<close> and \<open>.decrypt\<close> with the nonce in front. The library refuses a key of the wrong
  size and a nonce of fewer than eight bytes with a \<open>ValueError\<close>; \<open>InvalidTag\<close> becomes a missing key.
\<close>

definition gcm_seal :: "aead \<Rightarrow> bytes \<Rightarrow> bytes \<Rightarrow> bytes \<Rightarrow> bytes \<Rightarrow> error + bytes" where
  "gcm_seal A key nonce data aad =
     (if aes_key key then Inr (nonce @ ae_encrypt A key nonce data aad) else Inl CyberFSError)"

definition gcm_unseal :: "aead \<Rightarrow> bytes \<Rightarrow> bytes \<Rightarrow> bytes \<Rightarrow> error + bytes" where
  "gcm_unseal A key wrapped aad =
     (if \<not> aes_key key \<or> length (take NONCE_BYTES wrapped) < 8 then Inl CyberFSError
      else (case ae_decrypt A key (take NONCE_BYTES wrapped) (drop NONCE_BYTES wrapped) aad of
              None \<Rightarrow> Inl KeyUnavailableError
            | Some data \<Rightarrow> Inr data))"

definition wrap_kek :: "aead \<Rightarrow> key_provider \<Rightarrow> bytes \<Rightarrow> bytes \<Rightarrow> error + bytes" where
  "wrap_kek A P nonce kek =
     (if length kek \<noteq> KEY_BYTES then Inl KeyUnavailableError
      else gcm_seal A (kp_current P) nonce kek KEK_ASSOCIATED_DATA)"

definition unwrap_kek :: "aead \<Rightarrow> key_provider \<Rightarrow> bytes \<Rightarrow> string \<Rightarrow> error + bytes" where
  "unwrap_kek A P wrapped key_id =
     (case key_for P key_id of
        Inl e \<Rightarrow> Inl e
      | Inr key \<Rightarrow> gcm_unseal A key wrapped KEK_ASSOCIATED_DATA)"

definition wrap_dek :: "aead \<Rightarrow> bytes \<Rightarrow> bytes \<Rightarrow> bytes \<Rightarrow> error + bytes" where
  "wrap_dek A nonce dek kek =
     (if length dek \<noteq> KEY_BYTES then Inl KeyUnavailableError else gcm_seal A kek nonce dek DEK_ASSOCIATED_DATA)"

definition unwrap_dek :: "aead \<Rightarrow> bytes \<Rightarrow> bytes \<Rightarrow> error + bytes" where
  "unwrap_dek A wrapped kek = gcm_unseal A kek wrapped DEK_ASSOCIATED_DATA"

definition seal_secret :: "aead \<Rightarrow> key_provider \<Rightarrow> bytes \<Rightarrow> bytes \<Rightarrow> error + bytes" where
  "seal_secret A P nonce data = gcm_seal A (kp_current P) nonce data S3_SECRET_ASSOCIATED_DATA"

definition unseal_secret :: "aead \<Rightarrow> key_provider \<Rightarrow> bytes \<Rightarrow> string \<Rightarrow> error + bytes" where
  "unseal_secret A P wrapped key_id =
     (case key_for P key_id of
        Inl e \<Rightarrow> Inl e
      | Inr key \<Rightarrow> gcm_unseal A key wrapped S3_SECRET_ASSOCIATED_DATA)"

section \<open>Round trips\<close>

lemma gcm_roundtrip:
  assumes "aead_law A" and "length nonce = NONCE_BYTES" and "gcm_seal A key nonce data aad = Inr w"
  shows "gcm_unseal A key w aad = Inr data"
  using assms by (auto simp: gcm_seal_def gcm_unseal_def aead_open NONCE_BYTES_def split: if_splits)

lemma gcm_seal_total: "aes_key key \<Longrightarrow> \<exists>w. gcm_seal A key nonce data aad = Inr w"
  by (simp add: gcm_seal_def)

lemma dek_roundtrip:
  assumes "aead_law A" and "length nonce = NONCE_BYTES" and "wrap_dek A nonce dek kek = Inr w"
  shows "unwrap_dek A w kek = Inr dek"
  using assms gcm_roundtrip by (auto simp: wrap_dek_def unwrap_dek_def split: if_splits)

lemma kek_roundtrip:
  assumes "aead_law A" and "length nonce = NONCE_BYTES" and "wrap_kek A P nonce kek = Inr w"
  shows "unwrap_kek A P w (kp_current_id P) = Inr kek"
  using assms gcm_roundtrip by (auto simp: wrap_kek_def unwrap_kek_def key_for_def split: if_splits)

lemma secret_roundtrip:
  assumes "aead_law A" and "length nonce = NONCE_BYTES" and "seal_secret A P nonce data = Inr w"
  shows "unseal_secret A P w (kp_current_id P) = Inr data"
  using assms gcm_roundtrip by (auto simp: seal_secret_def unseal_secret_def key_for_def split: if_splits)

text \<open>
  During a rotation the provider is constructed with the old master key as the previous one: what was
  wrapped before the rotation keeps opening, and what is wrapped from then on opens without it.
\<close>

lemma kek_through_rotation:
  assumes law: "aead_law A" and n: "length nonce = NONCE_BYTES"
    and old: "master_key_provider H k0 prev = Inr P0" and new: "master_key_provider H k1 (Some k0) = Inr P1"
    and ids: "master_key_id H k0 = master_key_id H k1 \<Longrightarrow> k0 = k1"
    and w: "wrap_kek A P0 nonce kek = Inr w"
  shows "unwrap_kek A P1 w (kp_current_id P0) = Inr kek"
proof -
  have P0: "kp_current P0 = k0" "kp_current_id P0 = master_key_id H k0"
    and P1: "kp_current P1 = k1" "kp_current_id P1 = master_key_id H k1" "kp_previous P1 = Some k0"
      "kp_previous_id P1 = Some (master_key_id H k0)"
    using old new by (auto simp: master_key_provider_def split: if_splits)
  have "key_for P1 (kp_current_id P0) = Inr k0" using ids by (auto simp: key_for_def P0 P1)
  moreover have "gcm_seal A k0 nonce kek KEK_ASSOCIATED_DATA = Inr w"
    using w by (auto simp: wrap_kek_def P0 split: if_splits)
  ultimately show ?thesis using gcm_roundtrip[OF law n] by (simp add: unwrap_kek_def)
qed

text \<open>The layers never share associated data.\<close>

lemma layers_distinct:
  "distinct [KEK_ASSOCIATED_DATA, DEK_ASSOCIATED_DATA, S3_SECRET_ASSOCIATED_DATA]"
  by (simp add: KEK_ASSOCIATED_DATA_def DEK_ASSOCIATED_DATA_def S3_SECRET_ASSOCIATED_DATA_def ascii_def)

end
