(* ===== verification/RateLimit.thy ===== *)
theory RateLimit
  imports Prelude Errors
begin

text \<open>
  Fixed-window rate limiting (\<open>domain/ratelimit.py\<close>). The dictionary of windows is a list of pairs with
  one entry per key, in insertion order.
\<close>

record rate_window =
  rw_started_at :: datetime
  rw_count :: int

record limiter =
  li_limit :: int
  li_window :: timedelta
  li_windows :: "(string \<times> rate_window) list"

definition limiter_enabled :: "limiter \<Rightarrow> bool" where
  "limiter_enabled l \<longleftrightarrow> li_limit l > 0"

definition window_put :: "string \<Rightarrow> rate_window \<Rightarrow> (string \<times> rate_window) list \<Rightarrow> (string \<times> rate_window) list" where
  "window_put key v ws = (if map_of ws key = None then ws @ [(key, v)] else map (\<lambda>(k, x). (k, if k = key then v else x)) ws)"

definition rolled_over :: "limiter \<Rightarrow> datetime \<Rightarrow> rate_window \<Rightarrow> bool" where
  "rolled_over l now win \<longleftrightarrow> now - rw_started_at win \<ge> li_window l"

definition record_event :: "string \<Rightarrow> datetime \<Rightarrow> limiter \<Rightarrow> limiter" where
  "record_event key now l =
     (if \<not> limiter_enabled l then l
      else (case map_of (li_windows l) key of
              None \<Rightarrow> l\<lparr>li_windows := window_put key \<lparr>rw_started_at = now, rw_count = 1\<rparr> (li_windows l)\<rparr>
            | Some win \<Rightarrow>
                if rolled_over l now win
                then l\<lparr>li_windows := window_put key \<lparr>rw_started_at = now, rw_count = 1\<rparr> (li_windows l)\<rparr>
                else l\<lparr>li_windows := window_put key
                        \<lparr>rw_started_at = rw_started_at win, rw_count = rw_count win + 1\<rparr> (li_windows l)\<rparr>))"

definition is_limited :: "limiter \<Rightarrow> string \<Rightarrow> datetime \<Rightarrow> bool" where
  "is_limited l key now =
     (if \<not> limiter_enabled l then False
      else (case map_of (li_windows l) key of
              None \<Rightarrow> False
            | Some win \<Rightarrow> if rolled_over l now win then False else rw_count win \<ge> li_limit l))"

definition retry_after :: "limiter \<Rightarrow> string \<Rightarrow> datetime \<Rightarrow> timedelta" where
  "retry_after l key now =
     (case map_of (li_windows l) key of
        None \<Rightarrow> 0
      | Some win \<Rightarrow> if \<not> is_limited l key now then 0 else max (rw_started_at win + li_window l - now) 0)"

definition reset_key :: "string \<Rightarrow> limiter \<Rightarrow> limiter" where
  "reset_key key l = l\<lparr>li_windows := filter (\<lambda>(k, _). k \<noteq> key) (li_windows l)\<rparr>"

definition evict_expired :: "datetime \<Rightarrow> limiter \<Rightarrow> nat \<times> limiter" where
  "evict_expired now l =
     (let stale = filter (\<lambda>(_, win). rolled_over l now win) (li_windows l) in
      (length stale, l\<lparr>li_windows := filter (\<lambda>(k, _). k \<notin> fst ` set stale) (li_windows l)\<rparr>))"

section \<open>What the limiter enforces\<close>

lemma map_of_window_put: "map_of (window_put key v ws) k = (if k = key then Some v else map_of ws k)"
proof (cases "map_of ws key")
  case None
  then show ?thesis by (auto simp: window_put_def map_add_def split: option.splits)
next
  case (Some x)
  have "map_of (map (\<lambda>(k, x). (k, if k = key then v else x)) ws) k = (if k = key \<and> map_of ws key \<noteq> None then Some v else map_of ws k)"
    by (induction ws) auto
  then show ?thesis using Some by (simp add: window_put_def)
qed

lemma record_event_params [simp]:
  "li_limit (record_event key now l) = li_limit l" "li_window (record_event key now l) = li_window l"
  by (simp_all add: record_event_def split: option.splits)

lemma fold_record_params [simp]:
  "li_limit (fold (\<lambda>t. record_event key t) ts l) = li_limit l" "li_window (fold (\<lambda>t. record_event key t) ts l) = li_window l"
  by (induction ts arbitrary: l) auto

text \<open>
  Events of one key, all inside the window that the first of them opened, are counted one by one.
\<close>

lemma counted_in_window:
  assumes "0 < li_limit l" "map_of (li_windows l) key = Some win" "\<forall>t\<in>set ts. t - rw_started_at win < li_window l"
  shows "map_of (li_windows (fold (\<lambda>t. record_event key t) ts l)) key = Some (win\<lparr>rw_count := rw_count win + int (length ts)\<rparr>)"
  using assms
proof (induction ts arbitrary: l win)
  case (Cons t ts)
  have "map_of (li_windows (record_event key t l)) key = Some \<lparr>rw_started_at = rw_started_at win, rw_count = rw_count win + 1\<rparr>"
    using Cons(2-) by (simp add: record_event_def limiter_enabled_def rolled_over_def map_of_window_put)
  from Cons.IH[OF _ this] Cons(2,4) show ?case by simp
qed simp

lemma limited_after_events:
  assumes lim: "0 < li_limit l" and fresh: "case map_of (li_windows l) key of None \<Rightarrow> True | Some win \<Rightarrow> rolled_over l t win"
    and ts: "\<forall>s\<in>set ts. s - t < li_window l" and now: "now - t < li_window l"
  shows "is_limited (fold (\<lambda>t. record_event key t) (t # ts) l) key now \<longleftrightarrow> li_limit l \<le> int (Suc (length ts))"
proof -
  let ?l = "record_event key t l"
  have "map_of (li_windows ?l) key = Some \<lparr>rw_started_at = t, rw_count = 1\<rparr>"
    using lim fresh by (auto simp: record_event_def limiter_enabled_def map_of_window_put split: option.splits)
  from counted_in_window[OF _ this, of ts] show ?thesis
    using lim ts now by (simp add: is_limited_def limiter_enabled_def rolled_over_def)
qed

text \<open>A key's events never limit another key.\<close>

lemma record_other_key: "k \<noteq> key \<Longrightarrow> is_limited (record_event key t l) k now = is_limited l k now"
  by (simp add: is_limited_def record_event_def limiter_enabled_def rolled_over_def map_of_window_put split: option.splits)

text \<open>Dropping windows that have rolled over changes no decision from then on.\<close>

lemma evict_keeps_decisions:
  assumes "now \<le> later" "distinct (map fst (li_windows l))"
  shows "is_limited (snd (evict_expired now l)) key later = is_limited l key later"
proof -
  let ?ws = "li_windows l"
  define S where "S = fst ` set (filter (\<lambda>(_, win). rolled_over l now win) ?ws)"
  have e: "snd (evict_expired now l) = l\<lparr>li_windows := filter (\<lambda>(k, _). k \<notin> S) ?ws\<rparr>"
    by (simp add: evict_expired_def S_def Let_def)
  have m: "map_of (filter (\<lambda>(k, _). k \<notin> S) ws) key = (if key \<in> S then None else map_of ws key)" for ws :: "(string \<times> rate_window) list"
    by (induction ws) auto
  show ?thesis
  proof (cases "key \<in> S")
    case True
    then obtain win where w: "(key, win) \<in> set ?ws" "rolled_over l now win" by (auto simp: S_def)
    then have "map_of ?ws key = Some win" using assms(2) by simp
    moreover have "rolled_over l later win" using w(2) assms(1) by (simp add: rolled_over_def)
    ultimately show ?thesis using True unfolding e by (simp add: m is_limited_def limiter_enabled_def)
  next
    case False
    then show ?thesis unfolding e
      by (simp add: m is_limited_def limiter_enabled_def rolled_over_def cong: option.case_cong)
  qed
qed

section \<open>The interface its clients rely on\<close>

text \<open>A throttle notes events and blocks keys; events of other keys make no difference to a key.\<close>

locale throttle =
  fixes note_event :: "'k \<Rightarrow> datetime \<Rightarrow> 's \<Rightarrow> 's" and blocked :: "'s \<Rightarrow> 'k \<Rightarrow> datetime \<Rightarrow> bool"
  assumes other_key: "k \<noteq> key \<Longrightarrow> blocked (note_event key t s) k now = blocked s k now"
begin

lemma other_events: "k \<notin> fst ` set evs \<Longrightarrow> blocked (fold (\<lambda>(key, t). note_event key t) evs s) k now = blocked s k now"
  by (induction evs arbitrary: s) (auto simp: other_key)

end

interpretation fw: throttle record_event is_limited
  by unfold_locales (rule record_other_key)

end
