(* ===== verification/Links.thy ===== *)
theory Links
  imports Pagination Framing
begin

text \<open>
  Public-link secrets (\<open>domain/links.py\<close>). The digests are parameters: \<open>H\<close> is the hexadecimal SHA-256 of
  a byte string and \<open>D\<close> is scrypt with the module's cost parameters, from a passphrase and a salt to the
  derived key. The random bytes of \<open>secrets\<close> are arguments.
\<close>

definition TOKEN_BYTES :: nat where "TOKEN_BYTES = 32"
definition SCRYPT_SALT_BYTES :: nat where "SCRYPT_SALT_BYTES = 16"

text \<open>\<open>secrets.token_urlsafe\<close>: the URL-safe base64 of the random bytes without its padding.\<close>

definition token_urlsafe :: "bytes \<Rightarrow> string" where
  "token_urlsafe rnd = rev (dropWhile (\<lambda>c. c = CHR ''='') (rev (urlsafe_b64encode rnd)))"

definition generate_token :: "bytes \<Rightarrow> string" where
  "generate_token rnd = token_urlsafe rnd"

definition hash_token :: "(bytes \<Rightarrow> string) \<Rightarrow> string \<Rightarrow> string" where
  "hash_token H token = H (utf8_encode token)"

definition verify_token :: "(bytes \<Rightarrow> string) \<Rightarrow> string \<Rightarrow> string \<Rightarrow> bool" where
  "verify_token H token stored_hash \<longleftrightarrow> hash_token H token = stored_hash"

definition bytes_hex :: "bytes \<Rightarrow> string" where
  "bytes_hex bs = concat (map (hex_digits 2) bs)"

text \<open>\<open>bytes.fromhex\<close>: pairs of hexadecimal digits of either case, with white space between pairs.\<close>

definition hex_value :: "char \<Rightarrow> nat option" where
  "hex_value c =
     (let n = of_char c :: nat in
      if 48 \<le> n \<and> n \<le> 57 then Some (n - 48)
      else if 97 \<le> n \<and> n \<le> 102 then Some (n - 87)
      else if 65 \<le> n \<and> n \<le> 70 then Some (n - 55) else None)"

definition hex_space :: "char \<Rightarrow> bool" where
  "hex_space c \<longleftrightarrow> (let n = of_char c :: nat in n = 32 \<or> (9 \<le> n \<and> n \<le> 13))"

fun bytes_fromhex :: "string \<Rightarrow> bytes option" where
  "bytes_fromhex [] = Some []"
| "bytes_fromhex (c # cs) =
     (if hex_space c then bytes_fromhex cs
      else
       (case cs of
          [] \<Rightarrow> None
        | e # rest \<Rightarrow>
           (case (hex_value c, hex_value e) of
              (Some a, Some b) \<Rightarrow> (case bytes_fromhex rest of None \<Rightarrow> None | Some bs \<Rightarrow> Some ((16 * a + b) # bs))
            | _ \<Rightarrow> None)))"

definition derive :: "(bytes \<Rightarrow> bytes \<Rightarrow> bytes) \<Rightarrow> string \<Rightarrow> bytes \<Rightarrow> bytes" where
  "derive D passphrase salt = D (utf8_encode passphrase) salt"

definition hash_passphrase :: "(bytes \<Rightarrow> bytes \<Rightarrow> bytes) \<Rightarrow> bytes \<Rightarrow> string \<Rightarrow> string" where
  "hash_passphrase D salt passphrase =
     ''scrypt$'' @ bytes_hex salt @ ''$'' @ bytes_hex (derive D passphrase salt)"

text \<open>\<open>stored.split("$", 2)\<close> has three parts unless there are fewer than two separators.\<close>

definition verify_passphrase :: "(bytes \<Rightarrow> bytes \<Rightarrow> bytes) \<Rightarrow> string \<Rightarrow> string \<Rightarrow> bool" where
  "verify_passphrase D passphrase stored =
     (case partition_at (CHR ''$'') stored of (scheme, first, rest) \<Rightarrow>
      (case partition_at (CHR ''$'') rest of (salt_hex, second, key_hex) \<Rightarrow>
        if \<not> first \<or> \<not> second then False
        else if scheme \<noteq> ''scrypt'' then False
        else (case (bytes_fromhex salt_hex, bytes_fromhex key_hex) of
                (Some salt, Some expected) \<Rightarrow> derive D passphrase salt = expected
              | _ \<Rightarrow> False)))"

section \<open>Checking what was stored\<close>

lemma hex_value_digit: "n < 16 \<Longrightarrow> hex_value (digit n) = Some n"
  by (simp add: hex_value_def digit_def)

lemma digit_not_space: "n < 16 \<Longrightarrow> \<not> hex_space (digit n)"
  by (simp add: digit_def hex_space_def Let_def)

lemma hex_byte: "hex_digits 2 b = [digit (b div 16 mod 16), digit (b mod 16)]"
  by (simp add: numeral_2_eq_2)

lemma fromhex_hex:
  assumes "is_bytes bs"
  shows "bytes_fromhex (bytes_hex bs) = Some bs"
  using assms
proof (induction bs)
  case (Cons b bs)
  have b: "b < 256" and bs: "is_bytes bs" using Cons(2) by (auto simp: is_bytes_def)
  have h: "b div 16 < 16" using b by simp
  have "b div 16 mod 16 = b div 16" using b by simp
  moreover have "16 * (b div 16) + b mod 16 = b" by simp
  ultimately show ?case
    using Cons.IH[OF bs] digit_not_space[OF h] h
    by (simp add: bytes_hex_def hex_byte hex_value_digit)
qed (simp add: bytes_hex_def)

lemma dollar_not_hex: "CHR ''$'' \<notin> set (bytes_hex bs)"
proof -
  have "digit n \<noteq> CHR ''$''" if "n < 16" for n
  proof
    assume "digit n = CHR ''$''"
    then have "(of_char (digit n) :: nat) = 36" by simp
    then show False using that by (auto simp: digit_def split: if_splits)
  qed
  then have "CHR ''$'' \<notin> set (hex_digits 2 b)" for b
    unfolding hex_byte by (metis empty_iff empty_set mod_less_divisor set_ConsD zero_less_numeral)
  then show ?thesis by (simp add: bytes_hex_def)
qed

lemma passphrase_verifies:
  assumes "is_bytes salt" "\<forall>p s. is_bytes (D p s)"
  shows "verify_passphrase D passphrase (hash_passphrase D salt passphrase)"
proof -
  have "partition_at (CHR ''$'') (hash_passphrase D salt passphrase) =
      (''scrypt'', True, bytes_hex salt @ ''$'' @ bytes_hex (derive D passphrase salt))"
    using partition_at_append[of "CHR ''$''" "''scrypt''"] by (simp add: hash_passphrase_def)
  moreover have "partition_at (CHR ''$'') (bytes_hex salt @ ''$'' @ bytes_hex (derive D passphrase salt)) =
      (bytes_hex salt, True, bytes_hex (derive D passphrase salt))"
    using partition_at_append[OF dollar_not_hex] by simp
  ultimately show ?thesis using assms by (simp add: verify_passphrase_def fromhex_hex derive_def)
qed

end
