(* ===== verification/World.thy ===== *)
theory World
  imports Repositories KeyProvider RateLimit Links
begin

text \<open>
  The state a use case runs in, the unit of work around it (\<open>unit_of_work.py\<close>), audit emission
  (\<open>application/auditing.py\<close>) and the cache service (\<open>application/caching.py\<close>).

  The state holds the database, the object store (a map from keys to bytes and the
  time they were written), the cache, the clock that
  \<open>utcnow\<close> reads, the stream of identifiers that \<open>uuid.uuid4\<close> draws from and the stream of bytes that
  \<open>os.urandom\<close> draws from, and the windows in which the sharing service counts failed passphrases. The
  database alone is transactional. A use case runs without interleaving, so the clock stands still during it and the
  in-flight table of the cache service, which coalesces concurrent loads, is empty whenever it starts.
\<close>

record stored_object =
  so_bytes :: bytes
  so_modified :: "datetime option"

type_synonym object_table = "(string \<times> stored_object) list"

record world =
  w_db :: db
  w_objects :: object_table
  w_cache :: cache_state
  w_clock :: datetime
  w_uuids :: "nat \<Rightarrow> uuid"
  w_drawn :: nat
  w_entropy :: "nat \<Rightarrow> nat"
  w_spent :: nat
  w_attempts :: "(string \<times> rate_window) list"

type_synonym 'a use_case = "(world, error, 'a) op"

text \<open>What the services are constructed with (\<open>Settings\<close>), and the parameters of the model.\<close>

record encryption_config =
  ec_provider :: key_provider
  ec_frame_bytes :: nat
  ec_default_on :: bool

record config =
  cf_text :: text_rules
  cf_sha256 :: "bytes \<Rightarrow> string"
  cf_glob :: "string \<Rightarrow> string \<Rightarrow> bool"
  cf_max_tree_depth :: nat
  cf_page_size_max :: nat
  cf_trash_retention_days :: int
  cf_cache_enabled :: bool
  cf_cache_schema :: int
  cf_cache_policy :: cache_policy
  cf_aead :: aead
  cf_encryption :: "encryption_config option"
  cf_max_upload_bytes :: int
  cf_version_retention :: nat
  cf_part_bytes :: nat
  cf_scrypt :: "bytes \<Rightarrow> bytes \<Rightarrow> bytes"
  cf_find_subject :: "string \<Rightarrow> string list \<Rightarrow> error + string option"
  cf_passphrase_attempts :: int
  cf_rewrap_threshold :: int

definition cf_sha256_hex :: "config \<Rightarrow> string \<Rightarrow> string" where
  "cf_sha256_hex C s = cf_sha256 C (utf8_encode s)"

definition qdb :: "(db \<Rightarrow> 'a) \<Rightarrow> 'a use_case" where
  "qdb f = query (\<lambda>w. f (w_db w))"

definition mdb :: "(db \<Rightarrow> db) \<Rightarrow> unit use_case" where
  "mdb f = modify (\<lambda>w. w\<lparr>w_db := f (w_db w)\<rparr>)"

definition rundb :: "(db, error, 'a) op \<Rightarrow> 'a use_case" where
  "rundb m = (\<lambda>w. case m (w_db w) of (r, d) \<Rightarrow> (r, w\<lparr>w_db := d\<rparr>))"

definition stepdb :: "(db \<Rightarrow> 'a \<times> db) \<Rightarrow> 'a use_case" where
  "stepdb f = (\<lambda>w. case f (w_db w) of (x, d) \<Rightarrow> (Inr x, w\<lparr>w_db := d\<rparr>))"

definition uuid4 :: "uuid use_case" where
  "uuid4 = (\<lambda>w. (Inr (w_uuids w (w_drawn w)), w\<lparr>w_drawn := w_drawn w + 1\<rparr>))"

definition urandom :: "nat \<Rightarrow> bytes use_case" where
  "urandom n = (\<lambda>w. (Inr (map (\<lambda>i. w_entropy w (w_spent w + i)) [0..<n]), w\<lparr>w_spent := w_spent w + n\<rparr>))"

definition moment_of :: "datetime option \<Rightarrow> datetime use_case" where
  "moment_of now = query (\<lambda>w. case now of None \<Rightarrow> w_clock w | Some t \<Rightarrow> t)"

definition objects_delete :: "string \<Rightarrow> unit use_case" where
  "objects_delete key = modify (\<lambda>w. w\<lparr>w_objects := filter (\<lambda>(k, _). k \<noteq> key) (w_objects w)\<rparr>)"

section \<open>Unit of work\<close>

text \<open>
  The unique constraints whose violation the unit of work translates (\<open>_CONSTRAINT_ERRORS\<close>). The others,
  the subject of a user, the token hash of a link and the identifier of an upload, are not checked here:
  the services look the value up first or draw it at random, so that without interleaving they fail on a
  collision of random values only.
\<close>

definition sibling_names_unique :: "text_rules \<Rightarrow> node list \<Rightarrow> bool" where
  "sibling_names_unique T rows \<longleftrightarrow>
     distinct (map (\<lambda>r. (nd_parent_id r, normalized_name T r))
       (filter (\<lambda>r. \<not> is_deleted r \<and> nd_parent_id r \<noteq> None) rows))"

definition integrity_error :: "text_rules \<Rightarrow> db \<Rightarrow> error option" where
  "integrity_error T d =
     (if \<not> sibling_names_unique T (db_nodes d) then Some NameTakenError
      else if \<not> distinct (map (\<lambda>g. (gr_node_id g, gr_subject g)) (db_grants d)) then Some ConflictError
      else if \<not> distinct (map (\<lambda>k. (dk_node_id k, dk_subject k)) (db_data_keys d)) then Some ConflictError
      else if \<not> distinct (map (\<lambda>v. (fv_node_id v, fv_sequence v)) (db_versions d)) then Some ConflictError
      else None)"

definition flush :: "config \<Rightarrow> unit use_case" where
  "flush C = bind (qdb (integrity_error (cf_text C)))
     (\<lambda>e. case e of None \<Rightarrow> ret () | Some err \<Rightarrow> raise err)"

text \<open>
  A request: the use case inside its unit of work, then the commit. An exception rolls the database
  back; objects, cache and drawn identifiers are outside the transaction.
\<close>

definition transaction :: "config \<Rightarrow> 'a use_case \<Rightarrow> 'a use_case" where
  "transaction C m w =
     (case bind m (\<lambda>x. bind (flush C) (\<lambda>_. ret x)) w of
        (Inr x, w') \<Rightarrow> (Inr x, w')
      | (Inl e, w') \<Rightarrow> (Inl e, w'\<lparr>w_db := w_db w\<rparr>))"

text \<open>
  \<open>lock_subtree\<close> takes a transaction-scoped advisory lock; with one use case at a time it has no
  effect on the state. \<open>lock_key\<close> folds an identifier into the signed 32-bit space of such locks.
\<close>

definition lock_key :: "uuid \<Rightarrow> int" where
  "lock_key nid = int nid mod (2 ^ 31 - 1) - 2 ^ 30"

definition lock_subtree :: "uuid \<Rightarrow> unit use_case" where
  "lock_subtree nid = ret ()"

section \<open>Auditing\<close>

definition emit_audit :: "audit_record \<Rightarrow> unit use_case" where
  "emit_audit a = mdb (audit_add a)"

definition emit_denial :: "string \<Rightarrow> uuid \<Rightarrow> datetime option \<Rightarrow> unit use_case" where
  "emit_denial actor nid when =
     bind (moment_of when) (\<lambda>t. emit_audit (audit_of AUTH_DENIED t actor (Some (uuid_str nid)) []))"

definition authorize_or_record ::
  "string \<Rightarrow> uuid \<Rightarrow> role option \<Rightarrow> role \<Rightarrow> datetime option \<Rightarrow> role use_case" where
  "authorize_or_record actor nid effective minimum when =
     (case require_role effective minimum of
        Inr r \<Rightarrow> ret r
      | Inl e \<Rightarrow> seq (emit_denial actor nid when) (raise e))"

section \<open>Cache service\<close>

definition run_cache :: "'a cache_op \<Rightarrow> 'a use_case" where
  "run_cache m = (\<lambda>w. case m (w_cache w) of (r, c) \<Rightarrow> (r, w\<lparr>w_cache := c\<rparr>))"

definition cache_read :: "string \<Rightarrow> int option use_case" where
  "cache_read key = (\<lambda>w. case cache_get (w_clock w) key (w_cache w) of (v, c) \<Rightarrow> (Inr v, w\<lparr>w_cache := c\<rparr>))"

definition cache_write :: "string \<Rightarrow> int \<Rightarrow> timedelta \<Rightarrow> unit use_case" where
  "cache_write key v ttl = modify (\<lambda>w. w\<lparr>w_cache := cache_set (w_clock w) key v ttl (w_cache w)\<rparr>)"

definition get_or_load :: "config \<Rightarrow> dataset \<Rightarrow> string list \<Rightarrow> int use_case \<Rightarrow> int use_case" where
  "get_or_load C ds parts load =
     (let key = cache_key (cf_cache_schema C) ds parts in
      bind (cache_read key) (\<lambda>cached. case cached of
        Some v \<Rightarrow> ret v
      | None \<Rightarrow> bind load (\<lambda>v. seq (cache_write key v (ttl_for (cf_cache_policy C) ds)) (ret v))))"

text \<open>
  \<open>_invalidate\<close> and \<open>_invalidate_prefix\<close>: a reachable cache that refuses fails the write; one that the
  breaker already holds to be down is passed over.
\<close>

definition tolerate_outage :: "'a cache_op \<Rightarrow> unit use_case" where
  "tolerate_outage m w =
     (case m (w_cache w) of
        (Inr _, c) \<Rightarrow> (Inr (), w\<lparr>w_cache := c\<rparr>)
      | (Inl _, c) \<Rightarrow>
         (case cache_available (w_clock w) c of
            (ok, c') \<Rightarrow> (if ok then Inl DependencyUnavailableError else Inr (), w\<lparr>w_cache := c'\<rparr>)))"

definition invalidate_keys :: "string list \<Rightarrow> unit use_case" where
  "invalidate_keys keys w =
     (if keys = [] then (Inr (), w) else tolerate_outage (cache_delete (w_clock w) keys) w)"

definition invalidate_prefix :: "config \<Rightarrow> string \<Rightarrow> unit use_case" where
  "invalidate_prefix C pre w = tolerate_outage (cache_delete_prefix (cf_glob C) (w_clock w) pre) w"

definition permission :: "config \<Rightarrow> string \<Rightarrow> uuid \<Rightarrow> role option use_case \<Rightarrow> role option use_case" where
  "permission C subject nid load =
     bind (get_or_load C PERMISSION [subject, uuid_str nid]
             (bind load (\<lambda>r. ret (case r of None \<Rightarrow> 0 | Some x \<Rightarrow> ordinal x))))
       (\<lambda>n. if n = 0 then ret None
             else (case role_of_ordinal n of None \<Rightarrow> raise CyberFSError | Some r \<Rightarrow> ret (Some r)))"

definition invalidate_permissions :: "config \<Rightarrow> string \<Rightarrow> uuid \<Rightarrow> unit use_case" where
  "invalidate_permissions C subject nid =
     invalidate_keys [cache_key (cf_cache_schema C) PERMISSION [subject, uuid_str nid]]"

definition invalidate_permissions_for_subject :: "config \<Rightarrow> string \<Rightarrow> unit use_case" where
  "invalidate_permissions_for_subject C subject =
     invalidate_prefix C (dataset_prefix (cf_cache_schema C) PERMISSION @ subject @ '':'')"

definition invalidate_all_permissions :: "config \<Rightarrow> unit use_case" where
  "invalidate_all_permissions C = invalidate_prefix C (dataset_prefix (cf_cache_schema C) PERMISSION)"

definition invalidate_listing :: "config \<Rightarrow> uuid option \<Rightarrow> unit use_case" where
  "invalidate_listing C parent =
     (case parent of
        None \<Rightarrow> ret ()
      | Some p \<Rightarrow> invalidate_prefix C (dataset_prefix (cf_cache_schema C) LISTING @ uuid_str p @ '':''))"

definition invalidate_node :: "config \<Rightarrow> uuid \<Rightarrow> unit use_case" where
  "invalidate_node C nid = invalidate_keys [cache_key (cf_cache_schema C) METADATA [uuid_str nid]]"

definition invalidate_quota :: "config \<Rightarrow> uuid \<Rightarrow> unit use_case" where
  "invalidate_quota C uid = invalidate_keys [cache_key (cf_cache_schema C) QUOTA [uuid_str uid]]"

definition on_node_mutated :: "config \<Rightarrow> uuid \<Rightarrow> uuid option \<Rightarrow> uuid option \<Rightarrow> unit use_case" where
  "on_node_mutated C nid old_parent new_parent =
     seq (invalidate_node C nid)
    (seq (invalidate_listing C old_parent)
         (if new_parent \<noteq> old_parent then invalidate_listing C new_parent else ret ()))"

definition cache_purge :: "config \<Rightarrow> dataset \<Rightarrow> nat use_case" where
  "cache_purge C ds w =
     (case cache_delete_prefix (cf_glob C) (w_clock w) (dataset_prefix (cf_cache_schema C) ds) (w_cache w) of
        (Inr n, c) \<Rightarrow> (Inr n, w\<lparr>w_cache := c\<rparr>)
      | (Inl _, c) \<Rightarrow> (Inr 0, w\<lparr>w_cache := c\<rparr>))"

section \<open>Lemmas\<close>

lemma qdb_run [simp, run_simps]: "qdb f w = (Inr (f (w_db w)), w)"
  by (simp add: qdb_def)

lemma mdb_run [simp, run_simps]: "mdb f w = (Inr (), w\<lparr>w_db := f (w_db w)\<rparr>)"
  by (simp add: mdb_def)

lemma qdb_ok: "qdb f w = (Inr x, w') \<longleftrightarrow> x = f (w_db w) \<and> w' = w"
  by auto

lemma mdb_ok: "mdb f w = (Inr x, w') \<longleftrightarrow> w' = w\<lparr>w_db := f (w_db w)\<rparr>"
  by auto

lemma rundb_ok: "rundb m w = (Inr x, w') \<longleftrightarrow> (\<exists>d. m (w_db w) = (Inr x, d) \<and> w' = w\<lparr>w_db := d\<rparr>)"
  by (auto simp: rundb_def split: prod.splits)

lemma stepdb_ok: "stepdb f w = (Inr x, w') \<longleftrightarrow> (\<exists>d. f (w_db w) = (x, d) \<and> w' = w\<lparr>w_db := d\<rparr>)"
  by (auto simp: stepdb_def split: prod.splits)

lemma uuid4_ok: "uuid4 w = (Inr x, w') \<longleftrightarrow> x = w_uuids w (w_drawn w) \<and> w' = w\<lparr>w_drawn := w_drawn w + 1\<rparr>"
  by (auto simp: uuid4_def)

lemma moment_ok: "moment_of now w = (Inr t, w') \<longleftrightarrow> t = (case now of None \<Rightarrow> w_clock w | Some t \<Rightarrow> t) \<and> w' = w"
  by (auto simp: moment_of_def)

lemma flush_ok: "flush C w = (Inr x, w') \<longleftrightarrow> integrity_error (cf_text C) (w_db w) = None \<and> w' = w"
  by (auto simp: flush_def bind_run split: option.splits)

lemma lock_ok: "lock_subtree n w = (Inr x, w') \<longleftrightarrow> w' = w"
  by (auto simp: lock_subtree_def)

lemma emit_audit_ok: "emit_audit a w = (Inr x, w') \<longleftrightarrow> w' = w\<lparr>w_db := audit_add a (w_db w)\<rparr>"
  by (auto simp: emit_audit_def)

lemma authorize_ok:
  "authorize_or_record actor nid eff minimum when w = (Inr r, w') \<longleftrightarrow>
     eff = Some r \<and> minimum \<le> r \<and> w' = w"
  by (auto simp: authorize_or_record_def require_role_ok require_role_err op_ok split: sum.splits)

lemma integrity_ok:
  "integrity_error T d = None \<Longrightarrow> sibling_names_unique T (db_nodes d)"
  by (auto simp: integrity_error_def split: if_splits)

lemmas world_ok = op_ok qdb_ok mdb_ok rundb_ok stepdb_ok uuid4_ok moment_ok flush_ok lock_ok emit_audit_ok authorize_ok

text \<open>The cache service never touches the database, the objects or the identifiers.\<close>

definition same_store :: "world \<Rightarrow> world \<Rightarrow> bool" where
  "same_store w w' \<longleftrightarrow> w_db w' = w_db w \<and> w_objects w' = w_objects w \<and> w_clock w' = w_clock w \<and>
     w_uuids w' = w_uuids w \<and> w_drawn w' = w_drawn w \<and>
     w_entropy w' = w_entropy w \<and> w_spent w' = w_spent w \<and> w_attempts w' = w_attempts w"

lemma same_store_refl [simp]: "same_store w w"
  by (simp add: same_store_def)

lemma same_store_trans: "same_store a b \<Longrightarrow> same_store b c \<Longrightarrow> same_store a c"
  by (simp add: same_store_def)

lemma same_store_cache [simp]: "same_store w (w\<lparr>w_cache := c\<rparr>)"
  by (simp add: same_store_def)

lemma tolerate_store: "tolerate_outage m w = (r, w') \<Longrightarrow> same_store w w'"
  by (auto simp: tolerate_outage_def split: prod.splits sum.splits)

lemma invalidate_keys_store: "invalidate_keys ks w = (r, w') \<Longrightarrow> same_store w w'"
  by (auto simp: invalidate_keys_def dest: tolerate_store split: if_splits)

lemma invalidate_prefix_store: "invalidate_prefix C p w = (r, w') \<Longrightarrow> same_store w w'"
  by (auto simp: invalidate_prefix_def dest: tolerate_store)

lemma seq_store:
  "(\<And>u r v. m u = (r, v) \<Longrightarrow> same_store u v) \<Longrightarrow> (\<And>u r v. n u = (r, v) \<Longrightarrow> same_store u v) \<Longrightarrow>
   seq m n w = (r, w') \<Longrightarrow> same_store w w'"
  by (auto simp: seq_run split: prod.splits sum.splits) (meson same_store_trans)+

lemma invalidate_listing_store: "invalidate_listing C p w = (r, w') \<Longrightarrow> same_store w w'"
  by (auto simp: invalidate_listing_def dest: invalidate_prefix_store split: option.splits)

lemma on_node_mutated_store: "on_node_mutated C n p q w = (r, w') \<Longrightarrow> same_store w w'"
  unfolding on_node_mutated_def
  by (erule seq_store[rotated 2])
    (auto simp: invalidate_node_def dest: invalidate_keys_store invalidate_listing_store
      elim!: seq_store[rotated 2] split: if_splits)

lemma invalidate_all_permissions_store: "invalidate_all_permissions C w = (r, w') \<Longrightarrow> same_store w w'"
  by (auto simp: invalidate_all_permissions_def dest: invalidate_prefix_store)

end
