(* ===== verification/Tree.thy ===== *)
theory Tree
  imports World
begin

text \<open>
  The node table as a forest: the parent relation, what the bounded walks of the repositories list of
  it, and how each kind of write changes it. The invariant \<open>tree_inv\<close> is what the foreign keys and the
  use cases together keep of the table.
\<close>

definition parent_rel :: "node list \<Rightarrow> (uuid \<times> uuid) set" where
  "parent_rel rows = {(nd_id r, p) | r p. r \<in> set rows \<and> nd_parent_id r = Some p}"

definition tree_inv :: "node list \<Rightarrow> bool" where
  "tree_inv rows \<longleftrightarrow>
     distinct (map nd_id rows) \<and>
     (\<forall>r\<in>set rows. \<forall>p. nd_parent_id r = Some p \<longrightarrow> p \<in> nd_id ` set rows) \<and>
     acyclic (parent_rel rows)"

text \<open>A live node that is no root hangs under a live node.\<close>

definition live_inv :: "node list \<Rightarrow> bool" where
  "live_inv rows \<longleftrightarrow>
     (\<forall>r\<in>set rows. \<forall>p\<in>set rows. nd_parent_id r = Some (nd_id p) \<longrightarrow> \<not> is_deleted r \<longrightarrow> \<not> is_deleted p)"

lemma parent_rel_single: "distinct (map nd_id rows) \<Longrightarrow> single_valued (parent_rel rows)"
  by (auto simp: single_valued_def parent_rel_def distinct_map inj_on_def)

lemma finite_parent_rel: "finite (parent_rel rows)"
proof -
  have "parent_rel rows \<subseteq> (\<lambda>n. (nd_id n, the (nd_parent_id n))) ` set rows" by (auto simp: parent_rel_def image_iff)
  then show ?thesis using finite_surj by blast
qed

section \<open>The upward walk\<close>

lemma nodes_get_Some: "nodes_get d nid = Some n \<Longrightarrow> n \<in> set (db_nodes d) \<and> nd_id n = nid"
  using row_by_Some[of nd_id nid "db_nodes d" n] by (simp add: nodes_get_def)

lemma nodes_get_iff:
  "tree_inv (db_nodes d) \<Longrightarrow> nodes_get d nid = Some n \<longleftrightarrow> n \<in> set (db_nodes d) \<and> nd_id n = nid"
  by (simp add: nodes_get_def tree_inv_def row_by_iff)

lemma chain_up_sound:
  "m \<in> set (chain_up rows k n) \<Longrightarrow> n \<in> set rows \<Longrightarrow> m \<in> set rows \<and> (nd_id n, nd_id m) \<in> (parent_rel rows)\<^sup>+"
proof (induction k arbitrary: n)
  case (Suc k)
  then obtain p q where p: "nd_parent_id n = Some p" "row_by nd_id p rows = Some q"
    and m: "m = q \<or> m \<in> set (chain_up rows k q)"
    by (cases "nd_parent_id n"; cases "row_by nd_id (the (nd_parent_id n)) rows") auto
  from row_by_Some[OF p(2)] have q: "q \<in> set rows" "nd_id q = p" by auto
  have e: "(nd_id n, nd_id q) \<in> parent_rel rows" using Suc.prems(2) p(1) q by (auto simp: parent_rel_def)
  from m show ?case
  proof
    assume "m = q" with q e show ?thesis by auto
  next
    assume "m \<in> set (chain_up rows k q)"
    with Suc.IH[OF _ q(1)] e show ?thesis by (meson trancl_into_trancl2)
  qed
qed simp

lemma chain_up_complete:
  assumes "tree_inv rows" "n \<in> set rows" "length (chain_up rows k n) < k"
    and "(nd_id n, a) \<in> (parent_rel rows)\<^sup>+"
  shows "a \<in> nd_id ` set (chain_up rows k n)"
  using assms(2-4)
proof (induction k arbitrary: n)
  case (Suc k)
  have uniq: "r = n" if "r \<in> set rows" "nd_id r = nd_id n" for r
    using assms(1) Suc.prems(1) that by (auto simp: tree_inv_def distinct_map inj_on_def)
  from tranclD[OF Suc.prems(3)] obtain p where p: "(nd_id n, p) \<in> parent_rel rows" "(p, a) \<in> (parent_rel rows)\<^sup>*"
    by blast
  from p(1) uniq have np: "nd_parent_id n = Some p" by (auto simp: parent_rel_def)
  with assms(1) Suc.prems(1) obtain q where q: "q \<in> set rows" "nd_id q = p"
    by (force simp: tree_inv_def)
  then have look: "row_by nd_id p rows = Some q"
    using assms(1) by (simp add: tree_inv_def row_by_iff)
  show ?case
  proof (cases "a = p")
    case True
    with np look q show ?thesis by simp
  next
    case False
    with p(2) q have "(nd_id q, a) \<in> (parent_rel rows)\<^sup>+" by (metis rtranclD)
    with Suc.IH[OF q(1)] Suc.prems(2) np look show ?thesis by simp
  qed
qed simp

lemma ancestors_eq:
  assumes "tree_inv (db_nodes d)" "nodes_get d nid = Some n"
  shows "nodes_ancestors d nid k = rev (chain_up (db_nodes d) k n)"
proof -
  have n: "n \<in> set (db_nodes d)" "nd_id n = nid" using nodes_get_Some[OF assms(2)] by auto
  have "nd_id m \<noteq> nid" if "m \<in> set (chain_up (db_nodes d) k n)" for m
    using chain_up_sound[OF that n(1)] assms(1) n(2) by (auto simp: tree_inv_def acyclic_def)
  then show ?thesis using assms(2) by (simp add: nodes_ancestors_def filter_id_conv)
qed

lemma ancestors_sound:
  assumes "m \<in> set (nodes_ancestors d nid k)"
  shows "m \<in> set (db_nodes d) \<and> (nid, nd_id m) \<in> (parent_rel (db_nodes d))\<^sup>+"
proof -
  from assms obtain n where "nodes_get d nid = Some n" and "m \<in> set (chain_up (db_nodes d) k n)"
    by (cases "nodes_get d nid") (auto simp: nodes_ancestors_def)
  then show ?thesis using chain_up_sound[of m "db_nodes d" k] nodes_get_Some[of d nid] by auto
qed

lemma ancestors_complete:
  assumes "tree_inv (db_nodes d)" "nid \<in> nd_id ` set (db_nodes d)" "length (nodes_ancestors d nid k) < k"
    and "(nid, a) \<in> (parent_rel (db_nodes d))\<^sup>+"
  shows "a \<in> nd_id ` set (nodes_ancestors d nid k)"
proof -
  from assms(2) obtain n where n: "n \<in> set (db_nodes d)" "nd_id n = nid" by auto
  then have "nodes_get d nid = Some n" using assms(1) by (simp add: nodes_get_def row_by_iff tree_inv_def)
  with assms n chain_up_complete[OF assms(1) n(1), of k a] show ?thesis by (simp add: ancestors_eq)
qed

section \<open>The downward walk\<close>

lemma set_children_of:
  "r \<in> set (children_of rows ids) \<longleftrightarrow> r \<in> set rows \<and> (\<exists>p\<in>set ids. nd_parent_id r = Some p)"
  by (auto simp: children_of_def split: option.splits)

lemma subtree_levels_sound:
  "r \<in> set (subtree_levels rows k level) \<Longrightarrow>
   r \<in> set level \<or> (r \<in> set rows \<and> (\<exists>l\<in>set level. (nd_id r, nd_id l) \<in> (parent_rel rows)\<^sup>+))"
proof (induction k arbitrary: level)
  case (Suc k)
  then consider "r \<in> set level" | "r \<in> set (subtree_levels rows k (children_of rows (map nd_id level)))"
    by auto
  then show ?case
  proof cases
    case 2
    have up: "\<exists>l\<in>set level. (nd_id c, nd_id l) \<in> parent_rel rows"
      if "c \<in> set (children_of rows (map nd_id level))" for c
      using that by (auto simp: set_children_of parent_rel_def)
    from Suc.IH[OF 2] show ?thesis
    proof
      assume "r \<in> set (children_of rows (map nd_id level))"
      with up show ?thesis by (auto simp: set_children_of)
    next
      assume "r \<in> set rows \<and> (\<exists>l\<in>set (children_of rows (map nd_id level)). (nd_id r, nd_id l) \<in> (parent_rel rows)\<^sup>+)"
      with up show ?thesis by (meson trancl.trancl_into_trancl)
    qed
  qed simp
qed simp

lemma descendants_sound:
  "r \<in> set (nodes_descendants d nid k incl) \<Longrightarrow>
   r \<in> set (db_nodes d) \<and> (nd_id r, nid) \<in> (parent_rel (db_nodes d))\<^sup>+"
proof -
  assume "r \<in> set (nodes_descendants d nid k incl)"
  then have "r \<in> set (subtree_levels (db_nodes d) k (children_of (db_nodes d) [nid]))"
    by (auto simp: nodes_descendants_def)
  from subtree_levels_sound[OF this] show ?thesis
  proof
    assume "r \<in> set (children_of (db_nodes d) [nid])"
    then show ?thesis by (auto simp: set_children_of parent_rel_def)
  next
    assume "r \<in> set (db_nodes d) \<and> (\<exists>l\<in>set (children_of (db_nodes d) [nid]).
      (nd_id r, nd_id l) \<in> (parent_rel (db_nodes d))\<^sup>+)"
    moreover have "(nd_id l, nid) \<in> parent_rel (db_nodes d)" if "l \<in> set (children_of (db_nodes d) [nid])" for l
      using that by (auto simp: set_children_of parent_rel_def)
    ultimately show ?thesis by (meson trancl.trancl_into_trancl)
  qed
qed

text \<open>
  The walk down finds every row whose distance to the root of the walk is within its bound; with
  \<open>depth_le\<close> (every chain of parents is that short) it finds them all.
\<close>

definition depth_le :: "node list \<Rightarrow> nat \<Rightarrow> bool" where
  "depth_le rows k \<longleftrightarrow> (\<forall>r\<in>set rows. length (chain_up rows (Suc k) r) \<le> k)"

lemma subtree_levels_complete:
  "r \<in> set rows \<Longrightarrow> i \<le> k \<Longrightarrow> (nd_id r, nd_id l) \<in> parent_rel rows ^^ i \<Longrightarrow> l \<in> set level \<Longrightarrow>
   distinct (map nd_id rows) \<Longrightarrow> set level \<subseteq> set rows \<Longrightarrow>
   r \<in> set (subtree_levels rows k level)"
proof (induction i arbitrary: k level l)
  case 0
  then have "r = l" by (auto simp: distinct_map inj_on_def)
  with 0 show ?case by (cases k) auto
next
  case (Suc i)
  from Suc.prems(3) obtain y where y: "(nd_id r, y) \<in> parent_rel rows ^^ i" "(y, nd_id l) \<in> parent_rel rows"
    by auto
  then obtain c where c: "c \<in> set rows" "nd_id c = y" "nd_parent_id c = Some (nd_id l)"
    by (auto simp: parent_rel_def)
  obtain k' where k: "k = Suc k'" using Suc.prems(2) by (cases k) auto
  have "c \<in> set (children_of rows (map nd_id level))"
    using c Suc.prems(4) by (auto simp: set_children_of)
  moreover have "set (children_of rows (map nd_id level)) \<subseteq> set rows" by (auto simp: set_children_of)
  ultimately have "r \<in> set (subtree_levels rows k' (children_of rows (map nd_id level)))"
    using Suc.IH[of k' c] Suc.prems y c k by auto
  with k show ?case by simp
qed

lemma chain_up_reaches_wf:
  assumes wf: "distinct (map nd_id rows)" "\<forall>r\<in>set rows. \<forall>p. nd_parent_id r = Some p \<longrightarrow> p \<in> nd_id ` set rows"
  shows "(nd_id r, a) \<in> parent_rel rows ^^ i \<Longrightarrow> r \<in> set rows \<Longrightarrow> i \<le> j \<Longrightarrow> i \<le> length (chain_up rows j r)"
proof (induction i arbitrary: r j)
  case (Suc i)
  from relpow_Suc_D2[OF Suc.prems(1)] obtain p where p: "(nd_id r, p) \<in> parent_rel rows" "(p, a) \<in> parent_rel rows ^^ i"
    by blast
  then obtain r' where r': "r' \<in> set rows" "nd_id r' = nd_id r" "nd_parent_id r' = Some p"
    by (auto simp: parent_rel_def)
  with Suc.prems wf have "r' = r" by (auto simp: distinct_map inj_on_def)
  with r' Suc.prems(2) wf obtain q where q: "q \<in> set rows" "nd_id q = p" "nd_parent_id r = Some p" by force
  then have "row_by nd_id p rows = Some q" using wf by (simp add: row_by_iff)
  moreover obtain j' where "j = Suc j'" using Suc.prems(3) by (cases j) auto
  ultimately show ?case using Suc.IH[of q j'] p q Suc.prems by simp
qed simp

lemma chain_up_reaches:
  "(nd_id r, a) \<in> parent_rel rows ^^ i \<Longrightarrow> r \<in> set rows \<Longrightarrow> tree_inv rows \<Longrightarrow> i \<le> j \<Longrightarrow>
   i \<le> length (chain_up rows j r)"
  using chain_up_reaches_wf unfolding tree_inv_def by blast

text \<open>An executable test of the invariant: every chain of parents ends within the size of the table.\<close>

definition tree_check :: "node list \<Rightarrow> bool" where
  "tree_check rows \<longleftrightarrow>
     distinct (map nd_id rows) \<and>
     list_all (\<lambda>r. case nd_parent_id r of None \<Rightarrow> True | Some p \<Rightarrow> p \<in> set (map nd_id rows)) rows \<and>
     list_all (\<lambda>r. length (chain_up rows (Suc (length rows)) r) \<le> length rows) rows"

lemma tree_check_sound:
  assumes "tree_check rows"
  shows "tree_inv rows"
proof -
  have wf: "distinct (map nd_id rows)" "\<forall>r\<in>set rows. \<forall>p. nd_parent_id r = Some p \<longrightarrow> p \<in> nd_id ` set rows"
    using assms by (auto simp: tree_check_def list_all_iff)
  have "(a, a) \<notin> (parent_rel rows)\<^sup>+" for a
  proof
    assume cyc: "(a, a) \<in> (parent_rel rows)\<^sup>+"
    then obtain i where i: "0 < i" "(a, a) \<in> parent_rel rows ^^ i" by (metis trancl_power)
    have loop: "(a, a) \<in> parent_rel rows ^^ (i * k)" for k
      by (induction k) (use i in \<open>auto simp: relpow_add\<close>)
    from tranclD[OF cyc] obtain r where r: "r \<in> set rows" "nd_id r = a"
      by (auto simp: parent_rel_def)
    have "Suc (length rows) \<le> i * Suc (length rows)" using i(1) by (cases i) auto
    then have "i * Suc (length rows) = Suc (length rows) + (i * Suc (length rows) - Suc (length rows))" by simp
    with loop[of "Suc (length rows)"] obtain b where "(a, b) \<in> parent_rel rows ^^ Suc (length rows)"
      by (metis relpow_add relcomp.cases prod.inject)
    from chain_up_reaches_wf[OF wf, of r b "Suc (length rows)" "Suc (length rows)"] this r assms
    show False by (auto simp: tree_check_def list_all_iff)
  qed
  with wf show ?thesis by (simp add: tree_inv_def acyclic_def)
qed

lemma depth_bound:
  assumes "tree_inv rows" "depth_le rows k" "r \<in> set rows" "(nd_id r, a) \<in> parent_rel rows ^^ i"
  shows "i \<le> k"
proof (rule ccontr)
  assume "\<not> i \<le> k"
  then have "i = Suc k + (i - Suc k)" by simp
  with assms(4) have "(nd_id r, a) \<in> parent_rel rows ^^ Suc k O parent_rel rows ^^ (i - Suc k)"
    by (metis relpow_add)
  then obtain b where "(nd_id r, b) \<in> parent_rel rows ^^ Suc k" by blast
  from chain_up_reaches[OF this assms(3,1), of "Suc k"] assms(2,3) show False
    by (auto simp: depth_le_def)
qed

lemma descendants_complete:
  assumes "tree_inv (db_nodes d)" "depth_le (db_nodes d) (Suc k)" "r \<in> set (db_nodes d)"
    and "(nd_id r, nid) \<in> (parent_rel (db_nodes d))\<^sup>+"
  shows "r \<in> set (nodes_descendants d nid k True)"
proof -
  let ?rows = "db_nodes d"
  from assms(4) obtain i where i: "(nd_id r, nid) \<in> parent_rel ?rows ^^ Suc i"
    by (metis trancl_power gr0_implies_Suc)
  then obtain y where y: "(nd_id r, y) \<in> parent_rel ?rows ^^ i" "(y, nid) \<in> parent_rel ?rows" by auto
  then obtain c where c: "c \<in> set ?rows" "nd_id c = y" "nd_parent_id c = Some nid"
    by (auto simp: parent_rel_def)
  have "i \<le> k" using depth_bound[OF assms(1,2,3) i] by simp
  moreover have "c \<in> set (children_of ?rows [nid])" using c by (simp add: set_children_of)
  moreover have "set (children_of ?rows [nid]) \<subseteq> set ?rows" by (auto simp: set_children_of)
  ultimately have "r \<in> set (subtree_levels ?rows k (children_of ?rows [nid]))"
    using subtree_levels_complete[OF assms(3), of i k c] y c assms(1) by (simp add: tree_inv_def)
  then show ?thesis by (simp add: nodes_descendants_def)
qed

section \<open>The shape of the table\<close>

text \<open>The tree invariant depends on the identifiers and the parents alone.\<close>

definition shape :: "node list \<Rightarrow> (uuid \<times> uuid option) list" where
  "shape rows = map (\<lambda>r. (nd_id r, nd_parent_id r)) rows"

lemma parent_rel_shape: "parent_rel rows = {(i, p). (i, Some p) \<in> set (shape rows)}"
  by (force simp: parent_rel_def shape_def image_iff)

lemma ids_shape: "map nd_id rows = map fst (shape rows)"
  by (simp add: shape_def)

lemma tree_inv_shape:
  "tree_inv rows \<longleftrightarrow> distinct (map fst (shape rows)) \<and>
     (\<forall>(i, q)\<in>set (shape rows). \<forall>p. q = Some p \<longrightarrow> p \<in> fst ` set (shape rows)) \<and>
     acyclic {(i, p). (i, Some p) \<in> set (shape rows)}"
  unfolding tree_inv_def parent_rel_shape ids_shape by (auto simp: shape_def image_image)

lemma tree_inv_cong: "shape rows = shape rows' \<Longrightarrow> tree_inv rows = tree_inv rows'"
  by (simp add: tree_inv_shape)

lemma shape_update_where:
  "(\<And>r. nd_id (g r) = nd_id r \<and> nd_parent_id (g r) = nd_parent_id r) \<Longrightarrow>
   shape (update_where p g rows) = shape rows"
  by (simp add: shape_def update_where_def)

lemma tree_inv_add:
  assumes "tree_inv rows" "nd_id n \<notin> nd_id ` set rows" "nd_parent_id n = Some p" "p \<in> nd_id ` set rows"
  shows "tree_inv (rows @ [n])"
proof -
  have rel: "parent_rel (rows @ [n]) = insert (nd_id n, p) (parent_rel rows)"
    using assms(3) by (auto simp: parent_rel_def)
  have "(p, nd_id n) \<notin> (parent_rel rows)\<^sup>*"
  proof
    assume "(p, nd_id n) \<in> (parent_rel rows)\<^sup>*"
    then have "p = nd_id n \<or> (\<exists>y. (y, nd_id n) \<in> parent_rel rows)" by (metis rtranclE)
    then show False
    proof
      assume "p = nd_id n" with assms(2,4) show False by simp
    next
      assume "\<exists>y. (y, nd_id n) \<in> parent_rel rows"
      with assms(1,2) show False by (auto simp: parent_rel_def tree_inv_def)
    qed
  qed
  with assms show ?thesis by (auto simp: tree_inv_def rel acyclic_insert)
qed

text \<open>Reparenting keeps the forest when the destination is not below the node.\<close>

lemma tree_inv_move:
  assumes inv: "tree_inv rows" and n: "n \<in> set rows" and p: "p \<in> nd_id ` set rows"
    and safe: "p \<noteq> nd_id n" "(p, nd_id n) \<notin> (parent_rel rows)\<^sup>+"
    and g: "\<And>r. nd_id (g r) = nd_id r" "nd_parent_id (g n) = Some p"
  shows "tree_inv (upd_row nd_id (nd_id n) g rows)"
proof -
  let ?rows = "upd_row nd_id (nd_id n) g rows"
  have uniq: "r = n" if "r \<in> set rows" "nd_id r = nd_id n" for r
    using inv n that by (auto simp: tree_inv_def distinct_map inj_on_def)
  have ids: "map nd_id ?rows = map nd_id rows" using g(1) by (simp add: map_upd_row_key)
  have sub: "parent_rel ?rows \<subseteq> insert (nd_id n, p) (parent_rel rows)"
  proof
    fix e assume "e \<in> parent_rel ?rows"
    then obtain r q where r: "r \<in> set rows" "e = (nd_id r, q)"
      "nd_parent_id (if nd_id r = nd_id n then g r else r) = Some q"
      using g(1) by (auto simp: parent_rel_def set_upd_row split: if_splits)
    show "e \<in> insert (nd_id n, p) (parent_rel rows)"
    proof (cases "nd_id r = nd_id n")
      case True
      with uniq[OF r(1)] r g(2) show ?thesis by simp
    next
      case False
      with r show ?thesis by (auto simp: parent_rel_def)
    qed
  qed
  have "acyclic (insert (nd_id n, p) (parent_rel rows))"
    using inv safe by (auto simp: tree_inv_def acyclic_insert rtrancl_eq_or_trancl)
  then have "acyclic (parent_rel ?rows)" using sub acyclic_subset by blast
  moreover have "\<forall>r\<in>set ?rows. \<forall>q. nd_parent_id r = Some q \<longrightarrow> q \<in> nd_id ` set ?rows"
  proof -
    have "nd_id ` set ?rows = nd_id ` set rows" using ids by (metis set_map)
    moreover have "q \<in> nd_id ` set rows" if "r \<in> set ?rows" "nd_parent_id r = Some q" for r q
    proof -
      from that have "(nd_id r, q) \<in> parent_rel ?rows" by (auto simp: parent_rel_def)
      with sub have "(nd_id r, q) = (nd_id n, p) \<or> (nd_id r, q) \<in> parent_rel rows" by blast
      with p inv show ?thesis by (auto simp: parent_rel_def tree_inv_def)
    qed
    ultimately show ?thesis by blast
  qed
  ultimately show ?thesis using inv ids by (simp add: tree_inv_def)
qed

section \<open>Sibling names\<close>

lemma siblings_iff:
  "distinct (map nd_id rows) \<Longrightarrow>
   sibling_names_unique T rows \<longleftrightarrow>
     (\<forall>r\<in>set rows. \<forall>s\<in>set rows. \<not> is_deleted r \<longrightarrow> \<not> is_deleted s \<longrightarrow> nd_parent_id r \<noteq> None \<longrightarrow>
        nd_parent_id r = nd_parent_id s \<longrightarrow> normalized_name T r = normalized_name T s \<longrightarrow> r = s)"
  by (auto simp: sibling_names_unique_def distinct_map inj_on_def distinct_filter)

lemma child_by_name_None:
  "get_child_by_name T d p name = None \<longleftrightarrow>
     (\<forall>r\<in>set (db_nodes d). nd_parent_id r = Some p \<longrightarrow> normalized_name T r = name \<longrightarrow> is_deleted r)"
  by (auto simp: get_child_by_name_def find_None_iff)

lemma child_by_name_Some:
  "get_child_by_name T d p name = Some r \<Longrightarrow> r \<in> set (db_nodes d) \<and> nd_parent_id r = Some p \<and>
     normalized_name T r = name \<and> \<not> is_deleted r"
  by (auto simp: get_child_by_name_def find_Some_iff)

end
