(* ===== verification/NodeService.thy ===== *)
theory NodeService
  imports Tree
begin

text \<open>
  The filesystem use cases (\<open>application/nodes.py\<close>): authorization, listing, search, labels and the
  structural writes. Each operation is the whole use case, guards in the order of the code; a
  parameter \<open>C\<close> carries what the service is constructed with and \<open>u\<close> is the calling user.
\<close>

definition ANCESTOR_GUARD_DEPTH :: nat where "ANCESTOR_GUARD_DEPTH = 512"

definition SHARED_PREFIX :: string where "SHARED_PREFIX = ''shared''"

record node_view =
  nv_node :: node
  nv_role :: role
  nv_path :: string
  nv_parent_id :: "uuid option"

section \<open>Permission\<close>

definition compute_role :: "db \<Rightarrow> string \<Rightarrow> uuid \<Rightarrow> node \<Rightarrow> role option" where
  "compute_role d subject owner_id n =
     (let chain = nodes_ancestors d (nd_id n) ANCESTOR_GUARD_DEPTH;
          scope = nd_id n # map nd_id chain;
          granted = highest_role_over d subject scope
      in resolve_effective_role (nd_owner_id n = owner_id)
           (case granted of None \<Rightarrow> [] | Some r \<Rightarrow> [r]))"

definition effective_role :: "config \<Rightarrow> string \<Rightarrow> uuid \<Rightarrow> node \<Rightarrow> role option use_case" where
  "effective_role C subject owner_id n =
     (let compute = qdb (\<lambda>d. compute_role d subject owner_id n) in
      if cf_cache_enabled C then permission C subject (nd_id n) compute else compute)"

definition authorize :: "config \<Rightarrow> user \<Rightarrow> uuid \<Rightarrow> role \<Rightarrow> (node \<times> role) use_case" where
  "authorize C u nid minimum =
     bind (qdb (\<lambda>d. nodes_get d nid)) (\<lambda>found.
     bind (expect found NotFoundError) (\<lambda>n.
     seq (guard (\<not> is_deleted n) NotFoundError)
    (bind (effective_role C (us_subject u) (us_id u) n) (\<lambda>r.
     bind (authorize_or_record (us_subject u) nid r minimum None) (\<lambda>granted.
     ret (n, granted))))))"

section \<open>Guards and views\<close>

definition ensure_folder :: "node \<Rightarrow> unit use_case" where
  "ensure_folder n = guard (is_folder n) ValidationError"

definition ensure_depth :: "config \<Rightarrow> node \<Rightarrow> unit use_case" where
  "ensure_depth C parent =
     bind (qdb (\<lambda>d. nodes_ancestors d (nd_id parent) ANCESTOR_GUARD_DEPTH)) (\<lambda>chain.
     guard (\<not> length chain + 1 \<ge> cf_max_tree_depth C) ValidationError)"

definition ensure_name_free :: "config \<Rightarrow> uuid \<Rightarrow> string \<Rightarrow> uuid option \<Rightarrow> unit use_case" where
  "ensure_name_free C parent name excluding =
     bind (qdb (\<lambda>d. get_child_by_name (cf_text C) d parent name)) (\<lambda>existing.
     guard (case existing of None \<Rightarrow> True | Some e \<Rightarrow> Some (nd_id e) = excluding) NameTakenError)"

definition ensure_not_reserved_root_name :: "config \<Rightarrow> node \<Rightarrow> string \<Rightarrow> unit use_case" where
  "ensure_not_reserved_root_name C parent name =
     guard (\<not> (is_root parent \<and> normalize_name (cf_text C) name = SHARED_PREFIX)) ValidationError"

definition precondition_holds :: "node \<Rightarrow> string option \<Rightarrow> bool" where
  "precondition_holds n if_match =
     (case if_match of
        None \<Rightarrow> True
      | Some header \<Rightarrow>
          let supplied = map strip (split_on (CHR '','') header) in
          ''*'' \<in> set supplied \<or> etag n \<in> set supplied)"

definition ensure_precondition :: "node \<Rightarrow> string option \<Rightarrow> unit use_case" where
  "ensure_precondition n if_match = guard (precondition_holds n if_match) PreconditionFailedError"

definition view :: "node \<Rightarrow> role \<Rightarrow> node_view use_case" where
  "view n r = qdb (\<lambda>d. \<lparr>nv_node = n, nv_role = r,
     nv_path = path_of n (nodes_ancestors d (nd_id n) ANCESTOR_GUARD_DEPTH), nv_parent_id = nd_parent_id n\<rparr>)"

definition audit_node :: "user \<Rightarrow> node \<Rightarrow> audit_action \<Rightarrow> datetime \<Rightarrow> unit use_case" where
  "audit_node u n action when =
     emit_audit (audit_of action when (us_subject u) (Some (uuid_str (nd_id n))) (owner_context n (us_id u)))"

definition invalidate :: "config \<Rightarrow> uuid \<Rightarrow> uuid option \<Rightarrow> uuid option \<Rightarrow> bool \<Rightarrow> unit use_case" where
  "invalidate C nid old_parent new_parent reparented =
     (if \<not> cf_cache_enabled C then ret ()
      else seq (on_node_mutated C nid old_parent new_parent)
               (if reparented then invalidate_all_permissions C else ret ()))"

definition invalidate_subtree :: "config \<Rightarrow> node \<Rightarrow> node list \<Rightarrow> unit use_case" where
  "invalidate_subtree C entry lifted =
     seq (invalidate C (nd_id entry) (nd_parent_id entry) None True)
         (if \<not> cf_cache_enabled C then ret ()
          else seq (for_each lifted (\<lambda>n. invalidate_node C (nd_id n))) (invalidate_listing C (Some (nd_id entry))))"

definition move_bytes :: "uuid \<Rightarrow> int \<Rightarrow> datetime \<Rightarrow> bool \<Rightarrow> unit use_case" where
  "move_bytes owner size_bytes now to_trash =
     (if size_bytes \<le> 0 then ret ()
      else bind (qdb (\<lambda>d. quotas_get d owner)) (\<lambda>usage.
        case usage of
          None \<Rightarrow> ret ()
        | Some q \<Rightarrow> mdb (quotas_update
            (if to_trash then move_to_trash size_bytes now q else restore_from_trash size_bytes now q))))"

section \<open>Reads\<close>

definition get_node :: "config \<Rightarrow> user \<Rightarrow> uuid \<Rightarrow> node_view use_case" where
  "get_node C u nid = bind (authorize C u nid VIEWER) (\<lambda>(n, r). view n r)"

definition list_children :: "config \<Rightarrow> user \<Rightarrow> uuid \<Rightarrow> nat \<Rightarrow> string option \<Rightarrow> node page use_case" where
  "list_children C u nid limit cursor =
     bind (authorize C u nid VIEWER) (\<lambda>(n, _).
     seq (guard (is_folder n) ValidationError)
         (bind (qdb (\<lambda>d. nodes_list_children (cf_text C) d (nd_id n) (min limit (cf_page_size_max C)) cursor False))
            lift))"

definition search_key :: "config \<Rightarrow> string option \<Rightarrow> string \<Rightarrow> error + (string \<times> uuid) option" where
  "search_key C cursor fingerprint =
     (case cursor of
        None \<Rightarrow> Inr None
      | Some c \<Rightarrow> (case decode_cursor c of
          Inl e \<Rightarrow> Inl e
        | Inr raw \<Rightarrow> (case decode_keyed_cursor (cf_sha256_hex C) raw fingerprint 2 of
            Inl e \<Rightarrow> Inl e
          | Inr parts \<Rightarrow> (case parse_uuid (parts ! 0) of
              None \<Rightarrow> Inl ValidationError
            | Some nid \<Rightarrow> Inr (Some (parts ! 1, nid))))))"

definition search ::
  "config \<Rightarrow> user \<Rightarrow> string option \<Rightarrow> string list \<Rightarrow> string option \<Rightarrow> string option \<Rightarrow> tag_match \<Rightarrow> nat
     \<Rightarrow> string option \<Rightarrow> node page use_case" where
  "search C u term tags key val match limit cursor =
     bind (lift (search_filters_of (cf_text C) term tags match key val)) (\<lambda>f.
     bind (lift (search_key C cursor (search_fingerprint (cf_sha256_hex C) f))) (\<lambda>after.
     qdb (\<lambda>d. nodes_search (cf_text C) (cf_sha256_hex C) d (us_subject u) f (min limit (cf_page_size_max C)) after)))"

definition tag_inventory ::
  "config \<Rightarrow> user \<Rightarrow> string option \<Rightarrow> nat \<Rightarrow> string option \<Rightarrow> tag_usage page use_case" where
  "tag_inventory C u pre limit cursor =
     (let f = tag_filters_of (cf_text C) pre in
      bind (case cursor of
              None \<Rightarrow> ret None
            | Some c \<Rightarrow> bind (lift (decode_cursor c)) (\<lambda>raw.
                bind (lift (decode_keyed_cursor (cf_sha256_hex C) raw (tag_fingerprint (cf_sha256_hex C) f) 1)) (\<lambda>parts.
                ret (Some (parts ! 0))))) (\<lambda>after.
      qdb (\<lambda>d. tag_counts (cf_sha256_hex C) d (us_subject u) f (min limit (cf_page_size_max C)) after)))"

section \<open>Labels\<close>

definition replace_tags ::
  "config \<Rightarrow> user \<Rightarrow> uuid \<Rightarrow> string list \<Rightarrow> string option \<Rightarrow> datetime option \<Rightarrow> (node_view \<times> string set) use_case" where
  "replace_tags C u nid tags if_match now =
     bind (moment_of now) (\<lambda>moment.
     bind (lift (validate_tags (cf_text C) tags)) (\<lambda>validated.
     seq (lock_subtree nid)
    (bind (authorize C u nid EDITOR) (\<lambda>(n, r).
     seq (ensure_precondition n if_match)
    (seq (mdb (nodes_replace_tags (nd_id n) validated))
    (let n = touch moment n in
     seq (mdb (nodes_update n))
    (seq (flush C)
    (seq (audit_node u n NODE_TAGS_CHANGED moment)
    (seq (invalidate C (nd_id n) (nd_parent_id n) None False)
    (bind (view n r) (\<lambda>v. ret (v, validated))))))))))))"

definition replace_metadata ::
  "config \<Rightarrow> user \<Rightarrow> uuid \<Rightarrow> (string \<times> string) list \<Rightarrow> string option \<Rightarrow> datetime option \<Rightarrow> (node_view \<times> dict) use_case" where
  "replace_metadata C u nid pairs if_match now =
     bind (moment_of now) (\<lambda>moment.
     bind (lift (validate_metadata (cf_text C) pairs)) (\<lambda>validated.
     seq (lock_subtree nid)
    (bind (authorize C u nid EDITOR) (\<lambda>(n, r).
     seq (ensure_precondition n if_match)
    (bind (qdb (\<lambda>d. length (filter (\<lambda>(k, v). is_reserved_key (cf_text C) k) (metadata_for d (nd_id n))))) (\<lambda>reserved.
     seq (guard (\<not> reserved + length validated > MAX_METADATA_PAIRS) ValidationError)
    (seq (mdb (nodes_replace_metadata (cf_text C) (nd_id n) validated))
    (let n = touch moment n in
     seq (mdb (nodes_update n))
    (seq (flush C)
    (seq (audit_node u n NODE_METADATA_CHANGED moment)
    (seq (invalidate C (nd_id n) (nd_parent_id n) None False)
    (bind (view n r) (\<lambda>v. ret (v, validated))))))))))))))"

definition apply_label_change ::
  "config \<Rightarrow> user \<Rightarrow> node \<Rightarrow> audit_action \<Rightarrow> datetime \<Rightarrow> nat \<Rightarrow> nat \<Rightarrow> node use_case" where
  "apply_label_change C u n action when added removed =
     (let n = touch when n in
      seq (mdb (nodes_update n))
     (seq (flush C)
     (seq (emit_audit (audit_of action when (us_subject u) (Some (uuid_str (nd_id n)))
            (owner_context n (us_id u) @ [(''added'', CInt (int added)), (''removed'', CInt (int removed))])))
     (seq (invalidate C (nd_id n) (nd_parent_id n) None False)
          (ret n)))))"

definition patch_tags ::
  "config \<Rightarrow> user \<Rightarrow> uuid \<Rightarrow> string list \<Rightarrow> string list \<Rightarrow> string option \<Rightarrow> datetime option
     \<Rightarrow> (node_view \<times> string set) use_case" where
  "patch_tags C u nid add remove if_match now =
     bind (moment_of now) (\<lambda>moment.
     bind (lift (validate_tag_delta (cf_text C) add remove)) (\<lambda>delta.
     seq (lock_subtree nid)
    (bind (authorize C u nid EDITOR) (\<lambda>(n, r).
     seq (ensure_precondition n if_match)
    (bind (qdb (\<lambda>d. tags_for d (nd_id n))) (\<lambda>current.
     bind (lift (merge_tags (cf_text C) current delta)) (\<lambda>merged.
     if merged = current then bind (view n r) (\<lambda>v. ret (v, current))
     else
       seq (mdb (nodes_add_tags (nd_id n) (td_added delta)))
      (seq (mdb (nodes_remove_tags (nd_id n) (td_removed delta)))
      (case tag_change_counts current merged of (added, removed) \<Rightarrow>
       bind (apply_label_change C u n NODE_TAGS_CHANGED moment added removed) (\<lambda>n.
       bind (view n r) (\<lambda>v. ret (v, merged))))))))))))"

definition patch_metadata ::
  "config \<Rightarrow> user \<Rightarrow> uuid \<Rightarrow> (string \<times> string) list \<Rightarrow> string list \<Rightarrow> string option \<Rightarrow> datetime option
     \<Rightarrow> (node_view \<times> dict) use_case" where
  "patch_metadata C u nid pairs remove if_match now =
     bind (moment_of now) (\<lambda>moment.
     bind (lift (validate_metadata_delta (cf_text C) pairs remove)) (\<lambda>delta.
     seq (lock_subtree nid)
    (bind (authorize C u nid EDITOR) (\<lambda>(n, r).
     seq (ensure_precondition n if_match)
    (bind (qdb (\<lambda>d. metadata_for d (nd_id n))) (\<lambda>current.
     bind (lift (merge_metadata current delta)) (\<lambda>merged.
     if dict_eq merged current then bind (view n r) (\<lambda>v. ret (v, visible_metadata (cf_text C) current))
     else
       seq (mdb (nodes_set_metadata (nd_id n) (md_pairs delta)))
      (seq (mdb (remove_metadata_keys (nd_id n) (md_removed delta)))
      (case metadata_change_counts current merged of (written, removed) \<Rightarrow>
       bind (apply_label_change C u n NODE_METADATA_CHANGED moment written removed) (\<lambda>n.
       bind (view n r) (\<lambda>v. ret (v, visible_metadata (cf_text C) merged))))))))))))"

definition labels_for :: "config \<Rightarrow> uuid \<Rightarrow> (string set \<times> dict) use_case" where
  "labels_for C nid = qdb (\<lambda>d. (tags_for d nid, visible_metadata (cf_text C) (metadata_for d nid)))"

definition current_digest :: "node \<Rightarrow> string option use_case" where
  "current_digest n =
     (case nd_current_version_id n of
        None \<Rightarrow> ret None
      | Some vid \<Rightarrow> qdb (\<lambda>d. map_option fv_plaintext_digest (versions_get d vid)))"

section \<open>Structural writes\<close>

definition new_folder :: "uuid \<Rightarrow> uuid \<Rightarrow> string \<Rightarrow> uuid \<Rightarrow> datetime \<Rightarrow> encryption_default \<Rightarrow> node" where
  "new_folder nid owner name parent now enc =
     \<lparr>nd_id = nid, nd_owner_id = owner, nd_kind = FOLDER, nd_name = name, nd_parent_id = Some parent,
      nd_created_at = now, nd_updated_at = now, nd_revision = 0, nd_deleted_at = None,
      nd_current_version_id = None, nd_size_bytes = 0, nd_content_type = None, nd_encrypted = False,
      nd_encryption_default = enc\<rparr>"

definition create_folder ::
  "config \<Rightarrow> user \<Rightarrow> uuid \<Rightarrow> string \<Rightarrow> encryption_default \<Rightarrow> datetime option \<Rightarrow> node_view use_case" where
  "create_folder C u parent_id name enc now =
     bind (moment_of now) (\<lambda>moment.
     bind (authorize C u parent_id EDITOR) (\<lambda>(parent, _).
     seq (ensure_folder parent)
    (seq (ensure_not_reserved_root_name C parent name)
    (seq (ensure_depth C parent)
    (bind uuid4 (\<lambda>nid.
     bind (lift (validate_name name)) (\<lambda>valid.
     bind (lift (post_init (new_folder nid (nd_owner_id parent) valid (nd_id parent) moment enc))) (\<lambda>n.
     seq (ensure_name_free C (nd_id parent) (normalized_name (cf_text C) n) None)
    (seq (mdb (nodes_add n))
    (seq (flush C)
    (seq (audit_node u n NODE_CREATED moment)
    (seq (invalidate C (nd_id n) (Some (nd_id parent)) None False)
         (view n (if nd_owner_id n = us_id u then OWNER else EDITOR)))))))))))))) "

definition rename ::
  "config \<Rightarrow> user \<Rightarrow> uuid \<Rightarrow> string \<Rightarrow> string option \<Rightarrow> datetime option \<Rightarrow> node_view use_case" where
  "rename C u nid name if_match now =
     bind (moment_of now) (\<lambda>moment.
     bind (authorize C u nid EDITOR) (\<lambda>(n, r).
     seq (ensure_precondition n if_match)
    (seq (guard (\<not> is_root n) ValidationError)
    (bind (lift (validate_name name)) (\<lambda>candidate.
     seq (case nd_parent_id n of
            None \<Rightarrow> ret ()
          | Some p \<Rightarrow> ensure_name_free C p (normalize_name (cf_text C) candidate) (Some (nd_id n)))
    (bind (lift (rename_node candidate moment n)) (\<lambda>n.
     seq (mdb (nodes_update n))
    (seq (flush C)
    (seq (audit_node u n NODE_RENAMED moment)
    (seq (invalidate C (nd_id n) (nd_parent_id n) None False)
         (view n r)))))))))))"

definition move ::
  "config \<Rightarrow> user \<Rightarrow> uuid \<Rightarrow> uuid \<Rightarrow> string option \<Rightarrow> datetime option \<Rightarrow> node_view use_case" where
  "move C u nid new_parent_id if_match now =
     bind (moment_of now) (\<lambda>moment.
     seq (lock_subtree new_parent_id)
    (bind (authorize C u nid EDITOR) (\<lambda>(n, r).
     seq (ensure_precondition n if_match)
    (bind (authorize C u new_parent_id EDITOR) (\<lambda>(destination, _).
     seq (ensure_folder destination)
    (seq (guard (\<not> is_root n) ValidationError)
    (seq (guard (nd_owner_id destination = nd_owner_id n) CrossOwnerMoveError)
    (bind (qdb (\<lambda>d. is_ancestor_of d (nd_id n) (nd_id destination))) (\<lambda>cycle.
     seq (guard (\<not> cycle) WouldCreateCycleError)
    (seq (ensure_depth C destination)
    (seq (ensure_name_free C (nd_id destination) (normalized_name (cf_text C) n) (Some (nd_id n)))
    (bind (lift (move_to (nd_id destination) moment n)) (\<lambda>moved.
     seq (mdb (nodes_update moved))
    (seq (flush C)
    (seq (audit_node u moved NODE_MOVED moment)
    (seq (invalidate C (nd_id n) (nd_parent_id n) (Some (nd_id destination)) True)
         (view moved r)))))))))))))))))"

definition delete ::
  "config \<Rightarrow> user \<Rightarrow> uuid \<Rightarrow> string option \<Rightarrow> datetime option \<Rightarrow> nat use_case" where
  "delete C u nid if_match now =
     bind (moment_of now) (\<lambda>moment.
     bind (authorize C u nid OWNER) (\<lambda>(n, _).
     seq (ensure_precondition n if_match)
    (seq (guard (\<not> is_root n) ValidationError)
    (bind (rundb (soft_delete_subtree (nd_id n) moment)) (\<lambda>trashed.
     let count = length trashed;
         bytes_trashed = sum_list (map nd_size_bytes (filter is_file trashed)) in
     seq (move_bytes (nd_owner_id n) bytes_trashed moment True)
    (seq (flush C)
    (seq (audit_node u n NODE_DELETED moment)
    (seq (invalidate C (nd_id n) (nd_parent_id n) None True)
         (ret count)))))))))"

text \<open>Where a restored node goes: its old parent while that is live, otherwise the caller's root.\<close>

definition restore_destination :: "db \<Rightarrow> user \<Rightarrow> node \<Rightarrow> uuid" where
  "restore_destination d u n =
     (let parent = (case nd_parent_id n of None \<Rightarrow> None | Some p \<Rightarrow> nodes_get d p) in
      case parent of
        Some p \<Rightarrow> if \<not> is_deleted p then nd_id p else us_root_folder_id u
      | None \<Rightarrow> us_root_folder_id u)"

definition restore :: "config \<Rightarrow> user \<Rightarrow> uuid \<Rightarrow> datetime option \<Rightarrow> node_view use_case" where
  "restore C u nid now =
     bind (moment_of now) (\<lambda>moment.
     bind (qdb (\<lambda>d. nodes_get d nid)) (\<lambda>found.
     bind (expect found NotFoundError) (\<lambda>n.
     seq (guard (is_deleted n) NotFoundError)
    (seq (authorize_or_record (us_subject u) nid (resolve_effective_role (nd_owner_id n = us_id u) []) OWNER None)
    (bind (qdb (\<lambda>d. restore_destination d u n)) (\<lambda>destination.
     seq (ensure_name_free C destination (normalized_name (cf_text C) n) (Some (nd_id n)))
    (bind (stepdb (restore_subtree (nd_id n) moment)) (\<lambda>cleared.
     bind (qdb (\<lambda>d. nodes_get d nid)) (\<lambda>reread.
     bind (expect reread CyberFSError) (\<lambda>m.
     let m = m\<lparr>nd_parent_id := Some destination\<rparr> in
     seq (mdb (nodes_update m))
    (let restored = sum_list (map nd_size_bytes (filter is_file cleared)) in
     seq (move_bytes (nd_owner_id m) restored moment False)
    (seq (flush C)
    (seq (audit_node u m NODE_RESTORED moment)
    (seq (invalidate_subtree C m cleared)
         (view m OWNER)))))))))))))))"

end
