(* ===== verification/NodeFacts.thy ===== *)
theory NodeFacts
  imports NodeService
begin

text \<open>
  What a use case of the node service that returned has checked and written: one lemma per operation,
  giving the guards it passed and the database it left. The properties of the operations are proved
  from these lemmas, without going through the code again.
\<close>

section \<open>Authorization\<close>

lemma cache_read_store: "cache_read k w = (r, w') \<Longrightarrow> same_store w w' \<and> (\<exists>v. r = Inr v)"
  by (auto simp: cache_read_def split: prod.splits)

lemma permission_store:
  assumes "permission C subject nid (qdb f) w = (r, w')"
  shows "same_store w w'"
proof -
  obtain v w1 where rd: "cache_read (cache_key (cf_cache_schema C) PERMISSION [subject, uuid_str nid]) w = (Inr v, w1)"
    using cache_read_store by (metis surj_pair)
  with cache_read_store have "same_store w w1" by blast
  moreover have "same_store w1 w'"
    using assms rd
    by (cases v) (auto simp: permission_def get_or_load_def bind_run seq_run Let_def cache_write_def
        split: if_splits option.splits)
  ultimately show ?thesis by (rule same_store_trans)
qed

lemma effective_role_store: "effective_role C subject owner n w = (r, w') \<Longrightarrow> same_store w w'"
  by (auto simp: effective_role_def Let_def dest: permission_store split: if_splits)

lemma authorize_facts:
  assumes "authorize C u nid minimum w = (Inr (n, r), w')"
  shows "nodes_get (w_db w) nid = Some n \<and> \<not> is_deleted n \<and> minimum \<le> r \<and> same_store w w' \<and>
    (\<exists>w1. effective_role C (us_subject u) (us_id u) n w = (Inr (Some r), w1))"
  using assms
  by (auto simp: authorize_def world_ok dest: effective_role_store)

lemma authorize_node:
  assumes "authorize C u nid minimum w = (Inr x, w')"
  shows "nodes_get (w_db w) nid = Some (fst x) \<and> \<not> is_deleted (fst x) \<and> minimum \<le> snd x \<and> same_store w w'"
  using assms authorize_facts[of C u nid minimum w "fst x" "snd x" w'] by simp

text \<open>Without a cache the role is the resolution itself.\<close>

lemma effective_role_uncached:
  "\<not> cf_cache_enabled C \<Longrightarrow> effective_role C subject owner n w = (Inr (compute_role (w_db w) subject owner n), w)"
  by (simp add: effective_role_def)

lemma invalidate_store: "invalidate C nid p q b w = (r, w') \<Longrightarrow> same_store w w'"
  unfolding invalidate_def
  by (auto elim!: seq_store[rotated 2] dest: on_node_mutated_store invalidate_all_permissions_store
      split: if_splits)

lemma view_store: "view n r w = (x, w') \<Longrightarrow> same_store w w'"
  by (auto simp: view_def)

lemma view_ok: "view n r w = (Inr v, w') \<longleftrightarrow> w' = w \<and> v = \<lparr>nv_node = n, nv_role = r,
    nv_path = path_of n (nodes_ancestors (w_db w) (nd_id n) ANCESTOR_GUARD_DEPTH), nv_parent_id = nd_parent_id n\<rparr>"
  by (auto simp: view_def)

lemma audit_node_ok:
  "audit_node u n action t w = (Inr x, w') \<longleftrightarrow>
   w' = w\<lparr>w_db := audit_add (audit_of action t (us_subject u) (Some (uuid_str (nd_id n))) (owner_context n (us_id u)))
                  (w_db w)\<rparr>"
  by (simp add: audit_node_def emit_audit_ok)

lemma ensure_depth_ok:
  "ensure_depth C n w = (Inr x, w') \<longleftrightarrow>
   length (nodes_ancestors (w_db w) (nd_id n) ANCESTOR_GUARD_DEPTH) + 1 < cf_max_tree_depth C \<and> w' = w"
  by (auto simp: ensure_depth_def world_ok)

definition name_free_for :: "config \<Rightarrow> db \<Rightarrow> uuid \<Rightarrow> string \<Rightarrow> uuid option \<Rightarrow> bool" where
  "name_free_for C d p name ex \<longleftrightarrow>
     (\<forall>e. get_child_by_name (cf_text C) d p name = Some e \<longrightarrow> Some (nd_id e) = ex)"

lemma ensure_name_free_ok:
  "ensure_name_free C p name ex w = (Inr x, w') \<longleftrightarrow> name_free_for C (w_db w) p name ex \<and> w' = w"
  by (auto simp: ensure_name_free_def world_ok name_free_for_def split: option.splits)

lemmas guard_oks = ensure_folder_def ensure_not_reserved_root_name_def ensure_precondition_def
  ensure_depth_ok ensure_name_free_ok view_ok audit_node_ok

lemma same_store_db: "same_store w w' \<Longrightarrow> w_db w' = w_db w"
  by (simp add: same_store_def)

section \<open>Create\<close>

definition audited :: "db \<Rightarrow> db \<Rightarrow> bool" where
  "audited d d' \<longleftrightarrow> (\<exists>a. d' = audit_add a d)"

lemma audited_nodes: "audited d d' \<Longrightarrow> db_nodes d' = db_nodes d \<and> db_quotas d' = db_quotas d \<and>
    db_versions d' = db_versions d \<and> db_grants d' = db_grants d \<and> db_tags d' = db_tags d \<and>
    db_metadata d' = db_metadata d \<and> db_links d' = db_links d \<and> db_data_keys d' = db_data_keys d"
  by (auto simp: audited_def audit_add_def)

lemma create_folder_facts:
  assumes "create_folder C u pid name enc now w = (Inr v, w')"
  obtains parent t n where "nodes_get (w_db w) pid = Some parent" "\<not> is_deleted parent" "is_folder parent"
    "length (nodes_ancestors (w_db w) pid ANCESTOR_GUARD_DEPTH) + 1 < cf_max_tree_depth C"
    "\<not> (is_root parent \<and> normalize_name (cf_text C) name = SHARED_PREFIX)"
    "validate_name name = Inr name" "n = new_folder (w_uuids w (w_drawn w)) (nd_owner_id parent) name pid t enc"
    "name_free_for C (w_db w) pid (normalized_name (cf_text C) n) None"
    "audited (nodes_add n (w_db w)) (w_db w')" "w_objects w' = w_objects w" "nv_node v = n"
    "w_uuids w' = w_uuids w" "w_drawn w' = w_drawn w + 1"
proof -
  from assms obtain parent r w1 w2 w3 n valid t where
    a: "authorize C u pid EDITOR w = (Inr (parent, r), w1)" and
    g: "is_folder parent" "\<not> (is_root parent \<and> normalize_name (cf_text C) name = SHARED_PREFIX)"
      "length (nodes_ancestors (w_db w1) (nd_id parent) ANCESTOR_GUARD_DEPTH) + 1 < cf_max_tree_depth C" and
    v: "validate_name name = Inr valid"
      "post_init (new_folder (w_uuids w1 (w_drawn w1)) (nd_owner_id parent) valid (nd_id parent) t enc) = Inr n" and
    f: "name_free_for C (w_db w1) (nd_id parent) (normalized_name (cf_text C) n) None" and
    d: "w2 = w1\<lparr>w_drawn := w_drawn w1 + 1, w_db := audit_add (audit_of NODE_CREATED t (us_subject u)
          (Some (uuid_str (nd_id n))) (owner_context n (us_id u))) (nodes_add n (w_db w1))\<rparr>" and
    i: "invalidate C (nd_id n) (Some (nd_id parent)) None False w2 = (Inr (), w3)" and
    e: "w' = w3" "nv_node v = n"
    unfolding create_folder_def by (auto simp: world_ok guard_oks)
  from authorize_facts[OF a] have p: "nodes_get (w_db w) pid = Some parent" "\<not> is_deleted parent" "same_store w w1"
    by auto
  have pid: "nd_id parent = pid" using nodes_get_Some[OF p(1)] by simp
  have n: "n = new_folder (w_uuids w1 (w_drawn w1)) (nd_owner_id parent) name pid t enc"
    using v pid by (auto simp: post_init_def validate_name_ok split: sum.splits if_splits)
  from invalidate_store[OF i] d p(3) e show thesis
    by (intro that[of parent n t])
      (use p g v f pid n in \<open>auto simp: same_store_def audited_def validate_name_ok\<close>)
qed

section \<open>Rename and move\<close>

lemma name_free_opt_ok:
  "(case p of None \<Rightarrow> ret () | Some q \<Rightarrow> ensure_name_free C q name (Some i)) w = (Inr x, w') \<longleftrightarrow>
   (\<forall>q. p = Some q \<longrightarrow> name_free_for C (w_db w) q name (Some i)) \<and> w' = w"
  by (cases p) (auto simp: ensure_name_free_ok)

lemma rename_run:
  assumes "rename C u nid name im now w = (Inr v, w')"
  obtains n r w1 valid t m where "authorize C u nid EDITOR w = (Inr (n, r), w1)"
    "validate_name name = Inr valid" "rename_node valid t n = Inr m" "precondition_holds n im" "\<not> is_root n"
    "\<forall>p. nd_parent_id n = Some p \<longrightarrow> name_free_for C (w_db w1) p (normalize_name (cf_text C) valid) (Some (nd_id n))"
    "invalidate C (nd_id m) (nd_parent_id m) None False
       (w1\<lparr>w_db := audit_add (audit_of NODE_RENAMED t (us_subject u)
          (Some (uuid_str (nd_id m))) (owner_context m (us_id u))) (nodes_update m (w_db w1))\<rparr>) = (Inr (), w')"
    "nv_node v = m"
  using assms(1) unfolding rename_def
  by (clarsimp simp: world_ok guard_oks name_free_opt_ok)

lemma rename_facts:
  assumes "rename C u nid name im now w = (Inr v, w')"
  obtains n p t m where "nodes_get (w_db w) nid = Some n" "\<not> is_deleted n" "nd_parent_id n = Some p"
    "precondition_holds n im" "validate_name name = Inr name"
    "name_free_for C (w_db w) p (normalize_name (cf_text C) name) (Some nid)"
    "m = touch t (n\<lparr>nd_name := name\<rparr>)" "audited (nodes_update m (w_db w)) (w_db w')"
    "w_objects w' = w_objects w" "nv_node v = m" "w_uuids w' = w_uuids w" "w_drawn w' = w_drawn w"
  using assms
proof (rule rename_run)
  fix n r w1 valid t m
  assume a: "authorize C u nid EDITOR w = (Inr (n, r), w1)" and g: "validate_name name = Inr valid"
    "rename_node valid t n = Inr m" "precondition_holds n im" "\<not> is_root n"
    "\<forall>p. nd_parent_id n = Some p \<longrightarrow> name_free_for C (w_db w1) p (normalize_name (cf_text C) valid) (Some (nd_id n))"
    and i: "invalidate C (nd_id m) (nd_parent_id m) None False
       (w1\<lparr>w_db := audit_add (audit_of NODE_RENAMED t (us_subject u)
          (Some (uuid_str (nd_id m))) (owner_context m (us_id u))) (nodes_update m (w_db w1))\<rparr>) = (Inr (), w')"
    and e: "nv_node v = m"
  from authorize_facts[OF a] have n: "nodes_get (w_db w) nid = Some n" "\<not> is_deleted n" "same_store w w1" by auto
  obtain p where p: "nd_parent_id n = Some p" using g(4) by (auto simp: is_root_def)
  have nid: "nd_id n = nid" using nodes_get_Some[OF n(1)] by simp
  have m: "m = touch t (n\<lparr>nd_name := name\<rparr>)" and nm: "valid = name"
    using g(1,2) by (auto simp: rename_node_def validate_name_ok split: sum.splits)
  from invalidate_store[OF i] n(3) show thesis
    by (intro that[of n p m t]) (use n g p m nid nm e in \<open>simp_all add: same_store_def audited_def\<close>, blast+)
qed

lemma move_run:
  assumes "move C u nid pid im now w = (Inr v, w')"
  obtains n r w1 dest r' w2 t m where
    "authorize C u nid EDITOR w = (Inr (n, r), w1)" "authorize C u pid EDITOR w1 = (Inr (dest, r'), w2)"
    "move_to (nd_id dest) t n = Inr m" "precondition_holds n im" "is_folder dest" "\<not> is_root n" "nd_owner_id dest = nd_owner_id n"
    "\<not> is_ancestor_of (w_db w2) (nd_id n) (nd_id dest)"
    "Suc (length (nodes_ancestors (w_db w2) (nd_id dest) ANCESTOR_GUARD_DEPTH)) < cf_max_tree_depth C"
    "name_free_for C (w_db w2) (nd_id dest) (normalized_name (cf_text C) n) (Some (nd_id n))"
    "invalidate C (nd_id n) (nd_parent_id n) (Some (nd_id dest)) True
       (w2\<lparr>w_db := audit_add (audit_of NODE_MOVED t (us_subject u)
          (Some (uuid_str (nd_id m))) (owner_context m (us_id u))) (nodes_update m (w_db w2))\<rparr>) = (Inr (), w')"
    "nv_node v = m"
  using assms(1) unfolding move_def
  by (clarsimp simp: world_ok guard_oks)

lemma move_facts:
  assumes "move C u nid pid im now w = (Inr v, w')"
  obtains n dest t m q where "nodes_get (w_db w) nid = Some n" "\<not> is_deleted n" "nd_parent_id n = Some q"
    "precondition_holds n im" "nodes_get (w_db w) pid = Some dest" "\<not> is_deleted dest" "is_folder dest"
    "nd_owner_id dest = nd_owner_id n" "\<not> is_ancestor_of (w_db w) nid pid"
    "length (nodes_ancestors (w_db w) pid ANCESTOR_GUARD_DEPTH) + 1 < cf_max_tree_depth C"
    "name_free_for C (w_db w) pid (normalized_name (cf_text C) n) (Some nid)"
    "m = touch t (n\<lparr>nd_parent_id := Some pid\<rparr>)" "audited (nodes_update m (w_db w)) (w_db w')"
    "w_objects w' = w_objects w" "nv_node v = m" "w_uuids w' = w_uuids w" "w_drawn w' = w_drawn w"
  using assms
proof (rule move_run)
  fix n r w1 dest r' w2 t m
  assume a: "authorize C u nid EDITOR w = (Inr (n, r), w1)" and b: "authorize C u pid EDITOR w1 = (Inr (dest, r'), w2)"
    and g: "move_to (nd_id dest) t n = Inr m" "precondition_holds n im" "is_folder dest" "\<not> is_root n" "nd_owner_id dest = nd_owner_id n"
    "\<not> is_ancestor_of (w_db w2) (nd_id n) (nd_id dest)"
    "Suc (length (nodes_ancestors (w_db w2) (nd_id dest) ANCESTOR_GUARD_DEPTH)) < cf_max_tree_depth C"
    "name_free_for C (w_db w2) (nd_id dest) (normalized_name (cf_text C) n) (Some (nd_id n))"
    and i: "invalidate C (nd_id n) (nd_parent_id n) (Some (nd_id dest)) True
       (w2\<lparr>w_db := audit_add (audit_of NODE_MOVED t (us_subject u)
          (Some (uuid_str (nd_id m))) (owner_context m (us_id u))) (nodes_update m (w_db w2))\<rparr>) = (Inr (), w')"
    and e: "nv_node v = m"
  from authorize_facts[OF a] have n: "nodes_get (w_db w) nid = Some n" "\<not> is_deleted n" "same_store w w1" by auto
  from authorize_facts[OF b] have dst: "nodes_get (w_db w1) pid = Some dest" "\<not> is_deleted dest" "same_store w1 w2" by auto
  obtain q where q: "nd_parent_id n = Some q" using g(4) by (auto simp: is_root_def)
  have ids: "nd_id n = nid" "nd_id dest = pid" using nodes_get_Some[OF n(1)] nodes_get_Some[OF dst(1)] by auto
  have m: "m = touch t (n\<lparr>nd_parent_id := Some pid\<rparr>)"
    using g(1) ids by (auto simp: move_to_def split: if_splits)
  have s: "same_store w w2" using n(3) dst(3) by (rule same_store_trans)
  from invalidate_store[OF i] s n(3) show thesis
    by (intro that[of n q dest m t]) (use n dst g q m ids e in \<open>simp_all add: same_store_def audited_def\<close>, blast+)
qed

section \<open>Delete and restore\<close>

text \<open>The quota row after bytes moved between the live and the trashed bucket.\<close>

definition bytes_moved :: "uuid \<Rightarrow> int \<Rightarrow> datetime \<Rightarrow> bool \<Rightarrow> db \<Rightarrow> db" where
  "bytes_moved owner n now to_trash d =
     (if n \<le> 0 then d
      else case quotas_get d owner of
        None \<Rightarrow> d
      | Some q \<Rightarrow> quotas_update (if to_trash then move_to_trash n now q else restore_from_trash n now q) d)"

lemma move_bytes_ok:
  "move_bytes owner n now b w = (Inr x, w') \<longleftrightarrow> w' = w\<lparr>w_db := bytes_moved owner n now b (w_db w)\<rparr>"
  by (auto simp: move_bytes_def bytes_moved_def world_ok split: option.splits)

lemma bytes_moved_frame [simp]:
  "db_nodes (bytes_moved ow n now b d) = db_nodes d" "db_versions (bytes_moved ow n now b d) = db_versions d"
  "db_grants (bytes_moved ow n now b d) = db_grants d" "db_users (bytes_moved ow n now b d) = db_users d"
  "db_audit (bytes_moved ow n now b d) = db_audit d"
  by (auto simp: bytes_moved_def quotas_update_def split: option.splits)

definition file_bytes :: "node list \<Rightarrow> int" where
  "file_bytes ns = sum_list (map nd_size_bytes (filter is_file ns))"

lemma delete_run:
  assumes "delete C u nid im now w = (Inr k, w')"
  obtains n r w1 t trashed d1 where "authorize C u nid OWNER w = (Inr (n, r), w1)"
    "soft_delete_subtree (nd_id n) t (w_db w1) = (Inr trashed, d1)" "precondition_holds n im" "\<not> is_root n"
    "k = length trashed" "t = (case now of None \<Rightarrow> w_clock w | Some t \<Rightarrow> t)"
    "invalidate C (nd_id n) (nd_parent_id n) None True
       (w1\<lparr>w_db := audit_add (audit_of NODE_DELETED t (us_subject u) (Some (uuid_str (nd_id n))) (owner_context n (us_id u)))
          (bytes_moved (nd_owner_id n) (file_bytes trashed) t True d1)\<rparr>) = (Inr (), w')"
  using assms unfolding delete_def
  by (clarsimp simp: world_ok guard_oks Let_def move_bytes_ok file_bytes_def)

lemma delete_facts:
  assumes "delete C u nid im now w = (Inr k, w')"
  obtains n t trashed d1 where "nodes_get (w_db w) nid = Some n" "\<not> is_deleted n" "\<not> is_root n"
    "precondition_holds n im" "soft_delete_subtree nid t (w_db w) = (Inr trashed, d1)" "k = length trashed"
    "audited (bytes_moved (nd_owner_id n) (file_bytes trashed) t True d1) (w_db w')" "w_objects w' = w_objects w"
    "w_uuids w' = w_uuids w" "w_drawn w' = w_drawn w" "t = (case now of None \<Rightarrow> w_clock w | Some t \<Rightarrow> t)"
  using assms
proof (rule delete_run)
  fix n r w1 t trashed d1
  assume a: "authorize C u nid OWNER w = (Inr (n, r), w1)"
    and s: "soft_delete_subtree (nd_id n) t (w_db w1) = (Inr trashed, d1)"
    and g: "precondition_holds n im" "\<not> is_root n" "k = length trashed" "t = (case now of None \<Rightarrow> w_clock w | Some t \<Rightarrow> t)"
    and i: "invalidate C (nd_id n) (nd_parent_id n) None True
       (w1\<lparr>w_db := audit_add (audit_of NODE_DELETED t (us_subject u) (Some (uuid_str (nd_id n))) (owner_context n (us_id u)))
          (bytes_moved (nd_owner_id n) (file_bytes trashed) t True d1)\<rparr>) = (Inr (), w')"
  from authorize_facts[OF a] have n: "nodes_get (w_db w) nid = Some n" "\<not> is_deleted n" "same_store w w1" by auto
  have nid: "nd_id n = nid" using nodes_get_Some[OF n(1)] by simp
  from invalidate_store[OF i] n(3) show thesis
    by (intro that[of n t trashed d1]) (use n g s nid in \<open>simp_all add: same_store_def audited_def\<close>, blast+)
qed

lemma for_each_store:
  "(\<And>x u r v. f x u = (r, v) \<Longrightarrow> same_store u v) \<Longrightarrow> for_each xs f w = (r, w') \<Longrightarrow> same_store w w'"
  by (induction xs arbitrary: w w' r) (auto elim!: seq_store[rotated 2])

lemma invalidate_subtree_store: "invalidate_subtree C n ns w = (r, w') \<Longrightarrow> same_store w w'"
  unfolding invalidate_subtree_def
  by (auto simp: invalidate_node_def elim!: seq_store[rotated 2] for_each_store[rotated]
      dest: invalidate_store invalidate_listing_store invalidate_keys_store split: if_splits)

lemma resolve_self: "resolve_effective_role b [] = Some OWNER \<longleftrightarrow> b"
  by (cases b) (auto simp: resolve_owner resolve_not_owner)

lemma restore_run:
  assumes "restore C u nid now w = (Inr v, w')"
  obtains n t cleared d1 m where "nodes_get (w_db w) nid = Some n" "is_deleted n" "nd_owner_id n = us_id u"
    "restore_subtree (nd_id n) t (w_db w) = (cleared, d1)" "nodes_get d1 nid = Some m"
    "name_free_for C (w_db w) (restore_destination (w_db w) u n) (normalized_name (cf_text C) n) (Some (nd_id n))"
    "invalidate_subtree C (m\<lparr>nd_parent_id := Some (restore_destination (w_db w) u n)\<rparr>) cleared
       (w\<lparr>w_db := audit_add (audit_of NODE_RESTORED t (us_subject u) (Some (uuid_str (nd_id m)))
             (owner_context (m\<lparr>nd_parent_id := Some (restore_destination (w_db w) u n)\<rparr>) (us_id u)))
          (bytes_moved (nd_owner_id m) (file_bytes cleared) t False
             (nodes_update (m\<lparr>nd_parent_id := Some (restore_destination (w_db w) u n)\<rparr>) d1))\<rparr>) = (Inr (), w')"
    "nv_node v = m\<lparr>nd_parent_id := Some (restore_destination (w_db w) u n)\<rparr>"
  using assms unfolding restore_def
  by (clarsimp simp: world_ok guard_oks Let_def move_bytes_ok file_bytes_def resolve_self)

text \<open>Writing a quota row replaces that of its user.\<close>

lemma quotas_get_update:
  "quotas_get (quotas_update q d) uid =
     (if uid = qu_user_id q then map_option (\<lambda>_. q) (quotas_get d uid) else quotas_get d uid)"
proof -
  have "row_by qu_user_id uid (upd_row qu_user_id (qu_user_id q) (\<lambda>_. q) rs) =
     (if uid = qu_user_id q then map_option (\<lambda>_. q) (row_by qu_user_id uid rs) else row_by qu_user_id uid rs)" for rs
    by (induction rs) (auto simp: row_by_def upd_row_def)
  then show ?thesis by (simp add: quotas_get_def quotas_update_def)
qed

end
