(* ===== verification/NodeInvariants.thy ===== *)
theory NodeInvariants
  imports NodeFacts
begin

text \<open>
  The structural invariants of the node table and the operations of the node service: every operation
  that returns keeps the forest (no cycle, no dangling parent, unique identifiers), the uniqueness of
  live sibling names, and the liveness of the ancestors of a live node.
\<close>

section \<open>Updating one row\<close>

lemma nodes_update_shape:
  "nodes_get d (nd_id n) = Some r \<Longrightarrow> tree_inv (db_nodes d) \<Longrightarrow> nd_parent_id n = nd_parent_id r \<Longrightarrow>
   shape (db_nodes (nodes_update n d)) = shape (db_nodes d)"
proof -
  assume r: "nodes_get d (nd_id n) = Some r" "tree_inv (db_nodes d)" "nd_parent_id n = nd_parent_id r"
  have "nd_parent_id s = nd_parent_id n" if "s \<in> set (db_nodes d)" "nd_id s = nd_id n" for s
    using r that nodes_get_iff[OF r(2), of "nd_id n" s] by simp
  then show ?thesis by (auto simp: nodes_update_def shape_def upd_row_def apply_node_def)
qed

lemma upd_row_unique:
  assumes "distinct (map f rows)" "r \<in> set rows" "f r = k"
  shows "set (upd_row f k g rows) = insert (g r) {s \<in> set rows. f s \<noteq> k}"
proof -
  have u: "s = r" if "s \<in> set rows" "f s = k" for s
    using assms that by (auto simp: distinct_map inj_on_def)
  have "(if f s = k then g s else s) \<in> insert (g r) {s \<in> set rows. f s \<noteq> k}" if s: "s \<in> set rows" for s
  proof (cases "f s = k")
    case True
    with u[OF s] show ?thesis by simp
  qed (use s in simp)
  moreover have "g r \<in> (\<lambda>s. if f s = k then g s else s) ` set rows"
    using assms by (intro image_eqI[where x = r]) auto
  moreover have "s \<in> (\<lambda>s. if f s = k then g s else s) ` set rows" if "s \<in> set rows" "f s \<noteq> k" for s
    using that by (intro image_eqI[where x = s]) auto
  ultimately show ?thesis unfolding set_upd_row
    by (intro equalityI image_subsetI subsetI) (assumption | elim insertE CollectE conjE, simp_all)+
qed

lemma nodes_update_set:
  assumes "tree_inv (db_nodes d)" "nodes_get d (nd_id n) = Some r"
  shows "set (db_nodes (nodes_update n d)) = insert (apply_node n r) {s \<in> set (db_nodes d). nd_id s \<noteq> nd_id n}"
  using assms nodes_get_Some[OF assms(2)] by (simp add: nodes_update_def tree_inv_def upd_row_unique)

lemma apply_node_fields [simp]:
  "nd_id (apply_node n r) = nd_id r" "nd_parent_id (apply_node n r) = nd_parent_id n"
  "nd_name (apply_node n r) = nd_name n" "nd_deleted_at (apply_node n r) = nd_deleted_at n"
  "nd_owner_id (apply_node n r) = nd_owner_id n" "nd_kind (apply_node n r) = nd_kind r"
  "is_deleted (apply_node n r) = is_deleted n" "normalized_name T (apply_node n r) = normalized_name T n"
  by (simp_all add: apply_node_def is_deleted_def normalized_name_def)

lemma touch_derived [simp]:
  "is_deleted (touch t n) = is_deleted n" "normalized_name T (touch t n) = normalized_name T n"
  by (simp_all add: is_deleted_def normalized_name_def)

section \<open>Sibling names\<close>

lemma names_after_update:
  assumes inv: "tree_inv (db_nodes d)" "sibling_names_unique (cf_text C) (db_nodes d)"
    and n: "nodes_get d nid = Some r" "nd_id n = nid" "\<not> is_deleted r" "\<not> is_deleted n" "nd_parent_id n = Some p"
    and free: "name_free_for C d p (normalized_name (cf_text C) n) (Some nid)"
    and dist: "distinct (map nd_id (db_nodes (nodes_update n d)))"
  shows "sibling_names_unique (cf_text C) (db_nodes (nodes_update n d))"
proof -
  let ?T = "cf_text C"
  have others: "is_deleted s \<or> nd_parent_id s \<noteq> Some p \<or> normalized_name ?T s \<noteq> normalized_name ?T n"
    if s: "s \<in> set (db_nodes d)" "nd_id s \<noteq> nid" for s
  proof (rule ccontr)
    assume no: "\<not> (is_deleted s \<or> nd_parent_id s \<noteq> Some p \<or> normalized_name ?T s \<noteq> normalized_name ?T n)"
    then obtain e where e: "get_child_by_name ?T d p (normalized_name ?T n) = Some e"
      using s child_by_name_None[of ?T d p "normalized_name ?T n"] by (cases "get_child_by_name ?T d p (normalized_name ?T n)") auto
    from free e have "nd_id e = nid" by (auto simp: name_free_for_def)
    moreover from child_by_name_Some[OF e] have "e \<in> set (db_nodes d)" "nd_parent_id e = Some p"
      "normalized_name ?T e = normalized_name ?T n" "\<not> is_deleted e" by auto
    moreover have "distinct (map nd_id (db_nodes d))" using inv(1) by (simp add: tree_inv_def)
    ultimately show False using no s inv(2) by (auto simp: siblings_iff)
  qed
  have set: "set (db_nodes (nodes_update n d)) = insert (apply_node n r) {s \<in> set (db_nodes d). nd_id s \<noteq> nid}"
    using nodes_update_set[OF inv(1)] n(1,2) by simp
  have old: "\<forall>r\<in>set (db_nodes d). \<forall>s\<in>set (db_nodes d). \<not> is_deleted r \<longrightarrow> \<not> is_deleted s \<longrightarrow> nd_parent_id r \<noteq> None \<longrightarrow>
      nd_parent_id r = nd_parent_id s \<longrightarrow> normalized_name ?T r = normalized_name ?T s \<longrightarrow> r = s"
    using inv by (simp add: siblings_iff tree_inv_def)
  show ?thesis unfolding siblings_iff[OF dist] set
  proof (intro ballI impI)
    fix a b
    assume "a \<in> insert (apply_node n r) {s \<in> set (db_nodes d). nd_id s \<noteq> nid}"
      "b \<in> insert (apply_node n r) {s \<in> set (db_nodes d). nd_id s \<noteq> nid}" and
      ab: "\<not> is_deleted a" "\<not> is_deleted b" "nd_parent_id a \<noteq> None" "nd_parent_id a = nd_parent_id b"
      "normalized_name ?T a = normalized_name ?T b"
    then consider "a = apply_node n r" "b = apply_node n r"
      | "a = apply_node n r" "b \<in> set (db_nodes d)" "nd_id b \<noteq> nid"
      | "a \<in> set (db_nodes d)" "nd_id a \<noteq> nid" "b = apply_node n r"
      | "a \<in> set (db_nodes d)" "b \<in> set (db_nodes d)" by blast
    then show "a = b"
      by cases (use ab n(5) others[of a] others[of b] old in auto)
  qed
qed

lemma names_after_add:
  assumes "tree_inv (db_nodes d)" "sibling_names_unique (cf_text C) (db_nodes d)" "nd_parent_id n = Some p"
    and free: "name_free_for C d p (normalized_name (cf_text C) n) None"
    and dist: "distinct (map nd_id (db_nodes d @ [n]))"
  shows "sibling_names_unique (cf_text C) (db_nodes (nodes_add n d))"
proof -
  let ?T = "cf_text C"
  have "get_child_by_name ?T d p (normalized_name ?T n) = None" using free by (auto simp: name_free_for_def)
  then have "\<forall>r\<in>set (db_nodes d). nd_parent_id r = Some p \<longrightarrow> normalized_name ?T r = normalized_name ?T n \<longrightarrow> is_deleted r"
    by (simp add: child_by_name_None)
  then show ?thesis using assms
    by (auto simp: nodes_add_def sibling_names_unique_def tree_inv_def)
qed

section \<open>Operations keep the forest\<close>

text \<open>The identifiers of nodes and versions in use, and that none of those still to be drawn is among them.\<close>

definition used_ids :: "db \<Rightarrow> uuid set" where
  "used_ids d = nd_id ` set (db_nodes d) \<union> fv_id ` set (db_versions d)"

definition fresh_ids :: "world \<Rightarrow> bool" where
  "fresh_ids w \<longleftrightarrow> inj (w_uuids w) \<and> (\<forall>i\<ge>w_drawn w. w_uuids w i \<notin> used_ids (w_db w))"

lemma create_folder_tree:
  assumes "create_folder C u pid name enc now w = (Inr v, w')" "tree_inv (db_nodes (w_db w))" "fresh_ids w"
  shows "tree_inv (db_nodes (w_db w'))"
  using assms(1)
proof (rule create_folder_facts)
  fix parent t n
  assume p: "nodes_get (w_db w) pid = Some parent"
    and n: "n = new_folder (w_uuids w (w_drawn w)) (nd_owner_id parent) name pid t enc"
    and d: "audited (nodes_add n (w_db w)) (w_db w')"
  have "tree_inv (db_nodes (w_db w) @ [n])"
    using assms(2,3) nodes_get_Some[OF p]
    by (intro tree_inv_add[where p = pid]) (auto simp: n new_folder_def fresh_ids_def used_ids_def)
  with audited_nodes[OF d] show ?thesis by (simp add: nodes_add_def)
qed

lemma rename_tree:
  assumes "rename C u nid name im now w = (Inr v, w')" "tree_inv (db_nodes (w_db w))"
  shows "tree_inv (db_nodes (w_db w'))"
  using assms(1)
proof (rule rename_facts)
  fix n p t m
  assume n: "nodes_get (w_db w) nid = Some n" and m: "m = touch t (n\<lparr>nd_name := name\<rparr>)"
    and d: "audited (nodes_update m (w_db w)) (w_db w')"
  have "shape (db_nodes (nodes_update m (w_db w))) = shape (db_nodes (w_db w))"
    using n nodes_get_Some[OF n] assms(2) by (intro nodes_update_shape[where r = n]) (auto simp: m)
  with audited_nodes[OF d] assms(2) show ?thesis by (metis tree_inv_cong)
qed

text \<open>The cycle check and the depth check together keep a node out of its own subtree.\<close>

lemma not_ancestor_not_below:
  assumes "tree_inv (db_nodes d)" "cf_max_tree_depth C \<le> CYCLE_GUARD_DEPTH" "pid \<in> nd_id ` set (db_nodes d)"
    "\<not> is_ancestor_of d nid pid" "length (nodes_ancestors d pid ANCESTOR_GUARD_DEPTH) + 1 < cf_max_tree_depth C"
  shows "(pid, nid) \<notin> (parent_rel (db_nodes d))\<^sup>*"
proof
  assume "(pid, nid) \<in> (parent_rel (db_nodes d))\<^sup>*"
  moreover have "pid \<noteq> nid" using assms(4) by (auto simp: is_ancestor_of_def)
  ultimately have "(pid, nid) \<in> (parent_rel (db_nodes d))\<^sup>+" by (metis rtranclD)
  then have "nid \<in> nd_id ` set (nodes_ancestors d pid CYCLE_GUARD_DEPTH)"
    using assms(2,3,5) by (intro ancestors_complete[OF assms(1)]) (auto simp: ANCESTOR_GUARD_DEPTH_def CYCLE_GUARD_DEPTH_def)
  with assms(4) show False by (simp add: is_ancestor_of_def)
qed

lemma move_tree:
  assumes "move C u nid pid im now w = (Inr v, w')" "tree_inv (db_nodes (w_db w))" "cf_max_tree_depth C \<le> CYCLE_GUARD_DEPTH"
  shows "tree_inv (db_nodes (w_db w'))"
  using assms(1)
proof (rule move_facts)
  fix n dest t m q
  let ?d = "w_db w"
  assume n: "nodes_get ?d nid = Some n" and dest: "nodes_get ?d pid = Some dest"
    and nc: "\<not> is_ancestor_of ?d nid pid"
    and dep: "length (nodes_ancestors ?d pid ANCESTOR_GUARD_DEPTH) + 1 < cf_max_tree_depth C"
    and m: "m = touch t (n\<lparr>nd_parent_id := Some pid\<rparr>)" and d: "audited (nodes_update m ?d) (w_db w')"
  from nodes_get_Some[OF n] nodes_get_Some[OF dest] have ids: "n \<in> set (db_nodes ?d)" "nd_id n = nid"
    "dest \<in> set (db_nodes ?d)" "nd_id dest = pid" by auto
  have "(pid, nid) \<notin> (parent_rel (db_nodes ?d))\<^sup>+"
    using not_ancestor_not_below[OF assms(2,3) _ nc dep] ids trancl_into_rtrancl by fastforce
  then have "tree_inv (upd_row nd_id (nd_id n) (apply_node m) (db_nodes ?d))"
    using assms(2) ids nc by (intro tree_inv_move[where p = pid]) (auto simp: m is_ancestor_of_def)
  with audited_nodes[OF d] show ?thesis by (simp add: nodes_update_def m)
qed

lemma soft_delete_shape: "soft_delete_subtree nid t d = (r, d') \<Longrightarrow> shape (db_nodes d') = shape (db_nodes d)"
  by (auto simp: soft_delete_subtree_def Let_def shape_update_where split: option.splits)

lemma restore_subtree_shape: "restore_subtree nid t d = (ns, d') \<Longrightarrow> shape (db_nodes d') = shape (db_nodes d)"
  by (auto simp: restore_subtree_def Let_def shape_update_where split: option.splits if_splits)

lemma delete_tree:
  assumes "delete C u nid im now w = (Inr k, w')" "tree_inv (db_nodes (w_db w))"
  shows "tree_inv (db_nodes (w_db w'))"
  using assms(1)
proof (rule delete_facts)
  fix n t trashed d1
  assume s: "soft_delete_subtree nid t (w_db w) = (Inr trashed, d1)"
    and d: "audited (bytes_moved (nd_owner_id n) (file_bytes trashed) t True d1) (w_db w')"
  from audited_nodes[OF d] soft_delete_shape[OF s] assms(2) show ?thesis by (metis tree_inv_cong bytes_moved_frame(1))
qed

section \<open>Operations keep sibling names unique\<close>

text \<open>The checks made before the write suffice: the unique index never has to refuse it.\<close>

lemma distinct_ids: "tree_inv rows \<Longrightarrow> distinct (map nd_id rows)"
  by (simp add: tree_inv_def)

lemma nodes_update_ids: "map nd_id (db_nodes (nodes_update n d)) = map nd_id (db_nodes d)"
  by (simp add: nodes_update_def map_upd_row_key)

lemma create_folder_names:
  assumes "create_folder C u pid name enc now w = (Inr v, w')" "tree_inv (db_nodes (w_db w))"
    "sibling_names_unique (cf_text C) (db_nodes (w_db w))" "fresh_ids w"
  shows "sibling_names_unique (cf_text C) (db_nodes (w_db w'))"
  using assms(1)
proof (rule create_folder_facts)
  fix parent t n
  assume n: "n = new_folder (w_uuids w (w_drawn w)) (nd_owner_id parent) name pid t enc"
    and f: "name_free_for C (w_db w) pid (normalized_name (cf_text C) n) None"
    and d: "audited (nodes_add n (w_db w)) (w_db w')"
  have "distinct (map nd_id (db_nodes (w_db w) @ [n]))"
    using assms(2,4) by (auto simp: n new_folder_def fresh_ids_def used_ids_def tree_inv_def)
  from names_after_add[OF assms(2,3) _ f this] audited_nodes[OF d] show ?thesis
    by (simp add: n new_folder_def)
qed

lemma rename_names:
  assumes "rename C u nid name im now w = (Inr v, w')" "tree_inv (db_nodes (w_db w))"
    "sibling_names_unique (cf_text C) (db_nodes (w_db w))"
  shows "sibling_names_unique (cf_text C) (db_nodes (w_db w'))"
  using assms(1)
proof (rule rename_facts)
  fix n p t m
  assume n: "nodes_get (w_db w) nid = Some n" "\<not> is_deleted n" "nd_parent_id n = Some p"
    and f: "name_free_for C (w_db w) p (normalize_name (cf_text C) name) (Some nid)"
    and m: "m = touch t (n\<lparr>nd_name := name\<rparr>)" and d: "audited (nodes_update m (w_db w)) (w_db w')"
  have "sibling_names_unique (cf_text C) (db_nodes (nodes_update m (w_db w)))"
    using n f nodes_get_Some[OF n(1)] assms(2,3)
    by (intro names_after_update[where r = n and nid = nid and p = p])
      (auto simp: m normalized_name_def is_deleted_def nodes_update_ids distinct_ids)
  with audited_nodes[OF d] show ?thesis by simp
qed

lemma move_names:
  assumes "move C u nid pid im now w = (Inr v, w')" "tree_inv (db_nodes (w_db w))"
    "sibling_names_unique (cf_text C) (db_nodes (w_db w))"
  shows "sibling_names_unique (cf_text C) (db_nodes (w_db w'))"
  using assms(1)
proof (rule move_facts)
  fix n dest t m q
  assume n: "nodes_get (w_db w) nid = Some n" "\<not> is_deleted n"
    and f: "name_free_for C (w_db w) pid (normalized_name (cf_text C) n) (Some nid)"
    and m: "m = touch t (n\<lparr>nd_parent_id := Some pid\<rparr>)" and d: "audited (nodes_update m (w_db w)) (w_db w')"
  have "sibling_names_unique (cf_text C) (db_nodes (nodes_update m (w_db w)))"
    using n f nodes_get_Some[OF n(1)] assms(2,3)
    by (intro names_after_update[where r = n and nid = nid and p = pid])
      (auto simp: m normalized_name_def is_deleted_def nodes_update_ids distinct_ids)
  with audited_nodes[OF d] show ?thesis by simp
qed

section \<open>What a delete trashes\<close>

text \<open>The rows a delete of \<open>nid\<close> is to trash: the live ones at or below it.\<close>

definition trashed_by :: "node list \<Rightarrow> uuid \<Rightarrow> node \<Rightarrow> bool" where
  "trashed_by rows nid r \<longleftrightarrow> \<not> is_deleted r \<and> (nd_id r, nid) \<in> (parent_rel rows)\<^sup>*"

definition trash_row :: "datetime \<Rightarrow> node \<Rightarrow> node" where
  "trash_row t r = r\<lparr>nd_deleted_at := Some t, nd_updated_at := t, nd_revision := nd_revision r + 1\<rparr>"

lemma at_or_below:
  assumes "tree_inv (db_nodes d)" "depth_le (db_nodes d) (Suc CYCLE_GUARD_DEPTH)" "nodes_get d nid = Some row"
    and r: "r \<in> set (db_nodes d)"
  shows "(nd_id r, nid) \<in> (parent_rel (db_nodes d))\<^sup>* \<longleftrightarrow>
    nd_id r \<in> nd_id ` set (row # nodes_descendants d nid CYCLE_GUARD_DEPTH True)"
proof
  assume "(nd_id r, nid) \<in> (parent_rel (db_nodes d))\<^sup>*"
  then consider "nd_id r = nid" | "(nd_id r, nid) \<in> (parent_rel (db_nodes d))\<^sup>+" by (metis rtranclD)
  then show "nd_id r \<in> nd_id ` set (row # nodes_descendants d nid CYCLE_GUARD_DEPTH True)"
  proof cases
    case 1
    then show ?thesis using nodes_get_Some[OF assms(3)] by simp
  next
    case 2
    from descendants_complete[OF assms(1,2) r this] show ?thesis by simp
  qed
next
  assume "nd_id r \<in> nd_id ` set (row # nodes_descendants d nid CYCLE_GUARD_DEPTH True)"
  then show "(nd_id r, nid) \<in> (parent_rel (db_nodes d))\<^sup>*"
    using nodes_get_Some[OF assms(3)] descendants_sound[of _ d nid CYCLE_GUARD_DEPTH True]
    by (auto intro: trancl_into_rtrancl)
qed

lemma same_row: "tree_inv rows \<Longrightarrow> r \<in> set rows \<Longrightarrow> s \<in> set rows \<Longrightarrow> nd_id r = nd_id s \<Longrightarrow> r = s"
  by (auto simp: tree_inv_def distinct_map inj_on_def)

lemma root_no_edge:
  assumes "tree_inv rows" "r \<in> set rows" "nd_parent_id r = None"
  shows "(nd_id r, z) \<notin> (parent_rel rows)\<^sup>+"
proof
  assume "(nd_id r, z) \<in> (parent_rel rows)\<^sup>+"
  then obtain y where "(nd_id r, y) \<in> parent_rel rows" by (metis tranclD)
  then obtain q where q: "q \<in> set rows" "nd_id q = nd_id r" "nd_parent_id q = Some y" by (auto simp: parent_rel_def)
  from same_row[OF assms(1) q(1) assms(2) q(2)] q(3) assms(3) show False by simp
qed

lemma soft_delete_rows:
  assumes "tree_inv (db_nodes d)" "depth_le (db_nodes d) (Suc CYCLE_GUARD_DEPTH)" "nodes_get d nid = Some row"
    "\<not> is_deleted row" "soft_delete_subtree nid t d = (res, d1)"
  shows "db_nodes d1 = map (\<lambda>r. if trashed_by (db_nodes d) nid r then trash_row t r else r) (db_nodes d) \<and>
    d1 = d\<lparr>db_nodes := db_nodes d1\<rparr> \<and>
    res = soft_delete_all t (row # filter (\<lambda>n. \<not> is_deleted n) (nodes_descendants d nid CYCLE_GUARD_DEPTH True))"
proof -
  let ?desc = "nodes_descendants d nid CYCLE_GUARD_DEPTH True"
  let ?moving = "row # filter (\<lambda>n. \<not> is_deleted n) ?desc"
  have mem: "nd_id r \<in> nd_id ` set ?moving \<and> \<not> is_deleted r \<longleftrightarrow> trashed_by (db_nodes d) nid r"
    if r: "r \<in> set (db_nodes d)" for r
  proof -
    have "set (row # ?desc) \<subseteq> set (db_nodes d)"
      using nodes_get_Some[OF assms(3)] descendants_sound by auto
    then have "nd_id r \<in> nd_id ` set (row # ?desc) \<longleftrightarrow> r \<in> set (row # ?desc)"
      using same_row[OF assms(1) r] by blast
    moreover have "nd_id r \<in> nd_id ` set ?moving \<longleftrightarrow> r \<in> set ?moving"
      using same_row[OF assms(1) r] \<open>set (row # ?desc) \<subseteq> set (db_nodes d)\<close> by auto
    ultimately show ?thesis
      using at_or_below[OF assms(1,2,3) r] assms(4) by (auto simp: trashed_by_def)
  qed
  have "db_nodes d1 = update_where (\<lambda>r. nd_id r \<in> nd_id ` set ?moving \<and> \<not> is_deleted r) (trash_row t) (db_nodes d)"
    "d1 = d\<lparr>db_nodes := db_nodes d1\<rparr>" "res = soft_delete_all t ?moving"
    using assms(3,4,5) by (auto simp: soft_delete_subtree_def Let_def trash_row_def[abs_def])
  then show ?thesis using mem by (simp add: update_where_def)
qed

lemma delete_live:
  assumes run: "delete C u nid im now w = (Inr k, w')" and inv: "tree_inv (db_nodes (w_db w))"
    and depth: "depth_le (db_nodes (w_db w)) (Suc CYCLE_GUARD_DEPTH)" and live: "live_inv (db_nodes (w_db w))"
  shows "live_inv (db_nodes (w_db w'))"
  using run
proof (rule delete_facts)
  fix n t trashed d1
  let ?rows = "db_nodes (w_db w)"
  assume n: "nodes_get (w_db w) nid = Some n" "\<not> is_deleted n"
    and s: "soft_delete_subtree nid t (w_db w) = (Inr trashed, d1)"
    and d: "audited (bytes_moved (nd_owner_id n) (file_bytes trashed) t True d1) (w_db w')"
  have rows: "db_nodes (w_db w') = map (\<lambda>r. if trashed_by ?rows nid r then trash_row t r else r) ?rows"
    using soft_delete_rows[OF inv depth n s] audited_nodes[OF d] by simp
  show "live_inv (db_nodes (w_db w'))" unfolding live_inv_def
  proof (intro ballI impI)
    fix a b
    assume "a \<in> set (db_nodes (w_db w'))" "b \<in> set (db_nodes (w_db w'))"
      and ab: "nd_parent_id a = Some (nd_id b)" "\<not> is_deleted a"
    then obtain r q where r: "r \<in> set ?rows" "a = (if trashed_by ?rows nid r then trash_row t r else r)"
      and q: "q \<in> set ?rows" "b = (if trashed_by ?rows nid q then trash_row t q else q)"
      unfolding rows by auto
    from r(2) ab(2) have nr: "\<not> trashed_by ?rows nid r" "a = r"
      by (auto simp: trash_row_def is_deleted_def split: if_splits)
    from q(2) have "nd_id b = nd_id q" by (simp add: trash_row_def)
    with ab nr r(1) have e: "(nd_id r, nd_id q) \<in> parent_rel ?rows" by (auto simp: parent_rel_def)
    have "\<not> is_deleted q" using live r(1) q(1) ab nr \<open>nd_id b = nd_id q\<close> by (auto simp: live_inv_def)
    moreover have "\<not> trashed_by ?rows nid q"
      using nr ab e by (auto simp: trashed_by_def intro: converse_rtrancl_into_rtrancl)
    ultimately show "\<not> is_deleted b" using q(2) by simp
  qed
qed

end
