(* ===== verification/Access.thy ===== *)
theory Access
  imports NodeInvariants
begin

text \<open>
  What a caller may do with a node: the role that the grants on the node and on its ancestors give, and
  the outcome of the authorization check.
\<close>

section \<open>The specification of a role\<close>

text \<open>The active grants of a subject that reach a node: those on it or on a node above it.\<close>

definition reaching :: "db \<Rightarrow> string \<Rightarrow> uuid \<Rightarrow> grant set" where
  "reaching d subject nid =
     {g \<in> set (db_grants d). gr_subject g = subject \<and> \<not> gr_pending g \<and> (nid, gr_node_id g) \<in> (parent_rel (db_nodes d))\<^sup>*}"

definition role_spec :: "db \<Rightarrow> string \<Rightarrow> uuid \<Rightarrow> node \<Rightarrow> role option \<Rightarrow> bool" where
  "role_spec d subject uid n ro \<longleftrightarrow>
     (if nd_owner_id n = uid then ro = Some OWNER
      else (case ro of
              None \<Rightarrow> reaching d subject (nd_id n) = {}
            | Some r \<Rightarrow> r \<in> gr_role ` reaching d subject (nd_id n) \<and> (\<forall>g\<in>reaching d subject (nd_id n). gr_role g \<le> r)))"

definition within_guard :: "db \<Rightarrow> uuid \<Rightarrow> bool" where
  "within_guard d nid \<longleftrightarrow> length (nodes_ancestors d nid ANCESTOR_GUARD_DEPTH) < ANCESTOR_GUARD_DEPTH"

lemma scope_ids:
  assumes "tree_inv (db_nodes d)" "nodes_get d nid = Some n" "within_guard d nid"
  shows "i \<in> set (nid # map nd_id (nodes_ancestors d nid ANCESTOR_GUARD_DEPTH)) \<longleftrightarrow> (nid, i) \<in> (parent_rel (db_nodes d))\<^sup>*"
proof -
  have n: "nid \<in> nd_id ` set (db_nodes d)" using nodes_get_Some[OF assms(2)] by auto
  have "i \<in> nd_id ` set (nodes_ancestors d nid ANCESTOR_GUARD_DEPTH) \<longleftrightarrow> (nid, i) \<in> (parent_rel (db_nodes d))\<^sup>+"
    using ancestors_sound[of _ d nid ANCESTOR_GUARD_DEPTH] ancestors_complete[OF assms(1) n assms(3)[unfolded within_guard_def]]
    by auto
  then show ?thesis by (auto simp: rtrancl_eq_or_trancl)
qed

lemma compute_role_spec:
  assumes "tree_inv (db_nodes d)" "nodes_get d (nd_id n) = Some n'" "within_guard d (nd_id n)"
  shows "role_spec d subject uid n (compute_role d subject uid n)"
proof -
  let ?ids = "nd_id n # map nd_id (nodes_ancestors d (nd_id n) ANCESTOR_GUARD_DEPTH)"
  let ?gs = "filter (\<lambda>g. gr_subject g = subject \<and> gr_node_id g \<in> set ?ids \<and> \<not> gr_pending g) (db_grants d)"
  have set: "set ?gs = reaching d subject (nd_id n)"
    using scope_ids[OF assms] by (auto simp: reaching_def)
  have role: "compute_role d subject uid n = (if nd_owner_id n = uid then Some OWNER else max_default (map gr_role ?gs))"
    by (simp only: compute_role_def Let_def resolve_granted highest_role_over_def) simp
  show ?thesis
  proof (cases "nd_owner_id n = uid")
    case False
    show ?thesis
    proof (cases "max_default (map gr_role ?gs)")
      case None
      then have "?gs = []" by (simp only: max_default_None) simp
      with False None role set show ?thesis by (simp only: role_spec_def) auto
    next
      case (Some r)
      then have "r \<in> gr_role ` set ?gs \<and> (\<forall>g\<in>set ?gs. gr_role g \<le> r)" by (simp only: max_default_Some) auto
      with False Some role set show ?thesis by (simp only: role_spec_def) simp
    qed
  qed (simp add: role role_spec_def)
qed

text \<open>The specification determines the role.\<close>

lemma role_spec_unique: "role_spec d s uid n a \<Longrightarrow> role_spec d s uid n b \<Longrightarrow> a = b"
  by (auto simp: role_spec_def split: if_splits option.splits intro: antisym)

lemma reaching_parent:
  "(i, p) \<in> parent_rel (db_nodes d) \<Longrightarrow> reaching d s p \<subseteq> reaching d s i"
  by (auto simp: reaching_def intro: converse_rtrancl_into_rtrancl)

lemma role_inherited:
  assumes "role_spec d s uid p (Some r)" "role_spec d s uid n ro" "(nd_id n, nd_id p) \<in> parent_rel (db_nodes d)"
    and "nd_owner_id n = nd_owner_id p"
  shows "\<exists>r'. ro = Some r' \<and> r \<le> r'"
proof (cases "nd_owner_id n = uid")
  case True
  with assms(1,2,4) show ?thesis by (auto simp: role_spec_def)
next
  case False
  with assms(1,4) obtain g where g: "g \<in> reaching d s (nd_id p)" "gr_role g = r" by (auto simp: role_spec_def)
  with reaching_parent[OF assms(3)] have "g \<in> reaching d s (nd_id n)" by blast
  with assms(2) False g(2) show ?thesis by (cases ro) (auto simp: role_spec_def)
qed

section \<open>The check\<close>

text \<open>The outcome of the check without the cache; a refusal leaves a record behind it.\<close>

definition decision :: "db \<Rightarrow> user \<Rightarrow> uuid \<Rightarrow> role \<Rightarrow> error + node \<times> role" where
  "decision d u nid minimum =
     (case nodes_get d nid of
        None \<Rightarrow> Inl NotFoundError
      | Some n \<Rightarrow>
          if is_deleted n then Inl NotFoundError
          else (case compute_role d (us_subject u) (us_id u) n of
                  None \<Rightarrow> Inl NotFoundError
                | Some r \<Rightarrow> if r < minimum then Inl PermissionDeniedError else Inr (n, r)))"

lemma authorize_decision:
  assumes "\<not> cf_cache_enabled C"
  shows "fst (authorize C u nid minimum w) = decision (w_db w) u nid minimum"
  using assms
  by (auto simp: authorize_def decision_def run_simps effective_role_uncached authorize_or_record_def require_role_def
      emit_denial_def emit_audit_def moment_of_def split: option.splits)

lemma authorize_refused:
  assumes "nodes_get (w_db w) nid = Some n" "\<not> is_deleted n"
    "effective_role C (us_subject u) (us_id u) n w = (Inr ro, w1)" "require_role ro minimum = Inl e"
  shows "authorize C u nid minimum w =
    (Inl e, w1\<lparr>w_db := audit_add (audit_of AUTH_DENIED (w_clock w1) (us_subject u) (Some (uuid_str nid)) []) (w_db w1)\<rparr>)"
  using assms by (simp add: authorize_def run_simps authorize_or_record_def emit_denial_def emit_audit_def moment_of_def)

text \<open>The transaction of a use case that raises leaves no trace in the database.\<close>

lemma denied_rolls_back:
  assumes "fst (m w) = Inl e"
  shows "fst (transaction C m w) = Inl e" "w_db (snd (transaction C m w)) = w_db w"
  using assms by (cases "m w"; auto simp: transaction_def bind_def)+

end
