(* ===== verification/CacheCoherence.thy ===== *)
theory CacheCoherence
  imports Access
begin

text \<open>
  Cached permission decisions: when the decision a caller gets is the one the database gives. With a
  cache in working order the writes that move nodes drop every cached decision before they return; an
  entry lives for the time of its dataset at most; and an outage at the moment of an invalidation
  leaves the entry behind.
\<close>

section \<open>A cache in working order\<close>

definition cache_up :: "cache_state \<Rightarrow> bool" where
  "cache_up cs \<longleftrightarrow> cs_reachable cs \<and> cb_opened_at (cs_breaker cs) = None"

definition healthy :: "world \<Rightarrow> bool" where
  "healthy w \<longleftrightarrow> cache_up (w_cache w)"

lemma cache_run_healthy:
  "cache_up cs \<Longrightarrow> cache_run now cmd cs =
     (Inr (fst (cmd (cs_entries cs))),
      cs\<lparr>cs_entries := snd (cmd (cs_entries cs)), cs_breaker := record_success (cs_breaker cs)\<rparr>)"
  by (simp add: cache_up_def cache_run_up)

lemmas healthy_run = cache_run_healthy[OF healthy_def[THEN iffD1]]

lemma cache_up_update [simp]: "cache_up cs \<Longrightarrow> cache_up (cs\<lparr>cs_entries := es, cs_breaker := record_success b\<rparr>)"
  by (simp add: cache_up_def record_success_def)

lemma cache_up_run: "cache_up cs \<Longrightarrow> cache_up (snd (cache_run now cmd cs))"
  by (simp add: cache_run_healthy)

lemma cache_up_get: "cache_up cs \<Longrightarrow> cache_up (snd (cache_get now key cs))"
  using cache_up_run[of cs now "redis_get now key"] by (auto simp: cache_get_def split: prod.splits sum.splits)

lemma cache_up_set: "cache_up cs \<Longrightarrow> cache_up (cache_set now key v ttl cs)"
  by (simp add: cache_set_def cache_up_run)

lemma healthy_update [simp]:
  "healthy w \<Longrightarrow> healthy (w\<lparr>w_cache := (w_cache w)\<lparr>cs_entries := es, cs_breaker := record_success b\<rparr>\<rparr>)"
  by (simp add: healthy_def)

lemma healthy_db [simp]: "healthy (w\<lparr>w_db := d\<rparr>) = healthy w" "healthy (w\<lparr>w_drawn := n\<rparr>) = healthy w"
  by (simp_all add: healthy_def)

lemma invalidate_keys_healthy:
  assumes "healthy w" "invalidate_keys ks w = (r, w')"
  shows "r = Inr () \<and> healthy w' \<and> same_store w w' \<and> set (cs_entries (w_cache w')) \<subseteq> set (cs_entries (w_cache w))"
  using assms
  by (auto simp: invalidate_keys_def tolerate_outage_def cache_delete_def healthy_run redis_delete_def split: if_splits)

lemma invalidate_prefix_healthy:
  assumes "healthy w" "invalidate_prefix C pre w = (r, w')"
  shows "r = Inr () \<and> healthy w' \<and> same_store w w' \<and>
    cs_entries (w_cache w') = filter (\<lambda>(k, _). \<not> cf_glob C (pre @ ''*'') k) (cs_entries (w_cache w))"
  using assms
  by (auto simp: invalidate_prefix_def tolerate_outage_def cache_delete_prefix_def healthy_run redis_delete_matching_def)

lemma effective_role_healthy:
  assumes "healthy w" "effective_role C s uid n w = (r, w')"
  shows "healthy w'"
proof (cases "cf_cache_enabled C")
  case True
  let ?key = "cache_key (cf_cache_schema C) PERMISSION [s, uuid_str (nd_id n)]"
  obtain x cs where g: "cache_get (w_clock w) ?key (w_cache w) = (x, cs)" by fastforce
  have "cache_up cs" using cache_up_get[of "w_cache w" "w_clock w" ?key] assms(1) g by (simp add: healthy_def)
  then show ?thesis using assms(2) True g cache_up_set[of cs]
    by (cases x) (auto simp: effective_role_def permission_def get_or_load_def cache_read_def cache_write_def run_simps Let_def
        healthy_def split: option.splits if_splits)
qed (use assms in \<open>simp add: effective_role_uncached\<close>)

lemma authorize_healthy:
  assumes "healthy w" "authorize C u nid m w = (Inr x, w')"
  shows "healthy w'"
  using assms by (auto simp: authorize_def world_ok dest: effective_role_healthy)

section \<open>Fresh decisions\<close>

definition no_decisions :: "config \<Rightarrow> world \<Rightarrow> bool" where
  "no_decisions C w \<longleftrightarrow>
     (\<forall>(k, _)\<in>set (cs_entries (w_cache w)). \<not> prefix (dataset_prefix (cf_cache_schema C) PERMISSION) k)"

lemma no_decisions_fewer:
  "no_decisions C w \<Longrightarrow> set (cs_entries (w_cache w')) \<subseteq> set (cs_entries (w_cache w)) \<Longrightarrow> no_decisions C w'"
  by (auto simp: no_decisions_def)

lemma dataset_prefix_literal: "literal_pattern (dataset_prefix s ds)"
proof -
  have "c \<notin> set (show_nat n)" if "c \<in> {CHR ''*'', CHR ''?'', CHR ''['', CHR 0x5C}" for c n
    using that show_nat_no_char[of c] by (auto simp: is_digit_def)
  then have "set (show_int s) \<inter> {CHR ''*'', CHR ''?'', CHR ''['', CHR 0x5C} = {}" by (auto simp: show_int_def)
  moreover have "set (dataset_value ds) \<inter> {CHR ''*'', CHR ''?'', CHR ''['', CHR 0x5C} = {}" by (cases ds) auto
  ultimately show ?thesis unfolding literal_pattern_def dataset_prefix_def NAMESPACE_def by auto
qed

lemma invalidate_all_healthy:
  assumes "healthy w" "glob_law (cf_glob C)" "invalidate_all_permissions C w = (r, w')"
  shows "healthy w' \<and> same_store w w' \<and> no_decisions C w'"
  using invalidate_prefix_healthy[OF assms(1), of C "dataset_prefix (cf_cache_schema C) PERMISSION" r w'] assms(2,3)
  by (auto simp: invalidate_all_permissions_def no_decisions_def glob_lawD dataset_prefix_literal)

lemma no_decision_cached:
  assumes "no_decisions C w"
  shows "map_of (cs_entries (w_cache w)) (cache_key (cf_cache_schema C) PERMISSION parts) = None"
proof -
  have "prefix (dataset_prefix (cf_cache_schema C) PERMISSION) (cache_key (cf_cache_schema C) PERMISSION parts)"
    by (simp add: key_in_dataset)
  with assms show ?thesis by (force simp: map_of_eq_None_iff no_decisions_def)
qed

lemma ordinal_role: "role_of_ordinal (ordinal r) = Some r" "ordinal r \<noteq> 0"
  by (cases r; simp add: role_of_ordinal_def)+

text \<open>Without a cached decision the role is computed, whether or not the cache takes the result.\<close>

lemma fresh_decision_at:
  assumes "map_of (cs_entries (w_cache w)) (cache_key (cf_cache_schema C) PERMISSION [s, uuid_str (nd_id n)]) = None"
  shows "fst (effective_role C s uid n w) = Inr (compute_role (w_db w) s uid n)"
proof (cases "cf_cache_enabled C")
  case True
  let ?key = "cache_key (cf_cache_schema C) PERMISSION [s, uuid_str (nd_id n)]"
  obtain v cs where g: "cache_get (w_clock w) ?key (w_cache w) = (v, cs)" by fastforce
  have "v = None"
    using cache_get_Some[of "w_clock w" ?key "w_cache w" _ cs] assms g by (cases v) auto
  with True g show ?thesis
    by (auto simp: effective_role_def permission_def get_or_load_def cache_read_def cache_write_def run_simps Let_def
        ordinal_role split: option.splits)
qed (simp add: effective_role_uncached)

lemma fresh_decision:
  assumes "no_decisions C w"
  shows "fst (effective_role C s uid n w) = Inr (compute_role (w_db w) s uid n)"
  by (rule fresh_decision_at[OF no_decision_cached[OF assms]])

definition cache_shrinks :: "unit use_case \<Rightarrow> bool" where
  "cache_shrinks m \<longleftrightarrow> (\<forall>w r w'. healthy w \<longrightarrow> m w = (r, w') \<longrightarrow>
     healthy w' \<and> set (cs_entries (w_cache w')) \<subseteq> set (cs_entries (w_cache w)))"

lemma cache_shrinks_seq: "cache_shrinks m \<Longrightarrow> cache_shrinks n \<Longrightarrow> cache_shrinks (seq m n)"
proof -
  assume m: "cache_shrinks m" and n: "cache_shrinks n"
  show ?thesis unfolding cache_shrinks_def
  proof (intro allI impI)
    fix w r w' assume w: "healthy w" "seq m n w = (r, w')"
    obtain x v where x: "m w = (x, v)" by fastforce
    with m w(1) have v: "healthy v" "set (cs_entries (w_cache v)) \<subseteq> set (cs_entries (w_cache w))"
      unfolding cache_shrinks_def by blast+
    show "healthy w' \<and> set (cs_entries (w_cache w')) \<subseteq> set (cs_entries (w_cache w))"
    proof (cases x)
      case (Inl e)
      with w(2) x v show ?thesis by (simp add: seq_run)
    next
      case (Inr y)
      with w(2) x have "n v = (r, w')" by (simp add: seq_run)
      with n v show ?thesis unfolding cache_shrinks_def by blast
    qed
  qed
qed

lemma cache_shrinks_parts:
  "cache_shrinks (ret x)" "cache_shrinks (invalidate_keys ks)" "cache_shrinks (invalidate_prefix C pre)"
  "cache_shrinks (invalidate_listing C p)"
  by (auto simp: cache_shrinks_def invalidate_listing_def dest: invalidate_keys_healthy invalidate_prefix_healthy
      split: option.splits)

lemma on_node_mutated_healthy: "cache_shrinks (on_node_mutated C nid p q)"
  unfolding on_node_mutated_def invalidate_node_def
  by (intro cache_shrinks_seq) (simp_all add: cache_shrinks_parts)

lemma invalidate_reparented:
  assumes "healthy w" "glob_law (cf_glob C)" "cf_cache_enabled C" "invalidate C nid p q True w = (Inr (), w')"
  shows "healthy w' \<and> no_decisions C w' \<and> same_store w w'"
proof -
  from assms obtain w1 r where "on_node_mutated C nid p q w = (r, w1)" "invalidate_all_permissions C w1 = (Inr (), w')"
    by (auto simp: invalidate_def seq_ok)
  with assms on_node_mutated_healthy[of C nid p q] invalidate_all_healthy invalidate_store show ?thesis
    unfolding cache_shrinks_def by meson
qed

lemma move_drops_decisions:
  assumes "move C u nid pid im now w = (Inr v, w')" "healthy w" "glob_law (cf_glob C)" "cf_cache_enabled C"
  shows "no_decisions C w'"
  using assms(1)
proof (rule move_run)
  fix n r w1 dest r' w2 t m
  assume a: "authorize C u nid EDITOR w = (Inr (n, r), w1)" "authorize C u pid EDITOR w1 = (Inr (dest, r'), w2)"
    and i: "invalidate C (nd_id n) (nd_parent_id n) (Some (nd_id dest)) True
       (w2\<lparr>w_db := audit_add (audit_of NODE_MOVED t (us_subject u)
          (Some (uuid_str (nd_id m))) (owner_context m (us_id u))) (nodes_update m (w_db w2))\<rparr>) = (Inr (), w')"
  have "healthy w2" using authorize_healthy[OF authorize_healthy[OF assms(2) a(1)] a(2)] .
  then show ?thesis using invalidate_reparented[OF _ assms(3,4) i] by simp
qed

lemma delete_drops_decisions:
  assumes "delete C u nid im now w = (Inr k, w')" "healthy w" "glob_law (cf_glob C)" "cf_cache_enabled C"
  shows "no_decisions C w'"
  using assms(1)
proof (rule delete_run)
  fix n r w1 t trashed d1
  assume a: "authorize C u nid OWNER w = (Inr (n, r), w1)"
    and i: "invalidate C (nd_id n) (nd_parent_id n) None True
       (w1\<lparr>w_db := audit_add (audit_of NODE_DELETED t (us_subject u) (Some (uuid_str (nd_id n))) (owner_context n (us_id u)))
          (bytes_moved (nd_owner_id n) (file_bytes trashed) t True d1)\<rparr>) = (Inr (), w')"
  have "healthy w1" using authorize_healthy[OF assms(2) a] .
  then show ?thesis using invalidate_reparented[OF _ assms(3,4) i] by simp
qed

section \<open>How long a decision lives\<close>

definition bounded_decisions :: "config \<Rightarrow> world \<Rightarrow> bool" where
  "bounded_decisions C w \<longleftrightarrow>
     (\<forall>k v expires. map_of (cs_entries (w_cache w)) k = Some (v, expires) \<longrightarrow>
        prefix (dataset_prefix (cf_cache_schema C) PERMISSION) k \<longrightarrow>
        expires \<le> w_clock w + ttl_for (cf_cache_policy C) PERMISSION)"

lemma effective_role_bounded:
  assumes "bounded_decisions C w" "effective_role C s uid n w = (r, w')"
  shows "bounded_decisions C w'"
proof (cases "cf_cache_enabled C")
  case True
  let ?key = "cache_key (cf_cache_schema C) PERMISSION [s, uuid_str (nd_id n)]"
  obtain x cs where g: "cache_get (w_clock w) ?key (w_cache w) = (x, cs)" by fastforce
  have es: "cs_entries cs = cs_entries (w_cache w)" using cache_get_entries[of "w_clock w" ?key "w_cache w"] g by simp
  have "w_clock w' = w_clock w" using effective_role_store[OF assms(2)] by (simp add: same_store_def)
  moreover have "cs_entries (w_cache w') = cs_entries (w_cache w) \<or>
      (\<exists>v. cs_entries (w_cache w') = cs_entries (cache_set (w_clock w) ?key v (ttl_for (cf_cache_policy C) PERMISSION) cs))"
    using assms(2) True g es
    by (cases x) (auto simp: effective_role_def permission_def get_or_load_def cache_read_def cache_write_def run_simps Let_def
        split: option.splits if_splits)
  ultimately show ?thesis using assms(1) unfolding bounded_decisions_def
    by (metis cache_set_expiry es)
qed (use assms in \<open>simp add: effective_role_uncached\<close>)

text \<open>A cached decision that is served has been computed no longer than its time to live ago.\<close>

lemma served_decision:
  assumes "cf_cache_enabled C" "effective_role C s uid n w = (Inr ro, w')"
  shows "ro = compute_role (w_db w) s uid n \<or>
    (\<exists>v expires. map_of (cs_entries (w_cache w)) (cache_key (cf_cache_schema C) PERMISSION [s, uuid_str (nd_id n)]) = Some (v, expires) \<and>
       w_clock w < expires \<and> ro = (if v = 0 then None else role_of_ordinal v))"
proof -
  let ?key = "cache_key (cf_cache_schema C) PERMISSION [s, uuid_str (nd_id n)]"
  obtain x cs where g: "cache_get (w_clock w) ?key (w_cache w) = (x, cs)" by fastforce
  show ?thesis
  proof (cases x)
    case None
    with assms g show ?thesis
      by (auto simp: effective_role_def permission_def get_or_load_def cache_read_def cache_write_def run_simps Let_def
          ordinal_role split: option.splits if_splits)
  next
    case (Some v)
    with cache_get_Some g obtain e where "map_of (cs_entries (w_cache w)) ?key = Some (v, e)" "w_clock w < e" by blast
    moreover have "ro = (if v = 0 then None else role_of_ordinal v)"
      using Some assms g
      by (auto simp: effective_role_def permission_def get_or_load_def cache_read_def run_simps Let_def
          split: option.splits if_splits)
    ultimately show ?thesis by blast
  qed
qed

section \<open>An outage at the wrong moment\<close>

definition circuit_open :: "world \<Rightarrow> datetime \<Rightarrow> bool" where
  "circuit_open w opened \<longleftrightarrow> cb_opened_at (cs_breaker (w_cache w)) = Some opened \<and>
     w_clock w - opened < cb_cooldown (cs_breaker (w_cache w))"

lemma invalidation_passed_over:
  assumes "circuit_open w opened"
  shows "invalidate_prefix C pre w = (Inr (), w)" "invalidate_keys ks w = (Inr (), w)"
  using assms
  by (auto simp: circuit_open_def invalidate_prefix_def invalidate_keys_def tolerate_outage_def cache_delete_prefix_def
      cache_delete_def cache_run_def allows_def cache_available_def)

lemma stale_decision_served:
  assumes "circuit_open w opened" "cs_reachable (w_cache w)" "cf_cache_enabled C"
    and "map_of (cs_entries (w_cache w)) (cache_key (cf_cache_schema C) PERMISSION [s, uuid_str (nd_id n)]) = Some (ordinal r, expires)"
    and "opened + cb_cooldown (cs_breaker (w_cache w)) \<le> later" "later < expires"
  shows "fst (effective_role C s uid n (w\<lparr>w_clock := later\<rparr>)) = Inr (Some r)"
  using assms
  by (auto simp: circuit_open_def effective_role_def permission_def get_or_load_def cache_read_def cache_get_def
      cache_run_def allows_def redis_get_def run_simps Let_def ordinal_role)

section \<open>Deleting with a cache in working order returns\<close>

lemma authorize_fresh_returns:
  assumes "no_decisions C w" "healthy w" "nodes_get (w_db w) nid = Some n" "\<not> is_deleted n"
    "compute_role (w_db w) (us_subject u) (us_id u) n = Some r" "minimum \<le> r"
  shows "\<exists>w'. authorize C u nid minimum w = (Inr (n, r), w') \<and> healthy w' \<and> same_store w w'"
proof -
  obtain w1 where e: "effective_role C (us_subject u) (us_id u) n w = (Inr (Some r), w1)"
    using fresh_decision[OF assms(1), of "us_subject u" "us_id u" n] assms(5)
    by (cases "effective_role C (us_subject u) (us_id u) n w") auto
  then have "authorize C u nid minimum w = (Inr (n, r), w1)"
    using assms(3,4,6) by (auto simp: authorize_def run_simps authorize_or_record_def require_role_def dest: leD)
  with effective_role_healthy[OF assms(2) e] effective_role_store[OF e] show ?thesis by blast
qed

text \<open>
  An invalidation fails the write only when Redis does not answer and the breaker has not opened yet:
  with a reachable server it returns, whether the breaker lets the command through or not.
\<close>

definition always_returns :: "unit use_case \<Rightarrow> bool" where
  "always_returns m \<longleftrightarrow> (\<forall>w. cs_reachable (w_cache w) \<longrightarrow> (\<exists>w'. m w = (Inr (), w') \<and> cs_reachable (w_cache w')))"

lemma tolerate_returns:
  assumes "cs_reachable (w_cache w)"
  shows "\<exists>w'. tolerate_outage (cache_run (w_clock w) cmd) w = (Inr (), w') \<and> cs_reachable (w_cache w')"
proof (cases "allows (w_clock w) (cs_breaker (w_cache w))")
  case (Pair ok b)
  show ?thesis
  proof (cases ok)
    case True
    with Pair assms show ?thesis by (auto simp: tolerate_outage_def cache_run_def split: prod.splits)
  next
    case False
    with Pair have "b = cs_breaker (w_cache w)" by (auto simp: allows_def split: option.splits if_splits)
    with Pair False assms show ?thesis by (auto simp: tolerate_outage_def cache_run_def cache_available_def)
  qed
qed

lemma always_returns_seq: "always_returns m \<Longrightarrow> always_returns n \<Longrightarrow> always_returns (seq m n)"
  unfolding always_returns_def seq_run by (metis (no_types, lifting) old.prod.case old.sum.simps(6))

lemma always_returns_parts:
  "always_returns (ret ())" "always_returns (invalidate_keys ks)" "always_returns (invalidate_prefix C pre)"
  "always_returns (invalidate_listing C p)"
proof -
  show k: "always_returns (invalidate_keys ks)" for ks
    using tolerate_returns by (auto simp: always_returns_def invalidate_keys_def cache_delete_def[abs_def])
  show p: "always_returns (invalidate_prefix C pre)" for pre
    using tolerate_returns by (auto simp: always_returns_def invalidate_prefix_def cache_delete_prefix_def[abs_def])
  show r: "always_returns (ret ())" by (auto simp: always_returns_def)
  show "always_returns (invalidate_listing C p)" by (cases p) (auto simp: invalidate_listing_def[abs_def] p r)
qed

lemma invalidate_returns: "always_returns (invalidate C nid p q b)"
  unfolding invalidate_def on_node_mutated_def invalidate_node_def invalidate_all_permissions_def
  by (auto intro!: always_returns_seq always_returns_parts)

lemma always_returns_for_each: "(\<And>x. always_returns (f x)) \<Longrightarrow> always_returns (for_each xs f)"
  by (induction xs) (auto intro: always_returns_seq always_returns_parts)

section \<open>A deployment in which no invalidation fails\<close>

text \<open>Either the cache tier is off, or its server answers.\<close>

definition cache_serves :: "config \<Rightarrow> world \<Rightarrow> bool" where
  "cache_serves C w \<longleftrightarrow> \<not> cf_cache_enabled C \<or> cs_reachable (w_cache w)"

lemma cache_serves_cong: "w_cache v = w_cache w \<Longrightarrow> cache_serves C v = cache_serves C w"
  by (simp add: cache_serves_def)

lemma always_returnsE:
  assumes "always_returns m" "cs_reachable (w_cache w)"
  obtains w' where "m w = (Inr (), w')" "cs_reachable (w_cache w')"
  using assms unfolding always_returns_def by blast

lemma invalidate_serves:
  assumes "cache_serves C w"
  obtains w' where "invalidate C nid p q b w = (Inr (), w')" "same_store w w'" "cache_serves C w'"
proof (cases "cf_cache_enabled C")
  case True
  then obtain w' where "invalidate C nid p q b w = (Inr (), w')" "cs_reachable (w_cache w')"
    using always_returnsE[OF invalidate_returns] assms unfolding cache_serves_def by metis
  with that invalidate_store show thesis by (fastforce simp: cache_serves_def)
next
  case False
  with assms that[of w] show thesis by (simp add: invalidate_def)
qed

lemma effective_role_serves:
  assumes "cache_serves C w" "effective_role C s uid n w = (r, w')"
  shows "cache_serves C w'"
proof (cases "cf_cache_enabled C")
  case True
  let ?key = "cache_key (cf_cache_schema C) PERMISSION [s, uuid_str (nd_id n)]"
  have up: "cs_reachable (snd (cache_get t k c)) = cs_reachable c" "cs_reachable (cache_set t k v l c) = cs_reachable c" for t k v l c
    by (cases "cache_run t (redis_get t k) c"; use cache_run_reachable[of t "redis_get t k" c] in \<open>auto simp: cache_get_def split: sum.splits\<close>)
      (simp add: cache_set_def)
  obtain x cs where g: "cache_get (w_clock w) ?key (w_cache w) = (x, cs)" by fastforce
  have "cs_reachable cs" using up(1)[of "w_clock w" ?key "w_cache w"] g assms(1) True by (simp add: cache_serves_def)
  then show ?thesis using assms(2) True g up(2)
    by (cases x) (auto simp: effective_role_def permission_def get_or_load_def cache_read_def cache_write_def run_simps Let_def
        cache_serves_def split: option.splits if_splits)
qed (use assms in \<open>simp add: effective_role_uncached\<close>)

lemma authorize_serves:
  assumes "cache_serves C w" "authorize C u nid m w = (Inr x, w')"
  shows "cache_serves C w'"
  using assms by (auto simp: authorize_def world_ok dest: effective_role_serves)

lemma authorize_granted:
  assumes "cache_serves C w" "nodes_get (w_db w) nid = Some n" "\<not> is_deleted n"
    "fst (effective_role C (us_subject u) (us_id u) n w) = Inr (Some r)" "minimum \<le> r"
  obtains w1 where "authorize C u nid minimum w = (Inr (n, r), w1)" "same_store w w1" "cache_serves C w1"
proof -
  obtain w1 where e: "effective_role C (us_subject u) (us_id u) n w = (Inr (Some r), w1)"
    using assms(4) by (cases "effective_role C (us_subject u) (us_id u) n w") auto
  then have "authorize C u nid minimum w = (Inr (n, r), w1)"
    using assms(2,3,5) by (auto simp: authorize_def run_simps authorize_or_record_def require_role_def dest: leD)
  with effective_role_serves[OF assms(1) e] effective_role_store[OF e] that show thesis by blast
qed

lemma delete_serves:
  assumes "delete C u nid im now w = (Inr k, w')" "cache_serves C w"
  shows "cache_serves C w'"
  using assms(1)
proof (rule delete_run)
  fix n r and w1 :: world and t trashed d1
  let ?w = "w1\<lparr>w_db := audit_add (audit_of NODE_DELETED t (us_subject u) (Some (uuid_str (nd_id n))) (owner_context n (us_id u)))
          (bytes_moved (nd_owner_id n) (file_bytes trashed) t True d1)\<rparr>"
  assume a: "authorize C u nid OWNER w = (Inr (n, r), w1)" and i: "invalidate C (nd_id n) (nd_parent_id n) None True ?w = (Inr (), w')"
  have "cache_serves C ?w" using authorize_serves[OF assms(2) a] by (simp add: cache_serves_def)
  then show ?thesis by (rule invalidate_serves[of C _ "nd_id n" "nd_parent_id n" None True]) (use i in simp)
qed

lemma invalidate_subtree_serves:
  assumes "cache_serves C w"
  obtains w' where "invalidate_subtree C m ns w = (Inr (), w')"
proof (cases "cf_cache_enabled C")
  case True
  have "always_returns (invalidate_subtree C m ns)"
    unfolding invalidate_subtree_def invalidate_node_def
    by (auto intro!: always_returns_seq invalidate_returns always_returns_parts always_returns_for_each)
  with True assms that show thesis unfolding always_returns_def cache_serves_def by blast
next
  case False
  with that show thesis by (simp add: invalidate_subtree_def invalidate_def run_simps)
qed

end
