(* ===== verification/NodeProgress.thy ===== *)
theory NodeProgress
  imports NodeInvariants CacheCoherence
begin

text \<open>
  When the operations of the node service return: if the guards of the code hold, no step of the use
  case raises. A write returns when its invalidations do: the cache tier is off, or its server answers.
\<close>

definition unbroken :: "config \<Rightarrow> db \<Rightarrow> bool" where
  "unbroken C d \<longleftrightarrow> integrity_error (cf_text C) d = None"

lemma unbroken_nodes:
  assumes "unbroken C d" "sibling_names_unique (cf_text C) (db_nodes d')" "db_grants d' = db_grants d"
    "db_data_keys d' = db_data_keys d" "db_versions d' = db_versions d"
  shows "unbroken C d'"
  using assms by (auto simp: unbroken_def integrity_error_def split: if_splits)

lemma authorize_returns:
  assumes "\<not> cf_cache_enabled C" "nodes_get (w_db w) nid = Some n" "\<not> is_deleted n"
    "compute_role (w_db w) (us_subject u) (us_id u) n = Some r" "minimum \<le> r"
  shows "authorize C u nid minimum w = (Inr (n, r), w)"
  using assms
  by (auto simp: authorize_def run_simps effective_role_uncached authorize_or_record_def require_role_def dest: leD)

lemma invalidate_uncached: "\<not> cf_cache_enabled C \<Longrightarrow> invalidate C nid p q b w = (Inr (), w)"
  by (simp add: invalidate_def)

lemma flush_returns: "unbroken C (w_db w) \<Longrightarrow> flush C w = (Inr (), w)"
  by (simp add: flush_def run_simps unbroken_def)

lemma ensure_name_free_returns: "name_free_for C (w_db w) p name ex \<Longrightarrow> ensure_name_free C p name ex w = (Inr (), w)"
  by (simp add: ensure_name_free_ok)

lemma ensure_depth_returns:
  "length (nodes_ancestors (w_db w) (nd_id n) ANCESTOR_GUARD_DEPTH) + 1 < cf_max_tree_depth C \<Longrightarrow>
   ensure_depth C n w = (Inr (), w)"
  by (simp add: ensure_depth_ok)

lemmas progress = run_simps authorize_returns invalidate_uncached flush_returns ensure_name_free_returns
  ensure_depth_returns ensure_folder_def ensure_not_reserved_root_name_def ensure_precondition_def
  moment_of_def lock_subtree_def audit_node_def emit_audit_def view_def uuid4_def rundb_def stepdb_def

lemma create_folder_returns:
  assumes serves: "cache_serves C w" and "tree_inv (db_nodes (w_db w))" "unbroken C (w_db w)" "fresh_ids w"
    and p: "nodes_get (w_db w) pid = Some parent" "\<not> is_deleted parent" "is_folder parent"
    and r: "fst (effective_role C (us_subject u) (us_id u) parent w) = Inr (Some r)" "EDITOR \<le> r"
    and n: "\<not> (is_root parent \<and> normalize_name (cf_text C) name = SHARED_PREFIX)" "validate_name name = Inr name"
    and d: "length (nodes_ancestors (w_db w) pid ANCESTOR_GUARD_DEPTH) + 1 < cf_max_tree_depth C"
    and free: "get_child_by_name (cf_text C) (w_db w) pid (normalize_name (cf_text C) name) = None"
  shows "\<exists>v w'. create_folder C u pid name enc now w = (Inr v, w')"
proof -
  have pid: "nd_id parent = pid" using nodes_get_Some[OF p(1)] by simp
  let ?t = "case now of None \<Rightarrow> w_clock w | Some t \<Rightarrow> t"
  let ?n = "new_folder (w_uuids w (w_drawn w)) (nd_owner_id parent) name pid ?t enc"
  have names: "name_free_for C (w_db w) pid (normalized_name (cf_text C) ?n) None"
    using free by (simp add: name_free_for_def normalized_name_def new_folder_def)
  have "sibling_names_unique (cf_text C) (db_nodes (nodes_add ?n (w_db w)))"
    using names_after_add[OF assms(2) _ _ names] assms(2-4) integrity_ok
    by (auto simp: unbroken_def new_folder_def fresh_ids_def used_ids_def tree_inv_def)
  then have ub: "unbroken C (nodes_add ?n (w_db w))"
    by (rule unbroken_nodes[OF assms(3)]) (simp_all add: nodes_add_def)
  have pi: "post_init ?n = Inr ?n" using n(2) by (simp add: post_init_def new_folder_def is_file_def)
  obtain w1 where w1: "authorize C u pid EDITOR w = (Inr (parent, r), w1)" "same_store w w1" "cache_serves C w1"
    by (rule authorize_granted[OF serves p(1,2) r])
  have same: "w_db w1 = w_db w" "w_uuids w1 = w_uuids w" "w_drawn w1 = w_drawn w" using w1(2) by (simp_all add: same_store_def)
  let ?v = "w1\<lparr>w_drawn := Suc (w_drawn w), w_db := audit_add (audit_of NODE_CREATED ?t (us_subject u) (Some (uuid_str (nd_id ?n)))
      (owner_context ?n (us_id u))) (nodes_add ?n (w_db w))\<rparr>"
  have "cache_serves C ?v" using w1(3) by (simp add: cache_serves_def)
  then obtain v' where "invalidate C (nd_id ?n) (Some pid) None False ?v = (Inr (), v')" by (rule invalidate_serves)
  then show ?thesis
    unfolding create_folder_def
    using p n d names ub pi pid w1(1) same by (simp add: progress)
qed

lemma names_fewer:
  assumes "distinct (map nd_id rows)" "distinct (map nd_id rows')" "sibling_names_unique T rows"
    and "\<And>r. r \<in> set rows' \<Longrightarrow> \<not> is_deleted r \<Longrightarrow> r \<in> set rows"
  shows "sibling_names_unique T rows'"
  using assms unfolding siblings_iff[OF assms(1)] siblings_iff[OF assms(2)] by blast

lemma rename_returns:
  assumes "\<not> cf_cache_enabled C" "tree_inv (db_nodes (w_db w))" "unbroken C (w_db w)"
    and n: "nodes_get (w_db w) nid = Some n" "\<not> is_deleted n" "nd_parent_id n = Some p"
    and r: "compute_role (w_db w) (us_subject u) (us_id u) n = Some r" "EDITOR \<le> r"
    and g: "precondition_holds n im" "validate_name name = Inr name"
    and free: "name_free_for C (w_db w) p (normalize_name (cf_text C) name) (Some nid)"
  shows "\<exists>v w'. rename C u nid name im now w = (Inr v, w')"
proof -
  have nid: "nd_id n = nid" using nodes_get_Some[OF n(1)] by simp
  let ?t = "case now of None \<Rightarrow> w_clock w | Some t \<Rightarrow> t"
  let ?m = "touch ?t (n\<lparr>nd_name := name\<rparr>)"
  have "sibling_names_unique (cf_text C) (db_nodes (nodes_update ?m (w_db w)))"
    using n free nid assms(2,3) integrity_ok
    by (intro names_after_update[where r = n and nid = nid and p = p])
      (auto simp: normalized_name_def is_deleted_def nodes_update_ids distinct_ids unbroken_def)
  then have "unbroken C (nodes_update ?m (w_db w))"
    by (rule unbroken_nodes[OF assms(3)]) (simp_all add: nodes_update_def)
  moreover have "rename_node name ?t n = Inr ?m" using g(2) by (simp add: rename_node_def)
  ultimately show ?thesis
    unfolding rename_def using n r g free nid assms(1) by (simp add: progress is_root_def)
qed

lemma move_returns:
  assumes "\<not> cf_cache_enabled C" "tree_inv (db_nodes (w_db w))" "unbroken C (w_db w)"
    and n: "nodes_get (w_db w) nid = Some n" "\<not> is_deleted n" "nd_parent_id n = Some q"
    and r: "compute_role (w_db w) (us_subject u) (us_id u) n = Some r" "EDITOR \<le> r"
    and p: "nodes_get (w_db w) pid = Some dest" "\<not> is_deleted dest" "is_folder dest" "nd_owner_id dest = nd_owner_id n"
    and r': "compute_role (w_db w) (us_subject u) (us_id u) dest = Some r'" "EDITOR \<le> r'"
    and g: "precondition_holds n im" "\<not> is_ancestor_of (w_db w) nid pid"
      "length (nodes_ancestors (w_db w) pid ANCESTOR_GUARD_DEPTH) + 1 < cf_max_tree_depth C"
    and free: "name_free_for C (w_db w) pid (normalized_name (cf_text C) n) (Some nid)"
  shows "\<exists>v w'. move C u nid pid im now w = (Inr v, w')"
proof -
  have ids: "nd_id n = nid" "nd_id dest = pid" using nodes_get_Some[OF n(1)] nodes_get_Some[OF p(1)] by auto
  let ?t = "case now of None \<Rightarrow> w_clock w | Some t \<Rightarrow> t"
  let ?m = "touch ?t (n\<lparr>nd_parent_id := Some pid\<rparr>)"
  have "sibling_names_unique (cf_text C) (db_nodes (nodes_update ?m (w_db w)))"
    using n free ids assms(2,3) integrity_ok
    by (intro names_after_update[where r = n and nid = nid and p = pid])
      (auto simp: normalized_name_def is_deleted_def nodes_update_ids distinct_ids unbroken_def)
  then have "unbroken C (nodes_update ?m (w_db w))"
    by (rule unbroken_nodes[OF assms(3)]) (simp_all add: nodes_update_def)
  moreover have "pid \<noteq> nid" using g(2) by (auto simp: is_ancestor_of_def)
  then have "move_to pid ?t n = Inr ?m" using n(3) ids by (simp add: move_to_def is_root_def)
  ultimately show ?thesis
    unfolding move_def using n r p r' g free ids assms(1) by (simp add: progress is_root_def)
qed

lemma soft_delete_all_returns:
  "\<forall>n\<in>set ns. \<not> is_root n \<and> \<not> is_deleted n \<Longrightarrow>
   soft_delete_all t ns = Inr (map (\<lambda>n. touch t (n\<lparr>nd_deleted_at := Some t\<rparr>)) ns)"
  by (induction ns) (auto simp: soft_delete_def)

lemma descendants_not_root:
  assumes "tree_inv (db_nodes d)" "r \<in> set (nodes_descendants d nid k b)"
  shows "\<not> is_root r"
  using descendants_sound[OF assms(2)] root_no_edge[OF assms(1)] by (auto simp: is_root_def)

lemma soft_delete_subtree_returns:
  assumes "tree_inv (db_nodes d)" "nodes_get d nid = Some n" "\<not> is_root n" "\<not> is_deleted n"
  shows "\<exists>trashed d'. soft_delete_subtree nid t d = (Inr trashed, d')"
proof -
  have "\<forall>m\<in>set (n # filter (\<lambda>n. \<not> is_deleted n) (nodes_descendants d nid CYCLE_GUARD_DEPTH True)).
      \<not> is_root m \<and> \<not> is_deleted m"
    using assms descendants_not_root by auto
  from soft_delete_all_returns[OF this, of t] assms show ?thesis
    by (simp add: soft_delete_subtree_def Let_def)
qed

lemma soft_delete_names:
  assumes "tree_inv (db_nodes d)" "sibling_names_unique T (db_nodes d)" "soft_delete_subtree nid t d = (x, d')"
  shows "sibling_names_unique T (db_nodes d')"
proof (rule names_fewer[OF _ _ assms(2)])
  show "distinct (map nd_id (db_nodes d'))" "distinct (map nd_id (db_nodes d))"
    using assms(1) soft_delete_shape[OF assms(3)] by (simp_all add: tree_inv_def ids_shape)
  show "r \<in> set (db_nodes d') \<Longrightarrow> \<not> is_deleted r \<Longrightarrow> r \<in> set (db_nodes d)" for r
    using assms(3) by (auto simp: soft_delete_subtree_def Let_def update_where_def is_deleted_def
        split: option.splits if_splits)
qed

lemma soft_delete_others:
  "soft_delete_subtree nid t d = (x, d') \<Longrightarrow> db_grants d' = db_grants d \<and> db_data_keys d' = db_data_keys d \<and>
     db_versions d' = db_versions d \<and> db_quotas d' = db_quotas d \<and> db_users d' = db_users d"
  by (auto simp: soft_delete_subtree_def Let_def split: option.splits)

lemma delete_tables:
  assumes "soft_delete_subtree nid t d = (x, d1)"
  shows "bytes_moved ow n s b d1 = d\<lparr>db_nodes := db_nodes d1, db_quotas := db_quotas (bytes_moved ow n s b d)\<rparr>"
proof -
  obtain rows where "d1 = d\<lparr>db_nodes := rows\<rparr>"
    using assms that[of "db_nodes d"] by (auto simp: soft_delete_subtree_def Let_def split: option.splits)
  then show ?thesis by (auto simp: bytes_moved_def quotas_update_def quotas_get_def split: option.splits)
qed

lemma bytes_moved_others: "db_data_keys (bytes_moved ow n t b d) = db_data_keys d"
  by (auto simp: bytes_moved_def quotas_update_def split: option.splits)

lemma move_bytes_returns: "move_bytes ow k t b w = (Inr (), w\<lparr>w_db := bytes_moved ow k t b (w_db w)\<rparr>)"
  by (simp add: move_bytes_ok)

lemma delete_returns_from:
  assumes auth: "authorize C u nid OWNER w = (Inr (n, r), w1)" and st: "same_store w w1"
    and inv: "tree_inv (db_nodes (w_db w))" "unbroken C (w_db w)"
    and n: "\<not> is_root n" and g: "precondition_holds n im"
    and cache: "\<And>v. w_cache v = w_cache w1 \<Longrightarrow> \<exists>v'. invalidate C (nd_id n) (nd_parent_id n) None True v = (Inr (), v')"
  shows "\<exists>k w'. delete C u nid im now w = (Inr k, w')"
proof -
  have nn: "nodes_get (w_db w) nid = Some n" "\<not> is_deleted n" using authorize_facts[OF auth] by auto
  have nid: "nd_id n = nid" using nodes_get_Some[OF nn(1)] by simp
  have db: "w_db w1 = w_db w" using st by (simp add: same_store_def)
  let ?t = "case now of None \<Rightarrow> w_clock w | Some t \<Rightarrow> t"
  from soft_delete_subtree_returns[OF inv(1) nn(1) n nn(2)] obtain trashed d1 where
    s: "soft_delete_subtree nid ?t (w_db w) = (Inr trashed, d1)" by blast
  let ?d = "bytes_moved (nd_owner_id n) (file_bytes trashed) ?t True d1"
  have ub: "unbroken C ?d"
    using soft_delete_names[OF inv(1) _ s] soft_delete_others[OF s] inv(2) integrity_ok[of "cf_text C" "w_db w"]
    by (intro unbroken_nodes[OF inv(2)]) (simp_all add: unbroken_def bytes_moved_others)
  let ?v = "w1\<lparr>w_db := audit_add (audit_of NODE_DELETED ?t (us_subject u) (Some (uuid_str nid)) (owner_context n (us_id u))) ?d\<rparr>"
  obtain v' where "invalidate C nid (nd_parent_id n) None True ?v = (Inr (), v')" using cache[of ?v] nid by auto
  then show ?thesis
    unfolding delete_def using auth n g nid s db ub
    by (simp add: progress Let_def move_bytes_returns flip: file_bytes_def)
qed

lemma delete_returns:
  assumes "\<not> cf_cache_enabled C" "tree_inv (db_nodes (w_db w))" "unbroken C (w_db w)"
    and n: "nodes_get (w_db w) nid = Some n" "\<not> is_deleted n" "\<not> is_root n"
    and r: "compute_role (w_db w) (us_subject u) (us_id u) n = Some OWNER" and g: "precondition_holds n im"
  shows "\<exists>k w'. delete C u nid im now w = (Inr k, w')"
  by (rule delete_returns_from[OF authorize_returns[OF assms(1) n(1,2) r order_refl] same_store_refl assms(2,3) n(3) g])
    (simp add: invalidate_uncached assms(1))

end
