(* ===== verification/Purge.thy ===== *)
theory Purge
  imports World
begin

text \<open>
  The destructive half of deletion (\<open>application/purge.py\<close>): stripping a node of its stored objects,
  versions, grants and keys, and removing rows, alone or as a subtree.
\<close>

record purged =
  pu_bytes_reclaimed :: int
  pu_objects_deleted :: int
  pu_nodes_deleted :: int

definition no_purge :: purged where
  "no_purge = \<lparr>pu_bytes_reclaimed = 0, pu_objects_deleted = 0, pu_nodes_deleted = 0\<rparr>"

definition purged_add :: "purged \<Rightarrow> purged \<Rightarrow> purged" where
  "purged_add a b =
     \<lparr>pu_bytes_reclaimed = pu_bytes_reclaimed a + pu_bytes_reclaimed b,
      pu_objects_deleted = pu_objects_deleted a + pu_objects_deleted b,
      pu_nodes_deleted = pu_nodes_deleted a + pu_nodes_deleted b\<rparr>"

definition release_trashed :: "uuid \<Rightarrow> int \<Rightarrow> datetime \<Rightarrow> db \<Rightarrow> db" where
  "release_trashed owner n now d =
     (case quotas_get d owner of
        None \<Rightarrow> d
      | Some usage \<Rightarrow> quotas_update (purge_from_trash n now usage) d)"

definition strip_node :: "uuid \<Rightarrow> datetime \<Rightarrow> purged use_case" where
  "strip_node nid now =
     bind (qdb (\<lambda>d. nodes_get d nid)) (\<lambda>found.
     case found of
       None \<Rightarrow> ret no_purge
     | Some n \<Rightarrow>
         seq (mdb (release_trashed (nd_owner_id n) (nd_size_bytes n) now))
        (bind (qdb (\<lambda>d. versions_list_for_node d nid)) (\<lambda>versions.
         seq (for_each versions (\<lambda>v. seq (objects_delete (object_key v)) (mdb (versions_delete (fv_id v)))))
        (seq (mdb (grants_delete_for_node nid))
        (seq (mdb (delete_data_keys_for_node nid))
             (ret \<lparr>pu_bytes_reclaimed = nd_size_bytes n, pu_objects_deleted = int (length versions),
                   pu_nodes_deleted = 1\<rparr>))))))"

definition purge_one :: "uuid \<Rightarrow> datetime \<Rightarrow> purged use_case" where
  "purge_one nid now =
     bind (strip_node nid now) (\<lambda>stripped.
     seq (if pu_nodes_deleted stripped \<noteq> 0 then mdb (delete_permanently nid) else ret ())
         (ret stripped))"

fun strip_all :: "uuid list \<Rightarrow> datetime \<Rightarrow> purged \<Rightarrow> purged use_case" where
  "strip_all [] now acc = ret acc"
| "strip_all (nid # ids) now acc =
     bind (strip_node nid now) (\<lambda>p. strip_all ids now (purged_add acc p))"

definition purge_subtree :: "uuid list \<Rightarrow> uuid \<Rightarrow> datetime \<Rightarrow> purged use_case" where
  "purge_subtree ids root now =
     bind (strip_all ids now no_purge) (\<lambda>acc.
     seq (for_each ids (\<lambda>nid. mdb (delete_permanently nid)))
    (seq (mdb (delete_permanently root))
         (ret acc)))"

section \<open>Lemmas\<close>

text \<open>The stored objects of a node: those its version rows name.\<close>

definition version_keys :: "db \<Rightarrow> uuid \<Rightarrow> string set" where
  "version_keys d nid = object_key ` {v \<in> set (db_versions d). fv_node_id v = nid}"

definition drop_objects :: "string set \<Rightarrow> world \<Rightarrow> world" where
  "drop_objects ks w = w\<lparr>w_objects := filter (\<lambda>(k, _). k \<notin> ks) (w_objects w)\<rparr>"

lemma set_versions_list [simp]: "set (versions_list_for_node d nid) = {v \<in> set (db_versions d). fv_node_id v = nid}"
  by (auto simp: versions_list_for_node_def)

lemma strip_versions_run:
  "for_each vs (\<lambda>v. seq (objects_delete (object_key v)) (mdb (versions_delete (fv_id v)))) w =
     (Inr (), w\<lparr>w_objects := filter (\<lambda>(k, _). k \<notin> object_key ` set vs) (w_objects w),
        w_db := (w_db w)\<lparr>db_versions := filter (\<lambda>v. fv_id v \<notin> fv_id ` set vs) (db_versions (w_db w))\<rparr>\<rparr>)"
proof (induction vs arbitrary: w)
  case (Cons v vs)
  then show ?case
    by (simp add: seq_run objects_delete_def versions_delete_def split_beta' conj_commute insert_commute
        image_insert[symmetric] del: image_insert)
      (intro arg_cong2[where f = "\<lambda>a b. w\<lparr>w_objects := a, w_db := (w_db w)\<lparr>db_versions := b\<rparr>\<rparr>"] filter_cong; auto)
qed (simp add: split_beta')

text \<open>Version rows have their own identifiers and belong to a node of the table.\<close>

definition versions_wf :: "db \<Rightarrow> bool" where
  "versions_wf d \<longleftrightarrow> distinct (map fv_id (db_versions d)) \<and>
     (\<forall>v\<in>set (db_versions d). fv_node_id v \<in> nd_id ` set (db_nodes d))"

definition objects_without :: "string set \<Rightarrow> object_table \<Rightarrow> object_table" where
  "objects_without ks os = filter (\<lambda>(k, _). k \<notin> ks) os"

lemma objects_without_twice: "objects_without a (objects_without b os) = objects_without (a \<union> b) os"
  by (auto simp: objects_without_def split_beta' intro: filter_cong)

lemma release_trashed_frame [simp]:
  "db_nodes (release_trashed ow n now d) = db_nodes d" "db_versions (release_trashed ow n now d) = db_versions d"
  "db_grants (release_trashed ow n now d) = db_grants d" "db_data_keys (release_trashed ow n now d) = db_data_keys d"
  "db_audit (release_trashed ow n now d) = db_audit d" "db_users (release_trashed ow n now d) = db_users d"
  by (auto simp: release_trashed_def quotas_update_def split: option.splits)

text \<open>What stripping one node leaves: the node rows as they were, nothing else of the node.\<close>

lemma strip_node_run:
  assumes "versions_wf (w_db w)"
  obtains p w' where "strip_node nid now w = (Inr p, w')" "db_nodes (w_db w') = db_nodes (w_db w)"
    "db_users (w_db w') = db_users (w_db w)" "db_audit (w_db w') = db_audit (w_db w)"
    "db_versions (w_db w') = filter (\<lambda>v. fv_node_id v \<noteq> nid) (db_versions (w_db w))"
    "w_objects w' = objects_without (version_keys (w_db w) nid) (w_objects w)"
    "set (db_grants (w_db w')) \<subseteq> set (db_grants (w_db w))" "w_clock w' = w_clock w" "w_cache w' = w_cache w"
    "w_uuids w' = w_uuids w" "w_drawn w' = w_drawn w"
    "nid \<in> nd_id ` set (db_nodes (w_db w)) \<Longrightarrow> \<forall>g\<in>set (db_grants (w_db w')). gr_node_id g \<noteq> nid"
    "pu_nodes_deleted p = (if nid \<in> nd_id ` set (db_nodes (w_db w)) then 1 else 0)"
proof (cases "nodes_get (w_db w) nid")
  case None
  then have no: "nid \<notin> nd_id ` set (db_nodes (w_db w))" by (auto simp: nodes_get_def row_by_None)
  with assms have "{v \<in> set (db_versions (w_db w)). fv_node_id v = nid} = {}" by (auto simp: versions_wf_def)
  then have "version_keys (w_db w) nid = {}" "filter (\<lambda>v. fv_node_id v \<noteq> nid) (db_versions (w_db w)) = db_versions (w_db w)"
    by (auto simp: version_keys_def filter_id_conv)
  with None no show ?thesis
    by (intro that[of no_purge w]) (auto simp: strip_node_def bind_run objects_without_def no_purge_def)
next
  case (Some n)
  let ?d = "release_trashed (nd_owner_id n) (nd_size_bytes n) now (w_db w)"
  let ?vs = "versions_list_for_node ?d nid"
  have n: "nid \<in> nd_id ` set (db_nodes (w_db w))"
    using Some row_by_Some[of nd_id nid "db_nodes (w_db w)" n] by (auto simp: nodes_get_def)
  have ids: "fv_id v \<in> fv_id ` set ?vs \<longleftrightarrow> fv_node_id v = nid" if v: "v \<in> set (db_versions (w_db w))" for v
  proof
    assume "fv_id v \<in> fv_id ` set ?vs"
    then obtain x where x: "x \<in> set (db_versions (w_db w))" "fv_node_id x = nid" "fv_id x = fv_id v" by auto
    with v assms have "x = v" by (auto simp: versions_wf_def distinct_map inj_on_def)
    with x show "fv_node_id v = nid" by simp
  qed (use v in auto)
  have vers: "filter (\<lambda>v. fv_id v \<notin> fv_id ` set ?vs) (db_versions (w_db w)) =
      filter (\<lambda>v. fv_node_id v \<noteq> nid) (db_versions (w_db w))"
    by (rule filter_cong) (use ids in auto)
  have keys: "object_key ` set ?vs = version_keys (w_db w) nid" by (simp add: version_keys_def)
  show ?thesis
    by (rule that[of "\<lparr>pu_bytes_reclaimed = nd_size_bytes n, pu_objects_deleted = int (length ?vs), pu_nodes_deleted = 1\<rparr>"],
        simp add: strip_node_def Some bind_run seq_run strip_versions_run del: set_versions_list)
      (use n in \<open>auto simp: vers keys objects_without_def grants_delete_for_node_def delete_data_keys_for_node_def
        simp del: set_versions_list\<close>)
qed

definition only_store_changed :: "world \<Rightarrow> world \<Rightarrow> bool" where
  "only_store_changed w w' \<longleftrightarrow> w_clock w' = w_clock w \<and> w_cache w' = w_cache w \<and> w_uuids w' = w_uuids w \<and>
     w_drawn w' = w_drawn w \<and> db_users (w_db w') = db_users (w_db w) \<and> db_audit (w_db w') = db_audit (w_db w)"

lemma strip_all_run:
  "versions_wf (w_db w) \<Longrightarrow> \<exists>p w'. strip_all ids now acc w = (Inr p, w') \<and> versions_wf (w_db w') \<and>
     db_nodes (w_db w') = db_nodes (w_db w) \<and>
     db_versions (w_db w') = filter (\<lambda>v. fv_node_id v \<notin> set ids) (db_versions (w_db w)) \<and>
     w_objects w' = objects_without (\<Union>n\<in>set ids. version_keys (w_db w) n) (w_objects w) \<and>
     set (db_grants (w_db w')) \<subseteq> set (db_grants (w_db w)) \<and> only_store_changed w w'"
proof (induction ids arbitrary: w acc)
  case Nil
  then show ?case by (auto simp: objects_without_def only_store_changed_def)
next
  case (Cons nid ids)
  obtain p w1 where s: "strip_node nid now w = (Inr p, w1)" "db_nodes (w_db w1) = db_nodes (w_db w)"
    "db_users (w_db w1) = db_users (w_db w)" "db_audit (w_db w1) = db_audit (w_db w)"
    "db_versions (w_db w1) = filter (\<lambda>v. fv_node_id v \<noteq> nid) (db_versions (w_db w))"
    "w_objects w1 = objects_without (version_keys (w_db w) nid) (w_objects w)"
    "set (db_grants (w_db w1)) \<subseteq> set (db_grants (w_db w))" "w_clock w1 = w_clock w" "w_cache w1 = w_cache w"
    "w_uuids w1 = w_uuids w" "w_drawn w1 = w_drawn w"
    by (rule strip_node_run[OF Cons.prems, of nid now]) blast
  have wf: "versions_wf (w_db w1)"
    using Cons.prems s by (auto simp: versions_wf_def distinct_map_filter)
  from Cons.IH[OF wf, of "purged_add acc p"] obtain q w2 where
    r: "strip_all ids now (purged_add acc p) w1 = (Inr q, w2)" "versions_wf (w_db w2)"
    "db_nodes (w_db w2) = db_nodes (w_db w1)"
    "db_versions (w_db w2) = filter (\<lambda>v. fv_node_id v \<notin> set ids) (db_versions (w_db w1))"
    "w_objects w2 = objects_without (\<Union>n\<in>set ids. version_keys (w_db w1) n) (w_objects w1)"
    "set (db_grants (w_db w2)) \<subseteq> set (db_grants (w_db w1))" "only_store_changed w1 w2" by blast
  have keys: "(\<Union>n\<in>set ids. version_keys (w_db w1) n) \<union> version_keys (w_db w) nid =
      (\<Union>n\<in>set (nid # ids). version_keys (w_db w) n)"
    using s(5) by (auto simp: version_keys_def)
  have "db_versions (w_db w2) = filter (\<lambda>v. fv_node_id v \<notin> set (nid # ids)) (db_versions (w_db w))"
    using r(4) s(5) by (auto intro: filter_cong)
  moreover have "w_objects w2 = objects_without (\<Union>n\<in>set (nid # ids). version_keys (w_db w) n) (w_objects w)"
    unfolding r(5) s(6) objects_without_twice keys ..
  ultimately show ?case using r s by (auto simp: bind_run only_store_changed_def)
qed

lemma delete_permanently_nodes:
  "db_nodes (delete_permanently nid d) = filter (\<lambda>r. nd_id r \<notin> doomed_ids (db_nodes d) nid) (db_nodes d)"
  by (simp add: delete_permanently_def Let_def)

lemma delete_permanently_versions:
  "db_versions (delete_permanently nid d) = filter (\<lambda>v. fv_node_id v \<notin> doomed_ids (db_nodes d) nid) (db_versions d)"
  by (simp add: delete_permanently_def Let_def)

lemma delete_permanently_frame [simp]:
  "db_users (delete_permanently nid d) = db_users d" "db_audit (delete_permanently nid d) = db_audit d"
  "db_quotas (delete_permanently nid d) = db_quotas d"
  by (simp_all add: delete_permanently_def Let_def)

lemma delete_rows_run:
  "for_each ids (\<lambda>nid. mdb (delete_permanently nid)) w =
     (Inr (), w\<lparr>w_db := fold delete_permanently ids (w_db w)\<rparr>)"
  by (induction ids arbitrary: w) (simp_all add: seq_run)

lemma fold_delete_permanently:
  "set (db_nodes (fold delete_permanently ids d)) \<subseteq> {r \<in> set (db_nodes d). nd_id r \<notin> set ids} \<and>
   db_users (fold delete_permanently ids d) = db_users d \<and> db_audit (fold delete_permanently ids d) = db_audit d"
  by (induction ids arbitrary: d) (force simp: delete_permanently_nodes doomed_ids_def)+

text \<open>
  A subtree purge runs to its end, and afterwards neither a row nor a stored object of the nodes it
  was given is left; objects of other nodes are not touched.
\<close>

lemma purge_subtree_run:
  assumes "versions_wf (w_db w)" "root \<in> set ids"
  obtains p w' where "purge_subtree ids root now w = (Inr p, w')"
    "set (db_nodes (w_db w')) \<subseteq> {r \<in> set (db_nodes (w_db w)). nd_id r \<notin> set ids}"
    "w_objects w' = objects_without (\<Union>n\<in>set ids. version_keys (w_db w) n) (w_objects w)"
    "w_db w' = delete_permanently root (fold delete_permanently ids (w_db (snd (strip_all ids now no_purge w))))"
    "only_store_changed w w'"
proof -
  from strip_all_run[OF assms(1), of ids now no_purge] obtain p w1 where
    r: "strip_all ids now no_purge w = (Inr p, w1)" "db_nodes (w_db w1) = db_nodes (w_db w)"
    "w_objects w1 = objects_without (\<Union>n\<in>set ids. version_keys (w_db w) n) (w_objects w)" "only_store_changed w w1"
    by blast
  let ?d = "delete_permanently root (fold delete_permanently ids (w_db w1))"
  have "set (db_nodes ?d) \<subseteq> {r \<in> set (db_nodes (w_db w)). nd_id r \<notin> set ids}"
    using fold_delete_permanently[of ids "w_db w1"] r(2) by (auto simp: delete_permanently_nodes)
  then show thesis
    using r fold_delete_permanently[of ids "w_db w1"]
    by (intro that[of p "w1\<lparr>w_db := ?d\<rparr>"])
      (auto simp: purge_subtree_def bind_run seq_run delete_rows_run only_store_changed_def)
qed

end
