(* ===== verification/Trash.thy ===== *)
theory Trash
  imports NodeInvariants Purge
begin

text \<open>
  The trash (\<open>NodeService.purge\<close>, \<open>trash\<close> and \<open>empty_trash\<close> of \<open>application/nodes.py\<close>): destruction on
  demand, the listing, and the bounded pass that empties it.
\<close>

record emptied =
  em_entries_purged :: int
  em_entries_remaining :: int
  em_purged :: purged

record trash_listing =
  tl_entries :: "trash_entry list"
  tl_next_cursor :: "string option"
  tl_total_entries :: int

definition destroy_entry :: "node \<Rightarrow> datetime \<Rightarrow> purged use_case" where
  "destroy_entry entry now =
     bind (qdb (\<lambda>d. nodes_descendants d (nd_id entry) ANCESTOR_GUARD_DEPTH True)) (\<lambda>subtree.
     purge_subtree (map nd_id subtree @ [nd_id entry]) (nd_id entry) now)"

definition record_purge :: "user \<Rightarrow> node \<Rightarrow> purged \<Rightarrow> datetime \<Rightarrow> unit use_case" where
  "record_purge u n p now =
     emit_audit (audit_of NODE_PURGED now (us_subject u) (Some (uuid_str (nd_id n)))
       (owner_context n (us_id u) @
        [(''owner_id'', CStr (uuid_str (nd_owner_id n))), (''nodes'', CInt (pu_nodes_deleted p)),
         (''objects'', CInt (pu_objects_deleted p)), (''bytes'', CInt (pu_bytes_reclaimed p))]))"

definition record_batch :: "user \<Rightarrow> datetime \<Rightarrow> int \<Rightarrow> purged \<Rightarrow> unit use_case" where
  "record_batch u now entries p =
     emit_audit (audit_of TRASH_EMPTIED now (us_subject u) None
       [(''entries'', CInt entries), (''nodes'', CInt (pu_nodes_deleted p)),
        (''objects'', CInt (pu_objects_deleted p)), (''bytes'', CInt (pu_bytes_reclaimed p))])"

definition invalidate_destroyed :: "config \<Rightarrow> node list \<Rightarrow> unit use_case" where
  "invalidate_destroyed C entries =
     (if \<not> cf_cache_enabled C \<or> entries = [] then ret ()
      else seq (for_each entries (\<lambda>e. on_node_mutated C (nd_id e) (nd_parent_id e) None))
               (invalidate_all_permissions C))"

definition purge :: "config \<Rightarrow> user \<Rightarrow> uuid \<Rightarrow> datetime option \<Rightarrow> purged use_case" where
  "purge C u nid now =
     bind (moment_of now) (\<lambda>moment.
     bind (qdb (\<lambda>d. nodes_get d nid)) (\<lambda>found.
     bind (expect found NotFoundError) (\<lambda>n.
     seq (if nd_owner_id n \<noteq> us_id u \<and> \<not> us_is_admin u
          then bind (authorize_or_record (us_subject u) nid (resolve_effective_role False []) OWNER None) (\<lambda>_. ret ())
          else ret ())
    (seq (guard (is_deleted n) ConflictError)
    (bind (destroy_entry n moment) (\<lambda>p.
     seq (flush C)
    (seq (record_purge u n p moment)
    (seq (invalidate C (nd_id n) (nd_parent_id n) None True)
         (ret p)))))))))"

fun trash_entries :: "config \<Rightarrow> (uuid \<times> subtree_totals) list \<Rightarrow> (uuid \<times> node list) list \<Rightarrow> node list \<Rightarrow> error + trash_entry list" where
  "trash_entries C totals paths [] = Inr []"
| "trash_entries C totals paths (n # ns) =
     (case trash_entry_of n (case map_of paths (nd_id n) of None \<Rightarrow> [] | Some c \<Rightarrow> c) (cf_trash_retention_days C)
             (case map_of totals (nd_id n) of None \<Rightarrow> \<lparr>st_size_bytes = 0, st_nodes = 0\<rparr> | Some t \<Rightarrow> t) of
        Inl e \<Rightarrow> Inl e
      | Inr e \<Rightarrow> (case trash_entries C totals paths ns of Inl x \<Rightarrow> Inl x | Inr es \<Rightarrow> Inr (e # es)))"

definition trash :: "config \<Rightarrow> user \<Rightarrow> nat \<Rightarrow> string option \<Rightarrow> trash_listing use_case" where
  "trash C u limit cursor =
     bind (qdb (\<lambda>d. list_trash_entries (cf_sha256_hex C) d (us_id u) (min limit (cf_page_size_max C)) cursor False)) (\<lambda>r.
     bind (lift r) (\<lambda>pg.
     let ids = map nd_id (pg_items pg) in
     bind (qdb (\<lambda>d. delete_batch_totals d ids)) (\<lambda>totals.
     bind (qdb (\<lambda>d. ancestor_chains d ids ANCESTOR_GUARD_DEPTH)) (\<lambda>paths.
     bind (lift (trash_entries C totals paths (pg_items pg))) (\<lambda>entries.
     qdb (\<lambda>d. \<lparr>tl_entries = entries, tl_next_cursor = pg_next_cursor pg,
               tl_total_entries = count_trash_entries d (us_id u)\<rparr>))))))"

fun spend_loop ::
  "user \<Rightarrow> (uuid \<times> subtree_totals) list \<Rightarrow> datetime \<Rightarrow> node list \<Rightarrow> node list \<Rightarrow> purged \<Rightarrow> int
     \<Rightarrow> (node list \<times> purged) use_case" where
  "spend_loop u totals now [] destroyed acc spent = ret (destroyed, acc)"
| "spend_loop u totals now (entry # entries) destroyed acc spent =
     bind (expect (map_of totals (nd_id entry)) CyberFSError) (\<lambda>t.
     let cost = st_nodes t in
     if destroyed \<noteq> [] \<and> spent + cost > TRASH_PURGE_NODE_BUDGET then ret (destroyed, acc)
     else bind (destroy_entry entry now) (\<lambda>p.
          seq (record_purge u entry p now)
              (spend_loop u totals now entries (destroyed @ [entry]) (purged_add acc p) (spent + cost))))"

definition spend_purge_budget :: "config \<Rightarrow> user \<Rightarrow> datetime \<Rightarrow> (node list \<times> purged) use_case" where
  "spend_purge_budget C u now =
     bind (qdb (\<lambda>d. list_trash_entries (cf_sha256_hex C) d (us_id u) (nat TRASH_PURGE_NODE_BUDGET) None True)) (\<lambda>r.
     bind (lift r) (\<lambda>pg.
     bind (qdb (\<lambda>d. delete_batch_totals d (map nd_id (pg_items pg)))) (\<lambda>totals.
     spend_loop u totals now (pg_items pg) [] no_purge 0)))"

definition empty_trash :: "config \<Rightarrow> user \<Rightarrow> int \<Rightarrow> datetime option \<Rightarrow> emptied use_case" where
  "empty_trash C u expected_entries now =
     bind (moment_of now) (\<lambda>moment.
     bind (qdb (\<lambda>d. count_trash_entries d (us_id u))) (\<lambda>held.
     seq (guard (held = expected_entries) TrashCountMismatchError)
    (bind (spend_purge_budget C u moment) (\<lambda>(destroyed, acc).
     seq (flush C)
    (bind (qdb (\<lambda>d. count_trash_entries d (us_id u))) (\<lambda>remaining.
     seq (if destroyed \<noteq> [] then record_batch u moment (int (length destroyed)) acc else ret ())
    (seq (invalidate_destroyed C destroyed)
         (ret \<lparr>em_entries_purged = int (length destroyed), em_entries_remaining = remaining,
               em_purged = acc\<rparr>))))))))"

section \<open>Removing rows keeps the forest\<close>

lemma chain_up_distinct:
  assumes "tree_inv rows"
  shows "r \<in> set rows \<Longrightarrow> distinct (map nd_id (chain_up rows k r))"
proof (induction k arbitrary: r)
  case (Suc k)
  show ?case
  proof (cases "nd_parent_id r")
    case (Some p)
    show ?thesis
    proof (cases "row_by nd_id p rows")
      case (Some m)
      from row_by_Some[OF Some] have m: "m \<in> set rows" by simp
      have "nd_id x \<noteq> nd_id m" if "x \<in> set (chain_up rows k m)" for x
        using chain_up_sound[OF that m] assms by (auto simp: tree_inv_def acyclic_def)
      then have "nd_id m \<notin> nd_id ` set (chain_up rows k m)" by force
      with Suc.IH[OF m] \<open>nd_parent_id r = Some p\<close> Some show ?thesis by simp
    qed (use Some in simp)
  qed simp
qed simp

lemma chain_up_length:
  assumes inv: "tree_inv rows" and r: "r \<in> set rows"
  shows "length (chain_up rows k r) \<le> length rows"
proof -
  have "set (chain_up rows k r) \<subseteq> set rows" using chain_up_sound[OF _ r] by blast
  then have "card (set (chain_up rows k r)) \<le> card (set rows)" by (simp add: card_mono)
  moreover have "distinct (chain_up rows k r)" using chain_up_distinct[OF inv r, of k] by (simp add: distinct_map)
  ultimately show ?thesis using card_length[of rows] by (simp add: distinct_card)
qed

lemma depth_le_length: "tree_inv rows \<Longrightarrow> length rows \<le> k \<Longrightarrow> depth_le rows k"
  unfolding depth_le_def using chain_up_length le_trans by blast

lemma doomed_iff:
  assumes "tree_inv rows" "nid \<in> nd_id ` set rows" "r \<in> set rows"
  shows "nd_id r \<in> doomed_ids rows nid \<longleftrightarrow> (nd_id r, nid) \<in> (parent_rel rows)\<^sup>*"
proof -
  let ?d = "\<lparr>db_users = [], db_nodes = rows, db_versions = [], db_tags = [], db_metadata = [], db_grants = [],
    db_links = [], db_user_keys = [], db_data_keys = [], db_quotas = [], db_audit = [], db_s3_keys = [], db_uploads = [], db_parts = []\<rparr>"
  have dep: "depth_le rows (Suc (length rows))" using depth_le_length[OF assms(1)] by simp
  have eq: "doomed_ids rows nid = insert nid (nd_id ` set (nodes_descendants ?d nid (length rows) True))"
    by (simp add: doomed_ids_def nodes_descendants_def)
  show ?thesis
  proof
    assume "nd_id r \<in> doomed_ids rows nid"
    then show "(nd_id r, nid) \<in> (parent_rel rows)\<^sup>*"
      unfolding eq using descendants_sound[of _ ?d nid "length rows" True] by (auto intro: trancl_into_rtrancl)
  next
    assume "(nd_id r, nid) \<in> (parent_rel rows)\<^sup>*"
    then show "nd_id r \<in> doomed_ids rows nid" unfolding eq
      using descendants_complete[of ?d "length rows" r nid] assms(1,3) dep by (auto dest: rtranclD)
  qed
qed

lemma doomed_absent:
  assumes "tree_inv rows" "nid \<notin> nd_id ` set rows"
  shows "doomed_ids rows nid = {nid}"
proof -
  have "children_of rows [nid] = []"
    using assms by (auto simp: children_of_def tree_inv_def filter_empty_conv split: option.splits)
  moreover have "subtree_levels rows k [] = []" for k
    by (induction k) (auto simp: children_of_def filter_empty_conv split: option.splits)
  ultimately show ?thesis by (simp add: doomed_ids_def)
qed

lemma tree_inv_filter_doomed:
  assumes inv: "tree_inv rows"
  shows "tree_inv (filter (\<lambda>r. nd_id r \<notin> doomed_ids rows nid) rows)"
proof (cases "nid \<in> nd_id ` set rows")
  case False
  then have "filter (\<lambda>r. nd_id r \<notin> doomed_ids rows nid) rows = rows"
    by (auto simp: doomed_absent[OF inv False] filter_id_conv)
  with inv show ?thesis by simp
next
  case True
  let ?rows = "filter (\<lambda>r. nd_id r \<notin> doomed_ids rows nid) rows"
  have "parent_rel ?rows \<subseteq> parent_rel rows" by (auto simp: parent_rel_def)
  then have "acyclic (parent_rel ?rows)" using inv acyclic_subset by (auto simp: tree_inv_def)
  moreover have "p \<in> nd_id ` set ?rows" if r: "r \<in> set ?rows" and p: "nd_parent_id r = Some p" for r p
  proof -
    from r p inv obtain q where q: "q \<in> set rows" "nd_id q = p" by (force simp: tree_inv_def)
    have "(nd_id r, nd_id q) \<in> parent_rel rows" using r p q by (auto simp: parent_rel_def)
    moreover have "(nd_id r, nid) \<notin> (parent_rel rows)\<^sup>*" using r doomed_iff[OF inv True, of r] by auto
    ultimately have "(nd_id q, nid) \<notin> (parent_rel rows)\<^sup>*" by (meson converse_rtrancl_into_rtrancl)
    with q doomed_iff[OF inv True q(1)] show ?thesis by auto
  qed
  ultimately show ?thesis using inv by (auto simp: tree_inv_def distinct_map_filter)
qed

lemma delete_permanently_tree: "tree_inv (db_nodes d) \<Longrightarrow> tree_inv (db_nodes (delete_permanently nid d))"
  by (simp add: delete_permanently_nodes tree_inv_filter_doomed)

lemma fold_delete_tree: "tree_inv (db_nodes d) \<Longrightarrow> tree_inv (db_nodes (fold delete_permanently ids d))"
  by (induction ids arbitrary: d) (auto simp: delete_permanently_tree)

lemma delete_permanently_wf: "versions_wf d \<Longrightarrow> versions_wf (delete_permanently nid d)"
  by (auto simp: versions_wf_def delete_permanently_versions delete_permanently_nodes distinct_map_filter)

lemma fold_delete_wf: "versions_wf d \<Longrightarrow> versions_wf (fold delete_permanently ids d)"
  by (induction ids arbitrary: d) (auto simp: delete_permanently_wf)

lemma delete_permanently_rows:
  assumes "tree_inv (db_nodes d)"
  shows "set (db_nodes (delete_permanently i d)) = {r \<in> set (db_nodes d). (nd_id r, i) \<notin> (parent_rel (db_nodes d))\<^sup>*}"
proof (cases "i \<in> nd_id ` set (db_nodes d)")
  case True
  then show ?thesis using doomed_iff[OF assms True] by (auto simp: delete_permanently_nodes)
next
  case False
  have "(a, i) \<notin> (parent_rel (db_nodes d))\<^sup>+" for a
  proof
    assume "(a, i) \<in> (parent_rel (db_nodes d))\<^sup>+"
    then obtain b where "(b, i) \<in> parent_rel (db_nodes d)" by (metis tranclD2)
    with False assms show False by (auto simp: parent_rel_def tree_inv_def)
  qed
  then have "(nd_id r, i) \<in> (parent_rel (db_nodes d))\<^sup>* \<longleftrightarrow> nd_id r = i" for r by (auto dest: rtranclD)
  then show ?thesis using False by (auto simp: delete_permanently_nodes doomed_absent[OF assms False])
qed

text \<open>Above a surviving row everything survives, so the paths from it are those of the full table.\<close>

lemma path_survives:
  assumes rows: "set rows' = {r \<in> set rows. (nd_id r, i) \<notin> (parent_rel rows)\<^sup>*}"
    and "(a, j) \<in> (parent_rel rows)\<^sup>*" "(a, i) \<notin> (parent_rel rows)\<^sup>*"
  shows "(a, j) \<in> (parent_rel rows')\<^sup>*"
  using assms(2,3)
proof (induction rule: converse_rtrancl_induct)
  case (step x y)
  from step(1) obtain r where r: "r \<in> set rows" "nd_id r = x" "nd_parent_id r = Some y" by (auto simp: parent_rel_def)
  with step.prems rows have "(x, y) \<in> parent_rel rows'" by (auto simp: parent_rel_def)
  moreover have "(y, i) \<notin> (parent_rel rows)\<^sup>*" using step by (meson converse_rtrancl_into_rtrancl)
  ultimately show ?case using step.IH by (meson converse_rtrancl_into_rtrancl)
qed simp

lemma path_survives_iff:
  assumes rows: "set rows' = {r \<in> set rows. (nd_id r, i) \<notin> (parent_rel rows)\<^sup>*}" and "(a, i) \<notin> (parent_rel rows)\<^sup>*"
  shows "(a, j) \<in> (parent_rel rows')\<^sup>* \<longleftrightarrow> (a, j) \<in> (parent_rel rows)\<^sup>*"
proof
  have "parent_rel rows' \<subseteq> parent_rel rows" using rows by (auto simp: parent_rel_def)
  then show "(a, j) \<in> (parent_rel rows')\<^sup>* \<Longrightarrow> (a, j) \<in> (parent_rel rows)\<^sup>*" by (meson rtrancl_mono subsetD)
qed (rule path_survives[OF rows _ assms(2)])

lemma fold_delete_rows:
  "tree_inv (db_nodes d) \<Longrightarrow>
   set (db_nodes (fold delete_permanently ids d)) =
     {r \<in> set (db_nodes d). \<forall>i\<in>set ids. (nd_id r, i) \<notin> (parent_rel (db_nodes d))\<^sup>*}"
proof (induction ids arbitrary: d)
  case (Cons i ids)
  note rows = delete_permanently_rows[OF Cons.prems, of i]
  from Cons.IH[OF delete_permanently_tree[OF Cons.prems], of i] show ?case
    using path_survives_iff[OF rows] by (auto simp: rows)
qed simp
section \<open>Destroying an entry\<close>

definition subtree_ids :: "db \<Rightarrow> uuid \<Rightarrow> uuid set" where
  "subtree_ids d nid = insert nid (nd_id ` set (nodes_descendants d nid ANCESTOR_GUARD_DEPTH True))"

lemma destroy_entry_run:
  assumes wf: "versions_wf (w_db w)"
  obtains p w' where "destroy_entry e now w = (Inr p, w')" "versions_wf (w_db w')" "only_store_changed w w'"
    "tree_inv (db_nodes (w_db w)) \<Longrightarrow> tree_inv (db_nodes (w_db w'))"
    "tree_inv (db_nodes (w_db w)) \<Longrightarrow> set (db_nodes (w_db w')) =
       {r \<in> set (db_nodes (w_db w)). (nd_id r, nd_id e) \<notin> (parent_rel (db_nodes (w_db w)))\<^sup>*}"
    "set (db_nodes (w_db w')) \<subseteq> {r \<in> set (db_nodes (w_db w)). nd_id r \<notin> subtree_ids (w_db w) (nd_id e)}"
    "w_objects w' = objects_without (\<Union>n\<in>subtree_ids (w_db w) (nd_id e). version_keys (w_db w) n) (w_objects w)"
proof -
  let ?ids = "map nd_id (nodes_descendants (w_db w) (nd_id e) ANCESTOR_GUARD_DEPTH True) @ [nd_id e]"
  have set: "set ?ids = subtree_ids (w_db w) (nd_id e)" by (auto simp: subtree_ids_def)
  obtain p w' where r: "purge_subtree ?ids (nd_id e) now w = (Inr p, w')"
    "set (db_nodes (w_db w')) \<subseteq> {r \<in> set (db_nodes (w_db w)). nd_id r \<notin> set ?ids}"
    "w_objects w' = objects_without (\<Union>n\<in>set ?ids. version_keys (w_db w) n) (w_objects w)"
    "w_db w' = delete_permanently (nd_id e) (fold delete_permanently ?ids (w_db (snd (strip_all ?ids now no_purge w))))"
    "only_store_changed w w'"
    by (rule purge_subtree_run[OF wf, of "nd_id e" ?ids now]) auto
  from strip_all_run[OF wf, of ?ids now no_purge] have
    s: "versions_wf (w_db (snd (strip_all ?ids now no_purge w)))"
       "db_nodes (w_db (snd (strip_all ?ids now no_purge w))) = db_nodes (w_db w)" by auto
  show thesis
  proof (rule that[of p w'])
    show "destroy_entry e now w = (Inr p, w')" using r(1) by (simp add: destroy_entry_def bind_run)
    show "versions_wf (w_db w')" unfolding r(4) using s(1) by (intro delete_permanently_wf fold_delete_wf)
    show "tree_inv (db_nodes (w_db w)) \<Longrightarrow> tree_inv (db_nodes (w_db w'))"
      unfolding r(4) using s(2) by (intro delete_permanently_tree fold_delete_tree) simp
    show "set (db_nodes (w_db w')) = {r \<in> set (db_nodes (w_db w)). (nd_id r, nd_id e) \<notin> (parent_rel (db_nodes (w_db w)))\<^sup>*}"
      if inv: "tree_inv (db_nodes (w_db w))"
    proof -
      let ?d = "w_db (snd (strip_all ?ids now no_purge w))"
      have "db_nodes (w_db w') = db_nodes (fold delete_permanently (?ids @ [nd_id e]) ?d)" by (simp add: r(4))
      moreover have "set (db_nodes (fold delete_permanently (?ids @ [nd_id e]) ?d)) =
        {r \<in> set (db_nodes (w_db w)). \<forall>i\<in>set (?ids @ [nd_id e]). (nd_id r, i) \<notin> (parent_rel (db_nodes (w_db w)))\<^sup>*}"
        using fold_delete_rows[of ?d "?ids @ [nd_id e]"] s(2) inv by simp
      moreover have "(i, nd_id e) \<in> (parent_rel (db_nodes (w_db w)))\<^sup>*" if "i \<in> set (?ids @ [nd_id e])" for i
        using that descendants_sound[of _ "w_db w"] by (auto intro: trancl_into_rtrancl)
      ultimately show ?thesis by (auto intro: rtrancl_trans)
    qed
    show "only_store_changed w w'" by (rule r(5))
  qed (rule r(2)[unfolded set], rule r(3)[unfolded set])
qed

section \<open>The purge budget\<close>

definition entry_cost :: "(uuid \<times> subtree_totals) list \<Rightarrow> node \<Rightarrow> int" where
  "entry_cost totals e = (case map_of totals (nd_id e) of None \<Rightarrow> 0 | Some t \<Rightarrow> st_nodes t)"

definition costs :: "(uuid \<times> subtree_totals) list \<Rightarrow> node list \<Rightarrow> int" where
  "costs totals es = sum_list (map (entry_cost totals) es)"

definition audit_only :: "world \<Rightarrow> world \<Rightarrow> bool" where
  "audit_only w w' \<longleftrightarrow> (\<exists>a. w' = w\<lparr>w_db := audit_add a (w_db w)\<rparr>)"

lemma audit_wf [simp]: "versions_wf (audit_add a d) = versions_wf d"
  by (simp add: versions_wf_def audit_add_def)

lemma audit_add_nodes [simp]: "db_nodes (audit_add a d) = db_nodes d" "db_users (audit_add a d) = db_users d"
  by (simp_all add: audit_add_def)

lemma spend_loop_run:
  assumes "versions_wf (w_db w)" "\<forall>e\<in>set entries. map_of totals (nd_id e) \<noteq> None" "\<forall>t\<in>ran (map_of totals). 0 \<le> st_nodes t"
    and "destroyed = [] \<and> spent = 0 \<or> length destroyed = 1 \<or> spent \<le> TRASH_PURGE_NODE_BUDGET"
  shows "\<exists>k acc' w'. spend_loop u totals now entries destroyed acc spent w = (Inr (destroyed @ take k entries, acc'), w') \<and>
     k \<le> length entries \<and> (destroyed = [] \<and> entries \<noteq> [] \<longrightarrow> 0 < k) \<and>
     (length (destroyed @ take k entries) \<le> 1 \<or> spent + costs totals (take k entries) \<le> TRASH_PURGE_NODE_BUDGET) \<and>
     (k < length entries \<longrightarrow> spent + costs totals (take (Suc k) entries) > TRASH_PURGE_NODE_BUDGET) \<and>
     versions_wf (w_db w') \<and> db_users (w_db w') = db_users (w_db w) \<and>
     (tree_inv (db_nodes (w_db w)) \<longrightarrow> tree_inv (db_nodes (w_db w')) \<and> set (db_nodes (w_db w')) =
       {r \<in> set (db_nodes (w_db w)). \<forall>e\<in>set (take k entries). (nd_id r, nd_id e) \<notin> (parent_rel (db_nodes (w_db w)))\<^sup>*})"
  using assms
proof (induction entries arbitrary: destroyed acc spent w)
  case Nil
  then show ?case by (auto simp: costs_def TRASH_PURGE_NODE_BUDGET_def)
next
  case (Cons e es)
  let ?B = TRASH_PURGE_NODE_BUDGET
  from Cons.prems(2) obtain t where t: "map_of totals (nd_id e) = Some t" by auto
  with Cons.prems(3) have t0: "0 \<le> st_nodes t" by (auto simp: ran_def)
  have cost: "entry_cost totals e = st_nodes t" using t by (simp add: entry_cost_def)
  show ?case
  proof (cases "destroyed \<noteq> [] \<and> spent + st_nodes t > ?B")
    case True
    with t cost Cons.prems show ?thesis
      by (intro exI[of _ 0] exI[of _ acc] exI[of _ w]) (auto simp: bind_run expect_run Let_def costs_def)
  next
    case False
    obtain p w1 where d: "destroy_entry e now w = (Inr p, w1)" "versions_wf (w_db w1)"
      "tree_inv (db_nodes (w_db w)) \<Longrightarrow> tree_inv (db_nodes (w_db w1))"
      "tree_inv (db_nodes (w_db w)) \<Longrightarrow> set (db_nodes (w_db w1)) =
        {r \<in> set (db_nodes (w_db w)). (nd_id r, nd_id e) \<notin> (parent_rel (db_nodes (w_db w)))\<^sup>*}" "only_store_changed w w1"
      by (rule destroy_entry_run[OF Cons.prems(1), of e now]) blast
    obtain a where a: "record_purge u e p now w1 = (Inr (), w1\<lparr>w_db := audit_add a (w_db w1)\<rparr>)"
      by (simp add: record_purge_def emit_audit_def)
    let ?w2 = "w1\<lparr>w_db := audit_add a (w_db w1)\<rparr>"
    have pre: "destroyed @ [e] = [] \<and> spent + st_nodes t = 0 \<or> length (destroyed @ [e]) = 1 \<or> spent + st_nodes t \<le> ?B"
      using False Cons.prems(4) by auto
    have "versions_wf (w_db ?w2)" using d(2) by simp
    moreover have "\<forall>e\<in>set es. map_of totals (nd_id e) \<noteq> None" using Cons.prems(2) by simp
    ultimately obtain k acc' w' where
      r: "spend_loop u totals now es (destroyed @ [e]) (purged_add acc p) (spent + st_nodes t) ?w2 =
          (Inr ((destroyed @ [e]) @ take k es, acc'), w')" "k \<le> length es"
      "length ((destroyed @ [e]) @ take k es) \<le> 1 \<or> spent + st_nodes t + costs totals (take k es) \<le> ?B"
      "k < length es \<longrightarrow> spent + st_nodes t + costs totals (take (Suc k) es) > ?B"
      "versions_wf (w_db w')" "db_users (w_db w') = db_users (w_db ?w2)"
      "tree_inv (db_nodes (w_db ?w2)) \<longrightarrow> tree_inv (db_nodes (w_db w')) \<and> set (db_nodes (w_db w')) =
        {r \<in> set (db_nodes (w_db ?w2)). \<forall>e\<in>set (take k es). (nd_id r, nd_id e) \<notin> (parent_rel (db_nodes (w_db ?w2)))\<^sup>*}"
      using Cons.IH[OF _ _ Cons.prems(3) pre, of ?w2 "purged_add acc p"] by blast
    have "spend_loop u totals now (e # es) destroyed acc spent w = (Inr (destroyed @ take (Suc k) (e # es), acc'), w')"
      using t d(1) a r(1) False by (auto simp: bind_run seq_run expect_run Let_def)
    moreover have "set (db_nodes (w_db w')) =
        {r \<in> set (db_nodes (w_db w)). \<forall>x\<in>set (take (Suc k) (e # es)). (nd_id r, nd_id x) \<notin> (parent_rel (db_nodes (w_db w)))\<^sup>*}"
      if inv: "tree_inv (db_nodes (w_db w))"
      using r(7) d(3)[OF inv] path_survives_iff[OF d(4)[OF inv]] by (auto simp: d(4)[OF inv])
    ultimately show ?thesis using r d(3,5) cost
      by (intro exI[of _ "Suc k"] exI[of _ acc'] exI[of _ w']) (auto simp: costs_def add.assoc only_store_changed_def)
  qed
qed

lemma batch_totals_nonneg: "t \<in> ran (map_of (delete_batch_totals d ids)) \<Longrightarrow> 0 \<le> st_nodes t"
  by (auto simp: delete_batch_totals_def ran_def dest!: map_of_SomeD)

lemma batch_totals_defined:
  assumes "r \<in> set (db_nodes d)" "is_deleted r" "nd_id r \<in> set ids"
  shows "map_of (delete_batch_totals d ids) (nd_id r) \<noteq> None"
proof -
  have "r \<in> set (subtree_levels (db_nodes d) k [r])" for k by (cases k) auto
  then have "r \<in> set (batch_rows d r)" using assms(2) by (auto simp: batch_rows_def is_deleted_def)
  then have "batch_rows d r \<noteq> []" by auto
  with assms have "nd_id r \<in> fst ` set (delete_batch_totals d ids)"
    by (force simp: delete_batch_totals_def)
  then show ?thesis by (simp add: map_of_eq_None_iff)
qed

lemma trash_rows_deleted: "r \<in> set (trash_rows d ow b) \<Longrightarrow> r \<in> set (db_nodes d) \<and> is_deleted r"
  by (auto simp: trash_rows_def trash_entry_condition_def Let_def split: if_splits)

end
