(* ===== verification/Objects.thy ===== *)
theory Objects
  imports World
begin

text \<open>
  The object store (\<open>adapters/outbound/objects/minio_store.py\<close>). MinIO keeps bytes under keys; the adapter
  feeds an upload to it chunk by chunk and streams an object, or a range of it, back in parts. The
  service answers, so \<open>S3Error\<close> arises for a missing key and for a range that starts past the end only.
\<close>

definition MIN_PART_BYTES :: nat where "MIN_PART_BYTES = 5 * 1024 * 1024"

definition part_bytes_of :: "nat \<Rightarrow> nat" where
  "part_bytes_of requested = max requested MIN_PART_BYTES"

text \<open>
  \<open>_AsyncStreamReader\<close>: what a blocking reader sees of a stream. It takes an empty chunk for the end of
  the body, and an exception of the source reaches the caller of \<open>put\<close> with nothing stored.
\<close>

definition read_body :: "stream \<Rightarrow> error + bytes" where
  "read_body s =
     (let pulled = takeWhile (\<lambda>c. c \<noteq> []) (fst s) in
      case snd s of
        Some e \<Rightarrow> if pulled = fst s then Inl e else Inr (concat pulled)
      | None \<Rightarrow> Inr (concat pulled))"

definition objects_lookup :: "object_table \<Rightarrow> string \<Rightarrow> stored_object option" where
  "objects_lookup objs key = map_option snd (find (\<lambda>(k, _). k = key) objs)"

definition objects_store :: "string \<Rightarrow> stored_object \<Rightarrow> object_table \<Rightarrow> object_table" where
  "objects_store key so objs = filter (\<lambda>(k, _). k \<noteq> key) objs @ [(key, so)]"

definition objects_put :: "string \<Rightarrow> stream \<Rightarrow> nat use_case" where
  "objects_put key data w =
     (case read_body data of
        Inl e \<Rightarrow> (Inl e, w)
      | Inr bs \<Rightarrow> (Inr (length bs),
          w\<lparr>w_objects := objects_store key \<lparr>so_bytes = bs, so_modified = Some (w_clock w)\<rparr> (w_objects w)\<rparr>))"

fun pieces :: "nat \<Rightarrow> bytes \<Rightarrow> bytes list" where
  "pieces n bs = (if n = 0 \<or> bs = [] then [] else take n bs # pieces n (drop n bs))"

declare pieces.simps [simp del]

text \<open>
  \<open>get(key, offset, length)\<close>. A \<open>length\<close> that is absent or zero means up to the end; without offset and
  length the whole object is asked for.
\<close>

definition objects_get :: "config \<Rightarrow> object_table \<Rightarrow> string \<Rightarrow> int \<Rightarrow> int option \<Rightarrow> stream" where
  "objects_get C objs key offset len =
     (case objects_lookup objs key of
        None \<Rightarrow> ([], Some NotFoundError)
      | Some so \<Rightarrow>
         (let wanted = (case len of None \<Rightarrow> 0 | Some n \<Rightarrow> n); bs = so_bytes so in
          if offset = 0 \<and> wanted = 0 then (pieces (cf_part_bytes C) bs, None)
          else if int (length bs) \<le> offset then ([], Some DependencyUnavailableError)
          else if wanted = 0 then (pieces (cf_part_bytes C) (drop (nat offset) bs), None)
          else (pieces (cf_part_bytes C) (take (nat wanted) (drop (nat offset) bs)), None)))"

definition objects_stat :: "object_table \<Rightarrow> string \<Rightarrow> nat option" where
  "objects_stat objs key = map_option (\<lambda>so. length (so_bytes so)) (objects_lookup objs key)"

definition objects_copy :: "string \<Rightarrow> string \<Rightarrow> nat use_case" where
  "objects_copy source_key target_key w =
     (case objects_lookup (w_objects w) source_key of
        None \<Rightarrow> (Inl NotFoundError, w)
      | Some so \<Rightarrow>
         (let objs = objects_store target_key \<lparr>so_bytes = so_bytes so, so_modified = Some (w_clock w)\<rparr> (w_objects w)
          in (Inr (case objects_stat objs target_key of None \<Rightarrow> 0 | Some n \<Rightarrow> n), w\<lparr>w_objects := objs\<rparr>)))"

definition list_keys :: "object_table \<Rightarrow> string \<Rightarrow> (string \<times> int \<times> datetime option) list" where
  "list_keys objs pre =
     map (\<lambda>(k, so). (k, int (length (so_bytes so)), so_modified so)) (filter (\<lambda>(k, _). prefix pre k) objs)"

section \<open>Lemmas\<close>

lemma lookup_store [simp]: "objects_lookup (objects_store key so objs) k = (if k = key then Some so else objects_lookup objs k)"
proof -
  have "find (\<lambda>(k', _). k' = k) (filter (\<lambda>(k', _). k' \<noteq> key) xs @ [(key, so)]) =
        (if k = key then Some (key, so) else find (\<lambda>(k', _). k' = k) xs)" for xs :: object_table
    by (induction xs) auto
  then show ?thesis by (simp add: objects_store_def objects_lookup_def)
qed

lemma lookup_filter: "objects_lookup (filter (\<lambda>(k, _). k \<noteq> key) objs) k = (if k = key then None else objects_lookup objs k)"
  by (induction objs) (auto simp: objects_lookup_def)

lemma concat_pieces: "0 < n \<Longrightarrow> concat (pieces n bs) = bs"
proof (induction n bs rule: pieces.induct)
  case (1 n bs)
  then show ?case by (subst pieces.simps) auto
qed

lemma pieces_nonempty: "c \<in> set (pieces n bs) \<Longrightarrow> c \<noteq> []"
proof (induction n bs rule: pieces.induct)
  case (1 n bs)
  then show ?case by (subst (asm) (2) pieces.simps) (auto split: if_splits)
qed

lemma read_body_full:
  assumes "[] \<notin> set (fst s)"
  shows "read_body s = (case snd s of None \<Rightarrow> Inr (concat (fst s)) | Some e \<Rightarrow> Inl e)"
proof -
  have t: "takeWhile (\<lambda>c. c \<noteq> []) (fst s) = fst s" using assms by (auto simp: takeWhile_eq_all_conv)
  show ?thesis unfolding read_body_def Let_def t by (simp split: option.splits)
qed

lemma copy_then_get:
  assumes "objects_copy src dst w = (Inr n, w')" and "0 < cf_part_bytes C"
  obtains bs where "map_option so_bytes (objects_lookup (w_objects w) src) = Some bs"
    and "concat (fst (objects_get C (w_objects w') dst 0 None)) = bs" and "snd (objects_get C (w_objects w') dst 0 None) = None"
  using assms by (auto simp: objects_copy_def objects_get_def concat_pieces Let_def split: option.splits)

end
