(* ===== verification/Encryption.thy ===== *)
theory Encryption
  imports NodeService Objects
begin

text \<open>
  Optional content encryption (\<open>application/encryption.py\<close>): whether a new file is encrypted, the data
  keys and who can obtain them, sealing and opening content, and the two rotations. \<open>E\<close> is what the
  service is constructed with.
\<close>

section \<open>Policy\<close>

fun nearest_default :: "node list \<Rightarrow> bool \<Rightarrow> bool" where
  "nearest_default [] default_on = default_on"
| "nearest_default (n # ns) default_on =
     (case nd_encryption_default n of ON \<Rightarrow> True | OFF \<Rightarrow> False | INHERIT \<Rightarrow> nearest_default ns default_on)"

definition resolve_encryption :: "node list \<Rightarrow> bool option \<Rightarrow> bool \<Rightarrow> bool" where
  "resolve_encryption ancestors requested default_on =
     (case requested of Some r \<Rightarrow> r | None \<Rightarrow> nearest_default (rev ancestors) default_on)"

definition should_encrypt :: "encryption_config \<Rightarrow> node \<Rightarrow> bool option \<Rightarrow> bool use_case" where
  "should_encrypt E parent requested =
     qdb (\<lambda>d. resolve_encryption (nodes_ancestors d (nd_id parent) ANCESTOR_GUARD_DEPTH @ [parent]) requested
                (ec_default_on E))"

section \<open>Keys\<close>

definition uuid_bytes :: "uuid \<Rightarrow> bytes" where
  "uuid_bytes u = big_endian 16 u"

definition user_kek :: "config \<Rightarrow> encryption_config \<Rightarrow> uuid \<Rightarrow> bytes use_case" where
  "user_kek C E uid =
     bind (qdb (\<lambda>d. get_user_key d uid)) (\<lambda>found.
     bind (expect found KeyUnavailableError) (\<lambda>stored.
     lift (unwrap_kek (cf_aead C) (ec_provider E) (uk_wrapped_kek stored) (uk_master_key_id stored))))"

text \<open>\<open>wrap_dek\<close> and \<open>wrap_kek\<close> draw their nonce once the key has passed its length check.\<close>

definition draw_wrap_dek :: "config \<Rightarrow> bytes \<Rightarrow> bytes \<Rightarrow> bytes use_case" where
  "draw_wrap_dek C dek kek =
     seq (guard (length dek = KEY_BYTES) KeyUnavailableError)
    (bind (urandom NONCE_BYTES) (\<lambda>nonce. lift (wrap_dek (cf_aead C) nonce dek kek)))"

definition draw_wrap_kek :: "config \<Rightarrow> encryption_config \<Rightarrow> bytes \<Rightarrow> bytes use_case" where
  "draw_wrap_kek C E kek =
     seq (guard (length kek = KEY_BYTES) KeyUnavailableError)
    (bind (urandom NONCE_BYTES) (\<lambda>nonce. lift (wrap_kek (cf_aead C) (ec_provider E) nonce kek)))"

definition store_data_key :: "config \<Rightarrow> uuid \<Rightarrow> string \<Rightarrow> bytes \<Rightarrow> bytes \<Rightarrow> datetime \<Rightarrow> unit use_case" where
  "store_data_key C nid subject dek kek now =
     bind uuid4 (\<lambda>kid.
     bind (draw_wrap_dek C dek kek) (\<lambda>wrapped.
     mdb (add_data_key \<lparr>dk_id = kid, dk_node_id = nid, dk_subject = subject, dk_wrapped_dek = wrapped,
                        dk_created_at = now\<rparr>)))"

definition create_data_key :: "config \<Rightarrow> encryption_config \<Rightarrow> node \<Rightarrow> string \<Rightarrow> datetime \<Rightarrow> bytes use_case" where
  "create_data_key C E n subject now =
     bind (user_kek C E (nd_owner_id n)) (\<lambda>kek.
     bind (urandom KEY_BYTES) (\<lambda>dek.
     seq (store_data_key C (nd_id n) subject dek kek now) (ret dek)))"

definition ensure_data_key :: "config \<Rightarrow> encryption_config \<Rightarrow> node \<Rightarrow> string \<Rightarrow> datetime \<Rightarrow> bytes use_case" where
  "ensure_data_key C E n subject now =
     bind (qdb (\<lambda>d. get_data_key d (nd_id n) subject)) (\<lambda>found.
     case found of
       None \<Rightarrow> create_data_key C E n subject now
     | Some wrapped \<Rightarrow>
         bind (user_kek C E (nd_owner_id n)) (\<lambda>kek. lift (unwrap_dek (cf_aead C) (dk_wrapped_dek wrapped) kek)))"

definition data_key_for :: "config \<Rightarrow> encryption_config \<Rightarrow> node \<Rightarrow> string \<Rightarrow> bytes use_case" where
  "data_key_for C E n subject =
     bind (qdb (\<lambda>d. get_data_key d (nd_id n) subject)) (\<lambda>found.
     bind (expect found KeyUnavailableError) (\<lambda>wrapped.
     bind (qdb (\<lambda>d. users_get_by_subject d subject)) (\<lambda>user.
     bind (expect user KeyUnavailableError) (\<lambda>u.
     bind (user_kek C E (us_id u)) (\<lambda>kek.
     lift (unwrap_dek (cf_aead C) (dk_wrapped_dek wrapped) kek))))))"

definition copy_data_key ::
  "config \<Rightarrow> encryption_config \<Rightarrow> node \<Rightarrow> node \<Rightarrow> string \<Rightarrow> datetime \<Rightarrow> unit use_case" where
  "copy_data_key C E source target subject now =
     bind (data_key_for C E source subject) (\<lambda>dek.
     bind (user_kek C E (nd_owner_id target)) (\<lambda>kek.
     store_data_key C (nd_id target) subject dek kek now))"

definition rewrap_for :: "config \<Rightarrow> encryption_config \<Rightarrow> node \<Rightarrow> string \<Rightarrow> datetime \<Rightarrow> unit use_case" where
  "rewrap_for C E n subject now =
     (if \<not> nd_encrypted n then ret ()
      else bind (qdb (\<lambda>d. get_data_key d (nd_id n) subject)) (\<lambda>present.
        if present \<noteq> None then ret ()
        else
          bind (qdb (\<lambda>d. users_get d (nd_owner_id n))) (\<lambda>owner.
          bind (expect owner KeyUnavailableError) (\<lambda>ow.
          bind (data_key_for C E n (us_subject ow)) (\<lambda>dek.
          bind (qdb (\<lambda>d. users_get_by_subject d subject)) (\<lambda>recipient.
          bind (expect recipient KeyUnavailableError) (\<lambda>r.
          bind uuid4 (\<lambda>kid.
          bind (user_kek C E (us_id r)) (\<lambda>kek.
          bind (draw_wrap_dek C dek kek) (\<lambda>wrapped.
          mdb (add_data_key \<lparr>dk_id = kid, dk_node_id = nd_id n, dk_subject = subject,
                             dk_wrapped_dek = wrapped, dk_created_at = now\<rparr>)))))))))))"

definition revoke_for :: "node \<Rightarrow> string \<Rightarrow> unit use_case" where
  "revoke_for n subject = mdb (delete_data_key (nd_id n) subject)"

section \<open>Content\<close>

text \<open>
  \<open>seal\<close> draws one nonce per sealed frame while the object is being written; nothing else draws from
  the source in between. The first chunk of the result is the header.
\<close>

definition frame_nonces :: "world \<Rightarrow> nat \<Rightarrow> bytes" where
  "frame_nonces w i = map (\<lambda>j. w_entropy w (w_spent w + NONCE_BYTES * i + j)) [0..<NONCE_BYTES]"

definition encryption_seal :: "config \<Rightarrow> encryption_config \<Rightarrow> stream \<Rightarrow> bytes \<Rightarrow> uuid \<Rightarrow> stream use_case" where
  "encryption_seal C E plaintext dek vid w =
     (let s = cipher_seal (cf_aead C) (ec_frame_bytes E) (frame_nonces w) plaintext dek (uuid_bytes vid)
      in (Inr s, w\<lparr>w_spent := w_spent w + NONCE_BYTES * (length (fst s) - 1)\<rparr>))"

definition encryption_open :: "config \<Rightarrow> encryption_config \<Rightarrow> stream \<Rightarrow> bytes \<Rightarrow> uuid \<Rightarrow> frame_span option \<Rightarrow> stream" where
  "encryption_open C E ciphertext dek vid span =
     cipher_open (cf_aead C) (ec_frame_bytes E) ciphertext dek (uuid_bytes vid) span"

definition plan_range :: "encryption_config \<Rightarrow> int \<Rightarrow> int \<Rightarrow> int \<Rightarrow> error + frame_span" where
  "plan_range E start len plaintext_bytes = frames_for_range start len (int (ec_frame_bytes E)) plaintext_bytes"

definition verify_master_key :: "config \<Rightarrow> encryption_config \<Rightarrow> bool use_case" where
  "verify_master_key C E =
     bind (qdb (\<lambda>d. users_list_all d 1 None)) (\<lambda>r.
     bind (lift r) (\<lambda>page.
     case pg_items page of
       [] \<Rightarrow> ret True
     | u # _ \<Rightarrow>
        bind (qdb (\<lambda>d. get_user_key d (us_id u))) (\<lambda>stored.
        case stored of
          None \<Rightarrow> ret True
        | Some k \<Rightarrow>
           (case unwrap_kek (cf_aead C) (ec_provider E) (uk_wrapped_kek k) (uk_master_key_id k) of
              Inr _ \<Rightarrow> ret True
            | Inl e \<Rightarrow> if e = KeyUnavailableError then ret False else raise e))))"

section \<open>Rotation\<close>

record rotation_result =
  rr_scanned :: nat
  rr_rewrapped :: nat

definition all_stale_user_keys :: "db \<Rightarrow> string \<Rightarrow> nat \<Rightarrow> error + user_key list" where
  "all_stale_user_keys d current batch =
     (case users_list_all d batch None of
        Inl e \<Rightarrow> Inl e
      | Inr page \<Rightarrow>
          Inr (filter (\<lambda>k. uk_master_key_id k \<noteq> current)
                 (List.map_filter (\<lambda>u. get_user_key d (us_id u)) (pg_items page))))"

definition rewrap_user_key :: "config \<Rightarrow> encryption_config \<Rightarrow> datetime \<Rightarrow> user_key \<Rightarrow> unit use_case" where
  "rewrap_user_key C E now stored =
     bind (lift (unwrap_kek (cf_aead C) (ec_provider E) (uk_wrapped_kek stored) (uk_master_key_id stored))) (\<lambda>kek.
     bind (draw_wrap_kek C E kek) (\<lambda>wrapped.
     mdb (update_user_key (rewrapped stored wrapped (kp_current_id (ec_provider E)) now))))"

text \<open>A record of a system action names no actor.\<close>

definition system_audit :: "audit_action \<Rightarrow> datetime \<Rightarrow> string option \<Rightarrow> (string \<times> context_value) list \<Rightarrow> audit_record" where
  "system_audit action occurred_at target ctx = (audit_of action occurred_at [] target ctx)\<lparr>ar_actor_subject := None\<rparr>"

definition rotate_master_key :: "config \<Rightarrow> encryption_config \<Rightarrow> nat \<Rightarrow> datetime option \<Rightarrow> rotation_result use_case" where
  "rotate_master_key C E batch now =
     bind (moment_of now) (\<lambda>t.
     let current = kp_current_id (ec_provider E) in
     bind (qdb (\<lambda>d. all_stale_user_keys d current batch)) (\<lambda>r.
     bind (lift r) (\<lambda>stale.
     seq (for_each stale (rewrap_user_key C E t))
    (seq (if stale = [] then ret ()
          else emit_audit (system_audit KEY_ROTATED t None
                 [(''master_key_id'', CStr current), (''keys_rewrapped'', CInt (int (length stale)))]))
    (seq (flush C)
         (ret \<lparr>rr_scanned = length stale, rr_rewrapped = length stale\<rparr>))))))"

definition encrypted_nodes_for :: "db \<Rightarrow> uuid \<Rightarrow> node list" where
  "encrypted_nodes_for d uid =
     (case users_get d uid of
        None \<Rightarrow> []
      | Some u \<Rightarrow> filter nd_encrypted (nodes_descendants d (us_root_folder_id u) ANCESTOR_GUARD_DEPTH True))"

fun rewrap_data_keys ::
  "config \<Rightarrow> string \<Rightarrow> bytes \<Rightarrow> bytes \<Rightarrow> datetime \<Rightarrow> node list \<Rightarrow> nat \<Rightarrow> nat use_case" where
  "rewrap_data_keys C subject old_kek new_kek now [] count = ret count"
| "rewrap_data_keys C subject old_kek new_kek now (n # ns) count =
     bind (qdb (\<lambda>d. get_data_key d (nd_id n) subject)) (\<lambda>found.
     case found of
       None \<Rightarrow> rewrap_data_keys C subject old_kek new_kek now ns count
     | Some wrapped \<Rightarrow>
         bind (lift (unwrap_dek (cf_aead C) (dk_wrapped_dek wrapped) old_kek)) (\<lambda>dek.
         seq (mdb (delete_data_key (nd_id n) subject))
        (seq (store_data_key C (nd_id n) subject dek new_kek now)
             (rewrap_data_keys C subject old_kek new_kek now ns (count + 1)))))"

definition rotate_user_key :: "config \<Rightarrow> encryption_config \<Rightarrow> uuid \<Rightarrow> datetime option \<Rightarrow> rotation_result use_case" where
  "rotate_user_key C E uid now =
     bind (moment_of now) (\<lambda>t.
     bind (qdb (\<lambda>d. get_user_key d uid)) (\<lambda>found.
     bind (expect found NotFoundError) (\<lambda>stored.
     bind (qdb (\<lambda>d. users_get d uid)) (\<lambda>user.
     bind (expect user NotFoundError) (\<lambda>u.
     bind (lift (unwrap_kek (cf_aead C) (ec_provider E) (uk_wrapped_kek stored) (uk_master_key_id stored))) (\<lambda>old_kek.
     bind (urandom KEY_BYTES) (\<lambda>new_kek.
     bind (qdb (\<lambda>d. encrypted_nodes_for d uid)) (\<lambda>nodes.
     bind (rewrap_data_keys C (us_subject u) old_kek new_kek t nodes 0) (\<lambda>count.
     bind (draw_wrap_kek C E new_kek) (\<lambda>wrapped.
     seq (mdb (update_user_key (rewrapped stored wrapped (kp_current_id (ec_provider E)) t)))
    (seq (emit_audit (audit_of KEY_ROTATED t (us_subject u) (Some (uuid_str uid)) [(''data_keys_rewrapped'', CInt (int count))]))
    (seq (flush C)
         (ret \<lparr>rr_scanned = count, rr_rewrapped = count\<rparr>)))))))))))))"

end
