(* ===== verification/Content.thy ===== *)
theory Content
  imports Encryption
begin

text \<open>
  File content (\<open>application/content.py\<close>): upload, replacement, conversion, download, versions and the
  duplication a copy performs. Metrics and log lines are left out.
\<close>

definition DEFAULT_CONTENT_TYPE :: string where "DEFAULT_CONTENT_TYPE = ''application/octet-stream''"

section \<open>Ranges\<close>

record byte_range =
  br_start :: int
  br_length :: int

definition br_end :: "byte_range \<Rightarrow> int" where
  "br_end r = br_start r + br_length r - 1"

text \<open>
  \<open>int\<close> refuses the superscripts that \<open>str.isdigit\<close> admits with a \<open>ValueError\<close>, as it does more than 4300
  digits; \<open>str.lower\<close> on U+0000 to U+00FF.
\<close>

definition py_int :: "string \<Rightarrow> error + int" where
  "py_int s = (if isdigit s \<and> length s \<le> 4300 then Inr (int (read_nat s)) else Inl CyberFSError)"

definition lower_char :: "char \<Rightarrow> char" where
  "lower_char c =
     (let n = of_char c :: nat in
      if (65 \<le> n \<and> n \<le> 90) \<or> (192 \<le> n \<and> n \<le> 222 \<and> n \<noteq> 215) then char_of (n + 32) else c)"

definition parse_range :: "string option \<Rightarrow> int \<Rightarrow> error + byte_range option" where
  "parse_range header sz =
     (case header of
        None \<Rightarrow> Inr None
      | Some h \<Rightarrow>
         if h = [] \<or> sz \<le> 0 then Inr None
         else
          (case partition_at (CHR ''='') h of (unit_name, _, spec) \<Rightarrow>
            if map lower_char (strip unit_name) \<noteq> ''bytes'' \<or> CHR '','' \<in> set spec then Inr None
            else
             (case partition_at (CHR ''-'') spec of (a, _, b) \<Rightarrow>
               (let first = strip a; last = strip b in
                if first = [] \<and> py_isdigit last then
                  (case py_int last of
                     Inl e \<Rightarrow> Inl e
                   | Inr n \<Rightarrow>
                      (let len = min n sz in
                       Inr (if len \<noteq> 0 then Some \<lparr>br_start = sz - len, br_length = len\<rparr> else None)))
                else if \<not> py_isdigit first then Inr None
                else
                  (case py_int first of
                     Inl e \<Rightarrow> Inl e
                   | Inr start \<Rightarrow>
                      if start \<ge> sz then Inr None
                      else
                       (case (if py_isdigit last then py_int last else Inr (sz - 1)) of
                          Inl e \<Rightarrow> Inl e
                        | Inr l \<Rightarrow>
                           (let stop = min l (sz - 1) in
                            Inr (if stop < start then None
                                 else Some \<lparr>br_start = start, br_length = stop - start + 1\<rparr>))))))))"

section \<open>Helpers\<close>

definition require_node :: "uuid \<Rightarrow> node use_case" where
  "require_node nid =
     bind (qdb (\<lambda>d. nodes_get d nid)) (\<lambda>found.
     bind (expect found NotFoundError) (\<lambda>n.
     seq (guard (\<not> is_deleted n) NotFoundError) (ret n)))"

definition require :: "user \<Rightarrow> node \<Rightarrow> role \<Rightarrow> role use_case" where
  "require u n minimum =
     bind (qdb (\<lambda>d. compute_role d (us_subject u) (us_id u) n)) (\<lambda>r.
     authorize_or_record (us_subject u) (nd_id n) r minimum None)"

definition resolve_version :: "node \<Rightarrow> uuid option \<Rightarrow> file_version use_case" where
  "resolve_version n vid =
     bind (expect (case vid of Some v \<Rightarrow> Some v | None \<Rightarrow> nd_current_version_id n) NotFoundError) (\<lambda>wanted.
     bind (qdb (\<lambda>d. versions_get d wanted)) (\<lambda>found.
     bind (expect found NotFoundError) (\<lambda>v.
     seq (guard (fv_node_id v = nd_id n) NotFoundError) (ret v))))"

text \<open>\<open>_audit\<close> sets the byte count in the owner's context, and \<open>_audit_download\<close> puts it first.\<close>

definition audit_content :: "user \<Rightarrow> node \<Rightarrow> audit_action \<Rightarrow> datetime \<Rightarrow> int option \<Rightarrow> unit use_case" where
  "audit_content u n action when byte_count =
     emit_audit (audit_of action when (us_subject u) (Some (uuid_str (nd_id n)))
       (owner_context n (us_id u) @ (case byte_count of None \<Rightarrow> [] | Some b \<Rightarrow> [(''bytes'', CInt b)])))"

definition audit_download :: "user \<Rightarrow> node \<Rightarrow> int \<Rightarrow> datetime \<Rightarrow> uuid option \<Rightarrow> unit use_case" where
  "audit_download u n served when link_id =
     emit_audit (case link_id of
       Some l \<Rightarrow> system_audit FILE_DOWNLOADED when (Some (uuid_str (nd_id n)))
                   [(''bytes'', CInt served), (''link_id'', CStr (uuid_str l))]
     | None \<Rightarrow> audit_of FILE_DOWNLOADED when (us_subject u) (Some (uuid_str (nd_id n)))
                   ((''bytes'', CInt served) # owner_context n (us_id u)))"

text \<open>\<open>x or default\<close> on an optional string: the empty string counts as absent.\<close>

definition content_type_or_default :: "string option \<Rightarrow> string" where
  "content_type_or_default ct =
     (case ct of None \<Rightarrow> DEFAULT_CONTENT_TYPE | Some s \<Rightarrow> if s = [] then DEFAULT_CONTENT_TYPE else s)"

section \<open>Upload\<close>

text \<open>\<open>_measure\<close>: the body with the size limit enforced mid-stream.\<close>

fun measure_body :: "int \<Rightarrow> int \<Rightarrow> bytes list \<Rightarrow> error option \<Rightarrow> stream" where
  "measure_body limit tally [] ending = ([], ending)"
| "measure_body limit tally (c # cs) ending =
     (let tally = tally + int (length c) in
      if tally > limit then ([], Some PayloadTooLargeError)
      else prepend [c] (measure_body limit tally cs ending))"

text \<open>
  What passes through \<open>_measure\<close>, and is counted and hashed there: the object store pulls a plain body up
  to its first empty chunk; sealing pulls all of it.
\<close>

definition seen_plaintext :: "bool \<Rightarrow> stream \<Rightarrow> bytes" where
  "seen_plaintext encrypted counted =
     concat (if encrypted then fst counted else takeWhile (\<lambda>c. c \<noteq> []) (fst counted))"

definition check_admission :: "config \<Rightarrow> node \<Rightarrow> int option \<Rightarrow> unit use_case" where
  "check_admission C n declared =
     (case declared of
        None \<Rightarrow> ret ()
      | Some len \<Rightarrow>
          seq (guard (\<not> len > cf_max_upload_bytes C) PayloadTooLargeError)
         (bind (qdb (\<lambda>d. quotas_get d (nd_owner_id n))) (\<lambda>usage.
          bind (qdb (\<lambda>d. users_get d (nd_owner_id n))) (\<lambda>owner.
          case (usage, owner) of
            (Some q, Some ow) \<Rightarrow>
              if would_exceed q (us_quota_bytes ow) len then lift (ensure_room_for q (us_quota_bytes ow) len)
              else ret ()
          | _ \<Rightarrow> ret ()))))"

definition charge :: "node \<Rightarrow> int \<Rightarrow> datetime \<Rightarrow> unit use_case" where
  "charge n stored now =
     bind (qdb (\<lambda>d. quotas_get d (nd_owner_id n))) (\<lambda>usage.
     bind (qdb (\<lambda>d. users_get d (nd_owner_id n))) (\<lambda>owner.
     case (usage, owner) of
       (Some q0, Some ow) \<Rightarrow>
         (let q = (if nd_current_version_id n \<noteq> None
                   then charge_versions (nd_size_bytes n) now (charge_live (- nd_size_bytes n) now q0)
                   else q0)
          in seq (if would_exceed q (us_quota_bytes ow) stored then lift (ensure_room_for q (us_quota_bytes ow) stored)
                  else ret ())
                 (mdb (quotas_update (charge_live stored now q))))
     | _ \<Rightarrow> ret ()))"

definition prune_versions :: "config \<Rightarrow> node \<Rightarrow> datetime \<Rightarrow> unit use_case" where
  "prune_versions C n now =
     bind (stepdb (prune_beyond (nd_id n) (cf_version_retention C))) (\<lambda>doomed.
     if doomed = [] then ret ()
     else
       bind (qdb (\<lambda>d. quotas_get d (nd_owner_id n))) (\<lambda>usage.
       seq (for_each doomed (\<lambda>v. objects_delete (object_key v)))
      (seq (case usage of
              None \<Rightarrow> ret ()
            | Some q \<Rightarrow> mdb (quotas_update (fold (\<lambda>v. charge_versions (- fv_size_bytes v) now) doomed q)))
           (flush C))))"

definition seal_if_needed :: "config \<Rightarrow> node \<Rightarrow> stream \<Rightarrow> uuid \<Rightarrow> datetime \<Rightarrow> stream use_case" where
  "seal_if_needed C n plaintext vid now =
     (if \<not> nd_encrypted n then ret plaintext
      else
        bind (expect (cf_encryption C) KeyUnavailableError) (\<lambda>E.
        bind (qdb (\<lambda>d. users_get d (nd_owner_id n))) (\<lambda>owner.
        bind (expect owner KeyUnavailableError) (\<lambda>ow.
        bind (ensure_data_key C E n (us_subject ow) now) (\<lambda>dek.
        encryption_seal C E plaintext dek vid)))))"

definition new_version ::
  "uuid \<Rightarrow> node \<Rightarrow> int \<Rightarrow> int \<Rightarrow> string \<Rightarrow> string \<Rightarrow> bool \<Rightarrow> datetime \<Rightarrow> string \<Rightarrow> uuid \<Rightarrow> file_version" where
  "new_version vid n sq sz dig ct enc now by_subject seal_id =
     \<lparr>fv_id = vid, fv_node_id = nd_id n, fv_owner_id = nd_owner_id n, fv_sequence = sq, fv_size_bytes = sz,
      fv_plaintext_digest = dig, fv_content_type = ct, fv_encrypted = enc, fv_created_at = now,
      fv_created_by = by_subject, fv_seal_version_id = seal_id\<rparr>"

definition with_content :: "file_version \<Rightarrow> datetime \<Rightarrow> node \<Rightarrow> node" where
  "with_content v now n =
     touch now (n\<lparr>nd_current_version_id := Some (fv_id v), nd_size_bytes := fv_size_bytes v,
                  nd_content_type := Some (fv_content_type v)\<rparr>)"

definition store_version ::
  "config \<Rightarrow> user \<Rightarrow> node \<Rightarrow> stream \<Rightarrow> string option \<Rightarrow> int option \<Rightarrow> datetime \<Rightarrow> node use_case" where
  "store_version C u n body content_type declared now =
     seq (check_admission C n declared)
    (bind uuid4 (\<lambda>vid.
     let key = key_of (nd_owner_id n) (nd_id n) vid;
         counted = measure_body (cf_max_upload_bytes C) 0 (fst body) (snd body);
         seen = seen_plaintext (nd_encrypted n) counted;
         stored = int (length seen) in
     bind (seal_if_needed C n counted vid now) (\<lambda>payload.
     seq (objects_put key payload)
    (seq (if declared \<noteq> None \<and> declared \<noteq> Some stored then seq (objects_delete key) (raise ValidationError)
          else ret ())
    (seq (charge n stored now)
    (bind (qdb (\<lambda>d. next_sequence d (nd_id n))) (\<lambda>sq.
     let v = new_version vid n sq stored (cf_sha256 C seen) (content_type_or_default content_type) (nd_encrypted n)
               now (us_subject u) vid;
         n' = with_content v now n in
     seq (mdb (versions_add v))
    (seq (mdb (nodes_update n'))
    (seq (flush C)
    (seq (prune_versions C n' now) (ret n')))))))))))"

definition resolve_encryption_for :: "config \<Rightarrow> node \<Rightarrow> bool option \<Rightarrow> user \<Rightarrow> datetime \<Rightarrow> bool use_case" where
  "resolve_encryption_for C parent requested u now =
     (case cf_encryption C of
        None \<Rightarrow> ret False
      | Some E \<Rightarrow>
          bind (should_encrypt E parent requested) (\<lambda>decided.
          bind (should_encrypt E parent None) (\<lambda>inherited.
          seq (if requested \<noteq> None \<and> decided \<noteq> inherited
               then emit_audit (audit_of ENCRYPTION_OVERRIDDEN now (us_subject u) (Some (uuid_str (nd_id parent)))
                      [(''requested'', CBool decided), (''inherited'', CBool inherited)])
               else ret ())
              (ret decided))))"

definition new_file :: "config \<Rightarrow> node \<Rightarrow> string \<Rightarrow> datetime \<Rightarrow> bool \<Rightarrow> node use_case" where
  "new_file C parent name now encrypted =
     bind uuid4 (\<lambda>nid.
     bind (lift (validate_name name)) (\<lambda>nm.
     bind (lift (post_init \<lparr>nd_id = nid, nd_owner_id = nd_owner_id parent, nd_kind = FILE, nd_name = nm,
        nd_parent_id = Some (nd_id parent), nd_created_at = now, nd_updated_at = now, nd_revision = 0,
        nd_deleted_at = None, nd_current_version_id = None, nd_size_bytes = 0, nd_content_type = None,
        nd_encrypted = encrypted, nd_encryption_default = INHERIT\<rparr>)) (\<lambda>n.
     seq (mdb (nodes_add n)) (seq (flush C) (ret n)))))"

definition upload ::
  "config \<Rightarrow> user \<Rightarrow> uuid \<Rightarrow> string \<Rightarrow> stream \<Rightarrow> string option \<Rightarrow> int option \<Rightarrow> bool option \<Rightarrow> datetime option
     \<Rightarrow> node use_case" where
  "upload C u parent_id name body content_type declared encrypted now =
     bind (moment_of now) (\<lambda>t.
     bind (require_node parent_id) (\<lambda>parent.
     seq (guard (is_folder parent) ValidationError)
    (seq (require u parent EDITOR)
    (bind (qdb (\<lambda>d. get_child_by_name (cf_text C) d (nd_id parent) (normalize_name (cf_text C) name))) (\<lambda>existing.
     seq (guard (case existing of None \<Rightarrow> True | Some e \<Rightarrow> is_file e) ValidationError)
    (bind (case existing of
             Some e \<Rightarrow> ret e
           | None \<Rightarrow> bind (resolve_encryption_for C parent encrypted u t) (\<lambda>wants. new_file C parent name t wants)) (\<lambda>n.
     bind (store_version C u n body content_type declared t) (\<lambda>stored.
     seq (audit_content u stored FILE_UPLOADED t (Some (nd_size_bytes stored)))
         (ret stored)))))))))"

definition replace ::
  "config \<Rightarrow> user \<Rightarrow> uuid \<Rightarrow> stream \<Rightarrow> string option \<Rightarrow> int option \<Rightarrow> datetime option \<Rightarrow> node use_case" where
  "replace C u nid body content_type declared now =
     bind (moment_of now) (\<lambda>t.
     bind (require_node nid) (\<lambda>n.
     seq (guard (is_file n) ValidationError)
    (seq (require u n EDITOR)
    (bind (store_version C u n body content_type declared t) (\<lambda>stored.
     seq (audit_content u stored FILE_UPLOADED t (Some (nd_size_bytes stored)))
         (ret stored))))))"

section \<open>Download\<close>

record download_plan =
  dp_node :: node
  dp_version :: file_version
  dp_stream :: stream
  dp_total_bytes :: int
  dp_served_bytes :: int
  dp_content_range :: "byte_range option"

definition open_encrypted :: "config \<Rightarrow> node \<Rightarrow> file_version \<Rightarrow> user \<Rightarrow> byte_range option \<Rightarrow> stream use_case" where
  "open_encrypted C n v u wanted =
     bind (expect (cf_encryption C) KeyUnavailableError) (\<lambda>E.
     bind (data_key_for C E n (us_subject u)) (\<lambda>dek.
     case wanted of
       None \<Rightarrow>
         bind (query (\<lambda>w. objects_get C (w_objects w) (object_key v) 0 None)) (\<lambda>s.
         ret (encryption_open C E s dek (fv_seal_version_id v) None))
     | Some r \<Rightarrow>
         bind (lift (plan_range E (br_start r) (br_length r) (fv_size_bytes v))) (\<lambda>span.
         case ciphertext_range span (int (ec_frame_bytes E)) of (offset, len) \<Rightarrow>
         bind (query (\<lambda>w. objects_get C (w_objects w) (object_key v) offset (Some len))) (\<lambda>s.
         ret (encryption_open C E s dek (fv_seal_version_id v) (Some span))))))"

text \<open>\<open>_verify\<close>: a whole plain object is hashed as it is read and compared at the end.\<close>

definition verify_stream :: "config \<Rightarrow> file_version \<Rightarrow> stream \<Rightarrow> stream" where
  "verify_stream C v s =
     (fst s, case snd s of
               Some e \<Rightarrow> Some e
             | None \<Rightarrow> if cf_sha256 C (concat (fst s)) = fv_plaintext_digest v then None else Some IntegrityFailureError)"

definition open_plain :: "config \<Rightarrow> file_version \<Rightarrow> byte_range option \<Rightarrow> stream use_case" where
  "open_plain C v wanted =
     (case wanted of
        None \<Rightarrow> bind (query (\<lambda>w. objects_get C (w_objects w) (object_key v) 0 None)) (\<lambda>s. ret (verify_stream C v s))
      | Some r \<Rightarrow> query (\<lambda>w. objects_get C (w_objects w) (object_key v) (br_start r) (Some (br_length r))))"

definition download ::
  "config \<Rightarrow> user \<Rightarrow> uuid \<Rightarrow> string option \<Rightarrow> uuid option \<Rightarrow> bool \<Rightarrow> uuid option \<Rightarrow> datetime option
     \<Rightarrow> download_plan use_case" where
  "download C u nid range_header vid record_audit link_id now =
     bind (moment_of now) (\<lambda>t.
     bind (require_node nid) (\<lambda>n.
     seq (guard (is_file n) ValidationError)
    (seq (require u n VIEWER)
    (bind (resolve_version n vid) (\<lambda>v.
     bind (lift (parse_range range_header (fv_size_bytes v))) (\<lambda>wanted.
     let served = (case wanted of None \<Rightarrow> fv_size_bytes v | Some r \<Rightarrow> br_length r) in
     bind (if fv_encrypted v then open_encrypted C n v u wanted else open_plain C v wanted) (\<lambda>guarded.
     seq (if record_audit then audit_download u n served t link_id else ret ())
         (ret \<lparr>dp_node = n, dp_version = v, dp_stream = guarded, dp_total_bytes = fv_size_bytes v,
               dp_served_bytes = served, dp_content_range = wanted\<rparr>))))))))"

section \<open>Conversion and versions\<close>

definition set_encryption :: "config \<Rightarrow> user \<Rightarrow> uuid \<Rightarrow> bool \<Rightarrow> datetime option \<Rightarrow> node use_case" where
  "set_encryption C u nid encrypted now =
     bind (moment_of now) (\<lambda>t.
     bind (require_node nid) (\<lambda>n.
     seq (guard (is_file n) ValidationError)
    (seq (require u n OWNER)
         (if nd_encrypted n = encrypted then ret n
          else
            bind (download C u nid None None False None None) (\<lambda>plan.
            bind (store_version C u (n\<lparr>nd_encrypted := encrypted\<rparr>) (dp_stream plan) (nd_content_type n) None t) (\<lambda>stored.
            seq (if encrypted then ret () else mdb (delete_data_keys_for_node (nd_id n)))
           (seq (emit_audit (audit_of (if encrypted then ENCRYPTION_ENABLED else ENCRYPTION_DISABLED) t (us_subject u)
                   (Some (uuid_str (nd_id n))) []))
                (ret stored))))))))"

definition list_versions :: "user \<Rightarrow> uuid \<Rightarrow> file_version list use_case" where
  "list_versions u nid =
     bind (require_node nid) (\<lambda>n.
     seq (require u n VIEWER) (qdb (\<lambda>d. versions_list_for_node d (nd_id n))))"

definition restore_version :: "config \<Rightarrow> user \<Rightarrow> uuid \<Rightarrow> uuid \<Rightarrow> datetime option \<Rightarrow> node use_case" where
  "restore_version C u nid vid now =
     bind (moment_of now) (\<lambda>t.
     bind (require_node nid) (\<lambda>n.
     seq (require u n EDITOR)
    (bind (resolve_version n (Some vid)) (\<lambda>source.
     bind uuid4 (\<lambda>target_id.
     seq (objects_copy (object_key source) (key_of (nd_owner_id n) (nd_id n) target_id))
    (seq (charge n (fv_size_bytes source) t)
    (bind (qdb (\<lambda>d. next_sequence d (nd_id n))) (\<lambda>sq.
     let v = new_version target_id n sq (fv_size_bytes source) (fv_plaintext_digest source) (fv_content_type source)
               (fv_encrypted source) t (us_subject u) (fv_seal_version_id source);
         n' = with_content v t n in
     seq (mdb (versions_add v))
    (seq (mdb (nodes_update n'))
    (seq (flush C)
    (seq (prune_versions C n' t)
    (seq (audit_content u n' VERSION_RESTORED t None)
         (ret n')))))))))))))"

text \<open>
  \<open>duplicate\<close> returns the bytes copied together with the target as it leaves it; the copy use case writes
  the target back.
\<close>

definition duplicate :: "config \<Rightarrow> node \<Rightarrow> node \<Rightarrow> datetime \<Rightarrow> (int \<times> node) use_case" where
  "duplicate C source target now =
     bind (qdb (\<lambda>d. case nd_current_version_id source of None \<Rightarrow> None | Some vid \<Rightarrow> versions_get d vid)) (\<lambda>found.
     case found of
       None \<Rightarrow> ret (0, target)
     | Some orig \<Rightarrow>
        bind uuid4 (\<lambda>vid.
        bind (objects_copy (object_key orig) (key_of (nd_owner_id target) (nd_id target) vid)) (\<lambda>copied.
        seq (mdb (versions_add (new_version vid target 1 (fv_size_bytes orig) (fv_plaintext_digest orig)
               (fv_content_type orig) (fv_encrypted orig) now (uuid_hex (nd_owner_id target)) (fv_seal_version_id orig))))
       (seq (case (if fv_encrypted orig then cf_encryption C else None) of
               None \<Rightarrow> ret ()
             | Some E \<Rightarrow>
                bind (qdb (\<lambda>d. users_get d (nd_owner_id target))) (\<lambda>owner.
                bind (expect owner KeyUnavailableError) (\<lambda>ow.
                copy_data_key C E source target (us_subject ow) now)))
       (seq (flush C)
            (ret (if copied = 0 then fv_size_bytes orig else int copied,
                  target\<lparr>nd_current_version_id := Some vid, nd_content_type := Some (fv_content_type orig)\<rparr>)))))))"

end
