(* ===== verification/ContentFacts.thy ===== *)
theory ContentFacts
  imports Content NodeInvariants
begin

text \<open>
  What a use case of the content service that returned has checked and written. \<open>keeps_tables\<close> collects
  the steps that leave users, nodes and versions as they are; the others are followed one by one.
\<close>

definition keeps_tables :: "'a use_case \<Rightarrow> bool" where
  "keeps_tables m \<longleftrightarrow> (\<forall>w r w'. m w = (r, w') \<longrightarrow>
     w_uuids w' = w_uuids w \<and> w_drawn w \<le> w_drawn w' \<and> w_clock w' = w_clock w \<and>
     db_users (w_db w') = db_users (w_db w) \<and> db_nodes (w_db w') = db_nodes (w_db w) \<and>
     db_versions (w_db w') = db_versions (w_db w))"

lemma keeps_tablesD:
  "keeps_tables m \<Longrightarrow> m w = (r, w') \<Longrightarrow>
     w_uuids w' = w_uuids w \<and> w_drawn w \<le> w_drawn w' \<and> w_clock w' = w_clock w \<and>
     db_users (w_db w') = db_users (w_db w) \<and> db_nodes (w_db w') = db_nodes (w_db w) \<and>
     db_versions (w_db w') = db_versions (w_db w)"
  by (simp add: keeps_tables_def)

lemma keeps_tables_bind [intro!]: "keeps_tables m \<Longrightarrow> (\<And>x. keeps_tables (f x)) \<Longrightarrow> keeps_tables (bind m f)"
  unfolding keeps_tables_def bind_def by (fastforce split: prod.splits sum.splits)

lemma keeps_tables_seq [intro!]: "keeps_tables m \<Longrightarrow> keeps_tables n \<Longrightarrow> keeps_tables (seq m n)"
  unfolding seq_def by blast

lemma keeps_tables_basic [intro!]:
  "keeps_tables (ret x)" "keeps_tables (raise e)" "keeps_tables (query f)" "keeps_tables (lift r)" "keeps_tables (guard b e)"
  "keeps_tables (expect v e)" "keeps_tables (qdb g)" "keeps_tables uuid4" "keeps_tables (moment_of now)"
  "keeps_tables (emit_audit a)" "keeps_tables (objects_delete key)" "keeps_tables (urandom k)" "keeps_tables (objects_put key s)"
  "keeps_tables (objects_copy key key')"
  by (auto simp: keeps_tables_def guard_run expect_run uuid4_def moment_of_def urandom_def objects_put_def objects_copy_def
      emit_audit_def audit_add_def objects_delete_def Let_def split: prod.splits option.splits if_splits sum.splits)

lemma keeps_tables_mdb [intro]:
  "(\<And>d. db_users (f d) = db_users d \<and> db_nodes (f d) = db_nodes d \<and> db_versions (f d) = db_versions d) \<Longrightarrow> keeps_tables (mdb f)"
  by (auto simp: keeps_tables_def)

lemma keeps_tables_cases [intro!]:
  "(\<And>a b. keeps_tables (g a b)) \<Longrightarrow> keeps_tables (case p of (a, b) \<Rightarrow> g a b)"
  "keeps_tables m \<Longrightarrow> (\<And>x. keeps_tables (f x)) \<Longrightarrow> keeps_tables (case v of None \<Rightarrow> m | Some x \<Rightarrow> f x)"
  "keeps_tables m \<Longrightarrow> keeps_tables n \<Longrightarrow> keeps_tables (if b then m else n)"
  by (auto split: prod.splits option.splits)

lemma keeps_tables_for_each [intro!]: "(\<And>x. keeps_tables (f x)) \<Longrightarrow> keeps_tables (for_each xs f)"
  by (induction xs) auto

lemma table_frames [simp]:
  "db_users (add_data_key k d) = db_users d" "db_nodes (add_data_key k d) = db_nodes d" "db_versions (add_data_key k d) = db_versions d"
  "db_users (quotas_update q d) = db_users d" "db_nodes (quotas_update q d) = db_nodes d" "db_versions (quotas_update q d) = db_versions d"
  "db_users (delete_data_keys_for_node i d) = db_users d" "db_nodes (delete_data_keys_for_node i d) = db_nodes d"
  "db_versions (delete_data_keys_for_node i d) = db_versions d"
  "db_users (versions_add v d) = db_users d" "db_nodes (versions_add v d) = db_nodes d" "db_versions (versions_add v d) = db_versions d @ [v]"
  by (simp_all add: add_data_key_def quotas_update_def delete_data_keys_for_node_def versions_add_def)

lemma keeps_tables_keys [intro!]:
  "keeps_tables (user_kek C E uid)" "keeps_tables (draw_wrap_dek C dek kek)" "keeps_tables (store_data_key C i s dek kek now)"
  "keeps_tables (encryption_seal C E pt dek vid)"
  unfolding user_kek_def draw_wrap_dek_def store_data_key_def
  by (auto simp: keeps_tables_def[of "encryption_seal _ _ _ _ _"] encryption_seal_def Let_def)

lemma keeps_tables_data_keys [intro!]:
  "keeps_tables (create_data_key C E n s now)" "keeps_tables (ensure_data_key C E n s now)" "keeps_tables (data_key_for C E n s)"
  unfolding create_data_key_def ensure_data_key_def data_key_for_def by blast+

lemma keeps_tables_flush [intro!]: "keeps_tables (flush C)"
  unfolding flush_def by blast

lemma keeps_tables_denied [intro!]: "keeps_tables (authorize_or_record a n r m t)"
  unfolding authorize_or_record_def emit_denial_def
  by (cases "require_role r m") auto

lemma keeps_tables_parts [intro!]:
  "keeps_tables (check_admission C n dl)" "keeps_tables (charge n k now)" "keeps_tables (seal_if_needed C n s vid now)"
  "keeps_tables (audit_content u n a t b)" "keeps_tables (audit_download u n k t l)" "keeps_tables (require u n m)"
  "keeps_tables (require_node i)" "keeps_tables (resolve_version n vo)" "keeps_tables (should_encrypt E n q)"
  unfolding check_admission_def charge_def seal_if_needed_def audit_content_def audit_download_def require_def
    require_node_def resolve_version_def should_encrypt_def Let_def
  by (auto intro!: keeps_tables_mdb split: option.splits)

lemma keeps_tables_reads [intro!]:
  "keeps_tables (resolve_encryption_for C n q u now)" "keeps_tables (open_plain C v r)" "keeps_tables (open_encrypted C n v u r)"
  unfolding resolve_encryption_for_def open_plain_def open_encrypted_def by (blast, blast, blast)

lemma keeps_tables_download: "keeps_tables (download C u nid rh vid ra l now)"
  unfolding download_def Let_def by blast

section \<open>Pruning\<close>

lemma fold_versions_delete:
  "fold (\<lambda>v. versions_delete (fv_id v)) vs d = d\<lparr>db_versions := filter (\<lambda>v. fv_id v \<notin> fv_id ` set vs) (db_versions d)\<rparr>"
  by (induction vs arbitrary: d) (auto simp: versions_delete_def intro!: filter_cong)

definition doomed_versions :: "config \<Rightarrow> db \<Rightarrow> uuid \<Rightarrow> file_version list" where
  "doomed_versions C d nid = drop (cf_version_retention C) (versions_list_for_node d nid)"

lemma delete_objects_run:
  "for_each vs (\<lambda>v. objects_delete (object_key v)) w =
     (Inr (), w\<lparr>w_objects := filter (\<lambda>(k, _). k \<notin> object_key ` set vs) (w_objects w)\<rparr>)"
proof (induction vs arbitrary: w)
  case (Cons v vs)
  have "filter (\<lambda>(k, _). k \<notin> object_key ` set vs) (filter (\<lambda>(k, _). k \<noteq> object_key v) os) =
        filter (\<lambda>(k, _). k \<notin> object_key ` set (v # vs)) os" for os :: object_table
    by (induction os) auto
  then show ?case using Cons by (simp add: seq_run objects_delete_def)
qed (simp add: case_prod_beta)

lemma prune_versions_run:
  assumes "prune_versions C n t w = (Inr x, w')"
  shows "db_users (w_db w') = db_users (w_db w) \<and> db_nodes (w_db w') = db_nodes (w_db w) \<and>
    db_versions (w_db w') = filter (\<lambda>v. fv_id v \<notin> fv_id ` set (doomed_versions C (w_db w) (nd_id n))) (db_versions (w_db w)) \<and>
    w_uuids w' = w_uuids w \<and> w_drawn w' = w_drawn w \<and> w_clock w' = w_clock w \<and>
    w_objects w' = filter (\<lambda>(k, _). k \<notin> object_key ` set (doomed_versions C (w_db w) (nd_id n))) (w_objects w) \<and>
    db_data_keys (w_db w') = db_data_keys (w_db w) \<and> db_user_keys (w_db w') = db_user_keys (w_db w)"
proof -
  let ?ds = "doomed_versions C (w_db w) (nd_id n)"
  let ?w1 = "w\<lparr>w_db := (w_db w)\<lparr>db_versions := filter (\<lambda>v. fv_id v \<notin> fv_id ` set ?ds) (db_versions (w_db w))\<rparr>\<rparr>"
  have p: "prune_beyond (nd_id n) (cf_version_retention C) (w_db w) = (?ds, w_db ?w1)"
    by (simp add: prune_beyond_def fold_versions_delete doomed_versions_def Let_def)
  show ?thesis
  proof (cases "?ds = []")
    case True
    then show ?thesis using assms p by (auto simp: prune_versions_def stepdb_def bind_run split_beta')
  next
    case False
    then show ?thesis using assms p
      by (auto simp: prune_versions_def stepdb_def bind_run seq_run delete_objects_run flush_def quotas_update_def
          split: option.splits if_splits)
  qed
qed

section \<open>Storing a version\<close>

text \<open>
  The run of \<open>store_version\<close> up to the point where the version row is written: what went into the object
  store, and the state in which the rows are written.
\<close>

lemma store_version_run:
  assumes "store_version C u n body ct decl t w = (Inr n', w')"
  obtains counted seen v payload w1 w2 w3 where
    "counted = measure_body (cf_max_upload_bytes C) 0 (fst body) (snd body)"
    "seen = seen_plaintext (nd_encrypted n) counted"
    "decl = None \<or> decl = Some (int (length seen))"
    "v = new_version (w_uuids w (w_drawn w)) n (next_sequence (w_db w) (nd_id n)) (int (length seen)) (cf_sha256 C seen)
           (content_type_or_default ct) (nd_encrypted n) t (us_subject u) (w_uuids w (w_drawn w))"
    "n' = with_content v t n"
    "seal_if_needed C n counted (fv_id v) t (w\<lparr>w_drawn := w_drawn w + 1\<rparr>) = (Inr payload, w1)"
    "objects_put (object_key v) payload w1 = (Inr (length (concat (takeWhile (\<lambda>c. c \<noteq> []) (fst payload)))), w2)"
    "charge n (int (length seen)) t w2 = (Inr (), w3)"
    "prune_versions C n' t (w3\<lparr>w_db := nodes_update n' (versions_add v (w_db w3))\<rparr>) = (Inr (), w')"
    "integrity_error (cf_text C) (nodes_update n' (versions_add v (w_db w3))) = None"
proof -
  define counted where "counted = measure_body (cf_max_upload_bytes C) 0 (fst body) (snd body)"
  define seen where "seen = seen_plaintext (nd_encrypted n) counted"
  define vid where "vid = w_uuids w (w_drawn w)"
  obtain w0 payload w1 k w2 w3 where
    a: "check_admission C n decl w = (Inr (), w0)" and s: "seal_if_needed C n counted (w_uuids w0 (w_drawn w0)) t (w0\<lparr>w_drawn := w_drawn w0 + 1\<rparr>) = (Inr payload, w1)"
    and p: "objects_put (key_of (nd_owner_id n) (nd_id n) (w_uuids w0 (w_drawn w0))) payload w1 = (Inr k, w2)"
    and d: "decl = None \<or> decl = Some (int (length seen))" and c: "charge n (int (length seen)) t w2 = (Inr (), w3)"
    and r: "\<And>v. v = new_version (w_uuids w0 (w_drawn w0)) n (next_sequence (w_db w3) (nd_id n)) (int (length seen)) (cf_sha256 C seen)
           (content_type_or_default ct) (nd_encrypted n) t (us_subject u) (w_uuids w0 (w_drawn w0)) \<Longrightarrow>
         integrity_error (cf_text C) (nodes_update (with_content v t n) (versions_add v (w_db w3))) = None \<and>
         prune_versions C (with_content v t n) t (w3\<lparr>w_db := nodes_update (with_content v t n) (versions_add v (w_db w3))\<rparr>) = (Inr (), w') \<and>
         n' = with_content v t n"
    using assms unfolding store_version_def
    by (clarsimp simp: world_ok Let_def counted_def[symmetric] seen_def[symmetric] split: if_splits) blast+
  have w0: "w0 = w" using a by (auto simp: check_admission_def world_ok split: option.splits if_splits)
  have "db_versions (w_db w3) = db_versions (w_db w)"
    using keeps_tablesD[OF keeps_tables_parts(3) s] keeps_tablesD[OF keeps_tables_basic(13) p]
      keeps_tablesD[OF keeps_tables_parts(2) c] by (simp add: w0)
  then have sq: "next_sequence (w_db w3) (nd_id n) = next_sequence (w_db w) (nd_id n)" by (simp add: next_sequence_def)
  have k: "k = length (concat (takeWhile (\<lambda>c. c \<noteq> []) (fst payload)))"
    using p by (auto simp: objects_put_def read_body_def Let_def split: sum.splits option.splits if_splits)
  define v where "v = new_version (w_uuids w (w_drawn w)) n (next_sequence (w_db w) (nd_id n)) (int (length seen)) (cf_sha256 C seen)
           (content_type_or_default ct) (nd_encrypted n) t (us_subject u) (w_uuids w (w_drawn w))"
  have v: "fv_id v = w_uuids w (w_drawn w)" "object_key v = key_of (nd_owner_id n) (nd_id n) (w_uuids w (w_drawn w))"
    by (simp_all add: v_def new_version_def object_key_def)
  note rv = r[of v, unfolded sq w0, OF v_def]
  show thesis
    by (rule that[OF counted_def seen_def d v_def]) (use rv s p c v k in \<open>auto simp: w0\<close>)
qed

text \<open>The tables after a version was stored.\<close>

lemma store_version_tables:
  assumes "store_version C u n body ct decl t w = (Inr n', w')"
  obtains v doomed where "fv_id v = w_uuids w (w_drawn w)" "fv_node_id v = nd_id n" "n' = with_content v t n"
    "fv_sequence v = next_sequence (w_db w) (nd_id n)" "fv_owner_id v = nd_owner_id n"
    "db_nodes (w_db w') = db_nodes (nodes_update n' (w_db w))" "db_users (w_db w') = db_users (w_db w)"
    "db_versions (w_db w') = filter (\<lambda>x. fv_id x \<notin> fv_id ` doomed) (db_versions (w_db w) @ [v])"
    "doomed = set (drop (cf_version_retention C) (versions_list_for_node (versions_add v (w_db w)) (nd_id n)))"
    "w_uuids w' = w_uuids w" "w_drawn w < w_drawn w'"
  using assms
proof (rule store_version_run)
  fix counted seen v payload w1 w2 w3
  assume v: "v = new_version (w_uuids w (w_drawn w)) n (next_sequence (w_db w) (nd_id n)) (int (length seen)) (cf_sha256 C seen)
           (content_type_or_default ct) (nd_encrypted n) t (us_subject u) (w_uuids w (w_drawn w))"
    and n': "n' = with_content v t n"
    and s: "seal_if_needed C n counted (fv_id v) t (w\<lparr>w_drawn := w_drawn w + 1\<rparr>) = (Inr payload, w1)"
    and p: "objects_put (object_key v) payload w1 = (Inr (length (concat (takeWhile (\<lambda>c. c \<noteq> []) (fst payload)))), w2)"
    and c: "charge n (int (length seen)) t w2 = (Inr (), w3)"
    and pr: "prune_versions C n' t (w3\<lparr>w_db := nodes_update n' (versions_add v (w_db w3))\<rparr>) = (Inr (), w')"
  have w3: "db_users (w_db w3) = db_users (w_db w)" "db_nodes (w_db w3) = db_nodes (w_db w)" "db_versions (w_db w3) = db_versions (w_db w)"
    "w_uuids w3 = w_uuids w" "w_drawn w < w_drawn w3"
    using keeps_tablesD[OF keeps_tables_parts(3) s] keeps_tablesD[OF keeps_tables_basic(13) p]
      keeps_tablesD[OF keeps_tables_parts(2) c] by simp_all
  have id: "nd_id n' = nd_id n" by (simp add: n' with_content_def touch_def)
  let ?d = "nodes_update n' (versions_add v (w_db w3))"
  have l: "versions_list_for_node ?d (nd_id n') = versions_list_for_node (versions_add v (w_db w)) (nd_id n)"
    by (simp add: versions_list_for_node_def nodes_update_def w3 id)
  have d: "db_users ?d = db_users (w_db w)" "db_versions ?d = db_versions (w_db w) @ [v]"
    "db_nodes ?d = db_nodes (nodes_update n' (w_db w))" by (simp_all add: nodes_update_def w3)
  have vf: "fv_id v = w_uuids w (w_drawn w)" "fv_node_id v = nd_id n" "fv_sequence v = next_sequence (w_db w) (nd_id n)"
    "fv_owner_id v = nd_owner_id n" by (simp_all add: v new_version_def)
  have p': "db_users (w_db w') = db_users (w_db w)" "db_nodes (w_db w') = db_nodes (nodes_update n' (w_db w))"
    "db_versions (w_db w') = filter (\<lambda>x. fv_id x \<notin> fv_id ` set (drop (cf_version_retention C)
       (versions_list_for_node (versions_add v (w_db w)) (nd_id n)))) (db_versions (w_db w) @ [v])"
    "w_uuids w' = w_uuids w" "w_drawn w < w_drawn w'"
    using prune_versions_run[OF pr] by (auto simp: doomed_versions_def l d w3 simp del: filter_append)
  show thesis by (rule that[OF vf(1,2) n' vf(3,4) p'(2,1,3) refl p'(4,5)])
qed

end
