(* ===== verification/Copying.thy ===== *)
theory Copying
  imports Content
begin

text \<open>
  Copying a file or a folder (\<open>NodeService.copy\<close> in \<open>application/nodes.py\<close>). The copy belongs to the caller
  and is charged to them. The loop over the folders still to copy takes the number of turns it may make;
  \<open>None\<close> says that they did not suffice. Like the code it reads one page of the children of each folder.
\<close>

definition duplicate_content :: "config \<Rightarrow> node \<Rightarrow> node \<Rightarrow> datetime \<Rightarrow> bool \<Rightarrow> (int \<times> node) use_case" where
  "duplicate_content C source target now dup =
     (if \<not> dup then ret (0, target) else duplicate C source target now)"

definition charge_copy :: "user \<Rightarrow> int \<Rightarrow> datetime \<Rightarrow> unit use_case" where
  "charge_copy u n now =
     (if n \<le> 0 then ret ()
      else bind (qdb (\<lambda>d. quotas_get d (us_id u))) (\<lambda>usage.
        case usage of
          None \<Rightarrow> ret ()
        | Some q \<Rightarrow>
            seq (lift (ensure_room_for q (us_quota_bytes u) n))
                (mdb (quotas_update (charge_live n now q)))))"

definition copy_of :: "uuid \<Rightarrow> user \<Rightarrow> node \<Rightarrow> string \<Rightarrow> uuid \<Rightarrow> datetime \<Rightarrow> node" where
  "copy_of nid u source name parent now =
     \<lparr>nd_id = nid, nd_owner_id = us_id u, nd_kind = nd_kind source, nd_name = name, nd_parent_id = Some parent,
      nd_created_at = now, nd_updated_at = now, nd_revision = 0, nd_deleted_at = None,
      nd_current_version_id = None, nd_size_bytes = 0, nd_content_type = nd_content_type source,
      nd_encrypted = nd_encrypted source, nd_encryption_default = nd_encryption_default source\<rparr>"

definition copy_one :: "config \<Rightarrow> user \<Rightarrow> node \<Rightarrow> uuid \<Rightarrow> datetime \<Rightarrow> string option \<Rightarrow> bool \<Rightarrow> node use_case" where
  "copy_one C u source parent_id now name dup =
     bind (case name of None \<Rightarrow> ret (nd_name source) | Some x \<Rightarrow> lift (validate_name x)) (\<lambda>chosen.
     bind uuid4 (\<lambda>nid.
     bind (lift (post_init (copy_of nid u source chosen parent_id now))) (\<lambda>copied.
     seq (ensure_name_free C parent_id (normalized_name (cf_text C) copied) None)
    (seq (mdb (nodes_add copied))
    (seq (flush C)
    (if is_file source then
       bind (duplicate_content C source copied now dup) (\<lambda>(n, target).
       seq (charge_copy u n now)
      (seq (mdb (nodes_update (target\<lparr>nd_size_bytes := n\<rparr>)))
           (ret (target\<lparr>nd_size_bytes := n\<rparr>))))
     else ret copied))))))"

fun copy_children :: "config \<Rightarrow> user \<Rightarrow> datetime \<Rightarrow> bool \<Rightarrow> uuid \<Rightarrow> node list \<Rightarrow> (node \<times> node) list \<Rightarrow> (node \<times> node) list use_case" where
  "copy_children C u now dup target [] pending = ret pending"
| "copy_children C u now dup target (child # rest) pending =
     bind (copy_one C u child target now None dup) (\<lambda>child_copy.
     copy_children C u now dup target rest
       (if is_folder child then (child, child_copy) # pending else pending))"

text \<open>\<open>pending.pop()\<close> takes the entry appended last, here the head of the list.\<close>

fun copy_subtree :: "nat \<Rightarrow> config \<Rightarrow> user \<Rightarrow> datetime \<Rightarrow> bool \<Rightarrow> (node \<times> node) list \<Rightarrow> bool use_case" where
  "copy_subtree k C u now dup [] = ret True"
| "copy_subtree 0 C u now dup (x # pending) = ret False"
| "copy_subtree (Suc k) C u now dup ((original, copied) # pending) =
     bind (qdb (\<lambda>d. nodes_list_children (cf_text C) d (nd_id original) (cf_page_size_max C) None False)) (\<lambda>found.
     bind (lift found) (\<lambda>page.
     bind (copy_children C u now dup (nd_id copied) (pg_items page) pending) (\<lambda>pending'.
     copy_subtree k C u now dup pending')))"

definition copy ::
  "nat \<Rightarrow> config \<Rightarrow> user \<Rightarrow> uuid \<Rightarrow> uuid \<Rightarrow> string option \<Rightarrow> bool \<Rightarrow> datetime option \<Rightarrow> node_view option use_case" where
  "copy k C u nid destination_id name dup now =
     bind (moment_of now) (\<lambda>moment.
     bind (authorize C u nid VIEWER) (\<lambda>(source, _).
     bind (authorize C u destination_id EDITOR) (\<lambda>(destination, _).
     seq (ensure_folder destination)
    (bind (qdb (\<lambda>d. is_ancestor_of d (nd_id source) (nd_id destination))) (\<lambda>cycle.
     seq (guard (\<not> cycle) WouldCreateCycleError)
    (seq (ensure_depth C destination)
    (bind (copy_one C u source (nd_id destination) moment name dup) (\<lambda>root_copy.
     bind (if is_folder source then copy_subtree k C u moment dup [(source, root_copy)] else ret True) (\<lambda>finished.
     if \<not> finished then ret None
     else
       seq (flush C)
      (seq (audit_node u root_copy NODE_COPIED moment)
           (bind (view root_copy OWNER) (\<lambda>v. ret (Some v)))))))))))))"

end
