(* ===== verification/System.thy ===== *)
theory System
  imports Trash ContentFacts Copying
begin

text \<open>
  The node and content services as a state machine. A request names the acting user and one operation; it runs in
  its unit of work, which commits when the operation returns and rolls the database back when it
  raises. The loop of a copy is given one turn for each row of the node table, which is enough:
  \<open>copy_finishes\<close> in \<open>CopySteps\<close>. The locale \<open>transition_system\<close> is the contract between the single
  steps and the runs made of them; its interpretation on the requests carries the structural invariant
  to every run.
\<close>

datatype request =
    CreateFolder uuid string encryption_default
  | Rename uuid string "string option"
  | Move uuid uuid "string option"
  | Delete uuid "string option"
  | Copy uuid uuid "string option" bool
  | Restore uuid
  | Purge uuid
  | EmptyTrash int
  | ReplaceTags uuid "string list" "string option"
  | ReplaceMetadata uuid "(string \<times> string) list" "string option"
  | PatchTags uuid "string list" "string list" "string option"
  | PatchMetadata uuid "(string \<times> string) list" "string list" "string option"
  | Upload uuid string stream "string option" "int option" "bool option"
  | Replace uuid stream "string option" "int option"
  | Download uuid "string option" "uuid option"
  | SetEncryption uuid bool
  | RestoreVersion uuid uuid

definition void :: "'a use_case \<Rightarrow> unit use_case" where
  "void m = bind m (\<lambda>_. ret ())"

fun perform :: "config \<Rightarrow> user \<Rightarrow> request \<Rightarrow> unit use_case" where
  "perform C u (CreateFolder p name enc) = void (create_folder C u p name enc None)"
| "perform C u (Rename n name im) = void (rename C u n name im None)"
| "perform C u (Move n p im) = void (move C u n p im None)"
| "perform C u (Delete n im) = void (delete C u n im None)"
| "perform C u (Copy n p name dup) = bind (qdb (\<lambda>d. length (db_nodes d))) (\<lambda>k. void (copy k C u n p name dup None))"
| "perform C u (Restore n) = void (restore C u n None)"
| "perform C u (Purge n) = void (purge C u n None)"
| "perform C u (EmptyTrash k) = void (empty_trash C u k None)"
| "perform C u (ReplaceTags n tags im) = void (replace_tags C u n tags im None)"
| "perform C u (ReplaceMetadata n pairs im) = void (replace_metadata C u n pairs im None)"
| "perform C u (PatchTags n add rm im) = void (patch_tags C u n add rm im None)"
| "perform C u (PatchMetadata n pairs rm im) = void (patch_metadata C u n pairs rm im None)"
| "perform C u (Upload p name body ct decl enc) = void (upload C u p name body ct decl enc None)"
| "perform C u (Replace n body ct decl) = void (replace C u n body ct decl None)"
| "perform C u (Download n rh vid) = void (download C u n rh vid True None None)"
| "perform C u (SetEncryption n enc) = void (set_encryption C u n enc None)"
| "perform C u (RestoreVersion n vid) = void (restore_version C u n vid None)"

definition serve :: "config \<Rightarrow> uuid \<times> request \<Rightarrow> world \<Rightarrow> world" where
  "serve C req w =
     (case users_get (w_db w) (fst req) of
        None \<Rightarrow> w
      | Some u \<Rightarrow> snd (transaction C (perform C u (snd req)) w))"

section \<open>The invariant\<close>

definition roots_ok :: "db \<Rightarrow> bool" where
  "roots_ok d \<longleftrightarrow> (\<forall>u\<in>set (db_users d). \<exists>r\<in>set (db_nodes d).
     nd_id r = us_root_folder_id u \<and> nd_parent_id r = None \<and> \<not> is_deleted r)"

definition store_inv :: "config \<Rightarrow> db \<Rightarrow> bool" where
  "store_inv C d \<longleftrightarrow> tree_inv (db_nodes d) \<and> sibling_names_unique (cf_text C) (db_nodes d) \<and> versions_wf d \<and> roots_ok d"

definition fs_inv :: "config \<Rightarrow> world \<Rightarrow> bool" where
  "fs_inv C w \<longleftrightarrow> store_inv C (w_db w) \<and> fresh_ids w"

section \<open>Runs\<close>

locale transition_system =
  fixes step :: "'r \<Rightarrow> 's \<Rightarrow> 's" and inv :: "'s \<Rightarrow> bool"
  assumes step_inv: "inv s \<Longrightarrow> inv (step r s)"
begin

lemma run_inv: "inv s \<Longrightarrow> inv (fold step rs s)"
  by (induction rs arbitrary: s) (auto simp: step_inv)

lemma run_append: "fold step (rs @ qs) s = fold step qs (fold step rs s)"
  by simp

end

section \<open>Identifiers only advance\<close>

definition ids_mono :: "'a use_case \<Rightarrow> bool" where
  "ids_mono m \<longleftrightarrow> (\<forall>w r w'. m w = (r, w') \<longrightarrow> w_uuids w' = w_uuids w \<and> w_drawn w \<le> w_drawn w')"

lemma ids_mono_basic [intro!]:
  "ids_mono (ret x)" "ids_mono (raise e)" "ids_mono (query f)" "ids_mono (lift r)" "ids_mono (guard b e)"
  "ids_mono (expect v e)" "ids_mono (qdb g)" "ids_mono (mdb h)" "ids_mono (rundb k)" "ids_mono (stepdb l)"
  "ids_mono uuid4" "ids_mono (moment_of now)" "ids_mono (lock_subtree n)" "ids_mono (emit_audit a)"
  "ids_mono (objects_delete key)" "ids_mono (view nd ro)"
  by (auto simp: ids_mono_def guard_run expect_run rundb_def stepdb_def uuid4_def moment_of_def lock_subtree_def
      emit_audit_def objects_delete_def view_def split: prod.splits option.splits if_splits)

lemma ids_mono_bind [intro!]: "ids_mono m \<Longrightarrow> (\<And>x. ids_mono (f x)) \<Longrightarrow> ids_mono (bind m f)"
  unfolding ids_mono_def bind_def by (fastforce split: prod.splits sum.splits)

lemma ids_mono_seq [intro!]: "ids_mono m \<Longrightarrow> ids_mono n \<Longrightarrow> ids_mono (seq m n)"
  unfolding seq_def by blast

lemma ids_mono_cases [intro!]:
  "(\<And>a b. ids_mono (g a b)) \<Longrightarrow> ids_mono (case p of (a, b) \<Rightarrow> g a b)"
  "ids_mono m \<Longrightarrow> (\<And>x. ids_mono (f x)) \<Longrightarrow> ids_mono (case v of None \<Rightarrow> m | Some x \<Rightarrow> f x)"
  "ids_mono m \<Longrightarrow> ids_mono n \<Longrightarrow> ids_mono (if b then m else n)"
  by (auto split: prod.splits option.splits)

lemma ids_mono_for_each [intro!]: "(\<And>x. ids_mono (f x)) \<Longrightarrow> ids_mono (for_each xs f)"
  by (induction xs) auto

lemma ids_mono_store: "(\<And>w r w'. m w = (r, w') \<Longrightarrow> same_store w w') \<Longrightarrow> ids_mono m"
  by (auto simp: ids_mono_def same_store_def)

lemma ids_mono_cache [intro!]:
  "ids_mono (invalidate C n p q b)" "ids_mono (invalidate_subtree C m ns)" "ids_mono (effective_role C s ow k)"
  by (auto intro: ids_mono_store dest: invalidate_store invalidate_subtree_store effective_role_store)

lemma ids_mono_parts [intro!]:
  "ids_mono (flush C)" "ids_mono (audit_node u n a t)" "ids_mono (ensure_folder n)" "ids_mono (ensure_depth C n)"
  "ids_mono (ensure_name_free C p name ex)" "ids_mono (ensure_not_reserved_root_name C n name)"
  "ids_mono (ensure_precondition n im)" "ids_mono (move_bytes ow k t b)" "ids_mono (authorize_or_record s i ro mi wh)"
  by (auto simp: flush_def audit_node_def ensure_folder_def ensure_depth_def ensure_name_free_def
      ensure_not_reserved_root_name_def ensure_precondition_def move_bytes_def authorize_or_record_def emit_denial_def
      split: sum.splits)

lemma ids_mono_authorize [intro!]: "ids_mono (authorize C u n mi)"
  unfolding authorize_def by blast

lemma ids_mono_tree_ops:
  "ids_mono (create_folder C u p name enc now)" "ids_mono (rename C u n name im now)" "ids_mono (move C u n p im now)"
  "ids_mono (delete C u n im now)" "ids_mono (restore C u n now)"
  unfolding create_folder_def rename_def move_def delete_def restore_def Let_def by blast+

lemma ids_mono_label_ops:
  "ids_mono (replace_tags C u n tags im now)" "ids_mono (replace_metadata C u n pairs im now)"
  "ids_mono (patch_tags C u n add rm im now)" "ids_mono (patch_metadata C u n pairs keys im now)"
  unfolding replace_tags_def replace_metadata_def patch_tags_def patch_metadata_def apply_label_change_def Let_def
  by blast+

lemma ids_mono_strip [intro!]: "ids_mono (strip_node n t)"
  unfolding strip_node_def by blast

lemma ids_mono_strip_all [intro!]: "ids_mono (strip_all ids t acc)"
  by (induction ids arbitrary: acc) auto

lemma ids_mono_destroy [intro!]: "ids_mono (destroy_entry e t)"
  unfolding destroy_entry_def purge_subtree_def by blast

lemma ids_mono_spend [intro!]: "ids_mono (spend_loop u ts t es ds acc k)"
  by (induction es arbitrary: ds acc k) (auto simp: Let_def record_purge_def)

lemma ids_mono_mutated [intro!]: "ids_mono (on_node_mutated C n p q)" "ids_mono (invalidate_all_permissions C)"
  by (auto intro: ids_mono_store dest: on_node_mutated_store invalidate_all_permissions_store)

lemma ids_mono_trash_ops: "ids_mono (purge C u n now)" "ids_mono (empty_trash C u k now)"
  unfolding purge_def empty_trash_def spend_purge_budget_def record_purge_def record_batch_def
    invalidate_destroyed_def Let_def by blast+

lemma keeps_tables_ids: "keeps_tables m \<Longrightarrow> ids_mono m"
  by (auto simp: ids_mono_def keeps_tables_def)

lemma ids_mono_content_parts [intro!]:
  "ids_mono (check_admission C n dl)" "ids_mono (charge n k now)" "ids_mono (seal_if_needed C n pt vid now)"
  "ids_mono (audit_content u n a t b)" "ids_mono (require u n m)" "ids_mono (require_node i)" "ids_mono (resolve_version n vo)"
  "ids_mono (resolve_encryption_for C n q u now)" "ids_mono (download C u nid rh vi ra l no)" "ids_mono (objects_put key pt)"
  "ids_mono (objects_copy key key')"
  by (rule keeps_tables_ids; blast intro: keeps_tables_download)+

lemma ids_mono_store_version [intro!]: "ids_mono (prune_versions C n t)" "ids_mono (store_version C u n body ct decl t)"
  unfolding prune_versions_def store_version_def Let_def by blast+

lemma ids_mono_content_ops:
  "ids_mono (upload C u p name body ct decl enc now)" "ids_mono (replace C u n body ct decl now)"
  "ids_mono (set_encryption C u n b now)" "ids_mono (restore_version C u n vid now)"
  unfolding upload_def replace_def set_encryption_def restore_version_def new_file_def Let_def by blast+

lemma ids_mono_copy_one [intro!]: "ids_mono (copy_one C u source pid now name dup)"
proof -
  have keys: "ids_mono (copy_data_key C E a b s now)" for E a b s
    unfolding copy_data_key_def by (intro keeps_tables_ids) blast
  have dup: "ids_mono (duplicate C a b now)" for a b
    unfolding duplicate_def by (intro ids_mono_bind ids_mono_seq ids_mono_cases ids_mono_basic ids_mono_content_parts ids_mono_parts keys)
  have charge: "ids_mono (charge_copy u n now)" for n
    unfolding charge_copy_def by blast
  show ?thesis
    unfolding copy_one_def duplicate_content_def using dup charge by blast
qed

lemma ids_mono_copy_children [intro!]: "ids_mono (copy_children C u now dup target cs pending)"
  by (induction cs arbitrary: pending) auto

lemma ids_mono_copy_subtree [intro!]: "ids_mono (copy_subtree k C u now dup pending)"
proof (induction k arbitrary: pending)
  case 0
  have "ids_mono (copy_subtree 0 C u now dup (x # xs))" "ids_mono (copy_subtree 0 C u now dup [])" for x xs
    unfolding copy_subtree.simps by blast+
  then show ?case by (metis list.exhaust)
next
  case (Suc k)
  have "ids_mono (copy_subtree (Suc k) C u now dup ((a, b) # xs))" "ids_mono (copy_subtree (Suc k) C u now dup [])" for a b xs
    unfolding copy_subtree.simps using Suc by blast+
  then show ?case by (metis list.exhaust surj_pair)
qed

lemma ids_mono_copy: "ids_mono (copy k C u nid pid name dup now)"
  unfolding copy_def by blast

lemma ids_mono_perform: "ids_mono (perform C u req)"
  by (cases req) (auto simp: void_def intro: ids_mono_tree_ops ids_mono_label_ops ids_mono_trash_ops ids_mono_content_ops ids_mono_copy)

section \<open>What a returning operation does to the store\<close>

definition good_step :: "world \<Rightarrow> world \<Rightarrow> bool" where
  "good_step w w' \<longleftrightarrow> tree_inv (db_nodes (w_db w')) \<and> versions_wf (w_db w') \<and> roots_ok (w_db w') \<and>
     db_users (w_db w') = db_users (w_db w) \<and>
     used_ids (w_db w') \<subseteq> used_ids (w_db w) \<union> w_uuids w ` {w_drawn w..<w_drawn w'}"

definition label_result :: "db \<Rightarrow> db \<Rightarrow> bool" where
  "label_result d d' \<longleftrightarrow> db_users d' = db_users d \<and> db_versions d' = db_versions d \<and>
     (db_nodes d' = db_nodes d \<or>
      (\<exists>n t. n \<in> set (db_nodes d) \<and> db_nodes d' = upd_row nd_id (nd_id n) (apply_node (touch t n)) (db_nodes d)))"

lemmas label_frames = nodes_replace_tags_def nodes_replace_metadata_def nodes_add_tags_def nodes_remove_tags_def
  nodes_set_metadata_def remove_metadata_keys_def nodes_update_def audit_add_def

lemma label_resultI:
  assumes "nodes_get d nid = Some n" "db_users d' = db_users d" "db_versions d' = db_versions d"
    "db_nodes d' = upd_row nd_id (nd_id n) (apply_node (touch t n)) (db_nodes d)"
  shows "label_result d d'"
  using assms nodes_get_Some[OF assms(1)] by (auto simp: label_result_def)

lemma replace_tags_result:
  assumes "replace_tags C u nid tags im now w = (Inr x, w')"
  shows "label_result (w_db w) (w_db w')"
proof -
  from assms obtain n r w1 t S v where a: "authorize C u nid EDITOR w = (Inr (n, r), w1)" and
    i: "invalidate C (nd_id n) (nd_parent_id n) None False
      (w1\<lparr>w_db := audit_add v (nodes_update (touch t n) (nodes_replace_tags (nd_id n) S (w_db w1)))\<rparr>) = (Inr (), w')"
    unfolding replace_tags_def by (clarsimp simp: world_ok guard_oks Let_def)
  from authorize_facts[OF a] invalidate_store[OF i] show ?thesis
    by (intro label_resultI[of "w_db w" nid n _ t]) (auto simp: same_store_def label_frames)
qed

lemma replace_metadata_result:
  assumes "replace_metadata C u nid pairs im now w = (Inr x, w')"
  shows "label_result (w_db w) (w_db w')"
proof -
  from assms obtain n r w1 t S v where a: "authorize C u nid EDITOR w = (Inr (n, r), w1)" and
    i: "invalidate C (nd_id n) (nd_parent_id n) None False
      (w1\<lparr>w_db := audit_add v (nodes_update (touch t n) (nodes_replace_metadata (cf_text C) (nd_id n) S (w_db w1)))\<rparr>) = (Inr (), w')"
    unfolding replace_metadata_def by (clarsimp simp: world_ok guard_oks Let_def)
  from authorize_facts[OF a] invalidate_store[OF i] show ?thesis
    by (intro label_resultI[of "w_db w" nid n _ t]) (auto simp: same_store_def label_frames)
qed

lemma apply_label_change_ok:
  assumes "apply_label_change C u n act t a r w = (Inr m, w')"
  obtains v where "m = touch t n" "invalidate C (nd_id n) (nd_parent_id n) None False
      (w\<lparr>w_db := audit_add v (nodes_update (touch t n) (w_db w))\<rparr>) = (Inr (), w')"
  using assms unfolding apply_label_change_def by (clarsimp simp: world_ok Let_def)

lemma patch_tags_result:
  assumes "patch_tags C u nid add rm im now w = (Inr x, w')"
  shows "label_result (w_db w) (w_db w')"
proof -
  from assms obtain n r w1 t S D where a: "authorize C u nid EDITOR w = (Inr (n, r), w1)" and
    c: "w' = w1 \<or> (\<exists>k l m. apply_label_change C u n NODE_TAGS_CHANGED t k l
      (w1\<lparr>w_db := nodes_remove_tags (nd_id n) S (nodes_add_tags (nd_id n) D (w_db w1))\<rparr>) = (Inr m, w'))"
    unfolding patch_tags_def
    by (clarsimp simp: world_ok guard_oks tag_change_counts_def split: if_splits) blast+
  from authorize_facts[OF a] have s: "nodes_get (w_db w) nid = Some n" "same_store w w1" by auto
  from c show ?thesis
  proof (elim disjE exE)
    assume "w' = w1" with s show ?thesis by (auto simp: same_store_def label_result_def)
  next
    fix k l m
    assume "apply_label_change C u n NODE_TAGS_CHANGED t k l
      (w1\<lparr>w_db := nodes_remove_tags (nd_id n) S (nodes_add_tags (nd_id n) D (w_db w1))\<rparr>) = (Inr m, w')"
    then show ?thesis
      by (rule apply_label_change_ok, drule_tac invalidate_store)
        (rule label_resultI[of "w_db w" nid n _ t], use s in \<open>auto simp: same_store_def label_frames\<close>)
  qed
qed

lemma patch_metadata_result:
  assumes "patch_metadata C u nid pairs rm im now w = (Inr x, w')"
  shows "label_result (w_db w) (w_db w')"
proof -
  from assms obtain n r w1 t S D where a: "authorize C u nid EDITOR w = (Inr (n, r), w1)" and
    c: "w' = w1 \<or> (\<exists>k l m. apply_label_change C u n NODE_METADATA_CHANGED t k l
      (w1\<lparr>w_db := remove_metadata_keys (nd_id n) S (nodes_set_metadata (nd_id n) D (w_db w1))\<rparr>) = (Inr m, w'))"
    unfolding patch_metadata_def
    by (clarsimp simp: world_ok guard_oks metadata_change_counts_def split: if_splits) blast+
  from authorize_facts[OF a] have s: "nodes_get (w_db w) nid = Some n" "same_store w w1" by auto
  from c show ?thesis
  proof (elim disjE exE)
    assume "w' = w1" with s show ?thesis by (auto simp: same_store_def label_result_def)
  next
    fix k l m
    assume "apply_label_change C u n NODE_METADATA_CHANGED t k l
      (w1\<lparr>w_db := remove_metadata_keys (nd_id n) S (nodes_set_metadata (nd_id n) D (w_db w1))\<rparr>) = (Inr m, w')"
    then show ?thesis
      by (rule apply_label_change_ok, drule_tac invalidate_store)
        (rule label_resultI[of "w_db w" nid n _ t], use s in \<open>auto simp: same_store_def label_frames\<close>)
  qed
qed

end
