(* ===== verification/Shrinking.thy ===== *)
theory Shrinking
  imports Trash
begin

text \<open>Destruction only removes rows: every table is a subsequence of what it was.\<close>

definition shrinks :: "db \<Rightarrow> db \<Rightarrow> bool" where
  "shrinks d d' \<longleftrightarrow> subseq (db_nodes d') (db_nodes d) \<and> subseq (db_grants d') (db_grants d) \<and>
     subseq (db_data_keys d') (db_data_keys d) \<and> subseq (db_versions d') (db_versions d)"

lemma shrinks_refl [simp]: "shrinks d d"
  by (simp add: shrinks_def)

lemma shrinks_trans: "shrinks d e \<Longrightarrow> shrinks e f \<Longrightarrow> shrinks d f"
  by (auto simp: shrinks_def intro: subseq_order.order_trans)

lemma shrinks_audit [simp]: "shrinks d (audit_add b e) \<longleftrightarrow> shrinks d e"
  by (simp add: shrinks_def audit_add_def)

lemma shrinks_versions: "shrinks d d' \<Longrightarrow> set (db_versions d') \<subseteq> set (db_versions d)"
  by (auto simp: shrinks_def subseq_conv_nths dest: in_set_nthsD)

lemma distinct_subseq: "subseq ys xs \<Longrightarrow> distinct (map f xs) \<Longrightarrow> distinct (map f ys)"
  using subseq_map[of ys xs f] by (auto simp: subseq_conv_nths intro: distinct_nthsI)

definition op_shrinks :: "'a use_case \<Rightarrow> bool" where
  "op_shrinks m \<longleftrightarrow> (\<forall>w r w'. m w = (r, w') \<longrightarrow> shrinks (w_db w) (w_db w'))"

lemma op_shrinks_bind [intro!]: "op_shrinks m \<Longrightarrow> (\<And>x. op_shrinks (f x)) \<Longrightarrow> op_shrinks (bind m f)"
  unfolding op_shrinks_def bind_def by (fastforce split: prod.splits sum.splits intro: shrinks_trans)

lemma op_shrinks_seq [intro!]: "op_shrinks m \<Longrightarrow> op_shrinks n \<Longrightarrow> op_shrinks (seq m n)"
  unfolding seq_def by blast

lemma op_shrinks_basic [intro!]:
  "op_shrinks (ret x)" "op_shrinks (qdb g)" "op_shrinks (objects_delete key)" "op_shrinks (lift y)" "op_shrinks (expect v e)"
  "op_shrinks (emit_audit a)"
  by (auto simp: op_shrinks_def objects_delete_def expect_run emit_audit_def audit_add_def shrinks_def split: option.splits)

lemma op_shrinks_mdb [intro]: "(\<And>d. shrinks d (f d)) \<Longrightarrow> op_shrinks (mdb f)"
  by (auto simp: op_shrinks_def)

lemma op_shrinks_for_each [intro!]: "(\<And>x. op_shrinks (f x)) \<Longrightarrow> op_shrinks (for_each xs f)"
  by (induction xs) auto

lemma op_shrinks_cases [intro!]:
  "op_shrinks m \<Longrightarrow> (\<And>x. op_shrinks (f x)) \<Longrightarrow> op_shrinks (case v of None \<Rightarrow> m | Some x \<Rightarrow> f x)"
  "op_shrinks m \<Longrightarrow> op_shrinks n \<Longrightarrow> op_shrinks (if b then m else n)"
  by (auto split: option.splits)

lemma shrinks_parts [intro!]:
  "shrinks d (release_trashed ow n t d)" "shrinks d (versions_delete v d)" "shrinks d (grants_delete_for_node i d)"
  "shrinks d (delete_data_keys_for_node i d)" "shrinks d (delete_permanently i d)"
  by (auto simp: shrinks_def versions_delete_def grants_delete_for_node_def delete_data_keys_for_node_def
      delete_permanently_def Let_def)

lemma op_shrinks_strip [intro!]: "op_shrinks (strip_node i t)"
  unfolding strip_node_def by blast

lemma op_shrinks_strip_all [intro!]: "op_shrinks (strip_all ids t acc)"
  by (induction ids arbitrary: acc) auto

lemma op_shrinks_destroy [intro!]: "op_shrinks (destroy_entry e t)"
  unfolding destroy_entry_def purge_subtree_def by blast

lemma op_shrinks_spend: "op_shrinks (spend_loop u ts t es ds acc k)"
  by (induction es arbitrary: ds acc k) (auto simp: Let_def record_purge_def)

lemma op_shrinks_budget: "op_shrinks (spend_purge_budget C u t)"
  unfolding spend_purge_budget_def using op_shrinks_spend by blast

end
