(* ===== verification/NodeSteps.thy ===== *)
theory NodeSteps
  imports System Shrinking
begin

text \<open>
  Every request of the node service keeps the structure of the store: one lemma per operation, saying
  that its step is good.
\<close>

lemma audited_users: "audited d d' \<Longrightarrow> db_users d' = db_users d"
  by (auto simp: audited_def)

lemma roots_ok_keep:
  assumes "roots_ok d" "db_users d' = db_users d"
    and "\<And>r. r \<in> set (db_nodes d) \<Longrightarrow> nd_parent_id r = None \<Longrightarrow> \<not> is_deleted r \<Longrightarrow>
      \<exists>s\<in>set (db_nodes d'). nd_id s = nd_id r \<and> nd_parent_id s = None \<and> \<not> is_deleted s"
  shows "roots_ok d'"
  unfolding roots_ok_def assms(2)
proof
  fix u assume "u \<in> set (db_users d)"
  with assms(1) obtain r where r: "r \<in> set (db_nodes d)" "nd_id r = us_root_folder_id u" "nd_parent_id r = None" "\<not> is_deleted r"
    by (auto simp: roots_ok_def)
  from assms(3)[OF r(1,3,4)] r(2) show "\<exists>r\<in>set (db_nodes d'). nd_id r = us_root_folder_id u \<and> nd_parent_id r = None \<and> \<not> is_deleted r"
    by auto
qed

text \<open>A step that keeps the identifiers, the users and the versions only has the forest and the roots to keep.\<close>

lemma good_stepI:
  assumes "store_inv C (w_db w)" "tree_inv (db_nodes (w_db w'))" "db_users (w_db w') = db_users (w_db w)"
    "db_versions (w_db w') = db_versions (w_db w)" "map nd_id (db_nodes (w_db w')) = map nd_id (db_nodes (w_db w))"
    and "\<And>r. r \<in> set (db_nodes (w_db w)) \<Longrightarrow> nd_parent_id r = None \<Longrightarrow> \<not> is_deleted r \<Longrightarrow>
      \<exists>s\<in>set (db_nodes (w_db w')). nd_id s = nd_id r \<and> nd_parent_id s = None \<and> \<not> is_deleted s"
  shows "good_step w w'"
proof -
  have ids: "nd_id ` set (db_nodes (w_db w')) = nd_id ` set (db_nodes (w_db w))" using assms(5) by (metis set_map)
  moreover have "roots_ok (w_db w')" using roots_ok_keep[OF _ assms(3,6)] assms(1) by (simp add: store_inv_def)
  ultimately show ?thesis using assms by (auto simp: good_step_def store_inv_def versions_wf_def used_ids_def)
qed

lemma update_keeps_roots:
  assumes "tree_inv (db_nodes d)" "nodes_get d nid = Some n" "nd_id m = nid"
    "nd_parent_id n = None \<and> \<not> is_deleted n \<longrightarrow> nd_parent_id m = None \<and> \<not> is_deleted m"
    "r \<in> set (db_nodes d)" "nd_parent_id r = None" "\<not> is_deleted r"
  shows "\<exists>s\<in>set (db_nodes (nodes_update m d)). nd_id s = nd_id r \<and> nd_parent_id s = None \<and> \<not> is_deleted s"
proof -
  have n: "n \<in> set (db_nodes d)" "nd_id n = nid" using nodes_get_Some[OF assms(2)] by auto
  have set: "set (db_nodes (nodes_update m d)) = insert (apply_node m n) {s \<in> set (db_nodes d). nd_id s \<noteq> nd_id m}"
    using nodes_update_set[OF assms(1)] assms(2,3) by simp
  show ?thesis
  proof (cases "nd_id r = nid")
    case True
    then have "r = n" using same_row[OF assms(1,5) n(1)] n(2) by simp
    with assms True n show ?thesis unfolding set by (intro bexI[of _ "apply_node m n"]) auto
  qed (use assms set in auto)
qed

lemma create_folder_good:
  assumes "create_folder C u pid name enc now w = (Inr v, w')" "fs_inv C w"
  shows "good_step w w'"
  using assms(1)
proof (rule create_folder_facts)
  fix parent t n
  assume n: "n = new_folder (w_uuids w (w_drawn w)) (nd_owner_id parent) name pid t enc"
    and d: "audited (nodes_add n (w_db w)) (w_db w')" and e: "w_uuids w' = w_uuids w" "w_drawn w' = w_drawn w + 1"
  have inv: "tree_inv (db_nodes (w_db w))" "fresh_ids w" "versions_wf (w_db w)" "roots_ok (w_db w)"
    using assms(2) by (auto simp: fs_inv_def store_inv_def)
  have rows: "db_nodes (w_db w') = db_nodes (w_db w) @ [n]" "db_users (w_db w') = db_users (w_db w)"
    "db_versions (w_db w') = db_versions (w_db w)"
    using audited_nodes[OF d] audited_users[OF d] by (auto simp: nodes_add_def)
  have "roots_ok (w_db w')" using inv(4) rows(2) by (rule roots_ok_keep) (auto simp: rows(1))
  then show ?thesis using create_folder_tree[OF assms(1) inv(1,2)] inv(3) rows e
    by (auto simp: good_step_def versions_wf_def used_ids_def n new_folder_def)
qed

lemma nodes_update_frame [simp]: "db_users (nodes_update n d) = db_users d" "db_versions (nodes_update n d) = db_versions d"
  by (simp_all add: nodes_update_def)

lemma update_good:
  assumes inv: "store_inv C (w_db w)" and d: "audited (nodes_update m (w_db w)) (w_db w')" and n: "nodes_get (w_db w) (nd_id m) = Some n"
    and k: "nd_parent_id n = None \<and> \<not> is_deleted n \<longrightarrow> nd_parent_id m = None \<and> \<not> is_deleted m"
    and t: "tree_inv (db_nodes (w_db w'))"
  shows "good_step w w'"
  using inv t
proof (rule good_stepI)
  show "db_users (w_db w') = db_users (w_db w)" "db_versions (w_db w') = db_versions (w_db w)"
    using audited_nodes[OF d] audited_users[OF d] by auto
  show "map nd_id (db_nodes (w_db w')) = map nd_id (db_nodes (w_db w))"
    using audited_nodes[OF d] by (simp add: nodes_update_ids)
  fix r assume "r \<in> set (db_nodes (w_db w))" "nd_parent_id r = None" "\<not> is_deleted r"
  with update_keeps_roots[OF _ n refl k] audited_nodes[OF d] inv
  show "\<exists>s\<in>set (db_nodes (w_db w')). nd_id s = nd_id r \<and> nd_parent_id s = None \<and> \<not> is_deleted s"
    by (simp add: store_inv_def)
qed

lemma rename_good:
  assumes "rename C u nid name im now w = (Inr v, w')" "store_inv C (w_db w)"
  shows "good_step w w'"
  using assms(1)
proof (rule rename_facts)
  fix n p t m
  assume n: "nodes_get (w_db w) nid = Some n" "nd_parent_id n = Some p" and m: "m = touch t (n\<lparr>nd_name := name\<rparr>)"
    and d: "audited (nodes_update m (w_db w)) (w_db w')"
  have "nd_id m = nid" using nodes_get_Some[OF n(1)] by (simp add: m)
  then show ?thesis
    using n rename_tree[OF assms(1)] assms(2) by (intro update_good[OF assms(2) d, of n]) (auto simp: store_inv_def)
qed

lemma move_good:
  assumes "move C u nid pid im now w = (Inr v, w')" "store_inv C (w_db w)" "cf_max_tree_depth C \<le> CYCLE_GUARD_DEPTH"
  shows "good_step w w'"
  using assms(1)
proof (rule move_facts)
  fix n dest t m q
  assume n: "nodes_get (w_db w) nid = Some n" "nd_parent_id n = Some q" and m: "m = touch t (n\<lparr>nd_parent_id := Some pid\<rparr>)"
    and d: "audited (nodes_update m (w_db w)) (w_db w')"
  have "nd_id m = nid" using nodes_get_Some[OF n(1)] by (simp add: m)
  then show ?thesis
    using n move_tree[OF assms(1) _ assms(3)] assms(2) by (intro update_good[OF assms(2) d, of n]) (auto simp: store_inv_def)
qed

lemma soft_delete_frame:
  "soft_delete_subtree nid t d = (r, d') \<Longrightarrow> db_users d' = db_users d \<and> db_versions d' = db_versions d"
  by (auto simp: soft_delete_subtree_def Let_def split: option.splits)

lemma soft_delete_keeps_roots:
  assumes inv: "tree_inv (db_nodes d)" and n: "nodes_get d nid = Some n" "\<not> is_root n"
    and s: "soft_delete_subtree nid t d = (x, d')" and r: "r \<in> set (db_nodes d)" "nd_parent_id r = None"
  shows "r \<in> set (db_nodes d')"
proof -
  have "nd_id r \<notin> nd_id ` set (n # nodes_descendants d nid CYCLE_GUARD_DEPTH True)"
  proof
    assume "nd_id r \<in> nd_id ` set (n # nodes_descendants d nid CYCLE_GUARD_DEPTH True)"
    then obtain q where "q \<in> set (n # nodes_descendants d nid CYCLE_GUARD_DEPTH True)" "nd_id r = nd_id q" by (rule imageE)
    then have q: "q = n \<or> q \<in> set (nodes_descendants d nid CYCLE_GUARD_DEPTH True)" "nd_id q = nd_id r" by simp_all
    then have "q \<in> set (db_nodes d)" using nodes_get_Some[OF n(1)] descendants_sound by blast
    then have "q = r" using same_row[OF inv] q(2) r(1) by blast
    with q(1) show False
    proof (elim disjE)
      assume "q = n" with \<open>q = r\<close> n(2) r(2) show False by (simp add: is_root_def)
    next
      assume "q \<in> set (nodes_descendants d nid CYCLE_GUARD_DEPTH True)"
      with descendants_sound root_no_edge[OF inv r] \<open>q = r\<close> show False by blast
    qed
  qed
  with s n(1) r(1) show ?thesis
    by (force simp: soft_delete_subtree_def Let_def update_where_def image_iff split: if_splits)
qed

lemma delete_good:
  assumes "delete C u nid im now w = (Inr k, w')" "store_inv C (w_db w)"
  shows "good_step w w'"
  using assms(1)
proof (rule delete_facts)
  fix n t trashed d1
  assume n: "nodes_get (w_db w) nid = Some n" "\<not> is_root n"
    and s: "soft_delete_subtree nid t (w_db w) = (Inr trashed, d1)"
    and d: "audited (bytes_moved (nd_owner_id n) (file_bytes trashed) t True d1) (w_db w')"
  have inv: "tree_inv (db_nodes (w_db w))" using assms(2) by (simp add: store_inv_def)
  show ?thesis using assms(2) delete_tree[OF assms(1) inv]
  proof (rule good_stepI)
    show "db_users (w_db w') = db_users (w_db w)" "db_versions (w_db w') = db_versions (w_db w)"
      using audited_nodes[OF d] audited_users[OF d] soft_delete_frame[OF s] by auto
    show "map nd_id (db_nodes (w_db w')) = map nd_id (db_nodes (w_db w))"
      using audited_nodes[OF d] soft_delete_shape[OF s] by (simp add: ids_shape)
    show "\<exists>q\<in>set (db_nodes (w_db w')). nd_id q = nd_id r \<and> nd_parent_id q = None \<and> \<not> is_deleted q"
      if "r \<in> set (db_nodes (w_db w))" "nd_parent_id r = None" "\<not> is_deleted r" for r
      using soft_delete_keeps_roots[OF inv n s that(1,2)] that audited_nodes[OF d] by auto
  qed
qed

lemma restore_frame:
  "restore_subtree nid t d = (ns, d') \<Longrightarrow> db_users d' = db_users d \<and> db_versions d' = db_versions d"
  by (auto simp: restore_subtree_def Let_def split: option.splits if_splits)

lemma restore_keeps_roots:
  "restore_subtree nid t d = (ns, d') \<Longrightarrow> r \<in> set (db_nodes d) \<Longrightarrow> \<not> is_deleted r \<Longrightarrow> r \<in> set (db_nodes d')"
  by (auto simp: restore_subtree_def Let_def update_where_def is_deleted_def split: option.splits if_splits)

lemma live_root:
  assumes "store_inv C d" "u \<in> set (db_users d)"
  obtains r where "r \<in> set (db_nodes d)" "nd_id r = us_root_folder_id u" "nd_parent_id r = None" "\<not> is_deleted r"
  using assms by (auto simp: store_inv_def roots_ok_def)

text \<open>The destination of a restore is a live row that does not lie below the restored one.\<close>

lemma restore_destination_ok:
  assumes inv: "store_inv C d" and u: "u \<in> set (db_users d)" and n: "nodes_get d nid = Some n" "is_deleted n"
  defines "p \<equiv> restore_destination d u n"
  shows "(\<exists>r\<in>set (db_nodes d). nd_id r = p \<and> \<not> is_deleted r) \<and> p \<noteq> nid \<and> (p, nid) \<notin> (parent_rel (db_nodes d))\<^sup>+"
proof -
  have t: "tree_inv (db_nodes d)" using inv by (simp add: store_inv_def)
  have nn: "n \<in> set (db_nodes d)" "nd_id n = nid" using nodes_get_Some[OF n(1)] by auto
  consider (parent) q where "nd_parent_id n = Some (nd_id q)" "q \<in> set (db_nodes d)" "\<not> is_deleted q" "p = nd_id q"
    | (root) "p = us_root_folder_id u"
  proof (cases "\<exists>a q. nd_parent_id n = Some a \<and> nodes_get d a = Some q \<and> \<not> is_deleted q")
    case True
    then obtain a q where q: "nd_parent_id n = Some a" "nodes_get d a = Some q" "\<not> is_deleted q" by blast
    with nodes_get_Some[OF q(2)] show thesis by (intro parent[of q]) (auto simp: p_def restore_destination_def)
  next
    case False
    then show thesis
      by (intro root) (auto simp: p_def restore_destination_def split: option.splits)
  qed
  then show ?thesis
  proof cases
    case (parent q)
    then have e: "(nid, p) \<in> parent_rel (db_nodes d)" using nn by (auto simp: parent_rel_def)
    then have "p \<noteq> nid" "(p, nid) \<notin> (parent_rel (db_nodes d))\<^sup>+"
      using t by (auto simp: tree_inv_def acyclic_def dest: trancl_into_trancl2)
    with parent show ?thesis by auto
  next
    case root
    obtain r where r: "r \<in> set (db_nodes d)" "nd_id r = p" "nd_parent_id r = None" "\<not> is_deleted r"
      using live_root[OF inv u] root by metis
    then have "p \<noteq> nid" using same_row[OF t r(1) nn(1)] n(2) nn(2) by auto
    moreover have "(p, nid) \<notin> (parent_rel (db_nodes d))\<^sup>+" using root_no_edge[OF t r(1,3)] r(2) by simp
    ultimately show ?thesis using r by auto
  qed
qed

lemma restore_facts:
  assumes "restore C u nid now w = (Inr v, w')"
  obtains n t cleared d1 m p where "nodes_get (w_db w) nid = Some n" "is_deleted n" "nd_owner_id n = us_id u"
    "restore_subtree nid t (w_db w) = (cleared, d1)" "nodes_get d1 nid = Some m" "p = restore_destination (w_db w) u n"
    "name_free_for C (w_db w) p (normalized_name (cf_text C) n) (Some nid)"
    "audited (bytes_moved (nd_owner_id m) (file_bytes cleared) t False (nodes_update (m\<lparr>nd_parent_id := Some p\<rparr>) d1)) (w_db w')"
    "w_objects w' = w_objects w" "nv_node v = m\<lparr>nd_parent_id := Some p\<rparr>" "w_uuids w' = w_uuids w" "w_drawn w' = w_drawn w"
  using assms
proof (rule restore_run)
  fix n t cleared d1 m
  let ?p = "restore_destination (w_db w) u n"
  assume n: "nodes_get (w_db w) nid = Some n" "is_deleted n" "nd_owner_id n = us_id u"
    and r: "restore_subtree (nd_id n) t (w_db w) = (cleared, d1)" "nodes_get d1 nid = Some m"
    and f: "name_free_for C (w_db w) ?p (normalized_name (cf_text C) n) (Some (nd_id n))"
    and i: "invalidate_subtree C (m\<lparr>nd_parent_id := Some ?p\<rparr>) cleared
       (w\<lparr>w_db := audit_add (audit_of NODE_RESTORED t (us_subject u) (Some (uuid_str (nd_id m)))
             (owner_context (m\<lparr>nd_parent_id := Some ?p\<rparr>) (us_id u)))
          (bytes_moved (nd_owner_id m) (file_bytes cleared) t False (nodes_update (m\<lparr>nd_parent_id := Some ?p\<rparr>) d1))\<rparr>) = (Inr (), w')"
    and v: "nv_node v = m\<lparr>nd_parent_id := Some ?p\<rparr>"
  have "nd_id n = nid" using nodes_get_Some[OF n(1)] by simp
  with invalidate_subtree_store[OF i] show thesis
    by (intro that[of n t cleared d1 m ?p]) (use n r f v in \<open>auto simp: same_store_def audited_def\<close>)
qed

lemma restore_good:
  assumes "restore C u nid now w = (Inr v, w')" "store_inv C (w_db w)" "u \<in> set (db_users (w_db w))"
  shows "good_step w w'"
  using assms(1)
proof (rule restore_facts)
  fix n t cleared d1 p and m :: node
  let ?m = "m\<lparr>nd_parent_id := Some p\<rparr>"
  assume n: "nodes_get (w_db w) nid = Some n" "is_deleted n"
    and r: "restore_subtree nid t (w_db w) = (cleared, d1)" "nodes_get d1 nid = Some m" "p = restore_destination (w_db w) u n"
    and d: "audited (bytes_moved (nd_owner_id m) (file_bytes cleared) t False (nodes_update ?m d1)) (w_db w')"
  note shape = restore_subtree_shape[OF r(1)]
  have inv: "tree_inv (db_nodes (w_db w))" using assms(2) by (simp add: store_inv_def)
  then have inv1: "tree_inv (db_nodes d1)" using shape tree_inv_cong by metis
  have rel: "parent_rel (db_nodes d1) = parent_rel (db_nodes (w_db w))" using shape by (simp add: parent_rel_shape)
  have ids: "map nd_id (db_nodes d1) = map nd_id (db_nodes (w_db w))" using shape by (simp add: ids_shape)
  have mm: "m \<in> set (db_nodes d1)" "nd_id m = nid" using nodes_get_Some[OF r(2)] by auto
  from restore_destination_ok[OF assms(2,3) n] r(3) have p: "\<exists>r\<in>set (db_nodes (w_db w)). nd_id r = p" "p \<noteq> nid"
    "(p, nid) \<notin> (parent_rel (db_nodes (w_db w)))\<^sup>+" by auto
  have "p \<in> nd_id ` set (db_nodes d1)" using p(1) ids by (metis set_map image_eqI)
  then have t: "tree_inv (db_nodes (nodes_update ?m d1))"
    using p mm rel by (auto simp: nodes_update_def intro!: tree_inv_move[OF inv1 mm(1), of p])
  have db: "db_nodes (w_db w') = db_nodes (nodes_update ?m d1)" using audited_nodes[OF d] by simp
  show ?thesis using assms(2)
  proof (rule good_stepI)
    show "tree_inv (db_nodes (w_db w'))" using t db by simp
    show "db_users (w_db w') = db_users (w_db w)" "db_versions (w_db w') = db_versions (w_db w)"
      using audited_nodes[OF d] audited_users[OF d] restore_frame[OF r(1)] by auto
    show "map nd_id (db_nodes (w_db w')) = map nd_id (db_nodes (w_db w))"
      using db ids by (simp add: nodes_update_ids)
    fix q assume q: "q \<in> set (db_nodes (w_db w))" "nd_parent_id q = None" "\<not> is_deleted q"
    have "q \<in> set (db_nodes d1)" using restore_keeps_roots[OF r(1) q(1,3)] .
    moreover have "nd_id q \<noteq> nid" using same_row[OF inv q(1)] nodes_get_Some[OF n(1)] n(2) q(3) by auto
    ultimately have "q \<in> set (db_nodes (nodes_update ?m d1))"
      using nodes_update_set[OF inv1, of ?m m] r(2) mm(2) by auto
    with db q show "\<exists>s\<in>set (db_nodes (w_db w')). nd_id s = nd_id q \<and> nd_parent_id s = None \<and> \<not> is_deleted s" by auto
  qed
qed

lemma label_result_good:
  assumes "label_result (w_db w) (w_db w')" "store_inv C (w_db w)"
  shows "good_step w w'"
proof -
  have inv: "tree_inv (db_nodes (w_db w))" using assms(2) by (simp add: store_inv_def)
  from assms(1) consider "db_nodes (w_db w') = db_nodes (w_db w)"
    | n t where "n \<in> set (db_nodes (w_db w))" "db_nodes (w_db w') = db_nodes (nodes_update (touch t n) (w_db w))"
    by (auto simp: label_result_def nodes_update_def)
  then show ?thesis
  proof cases
    case 1
    then show ?thesis using assms inv by (intro good_stepI[OF assms(2)]) (auto simp: label_result_def)
  next
    case (2 n t)
    then have n: "nodes_get (w_db w) (nd_id n) = Some n" using inv by (simp add: nodes_get_iff)
    then have "shape (db_nodes (w_db w')) = shape (db_nodes (w_db w))"
      unfolding 2(2) using inv by (intro nodes_update_shape[where r = n]) auto
    then have t: "tree_inv (db_nodes (w_db w'))" using inv tree_inv_cong by metis
    show ?thesis
    proof (rule good_stepI[OF assms(2) t])
      show "db_users (w_db w') = db_users (w_db w)" "db_versions (w_db w') = db_versions (w_db w)"
        using assms(1) by (auto simp: label_result_def)
      show "map nd_id (db_nodes (w_db w')) = map nd_id (db_nodes (w_db w))" using 2(2) by (simp add: nodes_update_ids)
    qed (use update_keeps_roots[OF inv n, of "touch t n"] 2(2) in auto)
  qed
qed

lemma destroyed_good:
  assumes inv: "store_inv C (w_db w)" and es: "\<forall>e\<in>set es. e \<in> set (db_nodes (w_db w)) \<and> is_deleted e"
    and r: "tree_inv (db_nodes (w_db w'))" "versions_wf (w_db w')" "db_users (w_db w') = db_users (w_db w)"
    and rows: "set (db_nodes (w_db w')) =
      {r \<in> set (db_nodes (w_db w)). \<forall>e\<in>set es. (nd_id r, nd_id e) \<notin> (parent_rel (db_nodes (w_db w)))\<^sup>*}"
    and vs: "shrinks (w_db w) (w_db w')"
  shows "good_step w w'"
proof -
  have t: "tree_inv (db_nodes (w_db w))" using inv by (simp add: store_inv_def)
  have "roots_ok (w_db w')"
  proof (rule roots_ok_keep[OF _ r(3)])
    show "roots_ok (w_db w)" using inv by (simp add: store_inv_def)
    fix q assume q: "q \<in> set (db_nodes (w_db w))" "nd_parent_id q = None" "\<not> is_deleted q"
    have "(nd_id q, nd_id e) \<notin> (parent_rel (db_nodes (w_db w)))\<^sup>*" if "e \<in> set es" for e
      using that es root_no_edge[OF t q(1,2)] same_row[OF t q(1)] q(3) by (metis rtranclD)
    with q rows show "\<exists>s\<in>set (db_nodes (w_db w')). nd_id s = nd_id q \<and> nd_parent_id s = None \<and> \<not> is_deleted s" by auto
  qed
  moreover have "set (db_versions (w_db w')) \<subseteq> set (db_versions (w_db w))"
    by (rule shrinks_versions[OF vs])
  ultimately show ?thesis using r rows by (auto simp: good_step_def used_ids_def)
qed

lemma purge_run:
  assumes "purge C u nid now w = (Inr p, w')"
  obtains n t w1 w2 where "nodes_get (w_db w) nid = Some n" "is_deleted n" "destroy_entry n t w = (Inr p, w1)"
    "record_purge u n p t w1 = (Inr (), w2)" "invalidate C (nd_id n) (nd_parent_id n) None True w2 = (Inr (), w')"
    "nd_owner_id n = us_id u \<or> us_is_admin u"
  using assms unfolding purge_def
  by (clarsimp simp: world_ok split: if_splits) (auto simp: resolve_not_owner)

lemma purge_good:
  assumes "purge C u nid now w = (Inr p, w')" "store_inv C (w_db w)"
  shows "good_step w w'"
  using assms(1)
proof (rule purge_run)
  fix n t w1 w2
  assume n: "nodes_get (w_db w) nid = Some n" "is_deleted n" and e: "destroy_entry n t w = (Inr p, w1)"
    and a: "record_purge u n p t w1 = (Inr (), w2)" and i: "invalidate C (nd_id n) (nd_parent_id n) None True w2 = (Inr (), w')"
  have wf: "versions_wf (w_db w)" "tree_inv (db_nodes (w_db w))" using assms(2) by (auto simp: store_inv_def)
  obtain p' v where v: "destroy_entry n t w = (Inr p', v)" "versions_wf (w_db v)" "only_store_changed w v"
    "tree_inv (db_nodes (w_db w)) \<Longrightarrow> tree_inv (db_nodes (w_db v))"
    "tree_inv (db_nodes (w_db w)) \<Longrightarrow> set (db_nodes (w_db v)) =
       {r \<in> set (db_nodes (w_db w)). (nd_id r, nd_id n) \<notin> (parent_rel (db_nodes (w_db w)))\<^sup>*}"
    by (rule destroy_entry_run[OF wf(1), of n t]) blast
  with e have w1: "v = w1" by simp
  obtain b where "w_db w' = audit_add b (w_db w1)"
    using a invalidate_store[OF i] by (auto simp: record_purge_def emit_audit_ok same_store_def)
  moreover have "shrinks (w_db w) (w_db w1)" using e op_shrinks_destroy unfolding op_shrinks_def by blast
  ultimately show ?thesis using v w1 wf(2) nodes_get_Some[OF n(1)] n(2)
    by (intro destroyed_good[OF assms(2), of "[n]"]) (auto simp: only_store_changed_def)
qed

lemma trash_page_items:
  assumes "list_trash_entries H d ow k None b = Inr pg" "e \<in> set (pg_items pg)"
  shows "e \<in> set (db_nodes d) \<and> is_deleted e"
  using assms trash_rows_deleted[of e d ow b]
  by (auto simp: list_trash_entries_def Let_def paginate_def dest!: in_set_takeD)

lemma spend_purge_budget_run:
  assumes "versions_wf (w_db w)"
  shows "\<exists>pg k acc w'. list_trash_entries (cf_sha256_hex C) (w_db w) (us_id u) (nat TRASH_PURGE_NODE_BUDGET) None True = Inr pg \<and>
     spend_purge_budget C u t w = (Inr (take k (pg_items pg), acc), w') \<and> k \<le> length (pg_items pg) \<and>
     (pg_items pg \<noteq> [] \<longrightarrow> 0 < k) \<and>
     (let totals = delete_batch_totals (w_db w) (map nd_id (pg_items pg)) in
      (k \<le> 1 \<or> costs totals (take k (pg_items pg)) \<le> TRASH_PURGE_NODE_BUDGET) \<and>
      (k < length (pg_items pg) \<longrightarrow> costs totals (take (Suc k) (pg_items pg)) > TRASH_PURGE_NODE_BUDGET)) \<and>
     versions_wf (w_db w') \<and> db_users (w_db w') = db_users (w_db w) \<and>
     (tree_inv (db_nodes (w_db w)) \<longrightarrow> tree_inv (db_nodes (w_db w')) \<and> set (db_nodes (w_db w')) =
       {r \<in> set (db_nodes (w_db w)). \<forall>e\<in>set (take k (pg_items pg)). (nd_id r, nd_id e) \<notin> (parent_rel (db_nodes (w_db w)))\<^sup>*})"
proof -
  let ?L = "list_trash_entries (cf_sha256_hex C) (w_db w) (us_id u) (nat TRASH_PURGE_NODE_BUDGET) None True"
  obtain pg where pg: "?L = Inr pg" by (simp add: list_trash_entries_def Let_def)
  let ?ts = "delete_batch_totals (w_db w) (map nd_id (pg_items pg))"
  have "\<forall>e\<in>set (pg_items pg). map_of ?ts (nd_id e) \<noteq> None"
    using trash_page_items[OF pg] by (intro ballI batch_totals_defined) auto
  from spend_loop_run[OF assms this, of "[]" 0 u t no_purge] batch_totals_nonneg obtain k acc w' where
    k: "spend_loop u ?ts t (pg_items pg) [] no_purge 0 w = (Inr ([] @ take k (pg_items pg), acc), w')"
      "k \<le> length (pg_items pg)" "pg_items pg \<noteq> [] \<longrightarrow> 0 < k"
      "length ([] @ take k (pg_items pg)) \<le> 1 \<or> 0 + costs ?ts (take k (pg_items pg)) \<le> TRASH_PURGE_NODE_BUDGET"
      "k < length (pg_items pg) \<longrightarrow> 0 + costs ?ts (take (Suc k) (pg_items pg)) > TRASH_PURGE_NODE_BUDGET"
      "versions_wf (w_db w')" "db_users (w_db w') = db_users (w_db w)"
      "tree_inv (db_nodes (w_db w)) \<longrightarrow> tree_inv (db_nodes (w_db w')) \<and> set (db_nodes (w_db w')) =
        {r \<in> set (db_nodes (w_db w)). \<forall>e\<in>set (take k (pg_items pg)). (nd_id r, nd_id e) \<notin> (parent_rel (db_nodes (w_db w)))\<^sup>*}"
    by blast
  have "spend_purge_budget C u t w = (Inr (take k (pg_items pg), acc), w')"
    using k(1) pg by (simp add: spend_purge_budget_def bind_run)
  with pg k show ?thesis
    by (intro exI[of _ pg] exI[of _ k] exI[of _ acc] exI[of _ w']) (auto simp: Let_def)
qed

lemma invalidate_destroyed_store: "invalidate_destroyed C es w = (r, w') \<Longrightarrow> same_store w w'"
  unfolding invalidate_destroyed_def
  by (auto elim!: seq_store[rotated 2] for_each_store[rotated] dest: on_node_mutated_store invalidate_all_permissions_store
      split: if_splits)

lemma empty_trash_run:
  assumes "empty_trash C u k now w = (Inr e, w')"
  obtains t es acc w1 d2 where "count_trash_entries (w_db w) (us_id u) = k" "spend_purge_budget C u t w = (Inr (es, acc), w1)"
    "d2 = w_db w1 \<or> audited (w_db w1) d2" "invalidate_destroyed C es (w1\<lparr>w_db := d2\<rparr>) = (Inr (), w')"
    "e = \<lparr>em_entries_purged = int (length es), em_entries_remaining = count_trash_entries (w_db w1) (us_id u), em_purged = acc\<rparr>"
proof -
  from assms obtain t es acc w1 w2 where a: "count_trash_entries (w_db w) (us_id u) = k"
    "spend_purge_budget C u t w = (Inr (es, acc), w1)"
    "(if es \<noteq> [] then record_batch u t (int (length es)) acc else ret ()) w1 = (Inr (), w2)"
    "invalidate_destroyed C es w2 = (Inr (), w')"
    "e = \<lparr>em_entries_purged = int (length es), em_entries_remaining = count_trash_entries (w_db w1) (us_id u), em_purged = acc\<rparr>"
    unfolding empty_trash_def by (clarsimp simp: world_ok)
  from a(3) have "w2 = w1 \<or> (\<exists>b. w2 = w1\<lparr>w_db := audit_add b (w_db w1)\<rparr>)"
    by (auto simp: record_batch_def emit_audit_ok split: if_splits)
  with a show thesis by (intro that[of t es acc w1 "w_db w2"]) (auto simp: audited_def)
qed

lemma empty_trash_good:
  assumes "empty_trash C u k now w = (Inr e, w')" "store_inv C (w_db w)"
  shows "good_step w w'"
  using assms(1)
proof (rule empty_trash_run)
  fix t es acc w1 d2
  assume s: "spend_purge_budget C u t w = (Inr (es, acc), w1)" and d: "d2 = w_db w1 \<or> audited (w_db w1) d2"
    and i: "invalidate_destroyed C es (w1\<lparr>w_db := d2\<rparr>) = (Inr (), w')"
  have wf: "versions_wf (w_db w)" "tree_inv (db_nodes (w_db w))" using assms(2) by (auto simp: store_inv_def)
  from spend_purge_budget_run[OF wf(1), of C u t] s wf(2) obtain pg where
    pg: "list_trash_entries (cf_sha256_hex C) (w_db w) (us_id u) (nat TRASH_PURGE_NODE_BUDGET) None True = Inr pg" "set es \<subseteq> set (pg_items pg)"
    and w1: "versions_wf (w_db w1)" "db_users (w_db w1) = db_users (w_db w)" "tree_inv (db_nodes (w_db w1))"
      "set (db_nodes (w_db w1)) = {r \<in> set (db_nodes (w_db w)). \<forall>e\<in>set es. (nd_id r, nd_id e) \<notin> (parent_rel (db_nodes (w_db w)))\<^sup>*}"
    by (auto dest: in_set_takeD)
  have "w_db w' = d2" using invalidate_destroyed_store[OF i] by (simp add: same_store_def)
  moreover have "shrinks (w_db w) (w_db w1)" using s op_shrinks_budget unfolding op_shrinks_def by blast
  ultimately show ?thesis using d w1 trash_page_items[OF pg(1)] pg(2)
    by (intro destroyed_good[OF assms(2), of es]) (auto simp: audited_def)
qed

end
