(* ===== verification/ContentSteps.thy ===== *)
theory ContentSteps
  imports NodeSteps
begin

text \<open>The use cases of the content service keep the structure of the store.\<close>

lemma good_step_trans:
  assumes "good_step a b" "good_step b c" "w_uuids b = w_uuids a" "w_drawn a \<le> w_drawn b" "w_drawn b \<le> w_drawn c"
  shows "good_step a c"
proof -
  have "{w_drawn a..<w_drawn c} = {w_drawn a..<w_drawn b} \<union> {w_drawn b..<w_drawn c}" using assms(4,5) by auto
  then show ?thesis using assms(1-3) by (auto simp: good_step_def image_Un)
qed

lemma good_step_refl: "store_inv C (w_db w) \<Longrightarrow> good_step w w"
  by (auto simp: good_step_def store_inv_def)

text \<open>A step that keeps the three tables is good.\<close>

lemma kept_tables_good:
  assumes "store_inv C (w_db w)" "keeps_tables m" "m w = (r, w')"
  shows "good_step w w'"
  using assms(1) keeps_tablesD[OF assms(2,3)]
  by (auto simp: good_step_def store_inv_def versions_wf_def roots_ok_def used_ids_def)

text \<open>
  Writing a version row for an existing node and updating the node: the forest keeps its shape, and the
  only new identifier is the one drawn.
\<close>

lemma version_written_good:
  assumes inv: "store_inv C (w_db w)" and fresh: "fresh_ids w"
    and m: "nodes_get (w_db w) (nd_id n') = Some m" "nd_parent_id n' = nd_parent_id m" "nd_deleted_at n' = nd_deleted_at m"
    and v: "fv_id v = w_uuids w (w_drawn w)" "fv_node_id v = nd_id n'"
    and d: "db_nodes (w_db w') = db_nodes (nodes_update n' (w_db w))" "db_users (w_db w') = db_users (w_db w)"
      "db_versions (w_db w') = filter P (db_versions (w_db w) @ [v])" "w_drawn w < w_drawn w'"
  shows "good_step w w'"
proof -
  have t: "tree_inv (db_nodes (w_db w))" and vw: "versions_wf (w_db w)" using inv by (auto simp: store_inv_def)
  have row: "m \<in> set (db_nodes (w_db w))" "nd_id m = nd_id n'" using nodes_get_Some[OF m(1)] by auto
  have sh: "shape (db_nodes (nodes_update n' (w_db w))) = shape (db_nodes (w_db w))"
    using row m t by (intro nodes_update_shape[where r = m]) auto
  have ids: "map nd_id (db_nodes (w_db w')) = map nd_id (db_nodes (w_db w))" by (simp add: d(1) nodes_update_ids)
  have nf: "fv_id v \<notin> fv_id ` set (db_versions (w_db w))" using fresh by (auto simp: fresh_ids_def used_ids_def v(1))
  have "distinct (map fv_id (db_versions (w_db w) @ [v]))" using vw nf by (auto simp: versions_wf_def)
  then have "distinct (map fv_id (db_versions (w_db w')))" unfolding d(3) by (rule distinct_map_filter)
  moreover have "set (db_versions (w_db w')) \<subseteq> insert v (set (db_versions (w_db w)))" by (auto simp: d(3))
  moreover have nid: "nd_id ` set (db_nodes (w_db w')) = nd_id ` set (db_nodes (w_db w))" using ids by (metis set_map)
  moreover have "nd_id n' \<in> nd_id ` set (db_nodes (w_db w))" using row by (metis imageI)
  ultimately have wf: "versions_wf (w_db w')" using vw v(2) unfolding versions_wf_def by (metis insertE subsetD)
  have "roots_ok (w_db w')"
  proof (rule roots_ok_keep[OF _ d(2)])
    show "roots_ok (w_db w)" using inv by (simp add: store_inv_def)
    fix r assume "r \<in> set (db_nodes (w_db w))" "nd_parent_id r = None" "\<not> is_deleted r"
    with update_keeps_roots[OF t m(1) refl, of r] m(2,3)
    show "\<exists>s\<in>set (db_nodes (w_db w')). nd_id s = nd_id r \<and> nd_parent_id s = None \<and> \<not> is_deleted s"
      by (simp add: d(1) is_deleted_def)
  qed
  moreover have "tree_inv (db_nodes (w_db w'))" using t sh d(1) by (metis tree_inv_cong)
  moreover have "fv_id ` set (db_versions (w_db w')) \<subseteq> insert (fv_id v) (fv_id ` set (db_versions (w_db w)))" by (auto simp: d(3))
  ultimately show ?thesis using wf nid d(2,4) v(1) by (auto simp: good_step_def used_ids_def)
qed

lemma store_version_good:
  assumes s: "store_version C u n body ct decl t w = (Inr n', w')" and inv: "store_inv C (w_db w)" "fresh_ids w"
    and m: "nodes_get (w_db w) (nd_id n) = Some m" "nd_parent_id n = nd_parent_id m" "nd_deleted_at n = nd_deleted_at m"
  shows "good_step w w'"
  using s
proof (rule store_version_tables)
  fix v doomed
  assume v: "fv_id v = w_uuids w (w_drawn w)" "fv_node_id v = nd_id n" "n' = with_content v t n"
    and d: "db_nodes (w_db w') = db_nodes (nodes_update n' (w_db w))" "db_users (w_db w') = db_users (w_db w)"
    "db_versions (w_db w') = filter (\<lambda>x. fv_id x \<notin> fv_id ` doomed) (db_versions (w_db w) @ [v])" "w_drawn w < w_drawn w'"
  have "nd_id n' = nd_id n" "nd_parent_id n' = nd_parent_id n" "nd_deleted_at n' = nd_deleted_at n"
    by (simp_all add: v(3) with_content_def touch_def)
  then show ?thesis using v m by (intro version_written_good[OF inv _ _ _ v(1) _ d(1,2,3,4)]) auto
qed

lemma require_node_ok: "require_node nid w = (Inr n, w') \<longleftrightarrow> nodes_get (w_db w) nid = Some n \<and> \<not> is_deleted n \<and> w' = w"
  by (auto simp: require_node_def world_ok)

lemma require_ok: "require u n m w = (Inr r, w') \<longleftrightarrow> compute_role (w_db w) (us_subject u) (us_id u) n = Some r \<and> m \<le> r \<and> w' = w"
  by (auto simp: require_def world_ok)

lemma good_step_kept:
  assumes "good_step a b" "keeps_tables m" "m b = (r, c)" "w_drawn a \<le> w_drawn b"
  shows "good_step a c"
proof -
  have k: "w_drawn b \<le> w_drawn c" "db_users (w_db c) = db_users (w_db b)" "db_nodes (w_db c) = db_nodes (w_db b)"
    "db_versions (w_db c) = db_versions (w_db b)" using keeps_tablesD[OF assms(2,3)] by auto
  then have "w_uuids a ` {w_drawn a..<w_drawn b} \<subseteq> w_uuids a ` {w_drawn a..<w_drawn c}" by (intro image_mono) auto
  moreover have "used_ids (w_db c) = used_ids (w_db b)" "roots_ok (w_db c) = roots_ok (w_db b)" "versions_wf (w_db c) = versions_wf (w_db b)"
    by (simp_all add: k(2-) used_ids_def roots_ok_def versions_wf_def)
  ultimately show ?thesis using assms(1) k(2-) unfolding good_step_def by simp blast
qed

lemma fs_inv_kept:
  assumes "fs_inv C w" "keeps_tables m" "m w = (r, w')"
  shows "fs_inv C w'"
  using assms(1) keeps_tablesD[OF assms(2,3)]
  by (auto simp: fs_inv_def store_inv_def versions_wf_def roots_ok_def fresh_ids_def used_ids_def)

lemma store_version_ids:
  assumes "store_version C u n body ct decl t w = (Inr n', w')"
  shows "w_uuids w' = w_uuids w \<and> w_drawn w < w_drawn w'"
  using assms by (rule store_version_tables) simp

lemma replace_good:
  assumes "replace C u nid body ct decl now w = (Inr n', w')" "fs_inv C w"
  shows "good_step w w'"
proof -
  have inv: "store_inv C (w_db w)" "fresh_ids w" using assms(2) by (auto simp: fs_inv_def)
  obtain t n w1 where n: "nodes_get (w_db w) nid = Some n" and s: "store_version C u n body ct decl t w = (Inr n', w1)"
    and a: "audit_content u n' FILE_UPLOADED t (Some (nd_size_bytes n')) w1 = (Inr (), w')"
    using assms(1) unfolding replace_def by (auto simp: world_ok require_node_ok require_ok)
  have "nd_id n = nid" using nodes_get_Some[OF n] by simp
  with n have "good_step w w1" by (intro store_version_good[OF s inv]) auto
  then show ?thesis using store_version_ids[OF s] by (intro good_step_kept[OF _ keeps_tables_parts(4) a]) auto
qed

lemma new_file_run:
  assumes "new_file C parent name t enc w = (Inr n, w')"
  shows "n = \<lparr>nd_id = w_uuids w (w_drawn w), nd_owner_id = nd_owner_id parent, nd_kind = FILE, nd_name = name,
        nd_parent_id = Some (nd_id parent), nd_created_at = t, nd_updated_at = t, nd_revision = 0,
        nd_deleted_at = None, nd_current_version_id = None, nd_size_bytes = 0, nd_content_type = None,
        nd_encrypted = enc, nd_encryption_default = INHERIT\<rparr> \<and>
     w' = w\<lparr>w_drawn := w_drawn w + 1, w_db := nodes_add n (w_db w)\<rparr> \<and> validate_name name = Inr name \<and>
     integrity_error (cf_text C) (w_db w') = None"
  using assms unfolding new_file_def
  by (auto simp: world_ok post_init_def validate_name_ok is_folder_def is_file_def split: sum.splits if_splits)

lemma new_file_good:
  assumes f: "new_file C parent name t enc w = (Inr n, w')" and inv: "fs_inv C w" and p: "parent \<in> set (db_nodes (w_db w))"
  shows "good_step w w'" and "fs_inv C w'" and "nodes_get (w_db w') (nd_id n) = Some n"
proof -
  note run = new_file_run[OF f]
  have iv: "tree_inv (db_nodes (w_db w))" "versions_wf (w_db w)" "roots_ok (w_db w)" "fresh_ids w"
    using inv by (auto simp: fs_inv_def store_inv_def)
  have n: "nd_id n = w_uuids w (w_drawn w)" "nd_parent_id n = Some (nd_id parent)" using run by auto
  have d: "db_nodes (w_db w') = db_nodes (w_db w) @ [n]" "db_users (w_db w') = db_users (w_db w)"
    "db_versions (w_db w') = db_versions (w_db w)" "w_uuids w' = w_uuids w" "w_drawn w' = w_drawn w + 1"
    using run by (auto simp: nodes_add_def)
  have t: "tree_inv (db_nodes (w_db w'))"
    unfolding d(1) using iv(1,4) p n by (intro tree_inv_add[where p = "nd_id parent"]) (auto simp: fresh_ids_def used_ids_def)
  have "roots_ok (w_db w')" using iv(3) d(2) by (rule roots_ok_keep) (auto simp: d(1))
  then show g: "good_step w w'" using t iv(2) d n by (auto simp: good_step_def versions_wf_def used_ids_def)
  then show "fs_inv C w'" using run iv(4) d integrity_ok[of "cf_text C" "w_db w'"]
    by (auto simp: fs_inv_def store_inv_def good_step_def fresh_ids_def used_ids_def dest: injD)
  show "nodes_get (w_db w') (nd_id n) = Some n" using t d(1) by (simp add: nodes_get_iff)
qed

lemma upload_run:
  assumes "upload C u pid name body ct decl enc now w = (Inr n', w')"
  obtains parent t n w1 w2 where "nodes_get (w_db w) pid = Some parent" "\<not> is_deleted parent" "is_folder parent"
    "(w1 = w \<and> get_child_by_name (cf_text C) (w_db w) pid (normalize_name (cf_text C) name) = Some n \<and> is_file n) \<or>
     (\<exists>wants w0. get_child_by_name (cf_text C) (w_db w) pid (normalize_name (cf_text C) name) = None \<and>
        resolve_encryption_for C parent enc u t w = (Inr wants, w0) \<and> new_file C parent name t wants w0 = (Inr n, w1))"
    "store_version C u n body ct decl t w1 = (Inr n', w2)"
    "audit_content u n' FILE_UPLOADED t (Some (nd_size_bytes n')) w2 = (Inr (), w')"
proof -
  obtain t parent ex n w1 w2 where p: "nodes_get (w_db w) pid = Some parent" "\<not> is_deleted parent" "is_folder parent"
    and ex: "ex = get_child_by_name (cf_text C) (w_db w) (nd_id parent) (normalize_name (cf_text C) name)"
      "case ex of None \<Rightarrow> True | Some e \<Rightarrow> is_file e"
    and n: "(case ex of Some e \<Rightarrow> ret e
           | None \<Rightarrow> bind (resolve_encryption_for C parent enc u t) (\<lambda>wants. new_file C parent name t wants)) w = (Inr n, w1)"
    and s: "store_version C u n body ct decl t w1 = (Inr n', w2)"
      "audit_content u n' FILE_UPLOADED t (Some (nd_size_bytes n')) w2 = (Inr (), w')"
    using assms unfolding upload_def by (auto simp: world_ok require_node_ok require_ok)
  have "nd_id parent = pid" using nodes_get_Some[OF p(1)] by simp
  then show thesis
  proof (cases ex)
    case None
    then show ?thesis using that[OF p _ s] n ex(1) \<open>nd_id parent = pid\<close> by (auto simp: op_ok)
  next
    case (Some e)
    then have "n = e" "w1 = w" "is_file n" using n ex(2) by (auto simp: op_ok)
    then show ?thesis using that[OF p _ s] Some ex(1) \<open>nd_id parent = pid\<close> by simp
  qed
qed

text \<open>The file an upload writes to, existing or new, and the state once it is there.\<close>

lemma upload_target:
  assumes "fs_inv C w" "nodes_get (w_db w) pid = Some parent"
    and c: "(w1 = w \<and> get_child_by_name (cf_text C) (w_db w) pid (normalize_name (cf_text C) name) = Some n \<and> is_file n) \<or>
     (\<exists>wants w0. get_child_by_name (cf_text C) (w_db w) pid (normalize_name (cf_text C) name) = None \<and>
        resolve_encryption_for C parent enc u t w = (Inr wants, w0) \<and> new_file C parent name t wants w0 = (Inr n, w1))"
  shows "good_step w w1 \<and> fs_inv C w1 \<and> nodes_get (w_db w1) (nd_id n) = Some n \<and> w_uuids w1 = w_uuids w \<and> w_drawn w \<le> w_drawn w1 \<and>
    db_users (w_db w1) = db_users (w_db w) \<and> db_versions (w_db w1) = db_versions (w_db w) \<and> \<not> is_deleted n \<and> is_file n"
  using c
proof (elim disjE exE conjE)
  assume "w1 = w" "get_child_by_name (cf_text C) (w_db w) pid (normalize_name (cf_text C) name) = Some n" "is_file n"
  then show ?thesis using assms(1) good_step_refl[of C w]
    by (auto simp: fs_inv_def store_inv_def nodes_get_iff get_child_by_name_def find_Some_iff)
next
  fix wants w0
  assume r: "resolve_encryption_for C parent enc u t w = (Inr wants, w0)" and f: "new_file C parent name t wants w0 = (Inr n, w1)"
  have k: "w_uuids w0 = w_uuids w" "w_drawn w \<le> w_drawn w0" "db_nodes (w_db w0) = db_nodes (w_db w)"
    "db_users (w_db w0) = db_users (w_db w)" "db_versions (w_db w0) = db_versions (w_db w)"
    using keeps_tablesD[OF keeps_tables_reads(1) r] by auto
  have iv: "fs_inv C w0" by (rule fs_inv_kept[OF assms(1) keeps_tables_reads(1) r])
  have "parent \<in> set (db_nodes (w_db w0))" using nodes_get_Some[OF assms(2)] k(3) by simp
  note g = new_file_good[OF f iv this]
  have "good_step w w0" using assms(1) by (intro kept_tables_good[OF _ keeps_tables_reads(1) r]) (auto simp: fs_inv_def)
  then have "good_step w w1" using g(1) k new_file_run[OF f] by (intro good_step_trans[of w w0 w1]) auto
  then show ?thesis using g(2,3) k new_file_run[OF f] by (auto simp: nodes_add_def is_deleted_def is_file_def)
qed

lemma upload_good:
  assumes "upload C u pid name body ct decl enc now w = (Inr n', w')" "fs_inv C w"
  shows "good_step w w'"
  using assms(1)
proof (rule upload_run)
  fix parent t n w1 w2
  assume p: "nodes_get (w_db w) pid = Some parent"
    and c: "(w1 = w \<and> get_child_by_name (cf_text C) (w_db w) pid (normalize_name (cf_text C) name) = Some n \<and> is_file n) \<or>
     (\<exists>wants w0. get_child_by_name (cf_text C) (w_db w) pid (normalize_name (cf_text C) name) = None \<and>
        resolve_encryption_for C parent enc u t w = (Inr wants, w0) \<and> new_file C parent name t wants w0 = (Inr n, w1))"
    and s: "store_version C u n body ct decl t w1 = (Inr n', w2)"
    and a: "audit_content u n' FILE_UPLOADED t (Some (nd_size_bytes n')) w2 = (Inr (), w')"
  have w1: "good_step w w1" "store_inv C (w_db w1)" "fresh_ids w1" "nodes_get (w_db w1) (nd_id n) = Some n"
    "w_uuids w1 = w_uuids w" "w_drawn w \<le> w_drawn w1" using upload_target[OF assms(2) p c] by (auto simp: fs_inv_def)
  have "good_step w1 w2" by (rule store_version_good[OF s w1(2,3,4)]) auto
  with w1 have "good_step w w2" using store_version_ids[OF s] by (intro good_step_trans[of w w1 w2]) auto
  then show ?thesis using store_version_ids[OF s] w1(6) by (intro good_step_kept[OF _ keeps_tables_parts(4) a]) auto
qed

definition conversion_recorded :: "user \<Rightarrow> node \<Rightarrow> bool \<Rightarrow> datetime \<Rightarrow> unit use_case" where
  "conversion_recorded u n enc t =
     seq (if enc then ret () else mdb (delete_data_keys_for_node (nd_id n)))
       (emit_audit (audit_of (if enc then ENCRYPTION_ENABLED else ENCRYPTION_DISABLED) t (us_subject u) (Some (uuid_str (nd_id n))) []))"

lemma set_encryption_run:
  assumes "set_encryption C u nid enc now w = (Inr n', w')"
  obtains n t where "nodes_get (w_db w) nid = Some n" "\<not> is_deleted n" "is_file n" "t = (case now of None \<Rightarrow> w_clock w | Some t \<Rightarrow> t)"
    "(n' = n \<and> w' = w \<and> nd_encrypted n = enc) \<or>
     (\<exists>plan w1 w2. nd_encrypted n \<noteq> enc \<and> download C u nid None None False None None w = (Inr plan, w1) \<and>
       store_version C u (n\<lparr>nd_encrypted := enc\<rparr>) (dp_stream plan) (nd_content_type n) None t w1 = (Inr n', w2) \<and>
       conversion_recorded u n enc t w2 = (Inr (), w'))"
proof -
  define t where "t = (case now of None \<Rightarrow> w_clock w | Some t \<Rightarrow> t)"
  show thesis
    using assms that[OF _ _ _ t_def] unfolding set_encryption_def conversion_recorded_def
    by (clarsimp simp: bind_ok moment_ok t_def[symmetric] require_node_ok seq_ok guard_ok require_ok)
      (auto simp: world_ok split: if_splits)
qed

lemma keeps_tables_conversion: "keeps_tables (conversion_recorded u n enc t)"
  unfolding conversion_recorded_def
  by (intro keeps_tables_seq keeps_tables_cases keeps_tables_basic keeps_tables_mdb) simp

lemma set_encryption_good:
  assumes "set_encryption C u nid enc now w = (Inr n', w')" "fs_inv C w"
  shows "good_step w w'"
  using assms(1)
proof (rule set_encryption_run)
  fix n t
  assume n: "nodes_get (w_db w) nid = Some n" and c: "(n' = n \<and> w' = w \<and> nd_encrypted n = enc) \<or>
     (\<exists>plan w1 w2. nd_encrypted n \<noteq> enc \<and> download C u nid None None False None None w = (Inr plan, w1) \<and>
       store_version C u (n\<lparr>nd_encrypted := enc\<rparr>) (dp_stream plan) (nd_content_type n) None t w1 = (Inr n', w2) \<and>
       conversion_recorded u n enc t w2 = (Inr (), w'))"
  show ?thesis
    using c
  proof (elim disjE exE conjE)
    assume "w' = w"
    then show ?thesis using assms(2) good_step_refl by (auto simp: fs_inv_def)
  next
    fix plan w1 w2
    assume dl: "download C u nid None None False None None w = (Inr plan, w1)"
      and s: "store_version C u (n\<lparr>nd_encrypted := enc\<rparr>) (dp_stream plan) (nd_content_type n) None t w1 = (Inr n', w2)"
      and e: "conversion_recorded u n enc t w2 = (Inr (), w')"
    note k = keeps_tablesD[OF keeps_tables_download dl]
    have iv: "store_inv C (w_db w1)" "fresh_ids w1"
      using fs_inv_kept[OF assms(2) keeps_tables_download dl] by (auto simp: fs_inv_def)
    have id: "nd_id n = nid" using nodes_get_Some[OF n] by simp
    have "nodes_get (w_db w1) nid = Some n" using n k by (simp add: nodes_get_def)
    then have "good_step w1 w2" using id by (intro store_version_good[OF s iv, of n]) auto
    moreover have "good_step w w1" using assms(2) by (intro kept_tables_good[OF _ keeps_tables_download dl]) (auto simp: fs_inv_def)
    ultimately have "good_step w w2" using k store_version_ids[OF s] by (intro good_step_trans[of w w1 w2]) auto
    then show ?thesis using k store_version_ids[OF s] by (intro good_step_kept[OF _ keeps_tables_conversion e]) auto
  qed
qed

lemma restore_version_good:
  assumes "restore_version C u nid vid now w = (Inr n', w')" "fs_inv C w"
  shows "good_step w w'"
proof -
  have inv: "store_inv C (w_db w)" "fresh_ids w" using assms(2) by (auto simp: fs_inv_def)
  obtain t n src w1 w2 w3 v where n: "nodes_get (w_db w) nid = Some n"
    and o: "seq (objects_copy (object_key src) (key_of (nd_owner_id n) (nd_id n) (w_uuids w (w_drawn w)))) (charge n (fv_size_bytes src) t)
             (w\<lparr>w_drawn := w_drawn w + 1\<rparr>) = (Inr (), w1)"
    and v: "v = new_version (w_uuids w (w_drawn w)) n (next_sequence (w_db w1) (nd_id n)) (fv_size_bytes src) (fv_plaintext_digest src)
         (fv_content_type src) (fv_encrypted src) t (us_subject u) (fv_seal_version_id src)" "n' = with_content v t n"
    and p: "prune_versions C n' t (w1\<lparr>w_db := nodes_update n' (versions_add v (w_db w1))\<rparr>) = (Inr (), w3)"
    and a: "audit_content u n' VERSION_RESTORED t None w3 = (Inr (), w')"
    using assms(1) unfolding restore_version_def
    by (clarsimp simp: world_ok require_node_ok require_ok resolve_version_def Let_def) blast
  have "keeps_tables (seq (objects_copy (object_key src) (key_of (nd_owner_id n) (nd_id n) (w_uuids w (w_drawn w)))) (charge n (fv_size_bytes src) t))"
    by blast
  from keeps_tablesD[OF this o] have k: "w_uuids w1 = w_uuids w" "w_drawn w < w_drawn w1" "db_users (w_db w1) = db_users (w_db w)"
    "db_nodes (w_db w1) = db_nodes (w_db w)" "db_versions (w_db w1) = db_versions (w_db w)" by auto
  have id: "nd_id n = nid" using nodes_get_Some[OF n] by simp
  have n': "nd_id n' = nid" "nd_parent_id n' = nd_parent_id n" "nd_deleted_at n' = nd_deleted_at n"
    using id by (simp_all add: v(2) with_content_def touch_def)
  have vf: "fv_id v = w_uuids w (w_drawn w)" "fv_node_id v = nd_id n'" using n' id by (simp_all add: v(1) new_version_def)
  note pr = prune_versions_run[OF p]
  have "good_step w w3"
  proof (rule version_written_good[OF inv _ n'(2,3) vf])
    show "nodes_get (w_db w) (nd_id n') = Some n" using n n' by simp
    show "db_nodes (w_db w3) = db_nodes (nodes_update n' (w_db w))" using pr k by (simp add: nodes_update_def)
    show "db_users (w_db w3) = db_users (w_db w)" using pr k by simp
    show "w_drawn w < w_drawn w3" using pr k by simp
    show "db_versions (w_db w3) = filter (\<lambda>x. fv_id x \<notin> fv_id ` set (doomed_versions C (nodes_update n' (versions_add v (w_db w1))) (nd_id n')))
        (db_versions (w_db w) @ [v])" using pr k by (simp add: nodes_update_def)
  qed
  then show ?thesis using pr k by (intro good_step_kept[OF _ keeps_tables_parts(4) a]) auto
qed

lemma download_good:
  assumes "download C u nid rh vid ra l now w = (Inr p, w')" "fs_inv C w"
  shows "good_step w w'"
  using assms by (intro kept_tables_good[OF _ keeps_tables_download]) (auto simp: fs_inv_def)

end
