(* ===== verification/CopySteps.thy ===== *)
theory CopySteps
  imports ContentSteps
begin

text \<open>
  Copying keeps the structure of the store, whatever the number of turns its loop is given, and with a
  turn for each row of the node table the loop always ends. Every copied node is one new row, with an
  identifier drawn for it, below the folder it is copied into, and at most one new version row.
\<close>

section \<open>One node\<close>

definition structured :: "world \<Rightarrow> bool" where
  "structured w \<longleftrightarrow> tree_inv (db_nodes (w_db w)) \<and> versions_wf (w_db w) \<and> roots_ok (w_db w) \<and> fresh_ids w"

definition node_added :: "uuid \<Rightarrow> uuid \<Rightarrow> world \<Rightarrow> world \<Rightarrow> bool" where
  "node_added pid nid w w' \<longleftrightarrow>
     nid = w_uuids w (w_drawn w) \<and> w_uuids w' = w_uuids w \<and> w_drawn w < w_drawn w' \<and>
     db_users (w_db w') = db_users (w_db w) \<and>
     (\<exists>r. db_nodes (w_db w') = db_nodes (w_db w) @ [r] \<and> nd_id r = nid \<and> nd_parent_id r = Some pid) \<and>
     (db_versions (w_db w') = db_versions (w_db w) \<or>
      (\<exists>v i. db_versions (w_db w') = db_versions (w_db w) @ [v] \<and> fv_node_id v = nid \<and>
         fv_id v = w_uuids w i \<and> w_drawn w < i \<and> i < w_drawn w'))"

lemma node_added_good:
  assumes "node_added pid nid w w'" "structured w" "pid \<in> nd_id ` set (db_nodes (w_db w))"
  shows "good_step w w' \<and> structured w' \<and> nid \<in> nd_id ` set (db_nodes (w_db w'))"
proof -
  obtain r where r: "db_nodes (w_db w') = db_nodes (w_db w) @ [r]" "nd_id r = nid" "nd_parent_id r = Some pid"
    and n: "nid = w_uuids w (w_drawn w)" "w_uuids w' = w_uuids w" "w_drawn w < w_drawn w'" "db_users (w_db w') = db_users (w_db w)"
    using assms(1) by (auto simp: node_added_def)
  have inv: "tree_inv (db_nodes (w_db w))" "versions_wf (w_db w)" "roots_ok (w_db w)" "fresh_ids w"
    using assms(2) by (auto simp: structured_def)
  have t: "tree_inv (db_nodes (w_db w'))"
    unfolding r(1) using inv(1,4) assms(3) r(2,3) n(1)
    by (intro tree_inv_add[where p = pid]) (auto simp: fresh_ids_def used_ids_def)
  have ro: "roots_ok (w_db w')" using inv(3) n(4) by (rule roots_ok_keep) (auto simp: r(1))
  have v: "versions_wf (w_db w') \<and> fv_id ` set (db_versions (w_db w')) \<subseteq>
      fv_id ` set (db_versions (w_db w)) \<union> w_uuids w ` {w_drawn w..<w_drawn w'}"
  proof (cases "db_versions (w_db w') = db_versions (w_db w)")
    case True
    with inv(2) show ?thesis by (auto simp: versions_wf_def r(1))
  next
    case False
    then obtain v i where "db_versions (w_db w') = db_versions (w_db w) @ [v]" "fv_node_id v = nid"
      "fv_id v = w_uuids w i" "w_drawn w < i" "i < w_drawn w'" using assms(1) by (auto simp: node_added_def)
    with inv(2,4) r(1,2) show ?thesis by (auto simp: versions_wf_def fresh_ids_def used_ids_def)
  qed
  have g: "good_step w w'" using t ro v n r(1,2) by (auto simp: good_step_def used_ids_def)
  have "w_uuids w j \<notin> used_ids (w_db w')" if "w_drawn w' \<le> j" for j
  proof
    assume "w_uuids w j \<in> used_ids (w_db w')"
    with g have "w_uuids w j \<in> used_ids (w_db w) \<union> w_uuids w ` {w_drawn w..<w_drawn w'}" by (auto simp: good_step_def)
    with inv(4) n(3) that show False by (auto simp: fresh_ids_def dest: injD)
  qed
  with inv(4) n(2) have "fresh_ids w'" by (simp add: fresh_ids_def)
  with g t ro v r show ?thesis by (auto simp: structured_def)
qed

lemma keeps_tables_copy_parts: "keeps_tables (copy_data_key C E a b s now)" "keeps_tables (charge_copy u n now)"
  unfolding copy_data_key_def charge_copy_def by (blast, (auto intro!: keeps_tables_mdb simp: quotas_update_def split: option.splits)[])

text \<open>Duplicating the content adds at most one version row, of the target.\<close>

lemma duplicate_run:
  assumes "duplicate C source target now w = (Inr (k, n), w')"
  shows "w_uuids w' = w_uuids w \<and> w_drawn w \<le> w_drawn w' \<and> db_users (w_db w') = db_users (w_db w) \<and>
     db_nodes (w_db w') = db_nodes (w_db w) \<and> nd_id n = nd_id target \<and> nd_parent_id n = nd_parent_id target \<and>
     (db_versions (w_db w') = db_versions (w_db w) \<or>
      (\<exists>v. db_versions (w_db w') = db_versions (w_db w) @ [v] \<and> fv_node_id v = nd_id target \<and>
         fv_id v = w_uuids w (w_drawn w) \<and> w_drawn w < w_drawn w'))"
proof (cases "case nd_current_version_id source of None \<Rightarrow> None | Some vid \<Rightarrow> versions_get (w_db w) vid")
  case None
  with assms show ?thesis by (auto simp: duplicate_def world_ok)
next
  case (Some orig)
  define v where "v = new_version (w_uuids w (w_drawn w)) target 1 (fv_size_bytes orig) (fv_plaintext_digest orig)
     (fv_content_type orig) (fv_encrypted orig) now (uuid_hex (nd_owner_id target)) (fv_seal_version_id orig)"
  define keys where "keys = (case (if fv_encrypted orig then cf_encryption C else None) of
               None \<Rightarrow> ret ()
             | Some E \<Rightarrow>
                bind (qdb (\<lambda>d. users_get d (nd_owner_id target))) (\<lambda>owner.
                bind (expect owner KeyUnavailableError) (\<lambda>ow.
                copy_data_key C E source target (us_subject ow) now)))"
  obtain c w1 where o: "objects_copy (object_key orig) (key_of (nd_owner_id target) (nd_id target) (w_uuids w (w_drawn w)))
        (w\<lparr>w_drawn := w_drawn w + 1\<rparr>) = (Inr c, w1)"
    and k: "keys (w1\<lparr>w_db := versions_add v (w_db w1)\<rparr>) = (Inr (), w')"
    and n: "n = target\<lparr>nd_current_version_id := Some (w_uuids w (w_drawn w)), nd_content_type := Some (fv_content_type orig)\<rparr>"
    using assms Some unfolding duplicate_def keys_def v_def by (auto simp: world_ok simp del: fun_upd_apply)
  have "keeps_tables keys" unfolding keys_def using keeps_tables_copy_parts(1) by blast
  from keeps_tablesD[OF this k] keeps_tablesD[OF keeps_tables_basic(14) o]
  show ?thesis by (auto simp: n versions_add_def v_def new_version_def)
qed

lemma post_init_id: "post_init n = Inr m \<Longrightarrow> nd_id m = nd_id n \<and> nd_parent_id m = nd_parent_id n"
  by (auto simp: post_init_def split: sum.splits if_splits)

text \<open>The last row written is the row added: the update of the new node touches no other.\<close>

lemma update_added_row:
  assumes "nid \<notin> nd_id ` set rows" "nd_id r = nid" "nd_id n = nid"
  shows "upd_row nd_id nid (apply_node n) (rows @ [r]) = rows @ [apply_node n r]"
proof -
  have "map (\<lambda>x. if nd_id x = nid then apply_node n x else x) rows = rows"
    using assms(1) by (intro map_idI) auto
  with assms(2) show ?thesis by (simp add: upd_row_def)
qed

lemma copy_one_run:
  assumes "copy_one C u source pid now name dup w = (Inr n, w')" and fresh: "fresh_ids w"
  shows "node_added pid (nd_id n) w w'"
proof -
  define m :: "(int \<times> node) use_case \<Rightarrow> node use_case" where
    "m x = bind x (\<lambda>(k, target). seq (charge_copy u k now) (seq (mdb (nodes_update (target\<lparr>nd_size_bytes := k\<rparr>))) (ret (target\<lparr>nd_size_bytes := k\<rparr>))))" for x
  obtain chosen c where c: "post_init (copy_of (w_uuids w (w_drawn w)) u source chosen pid now) = Inr c"
    and r: "(if is_file source then m (duplicate_content C source c now dup) else ret c)
        (w\<lparr>w_drawn := w_drawn w + 1, w_db := nodes_add c (w_db w)\<rparr>) = (Inr n, w')"
    using assms(1) unfolding copy_one_def m_def by (cases name) (auto simp: world_ok ensure_name_free_ok simp del: if_split)
  have id: "nd_id c = w_uuids w (w_drawn w)" "nd_parent_id c = Some pid" using post_init_id[OF c] by (simp_all add: copy_of_def)
  define w0 where "w0 = w\<lparr>w_drawn := w_drawn w + 1, w_db := nodes_add c (w_db w)\<rparr>"
  have w0: "w_uuids w0 = w_uuids w" "w_drawn w0 = w_drawn w + 1" "db_users (w_db w0) = db_users (w_db w)"
    "db_nodes (w_db w0) = db_nodes (w_db w) @ [c]" "db_versions (w_db w0) = db_versions (w_db w)"
    by (simp_all add: w0_def nodes_add_def)
  show ?thesis
  proof (cases "is_file source")
    case False
    with r have "n = c" "w' = w0" by (auto simp: op_ok w0_def)
    with id w0 show ?thesis by (auto simp: node_added_def)
  next
    case True
    with r obtain k t w1 w2 where d: "duplicate_content C source c now dup w0 = (Inr (k, t), w1)"
      and q: "charge_copy u k now w1 = (Inr (), w2)" and n: "n = t\<lparr>nd_size_bytes := k\<rparr>" and w': "w' = w2\<lparr>w_db := nodes_update n (w_db w2)\<rparr>"
      by (auto simp: m_def w0_def world_ok)
    have d': "w_uuids w1 = w_uuids w0 \<and> w_drawn w0 \<le> w_drawn w1 \<and> db_users (w_db w1) = db_users (w_db w0) \<and>
        db_nodes (w_db w1) = db_nodes (w_db w0) \<and> nd_id t = nd_id c \<and> nd_parent_id t = nd_parent_id c \<and>
        (db_versions (w_db w1) = db_versions (w_db w0) \<or>
         (\<exists>v. db_versions (w_db w1) = db_versions (w_db w0) @ [v] \<and> fv_node_id v = nd_id c \<and>
            fv_id v = w_uuids w0 (w_drawn w0) \<and> w_drawn w0 < w_drawn w1))"
      using d duplicate_run[of C source c now w0 k t w1] by (cases dup) (auto simp: duplicate_content_def op_ok)
    note q' = keeps_tablesD[OF keeps_tables_copy_parts(2) q]
    have tid: "nd_id n = nd_id c" "nd_parent_id n = Some pid" using d' id n by simp_all
    have nf: "nd_id c \<notin> nd_id ` set (db_nodes (w_db w))" using fresh id by (auto simp: fresh_ids_def used_ids_def)
    have "db_nodes (w_db w') = db_nodes (w_db w) @ [apply_node n c]"
      using update_added_row[OF nf refl tid(1)] d' q' w0(4) tid(1) by (simp add: w' nodes_update_def)
    then have "\<exists>r. db_nodes (w_db w') = db_nodes (w_db w) @ [r] \<and> nd_id r = nd_id n \<and> nd_parent_id r = Some pid"
      using tid by (auto simp: apply_node_def)
    moreover have "db_versions (w_db w') = db_versions (w_db w1)" "db_users (w_db w') = db_users (w_db w)" "w_uuids w' = w_uuids w"
      "w_drawn w1 \<le> w_drawn w'" "w_drawn w + 1 \<le> w_drawn w1" using q' d' w0 by (simp_all add: w' nodes_update_def)
    ultimately show ?thesis using d' w0 id tid unfolding node_added_def by (auto intro!: exI[of _ "w_drawn w + 1"])
  qed
qed

section \<open>The subtree\<close>

text \<open>
  What the copy has added so far: the rows it started with are still there, unchanged and in front, and no
  new row hangs below a node of the set \<open>S\<close>, which will be the subtree being copied.
\<close>

definition grown :: "uuid set \<Rightarrow> world \<Rightarrow> world \<Rightarrow> bool" where
  "grown S a b \<longleftrightarrow> good_step a b \<and> structured b \<and> w_uuids b = w_uuids a \<and> w_drawn a \<le> w_drawn b \<and>
     (\<exists>new. db_nodes (w_db b) = db_nodes (w_db a) @ new \<and> (\<forall>r\<in>set new. \<exists>p. nd_parent_id r = Some p \<and> p \<notin> S))"

lemma grown_refl: "structured w \<Longrightarrow> grown S w w"
  by (auto simp: grown_def structured_def good_step_def)

lemma grown_trans: "grown S a b \<Longrightarrow> grown S b c \<Longrightarrow> grown S a c"
  unfolding grown_def using good_step_trans[of a b c] by fastforce

lemma grown_ids: "grown S a b \<Longrightarrow> x \<in> nd_id ` set (db_nodes (w_db a)) \<Longrightarrow> x \<in> nd_id ` set (db_nodes (w_db b))"
  by (auto simp: grown_def)

lemma grown_structured: "grown S a b \<Longrightarrow> structured b"
  by (simp add: grown_def)

lemma copy_one_grown:
  assumes "copy_one C u source pid now name dup w = (Inr n, w')" "structured w"
    "pid \<in> nd_id ` set (db_nodes (w_db w)) - S" "S \<subseteq> nd_id ` set (db_nodes (w_db w))"
  shows "grown S w w' \<and> nd_id n \<in> nd_id ` set (db_nodes (w_db w')) - S"
proof -
  have fresh: "fresh_ids w" using assms(2) by (simp add: structured_def)
  note a = copy_one_run[OF assms(1) fresh]
  have "nd_id n \<notin> S" using a fresh assms(4) by (auto simp: node_added_def fresh_ids_def used_ids_def)
  then show ?thesis using a node_added_good[OF a assms(2)] assms(3) by (auto simp: grown_def node_added_def)
qed

definition copies_outside :: "uuid set \<Rightarrow> world \<Rightarrow> (node \<times> node) list \<Rightarrow> bool" where
  "copies_outside S w pending \<longleftrightarrow> (\<forall>(_, c)\<in>set pending. nd_id c \<in> nd_id ` set (db_nodes (w_db w)) - S)"

lemma copies_outside_grown: "copies_outside S a pending \<Longrightarrow> grown S a b \<Longrightarrow> copies_outside S b pending"
  unfolding copies_outside_def using grown_ids by blast

lemma copy_children_grown:
  assumes "copy_children C u now dup target cs pending w = (Inr pending', w')" "structured w"
    "target \<in> nd_id ` set (db_nodes (w_db w)) - S" "S \<subseteq> nd_id ` set (db_nodes (w_db w))" "copies_outside S w pending"
  shows "grown S w w' \<and> copies_outside S w' pending' \<and> map fst pending' = rev (filter is_folder cs) @ map fst pending"
  using assms
proof (induction cs arbitrary: pending w)
  case Nil
  then show ?case by (auto simp: op_ok grown_refl)
next
  case (Cons c cs)
  obtain n w1 where n: "copy_one C u c target now None dup w = (Inr n, w1)"
    and r: "copy_children C u now dup target cs (if is_folder c then (c, n) # pending else pending) w1 = (Inr pending', w')"
    using Cons.prems(1) by (auto simp: op_ok simp del: if_split)
  note g = copy_one_grown[OF n Cons.prems(2-4)]
  have "copies_outside S w1 (if is_folder c then (c, n) # pending else pending)"
    using copies_outside_grown[OF Cons.prems(5)] g by (auto simp: copies_outside_def)
  from Cons.IH[OF r _ _ _ this] g Cons.prems(3,4)
  have "grown S w1 w' \<and> copies_outside S w' pending' \<and>
      map fst pending' = rev (filter is_folder cs) @ map fst (if is_folder c then (c, n) # pending else pending)"
    using grown_structured grown_ids by blast
  then show ?case using g grown_trans by auto
qed

lemma copy_subtree_step:
  assumes "copy_subtree (Suc k) C u now dup ((original, copied) # pending) w = (Inr b, w')"
  obtains page pending' w1 where
    "nodes_list_children (cf_text C) (w_db w) (nd_id original) (cf_page_size_max C) None False = Inr page"
    "copy_children C u now dup (nd_id copied) (pg_items page) pending w = (Inr pending', w1)"
    "copy_subtree k C u now dup pending' w1 = (Inr b, w')"
  using assms unfolding copy_subtree.simps by (auto simp: world_ok)

lemma copy_subtree_grown:
  assumes "copy_subtree k C u now dup pending w = (Inr b, w')" "structured w"
    "S \<subseteq> nd_id ` set (db_nodes (w_db w))" "copies_outside S w pending"
  shows "grown S w w'"
  using assms
proof (induction k arbitrary: pending w)
  case 0
  then show ?case by (cases pending) (auto simp: op_ok grown_refl)
next
  case (Suc k)
  show ?case
  proof (cases pending)
    case Nil
    with Suc.prems show ?thesis by (auto simp: op_ok grown_refl)
  next
    case (Cons x rest)
    obtain o1 c1 where x: "x = (o1, c1)" by (cases x)
    have out: "nd_id c1 \<in> nd_id ` set (db_nodes (w_db w)) - S" "copies_outside S w rest"
      using Suc.prems(4) by (auto simp: Cons x copies_outside_def)
    show ?thesis
      using Suc.prems(1) unfolding Cons x
    proof (rule copy_subtree_step)
      fix page pending' w1
      assume c: "copy_children C u now dup (nd_id c1) (pg_items page) rest w = (Inr pending', w1)"
        and r: "copy_subtree k C u now dup pending' w1 = (Inr b, w')"
      note g = copy_children_grown[OF c Suc.prems(2) out(1) Suc.prems(3) out(2)]
      have "grown S w1 w'" using g Suc.prems(3) grown_ids grown_structured by (intro Suc.IH[OF r]) blast+
      then show ?thesis using g grown_trans by blast
    qed
  qed
qed

section \<open>The loop ends\<close>

text \<open>
  The folders waiting to be copied lie apart in the forest, none above another. Replacing one by its children
  keeps them apart and takes that one off what lies below them, so the loop makes at most one turn for each
  node below the source.
\<close>

definition apart :: "('a \<times> 'a) set \<Rightarrow> 'a list \<Rightarrow> bool" where
  "apart R xs \<longleftrightarrow> distinct xs \<and> (\<forall>x\<in>set xs. \<forall>y\<in>set xs. (x, y) \<in> R\<^sup>* \<longrightarrow> x = y)"

definition beneath :: "('a \<times> 'a) set \<Rightarrow> 'a list \<Rightarrow> 'a set" where
  "beneath R xs = {y. \<exists>x\<in>set xs. (y, x) \<in> R\<^sup>*}"

lemma finite_beneath: "finite R \<Longrightarrow> finite (beneath R xs)"
proof -
  assume "finite R"
  moreover have "beneath R xs \<subseteq> set xs \<union> Domain R" by (auto simp: beneath_def elim: converse_rtranclE)
  ultimately show ?thesis by (meson finite_Domain finite_UnI finite_set finite_subset)
qed

lemma up_from_child:
  assumes "single_valued R" "(c, x) \<in> R" "(c, y) \<in> R\<^sup>*" "c \<noteq> y"
  shows "(x, y) \<in> R\<^sup>*"
  using assms by (metis converse_rtranclE single_valued_def)

lemma apart_step:
  assumes R: "acyclic R" "single_valued R" and a: "apart R (x # rest)" and cs: "distinct cs" "\<forall>c\<in>set cs. (c, x) \<in> R"
  shows "apart R (cs @ rest)"
proof -
  have cyc: "(x, c) \<notin> R\<^sup>*" if "c \<in> set cs" for c using R(1) cs(2) that by (meson acyclic_def rtrancl_into_trancl2 rtrancl_into_trancl1)
  have up: "(x, y) \<in> R\<^sup>*" if "c \<in> set cs" "(c, y) \<in> R\<^sup>*" "c \<noteq> y" for c y using up_from_child[OF R(2)] cs(2) that by blast
  have down: "(y, x) \<in> R\<^sup>*" if "c \<in> set cs" "(y, c) \<in> R\<^sup>*" for c y using cs(2) that by (meson rtrancl.rtrancl_into_rtrancl)
  have ax: "x \<notin> set rest" "distinct rest" "\<And>y z. y \<in> set rest \<Longrightarrow> z \<in> set rest \<Longrightarrow> (y, z) \<in> R\<^sup>* \<Longrightarrow> y = z"
    "\<And>y. y \<in> set rest \<Longrightarrow> (x, y) \<notin> R\<^sup>*" "\<And>y. y \<in> set rest \<Longrightarrow> (y, x) \<notin> R\<^sup>*"
    using a by (auto simp: apart_def)
  have "set cs \<inter> set rest = {}" using down ax(5) by blast
  moreover have "y = z" if "y \<in> set cs \<union> set rest" "z \<in> set cs \<union> set rest" "(y, z) \<in> R\<^sup>*" for y z
    using that ax(3-5) cyc up[of y z] down[of z y] by blast
  ultimately show ?thesis using cs(1) ax(2) by (auto simp: apart_def)
qed

lemma beneath_step:
  assumes R: "acyclic R" "finite R" and a: "apart R (x # rest)" and cs: "\<forall>c\<in>set cs. (c, x) \<in> R"
  shows "card (beneath R (cs @ rest)) < card (beneath R (x # rest))"
proof (rule psubset_card_mono[OF finite_beneath[OF R(2)]])
  have "(x, c) \<notin> R\<^sup>*" if "c \<in> set cs" for c using R(1) cs that by (meson acyclic_def rtrancl_into_trancl2 rtrancl_into_trancl1)
  then have "x \<notin> beneath R (cs @ rest)" using a by (auto simp: beneath_def apart_def)
  moreover have "x \<in> beneath R (x # rest)" by (auto simp: beneath_def)
  moreover have "beneath R (cs @ rest) \<subseteq> beneath R (x # rest)"
    using cs by (auto simp: beneath_def intro: rtrancl.rtrancl_into_rtrancl)
  ultimately show "beneath R (cs @ rest) \<subset> beneath R (x # rest)" by blast
qed

lemma first_child_page:
  assumes "nodes_list_children T d fid limit None False = Inr page" "distinct (map nd_id (db_nodes d))"
  shows "distinct (map nd_id (pg_items page)) \<and> (\<forall>c\<in>set (pg_items page). c \<in> set (db_nodes d) \<and> nd_parent_id c = Some fid)"
proof -
  have p: "pg_items page = take limit (child_rows T d fid False)"
    using assms(1) by (auto simp: nodes_list_children_def paginate_def Let_def)
  have "distinct (map nd_id (child_rows T d fid False))"
    using assms(2) by (auto simp: child_rows_def distinct_map intro: inj_on_subset)
  then have "distinct (map nd_id (pg_items page))" by (simp add: p take_map[symmetric])
  moreover have "set (pg_items page) \<subseteq> set (child_rows T d fid False)" unfolding p by (rule set_take_subset)
  ultimately show ?thesis by (auto simp: child_rows_def)
qed

lemma copy_subtree_ends:
  assumes t: "tree_inv rows" and closed: "\<And>c x. (c, x) \<in> parent_rel rows \<Longrightarrow> x \<in> S \<Longrightarrow> c \<in> S"
  shows "copy_subtree k C u now dup pending w = (Inr b, w') \<Longrightarrow> structured w \<Longrightarrow> S \<subseteq> nd_id ` set (db_nodes (w_db w)) \<Longrightarrow>
    copies_outside S w pending \<Longrightarrow>
    \<exists>new. db_nodes (w_db w) = rows @ new \<and> (\<forall>r\<in>set new. \<exists>p. nd_parent_id r = Some p \<and> p \<notin> S) \<Longrightarrow>
    apart (parent_rel rows) (map nd_id (map fst pending)) \<Longrightarrow> nd_id ` set (map fst pending) \<subseteq> S \<Longrightarrow>
    card (beneath (parent_rel rows) (map nd_id (map fst pending))) \<le> k \<Longrightarrow> b"
proof (induction k arbitrary: pending w)
  case 0
  then have "beneath (parent_rel rows) (map nd_id (map fst pending)) = {}" using finite_beneath[OF finite_parent_rel] by auto
  then have "pending = []" by (cases pending) (auto simp: beneath_def)
  with "0.prems"(1) show ?case by (auto simp: op_ok)
next
  case (Suc k)
  show ?case
  proof (cases pending)
    case Nil
    with Suc.prems(1) show ?thesis by (auto simp: op_ok)
  next
    case (Cons x rest)
    obtain o1 c1 where x: "x = (o1, c1)" by (cases x)
    have out: "nd_id c1 \<in> nd_id ` set (db_nodes (w_db w)) - S" "copies_outside S w rest"
      using Suc.prems(4) by (auto simp: Cons x copies_outside_def)
    obtain new where new: "db_nodes (w_db w) = rows @ new" "\<forall>r\<in>set new. \<exists>p. nd_parent_id r = Some p \<and> p \<notin> S"
      using Suc.prems(5) by blast
    have R: "acyclic (parent_rel rows)" "single_valued (parent_rel rows)" using t parent_rel_single by (auto simp: tree_inv_def)
    show ?thesis
      using Suc.prems(1) unfolding Cons x
    proof (rule copy_subtree_step)
      fix page pending' w1
      assume p: "nodes_list_children (cf_text C) (w_db w) (nd_id o1) (cf_page_size_max C) None False = Inr page"
        and c: "copy_children C u now dup (nd_id c1) (pg_items page) rest w = (Inr pending', w1)"
        and r: "copy_subtree k C u now dup pending' w1 = (Inr b, w')"
      note g = copy_children_grown[OF c Suc.prems(2) out(1) Suc.prems(3) out(2)]
      define cs where "cs = map nd_id (rev (filter is_folder (pg_items page)))"
      have ids: "map nd_id (map fst pending') = cs @ map nd_id (map fst rest)" using g by (simp add: cs_def)
      have pg: "distinct (map nd_id (pg_items page))" "\<forall>c\<in>set (pg_items page). c \<in> set (db_nodes (w_db w)) \<and> nd_parent_id c = Some (nd_id o1)"
        using first_child_page[OF p] Suc.prems(2) by (auto simp: structured_def tree_inv_def)
      have o1: "nd_id o1 \<in> S" using Suc.prems(7) by (simp add: Cons x)
      have dist: "distinct cs" using pg(1) by (auto simp: cs_def rev_map[symmetric] distinct_map intro: inj_on_subset)
      have par: "\<forall>c\<in>set cs. (c, nd_id o1) \<in> parent_rel rows" using pg(2) new o1 by (fastforce simp: cs_def parent_rel_def)
      have ap: "apart (parent_rel rows) (nd_id o1 # map nd_id (map fst rest))" using Suc.prems(6) by (simp add: Cons x)
      show b
      proof (rule Suc.IH[OF r])
        show "structured w1" "copies_outside S w1 pending'" using g grown_structured by blast+
        show "S \<subseteq> nd_id ` set (db_nodes (w_db w1))"
          using subset_trans[OF Suc.prems(3)] grown_ids[OF conjunct1[OF g]] by auto
        show "\<exists>new. db_nodes (w_db w1) = rows @ new \<and> (\<forall>r\<in>set new. \<exists>p. nd_parent_id r = Some p \<and> p \<notin> S)"
        proof -
          obtain more' where m: "db_nodes (w_db w1) = db_nodes (w_db w) @ more'" "\<forall>r\<in>set more'. \<exists>p. nd_parent_id r = Some p \<and> p \<notin> S"
            using g by (auto simp: grown_def)
          then show ?thesis using new by (intro exI[of _ "new @ more'"]) (simp add: ball_Un)
        qed
        show "apart (parent_rel rows) (map nd_id (map fst pending'))" unfolding ids by (rule apart_step[OF R ap dist par])
        have "set cs \<subseteq> S" using par closed o1 by blast
        moreover have "nd_id ` set (map fst rest) \<subseteq> S" using Suc.prems(7) by (simp add: Cons)
        ultimately show "nd_id ` set (map fst pending') \<subseteq> S" using ids by (metis Un_least set_append set_map)
        have "card (beneath (parent_rel rows) (nd_id o1 # map nd_id (map fst rest))) \<le> Suc k" using Suc.prems(8) by (simp add: Cons x)
        with beneath_step[OF R(1) finite_parent_rel ap par]
        show "card (beneath (parent_rel rows) (map nd_id (map fst pending'))) \<le> k" unfolding ids by simp
      qed
    qed
  qed
qed

section \<open>The whole copy\<close>

lemma copy_run:
  assumes "copy k C u nid pid name dup now w = (Inr v, w')"
  obtains source dest t w1 root w2 b w3 where "nodes_get (w_db w) nid = Some source" "nodes_get (w_db w) pid = Some dest"
    "same_store w w1" "\<not> is_ancestor_of (w_db w) nid pid"
    "length (nodes_ancestors (w_db w) pid ANCESTOR_GUARD_DEPTH) + 1 < cf_max_tree_depth C"
    "copy_one C u source pid t name dup w1 = (Inr root, w2)"
    "(if is_folder source then copy_subtree k C u t dup [(source, root)] else ret True) w2 = (Inr b, w3)"
    "v = None \<longleftrightarrow> \<not> b" "if b then audit_node u root NODE_COPIED t w3 = (Inr (), w') else w' = w3"
proof -
  obtain t source r1 wa dest r2 w1 root w2 b w3 where a: "authorize C u nid VIEWER w = (Inr (source, r1), wa)"
    "authorize C u pid EDITOR wa = (Inr (dest, r2), w1)" and g: "\<not> is_ancestor_of (w_db w1) (nd_id source) (nd_id dest)"
    "length (nodes_ancestors (w_db w1) (nd_id dest) ANCESTOR_GUARD_DEPTH) + 1 < cf_max_tree_depth C"
    and c: "copy_one C u source (nd_id dest) t name dup w1 = (Inr root, w2)"
    "(if is_folder source then copy_subtree k C u t dup [(source, root)] else ret True) w2 = (Inr b, w3)"
    and e: "(if \<not> b then ret None
       else seq (flush C) (seq (audit_node u root NODE_COPIED t) (bind (view root OWNER) (\<lambda>v. ret (Some v))))) w3 = (Inr v, w')"
    using assms unfolding copy_def ensure_folder_def
    by (clarsimp simp: world_ok ensure_depth_ok simp del: if_split)
  have s: "same_store w wa" "same_store wa w1" "nodes_get (w_db w) nid = Some source" "nodes_get (w_db wa) pid = Some dest"
    using authorize_facts[OF a(1)] authorize_facts[OF a(2)] by auto
  have "nd_id source = nid" "nd_id dest = pid" using nodes_get_Some s(3,4) by blast+
  moreover have "v = None \<longleftrightarrow> \<not> b" "if b then audit_node u root NODE_COPIED t w3 = (Inr (), w') else w' = w3"
    using e by (auto simp: world_ok view_ok split: if_splits)
  ultimately show thesis using s g c by (intro that[of source dest w1 t root w2 b w3]) (auto simp: same_store_def)
qed

lemma same_store_structured:
  "same_store w w' \<Longrightarrow> structured w \<Longrightarrow> structured w'" "same_store w w' \<Longrightarrow> structured w \<Longrightarrow> good_step w w'"
  by (auto simp: same_store_def structured_def good_step_def fresh_ids_def)

lemma keeps_tables_audit_node: "keeps_tables (audit_node u n a t)"
  unfolding audit_node_def by blast

lemma copy_grown:
  assumes "structured w" "copy_one C u source pid t name dup w = (Inr root, w1)"
    "(if is_folder source then copy_subtree k C u t dup [(source, root)] else ret True) w1 = (Inr b, w2)"
    "pid \<in> nd_id ` set (db_nodes (w_db w)) - S" "S \<subseteq> nd_id ` set (db_nodes (w_db w))"
  shows "grown S w w2"
proof -
  have g: "grown S w w1" "copies_outside S w1 [(source, root)]"
    using copy_one_grown[OF assms(2,1,4,5)] by (auto simp: copies_outside_def)
  then have "grown S w1 w2" if "is_folder source"
    using assms(3,5) that grown_structured grown_ids by (intro copy_subtree_grown[where pending = "[(source, root)]"]) auto
  moreover have "w2 = w1" if "\<not> is_folder source" using assms(3) that by (auto simp: op_ok)
  ultimately show ?thesis using g grown_trans by blast
qed

lemma copy_good:
  assumes "copy k C u nid pid name dup now w = (Inr v, w')" "fs_inv C w"
  shows "good_step w w'"
  using assms(1)
proof (rule copy_run)
  fix source dest t w1 root w2 b w3
  assume d: "nodes_get (w_db w) pid = Some dest" and s: "same_store w w1"
    and c: "copy_one C u source pid t name dup w1 = (Inr root, w2)"
    "(if is_folder source then copy_subtree k C u t dup [(source, root)] else ret True) w2 = (Inr b, w3)"
    and e: "if b then audit_node u root NODE_COPIED t w3 = (Inr (), w') else w' = w3"
  have st: "structured w" using assms(2) by (auto simp: structured_def fs_inv_def store_inv_def)
  have "pid \<in> nd_id ` set (db_nodes (w_db w1))" using nodes_get_Some[OF d] s by (auto simp: same_store_def)
  then have "grown {} w1 w3" using same_store_structured(1)[OF s st] by (intro copy_grown[OF _ c]) auto
  then have g: "good_step w w3" "w_drawn w \<le> w_drawn w3"
    using same_store_structured(2)[OF s st] s good_step_trans[of w w1 w3] by (auto simp: grown_def same_store_def)
  then show ?thesis using e good_step_kept[OF g(1) keeps_tables_audit_node _ g(2)] by (cases b) auto
qed

text \<open>One turn for each row of the node table is enough.\<close>

lemma copy_finishes:
  assumes "copy k C u nid pid name dup now w = (Inr v, w')" "fs_inv C w"
    "cf_max_tree_depth C \<le> CYCLE_GUARD_DEPTH" "length (db_nodes (w_db w)) \<le> k"
  shows "v \<noteq> None"
  using assms(1)
proof (rule copy_run)
  fix source dest t w1 root w2 b w3
  let ?rows = "db_nodes (w_db w)"
  define S where "S = beneath (parent_rel ?rows) [nid]"
  assume n: "nodes_get (w_db w) nid = Some source" "nodes_get (w_db w) pid = Some dest" and s: "same_store w w1"
    and nc: "\<not> is_ancestor_of (w_db w) nid pid" "length (nodes_ancestors (w_db w) pid ANCESTOR_GUARD_DEPTH) + 1 < cf_max_tree_depth C"
    and c: "copy_one C u source pid t name dup w1 = (Inr root, w2)"
    "(if is_folder source then copy_subtree k C u t dup [(source, root)] else ret True) w2 = (Inr b, w3)" and v: "v = None \<longleftrightarrow> \<not> b"
  have t: "tree_inv ?rows" and st: "structured w" using assms(2) by (auto simp: structured_def fs_inv_def store_inv_def)
  have ids: "nd_id source = nid" "nid \<in> nd_id ` set ?rows" "pid \<in> nd_id ` set ?rows" "db_nodes (w_db w1) = ?rows"
    using nodes_get_Some[OF n(1)] nodes_get_Some[OF n(2)] s by (auto simp: same_store_def)
  have sub: "S \<subseteq> nd_id ` set ?rows" using ids(2) by (auto simp: S_def beneath_def parent_rel_def elim: converse_rtranclE)
  have "(pid, nid) \<notin> (parent_rel ?rows)\<^sup>*" by (rule not_ancestor_not_below[OF t assms(3) ids(3) nc])
  then have out: "pid \<in> nd_id ` set ?rows - S" using ids(3) by (auto simp: S_def beneath_def)
  note g = copy_one_grown[OF c(1) same_store_structured(1)[OF s st], unfolded ids(4), OF out sub]
  have b if "is_folder source"
  proof (rule copy_subtree_ends[OF t])
    show "copy_subtree k C u t dup [(source, root)] w2 = (Inr b, w3)" using c(2) that by simp
    show "structured w2" "copies_outside S w2 [(source, root)]" using g grown_structured by (auto simp: copies_outside_def)
    show "S \<subseteq> nd_id ` set (db_nodes (w_db w2))" using g grown_ids sub ids(4) by (metis subset_iff)
    show "\<exists>new. db_nodes (w_db w2) = ?rows @ new \<and> (\<forall>r\<in>set new. \<exists>p. nd_parent_id r = Some p \<and> p \<notin> S)"
      using g ids(4) by (simp add: grown_def)
    show "apart (parent_rel ?rows) (map nd_id (map fst [(source, root)]))" by (simp add: apart_def)
    show "nd_id ` set (map fst [(source, root)]) \<subseteq> S" using ids(1) by (simp add: S_def beneath_def)
    have "card S \<le> card (nd_id ` set ?rows)" using sub by (intro card_mono) auto
    also have "\<dots> \<le> length ?rows" by (metis card_length length_map set_map)
    finally show "card (beneath (parent_rel ?rows) (map nd_id (map fst [(source, root)]))) \<le> k"
      using assms(4) ids(1) by (simp add: S_def)
  next
    fix c x assume "(c, x) \<in> parent_rel ?rows" "x \<in> S"
    then show "c \<in> S" by (auto simp: S_def beneath_def intro: converse_rtrancl_into_rtrancl)
  qed
  moreover have b if "\<not> is_folder source" using c(2) that by (auto simp: op_ok)
  ultimately show ?thesis using v by blast
qed

end
