(* ===== verification/SystemInvariants.thy ===== *)
theory SystemInvariants
  imports CopySteps
begin

text \<open>
  Every request keeps the invariant of the store: the operations' good steps, the transaction around
  them, and the interpretation of the locale of transition systems that carries the invariant to every
  sequence of requests.
\<close>

section \<open>Every request keeps the invariant\<close>

lemma void_ok: "void m w = (Inr x, w') \<longleftrightarrow> (\<exists>y. m w = (Inr y, w'))"
  by (auto simp: void_def op_ok)

lemma perform_good:
  assumes "perform C u req w = (Inr (), w')" "fs_inv C w" "u \<in> set (db_users (w_db w))" "cf_max_tree_depth C \<le> CYCLE_GUARD_DEPTH"
  shows "good_step w w'"
  using assms
  by (cases req)
    (auto simp: void_ok world_ok fs_inv_def[of C w] dest: replace_tags_result replace_metadata_result patch_tags_result patch_metadata_result
      intro: create_folder_good[OF _ assms(2)] rename_good move_good delete_good restore_good purge_good empty_trash_good label_result_good
        upload_good[OF _ assms(2)] replace_good[OF _ assms(2)] set_encryption_good[OF _ assms(2)] restore_version_good[OF _ assms(2)]
        download_good[OF _ assms(2)] copy_good[OF _ assms(2)])

lemma transaction_cases:
  "transaction C m w = (r, w') \<Longrightarrow>
   (\<exists>x. r = Inr x \<and> m w = (Inr x, w') \<and> integrity_error (cf_text C) (w_db w') = None) \<or>
   (\<exists>e w1. r = Inl e \<and> w' = w1\<lparr>w_db := w_db w\<rparr> \<and> bind m (\<lambda>x. bind (flush C) (\<lambda>_. ret x)) w = (Inl e, w1))"
  by (auto simp: transaction_def op_ok flush_ok split: prod.splits sum.splits)

lemma fresh_ids_step:
  assumes "fresh_ids w" "w_uuids w' = w_uuids w" "w_drawn w \<le> w_drawn w'"
    "used_ids (w_db w') \<subseteq> used_ids (w_db w) \<union> w_uuids w ` {w_drawn w..<w_drawn w'}"
  shows "fresh_ids w'"
proof -
  have "w_uuids w i \<notin> used_ids (w_db w')" if i: "w_drawn w' \<le> i" for i
  proof
    assume "w_uuids w i \<in> used_ids (w_db w')"
    with assms(4) have "w_uuids w i \<in> used_ids (w_db w) \<union> w_uuids w ` {w_drawn w..<w_drawn w'}" by blast
    with assms(1,3) i show False by (auto simp: fresh_ids_def dest: injD)
  qed
  with assms(1,2) show ?thesis by (simp add: fresh_ids_def)
qed

lemma serve_inv:
  assumes "fs_inv C w" "cf_max_tree_depth C \<le> CYCLE_GUARD_DEPTH"
  shows "fs_inv C (serve C req w)"
proof (cases "users_get (w_db w) (fst req)")
  case (Some u)
  then have u: "u \<in> set (db_users (w_db w))" using row_by_Some by (fastforce simp: users_get_def)
  obtain r w' where t: "transaction C (perform C u (snd req)) w = (r, w')" by fastforce
  have "ids_mono (bind (perform C u (snd req)) (\<lambda>x. bind (flush C) (\<lambda>_. ret x)))"
    using ids_mono_perform by blast
  note mono = this[unfolded ids_mono_def, rule_format] ids_mono_perform[unfolded ids_mono_def, rule_format]
  have "fs_inv C w'"
    using transaction_cases[OF t]
  proof (elim disjE exE conjE)
    fix x assume m: "perform C u (snd req) w = (Inr x, w')" and i: "integrity_error (cf_text C) (w_db w') = None"
    have "good_step w w'" using perform_good[OF _ assms(1) u assms(2)] m by simp
    then show ?thesis using mono(2)[OF m] integrity_ok[OF i] assms(1)
      by (auto simp: fs_inv_def store_inv_def good_step_def intro!: fresh_ids_step[of w w'])
  next
    fix e w1 assume "w' = w1\<lparr>w_db := w_db w\<rparr>"
      and m: "bind (perform C u (snd req)) (\<lambda>x. bind (flush C) (\<lambda>_. ret x)) w = (Inl e, w1)"
    with mono(1)[OF m] assms(1) show ?thesis by (auto simp: fs_inv_def fresh_ids_def)
  qed
  with Some t show ?thesis by (simp add: serve_def)
qed (use assms in \<open>simp add: serve_def\<close>)

definition served_inv :: "config \<Rightarrow> world \<Rightarrow> bool" where
  "served_inv C w \<longleftrightarrow> cf_max_tree_depth C \<le> CYCLE_GUARD_DEPTH \<and> fs_inv C w"

interpretation fs: transition_system "serve C" "served_inv C" for C
  by unfold_locales (simp add: served_inv_def serve_inv)

end
