(* ===== verification/TrashRoundTrip.thy ===== *)
theory TrashRoundTrip
  imports NodeProgress SystemInvariants
begin

text \<open>
  Deleting a node and restoring it: the restore undoes the batch the delete stamped, no more and no
  less, and the bytes return to the bucket they came from.
\<close>

section \<open>The walk down a table with the same shape\<close>

lemma children_of_map:
  "(\<And>r. nd_id (f r) = nd_id r \<and> nd_parent_id (f r) = nd_parent_id r) \<Longrightarrow>
   children_of (map f rows) ids = map f (children_of rows ids)"
  by (simp add: children_of_def filter_map comp_def)

lemma subtree_levels_map:
  assumes "\<And>r. nd_id (f r) = nd_id r \<and> nd_parent_id (f r) = nd_parent_id r"
  shows "subtree_levels (map f rows) k (map f level) = map f (subtree_levels rows k level)"
  using assms by (induction k arbitrary: level) (simp_all add: children_of_map comp_def)

lemma descendants_map:
  assumes "\<And>r. nd_id (f r) = nd_id r \<and> nd_parent_id (f r) = nd_parent_id r" "db_nodes d' = map f (db_nodes d)"
  shows "nodes_descendants d' nid k True = map f (nodes_descendants d nid k True)"
  using assms by (simp add: nodes_descendants_def children_of_map subtree_levels_map)

lemma row_by_map: "(\<And>r. key (f r) = key r) \<Longrightarrow> row_by key k (map f rows) = map_option f (row_by key k rows)"
  by (induction rows) auto

lemma chain_up_map:
  assumes "\<And>r. nd_id (f r) = nd_id r \<and> nd_parent_id (f r) = nd_parent_id r"
  shows "chain_up (map f rows) k (f n) = map f (chain_up rows k n)"
  using assms by (induction k arbitrary: n) (auto simp: row_by_map split: option.splits)

lemma depth_le_map:
  "(\<And>r. nd_id (f r) = nd_id r \<and> nd_parent_id (f r) = nd_parent_id r) \<Longrightarrow> depth_le (map f rows) k = depth_le rows k"
  using chain_up_map[of f] by (simp add: depth_le_def del: chain_up.simps)

lemma filter_map_eq:
  "(\<And>x. x \<in> set xs \<Longrightarrow> P (f x) = Q x \<and> (Q x \<longrightarrow> f x = g x)) \<Longrightarrow> filter P (map f xs) = map g (filter Q xs)"
  by (induction xs) auto

lemma soft_delete_all_Inr:
  "soft_delete_all t ns = Inr ms \<Longrightarrow> \<forall>n\<in>set ns. \<not> is_deleted n \<Longrightarrow>
   ms = map (trash_row t) ns"
  by (induction ns arbitrary: ms) (auto simp: soft_delete_def trash_row_def touch_def split: sum.splits if_splits)

section \<open>What a restore brings back\<close>

definition restored_by :: "node list \<Rightarrow> uuid \<Rightarrow> datetime \<Rightarrow> node \<Rightarrow> bool" where
  "restored_by rows nid batch r \<longleftrightarrow> nd_deleted_at r = Some batch \<and> (nd_id r, nid) \<in> (parent_rel rows)\<^sup>*"

lemma restore_rows:
  assumes inv: "tree_inv (db_nodes d)" "depth_le (db_nodes d) (Suc CYCLE_GUARD_DEPTH)"
    and row: "nodes_get d nid = Some row" "nd_deleted_at row = Some batch"
    and run: "restore_subtree nid t d = (cleared, d1)"
  shows "db_nodes d1 = map (\<lambda>r. if restored_by (db_nodes d) nid batch r then restore_node t r else r) (db_nodes d)"
    and "cleared = map (restore_node t) (row # filter (\<lambda>n. nd_deleted_at n = Some batch) (nodes_descendants d nid CYCLE_GUARD_DEPTH True))"
    and "db_quotas d1 = db_quotas d"
proof -
  let ?desc = "nodes_descendants d nid CYCLE_GUARD_DEPTH True"
  let ?cl = "row # filter (\<lambda>n. nd_deleted_at n = Some batch) ?desc"
  have mem: "nd_id r \<in> nd_id ` set ?cl \<and> nd_deleted_at r = Some batch \<longleftrightarrow> restored_by (db_nodes d) nid batch r"
    if r: "r \<in> set (db_nodes d)" for r
  proof -
    have sub: "set (row # ?desc) \<subseteq> set (db_nodes d)"
      using nodes_get_Some[OF row(1)] descendants_sound by auto
    then have "nd_id r \<in> nd_id ` set (row # ?desc) \<longleftrightarrow> r \<in> set (row # ?desc)"
      using same_row[OF inv(1) r] by blast
    moreover have "nd_id r \<in> nd_id ` set ?cl \<longleftrightarrow> r \<in> set ?cl" using same_row[OF inv(1) r] sub by auto
    ultimately show ?thesis using at_or_below[OF inv row(1) r] row(2) by (auto simp: restored_by_def)
  qed
  have "db_nodes d1 = update_where (\<lambda>r. nd_id r \<in> nd_id ` set ?cl \<and> nd_deleted_at r = Some batch) (restore_node t) (db_nodes d)"
    using run row by (auto simp: restore_subtree_def Let_def restore_node_def[abs_def] touch_def)
  then show "db_nodes d1 = map (\<lambda>r. if restored_by (db_nodes d) nid batch r then restore_node t r else r) (db_nodes d)"
    using mem by (simp add: update_where_def)
  show "cleared = map (restore_node t) ?cl" "db_quotas d1 = db_quotas d"
    using run row by (auto simp: restore_subtree_def Let_def)
qed

section \<open>Delete, then restore\<close>

text \<open>A row up to its revision counter and its modification time.\<close>

definition core :: "node \<Rightarrow> node" where
  "core r = r\<lparr>nd_updated_at := 0, nd_revision := 0\<rparr>"

lemma core_restore_trash: "nd_deleted_at r = None \<Longrightarrow> core (restore_node s (trash_row t r)) = core r"
  by (simp add: core_def restore_node_def trash_row_def touch_def)

lemma trash_row_keeps [simp]: "nd_id (trash_row t r) = nd_id r" "nd_parent_id (trash_row t r) = nd_parent_id r"
  "nd_deleted_at (trash_row t r) = Some t" "nd_size_bytes (trash_row t r) = nd_size_bytes r" "is_file (trash_row t r) = is_file r"
  "nd_owner_id (trash_row t r) = nd_owner_id r" "is_deleted (trash_row t r)"
  by (simp_all add: trash_row_def is_file_def is_deleted_def)

lemma restore_node_keeps [simp]: "nd_id (restore_node t r) = nd_id r" "nd_parent_id (restore_node t r) = nd_parent_id r"
  "nd_size_bytes (restore_node t r) = nd_size_bytes r" "is_file (restore_node t r) = is_file r"
  "nd_owner_id (restore_node t r) = nd_owner_id r" "nd_deleted_at (restore_node t r) = None"
  by (simp_all add: restore_node_def touch_def is_file_def)

lemma delete_restore_rows:
  assumes inv: "tree_inv (db_nodes d)" "depth_le (db_nodes d) (Suc CYCLE_GUARD_DEPTH)"
    and row: "nodes_get d nid = Some row" "\<not> is_deleted row"
    and fresh: "\<forall>r\<in>set (db_nodes d). nd_deleted_at r \<noteq> Some t"
    and del: "soft_delete_subtree nid t d = (Inr trashed, d1)"
    and d1': "db_nodes d1' = db_nodes d1" and res: "restore_subtree nid s d1' = (cleared, d2)"
  shows "map core (db_nodes d2) = map core (db_nodes d)"
    and "file_bytes cleared = file_bytes trashed"
    and "nodes_get d2 nid = Some (restore_node s (trash_row t row))"
proof -
  let ?f = "\<lambda>r. if trashed_by (db_nodes d) nid r then trash_row t r else r"
  let ?desc = "nodes_descendants d nid CYCLE_GUARD_DEPTH True"
  have rows1: "db_nodes d1 = map ?f (db_nodes d)"
    and tr: "Inr trashed = soft_delete_all t (row # filter (\<lambda>n. \<not> is_deleted n) ?desc)"
    using soft_delete_rows[OF inv row del] by auto
  have shape: "shape (db_nodes d1') = shape (db_nodes d)" using soft_delete_shape[OF del] d1' by simp
  have inv1: "tree_inv (db_nodes d1')" using shape inv(1) tree_inv_cong by metis
  have rel: "parent_rel (db_nodes d1') = parent_rel (db_nodes d)" using shape by (simp add: parent_rel_shape)
  have nid: "row \<in> set (db_nodes d)" "nd_id row = nid" using nodes_get_Some[OF row(1)] by auto
  have trow: "trashed_by (db_nodes d) nid row" using row(2) nid by (simp add: trashed_by_def)
  have row1: "nodes_get d1' nid = Some (trash_row t row)"
    using nid trow rows1 d1' nodes_get_iff[OF inv1] by force
  have deep1: "depth_le (db_nodes d1') (Suc CYCLE_GUARD_DEPTH)"
    unfolding d1' rows1 using inv(2) by (subst depth_le_map) auto
  note r = restore_rows[OF inv1 deep1 row1 _ res, of t, simplified]
  have undone: "restored_by (db_nodes d1') nid t (?f x) = trashed_by (db_nodes d) nid x" if "x \<in> set (db_nodes d)" for x
    using that fresh by (auto simp: restored_by_def rel trashed_by_def)
  have rows2: "db_nodes d2 = map (\<lambda>r. if trashed_by (db_nodes d) nid r then restore_node s (trash_row t r) else r) (db_nodes d)"
    unfolding r(1) d1' rows1 using undone by (auto simp: d1' rows1)
  show "map core (db_nodes d2) = map core (db_nodes d)"
    unfolding rows2 by (auto simp: trashed_by_def is_deleted_def core_restore_trash)
  have "restore_node s (trash_row t row) \<in> set (db_nodes d2)" unfolding rows2 using nid(1) trow by force
  moreover have "tree_inv (db_nodes d2)" using restore_subtree_shape[OF res] inv1 tree_inv_cong by metis
  ultimately show "nodes_get d2 nid = Some (restore_node s (trash_row t row))"
    using nid(2) by (simp add: nodes_get_iff)
  have desc1: "nodes_descendants d1' nid CYCLE_GUARD_DEPTH True = map ?f ?desc"
    by (rule descendants_map) (auto simp: d1' rows1)
  have in_desc: "trashed_by (db_nodes d) nid r \<longleftrightarrow> \<not> is_deleted r" "r \<in> set (db_nodes d)" if "r \<in> set ?desc" for r
    using descendants_sound[OF that] by (auto simp: trashed_by_def)
  have "filter (\<lambda>n. nd_deleted_at n = Some t) (map ?f ?desc) = map (trash_row t) (filter (\<lambda>n. \<not> is_deleted n) ?desc)"
    using in_desc fresh by (intro filter_map_eq) auto
  then have "cleared = map (restore_node s) (map (trash_row t) (row # filter (\<lambda>n. \<not> is_deleted n) ?desc))"
    using r(2) desc1 by simp
  moreover have "trashed = map (trash_row t) (row # filter (\<lambda>n. \<not> is_deleted n) ?desc)"
    using soft_delete_all_Inr[OF tr[symmetric]] row(2) by simp
  ultimately show "file_bytes cleared = file_bytes trashed"
    by (simp add: file_bytes_def filter_map comp_def)
qed

lemma same_parent: "nd_parent_id (r :: node) = Some a \<Longrightarrow> r\<lparr>nd_parent_id := Some a\<rparr> = r"
  by (cases r) simp

lemma update_same_row:
  assumes "tree_inv (db_nodes d)" "nodes_get d (nd_id m) = Some m"
  shows "db_nodes (nodes_update m d) = db_nodes d"
proof -
  have "apply_node m r = r" if "r \<in> set (db_nodes d)" "nd_id r = nd_id m" for r
    using same_row[OF assms(1) that(1)] nodes_get_Some[OF assms(2)] that(2) by (auto simp: apply_node_def)
  then show ?thesis by (auto simp: nodes_update_def upd_row_def intro: map_idI)
qed

lemma quotas_get_user: "quotas_get d ow = Some q \<Longrightarrow> qu_user_id q = ow"
  by (auto simp: quotas_get_def dest: row_by_Some)

lemma bytes_moved_quota:
  assumes "quotas_get d ow = Some q" "0 < n"
  shows "quotas_get (bytes_moved ow n t b d) ow = Some (if b then move_to_trash n t q else restore_from_trash n t q)"
proof -
  have "qu_user_id (if b then move_to_trash n t q else restore_from_trash n t q) = ow"
    using quotas_get_user[OF assms(1)] by (simp add: quota_defs)
  then show ?thesis using assms by (auto simp: bytes_moved_def quotas_get_update)
qed

text \<open>Moving bytes to the trash and back leaves the quota row as it was, but for its stamp.\<close>

lemma bytes_there_and_back:
  assumes q: "quotas_get d ow = Some q" "quota_inv q" "n \<le> qu_live_bytes q"
    and d1: "db_quotas d1 = db_quotas (bytes_moved ow n t True d)" and d2: "db_quotas d2 = db_quotas (bytes_moved ow n s False d1)"
  shows "\<exists>x. quotas_get d2 ow = Some (q\<lparr>qu_updated_at := x\<rparr>)"
proof (cases "0 < n")
  case True
  have "quotas_get d1 ow = Some (move_to_trash n t q)"
    using bytes_moved_quota[OF q(1) True, of t True] d1 by (simp add: quotas_get_def)
  then have "quotas_get d2 ow = Some (restore_from_trash n s (move_to_trash n t q))"
    using bytes_moved_quota[OF _ True, of d1 ow _ s False] d2 by (simp add: quotas_get_def)
  then show ?thesis using trash_then_restore[of q n s t] q True by (auto simp: quota_inv_def)
next
  case False
  then have "quotas_get d2 ow = Some q" using q(1) d1 d2 by (simp add: bytes_moved_def quotas_get_def)
  then show ?thesis by (intro exI[of _ "qu_updated_at q"]) simp
qed

lemma core_simps [simp]: "nd_id (core r) = nd_id r" "nd_parent_id (core r) = nd_parent_id r"
  by (simp_all add: core_def)

definition live_subtree :: "db \<Rightarrow> uuid \<Rightarrow> node list" where
  "live_subtree d nid =
     (case nodes_get d nid of
        None \<Rightarrow> []
      | Some row \<Rightarrow> row # filter (\<lambda>n. \<not> is_deleted n) (nodes_descendants d nid CYCLE_GUARD_DEPTH True))"

lemma bytes_moved_cong: "db_quotas d = db_quotas d' \<Longrightarrow> db_quotas (bytes_moved ow n t b d) = db_quotas (bytes_moved ow n t b d')"
  by (auto simp: bytes_moved_def quotas_get_def quotas_update_def split: option.splits)

lemma trashed_bytes:
  assumes "tree_inv (db_nodes d)" "depth_le (db_nodes d) (Suc CYCLE_GUARD_DEPTH)" "nodes_get d nid = Some row" "\<not> is_deleted row"
    "soft_delete_subtree nid t d = (Inr trashed, d1)"
  shows "trashed = map (trash_row t) (live_subtree d nid)" "file_bytes trashed = file_bytes (live_subtree d nid)"
proof -
  have "Inr trashed = soft_delete_all t (live_subtree d nid)"
    using soft_delete_rows[OF assms(1-5)] assms(3) by (simp add: live_subtree_def)
  then show t: "trashed = map (trash_row t) (live_subtree d nid)"
    using assms(3,4) by (intro soft_delete_all_Inr) (auto simp: live_subtree_def)
  then show "file_bytes trashed = file_bytes (live_subtree d nid)"
    by (simp add: file_bytes_def filter_map comp_def)
qed

text \<open>A delete leaves the parent of the deleted node as it was.\<close>

lemma parent_untouched:
  assumes inv: "tree_inv (db_nodes d)" "depth_le (db_nodes d) (Suc CYCLE_GUARD_DEPTH)" "live_inv (db_nodes d)"
    and row: "nodes_get d nid = Some row" "\<not> is_deleted row" "nd_parent_id row = Some a"
    and del: "soft_delete_subtree nid t d = (x, d1)" and d1': "db_nodes d1' = db_nodes d1"
  shows "\<exists>q. nodes_get d1' a = Some q \<and> \<not> is_deleted q"
proof -
  have nid: "row \<in> set (db_nodes d)" "nd_id row = nid" using nodes_get_Some[OF row(1)] by auto
  with inv(1) row(3) obtain q where q: "q \<in> set (db_nodes d)" "nd_id q = a" by (force simp: tree_inv_def)
  have e: "(nid, a) \<in> parent_rel (db_nodes d)" using nid row(3) by (auto simp: parent_rel_def)
  have "(a, nid) \<notin> (parent_rel (db_nodes d))\<^sup>*"
  proof
    assume "(a, nid) \<in> (parent_rel (db_nodes d))\<^sup>*"
    with e have "(nid, nid) \<in> (parent_rel (db_nodes d))\<^sup>+" by (meson rtrancl_into_trancl2)
    with inv(1) show False by (auto simp: tree_inv_def acyclic_def)
  qed
  then have "\<not> trashed_by (db_nodes d) nid q" using q by (simp add: trashed_by_def)
  then have "q \<in> set (db_nodes d1')"
    using soft_delete_rows[OF inv(1,2) row(1,2) del] d1' q(1) by (force simp: image_iff)
  moreover have "tree_inv (db_nodes d1')" using soft_delete_shape[OF del] inv(1) d1' tree_inv_cong by metis
  moreover have "\<not> is_deleted q" using inv(3) nid q row(2,3) by (auto simp: live_inv_def)
  ultimately show ?thesis using q(2) by (auto simp: nodes_get_iff)
qed

text \<open>The state a delete leaves, as the restore of the same node finds it.\<close>

lemma delete_aftermath:
  assumes del: "delete C u nid im now w = (Inr k, w1)"
    and inv: "tree_inv (db_nodes (w_db w))" "depth_le (db_nodes (w_db w)) (Suc CYCLE_GUARD_DEPTH)" "live_inv (db_nodes (w_db w))"
    and row: "nodes_get (w_db w) nid = Some row"
  obtains t trashed d1 a where "t = (case now of None \<Rightarrow> w_clock w | Some t \<Rightarrow> t)" "\<not> is_deleted row"
    "soft_delete_subtree nid t (w_db w) = (Inr trashed, d1)" "db_nodes (w_db w1) = db_nodes d1"
    "audited (bytes_moved (nd_owner_id row) (file_bytes trashed) t True d1) (w_db w1)" "tree_inv (db_nodes (w_db w1))"
    "nodes_get (w_db w1) nid = Some (trash_row t row)" "nd_parent_id row = Some a"
    "\<And>u'. restore_destination (w_db w1) u' (trash_row t row) = a"
  using del
proof (rule delete_facts)
  fix n t trashed d1
  assume n: "nodes_get (w_db w) nid = Some n" "\<not> is_deleted n" "\<not> is_root n"
    and s: "soft_delete_subtree nid t (w_db w) = (Inr trashed, d1)" and t: "t = (case now of None \<Rightarrow> w_clock w | Some t \<Rightarrow> t)"
    and d: "audited (bytes_moved (nd_owner_id n) (file_bytes trashed) t True d1) (w_db w1)"
  from n(1) row have nr: "n = row" by simp
  have db1: "db_nodes (w_db w1) = db_nodes d1" using audited_nodes[OF d] by simp
  have inv1: "tree_inv (db_nodes (w_db w1))" using soft_delete_shape[OF s] inv(1) db1 tree_inv_cong by metis
  obtain a where a: "nd_parent_id row = Some a" using n(3) nr by (auto simp: is_root_def)
  have "trash_row t row \<in> set (db_nodes (w_db w1))"
    using soft_delete_rows[OF inv(1,2) n(1,2) s] nodes_get_Some[OF row] n(2) nr db1
    by (force simp: trashed_by_def image_iff)
  then have g: "nodes_get (w_db w1) nid = Some (trash_row t row)"
    using nodes_get_iff[OF inv1] nodes_get_Some[OF row] by simp
  have "restore_destination (w_db w1) u' (trash_row t row) = a" for u'
    using parent_untouched[OF inv n(1,2) _ s db1, of a] a nr nodes_get_Some[of "w_db w1" a]
    by (auto simp: restore_destination_def)
  with t s db1 d inv1 g a n nr show thesis by (intro that[of t trashed d1 a]) auto
qed

lemma delete_restore:
  assumes del: "delete C u nid im now w = (Inr k, w1)" and res: "restore C u' nid now' w1 = (Inr v, w2)"
    and inv: "tree_inv (db_nodes (w_db w))" "depth_le (db_nodes (w_db w)) (Suc CYCLE_GUARD_DEPTH)" "live_inv (db_nodes (w_db w))"
    and fresh: "\<forall>r\<in>set (db_nodes (w_db w)). nd_deleted_at r \<noteq> Some (case now of None \<Rightarrow> w_clock w | Some t \<Rightarrow> t)"
    and row: "nodes_get (w_db w) nid = Some row"
  shows "map core (db_nodes (w_db w2)) = map core (db_nodes (w_db w)) \<and>
    (\<forall>q. quotas_get (w_db w) (nd_owner_id row) = Some q \<longrightarrow> quota_inv q \<longrightarrow>
      file_bytes (live_subtree (w_db w) nid) \<le> qu_live_bytes q \<longrightarrow>
      (\<exists>x. quotas_get (w_db w2) (nd_owner_id row) = Some (q\<lparr>qu_updated_at := x\<rparr>)))"
proof -
  obtain t trashed d1 a where t: "t = (case now of None \<Rightarrow> w_clock w | Some t \<Rightarrow> t)" and n: "\<not> is_deleted row"
    and s: "soft_delete_subtree nid t (w_db w) = (Inr trashed, d1)" and db1: "db_nodes (w_db w1) = db_nodes d1"
    and d: "audited (bytes_moved (nd_owner_id row) (file_bytes trashed) t True d1) (w_db w1)"
    and inv1: "tree_inv (db_nodes (w_db w1))" and g: "nodes_get (w_db w1) nid = Some (trash_row t row)"
    and a: "nd_parent_id row = Some a" and dest: "\<And>u'. restore_destination (w_db w1) u' (trash_row t row) = a"
    by (rule delete_aftermath[OF del inv row]) blast
  show ?thesis using res
  proof (rule restore_facts)
    fix n' s' cleared d2 p and m :: node
    assume r: "nodes_get (w_db w1) nid = Some n'" "restore_subtree nid s' (w_db w1) = (cleared, d2)" "nodes_get d2 nid = Some m"
      "p = restore_destination (w_db w1) u' n'"
      and e: "audited (bytes_moved (nd_owner_id m) (file_bytes cleared) s' False (nodes_update (m\<lparr>nd_parent_id := Some p\<rparr>) d2)) (w_db w2)"
    note rows = delete_restore_rows[OF inv(1,2) row n fresh[folded t] s db1 r(2)]
    have m: "m = restore_node s' (trash_row t row)" using rows(3) r(3) by simp
    have m': "m\<lparr>nd_parent_id := Some p\<rparr> = m"
      using m a r(1,4) g dest by (intro same_parent) (simp, metis option.inject trash_row_keeps(2))
    have inv2: "tree_inv (db_nodes d2)" using restore_subtree_shape[OF r(2)] inv1 tree_inv_cong by metis
    have "db_nodes (w_db w2) = db_nodes d2"
      using audited_nodes[OF e] update_same_row[OF inv2, of m] r(3) nodes_get_Some[OF r(3)] m' by simp
    moreover have "\<exists>x. quotas_get (w_db w2) (nd_owner_id row) = Some (q\<lparr>qu_updated_at := x\<rparr>)"
      if "quotas_get (w_db w) (nd_owner_id row) = Some q" "quota_inv q" "file_bytes (live_subtree (w_db w) nid) \<le> qu_live_bytes q" for q
    proof (rule bytes_there_and_back[OF that(1,2)])
      show "file_bytes trashed \<le> qu_live_bytes q" using that(3) trashed_bytes(2)[OF inv(1,2) row n s] by simp
      show "db_quotas (w_db w1) = db_quotas (bytes_moved (nd_owner_id row) (file_bytes trashed) t True (w_db w))"
        using audited_nodes[OF d] bytes_moved_cong[of d1 "w_db w"] soft_delete_others[OF s] by metis
      have "db_quotas d2 = db_quotas (w_db w1)"
        using r(2) by (auto simp: restore_subtree_def Let_def split: option.splits if_splits)
      then show "db_quotas (w_db w2) = db_quotas (bytes_moved (nd_owner_id row) (file_bytes trashed) s' False (w_db w1))"
        using audited_nodes[OF e] rows(2) m' m bytes_moved_cong[of "nodes_update m d2" "w_db w1"]
        by (simp add: nodes_update_def)
    qed
    ultimately show ?thesis using rows(1) by simp
  qed
qed

section \<open>A deleted node can be restored\<close>

lemma names_core:
  assumes "map core rows = map core rows'"
  shows "sibling_names_unique T rows = sibling_names_unique T rows'"
proof -
  have "sibling_names_unique T (map core xs) = sibling_names_unique T xs" for xs
    by (simp add: sibling_names_unique_def filter_map comp_def is_deleted_def normalized_name_def core_def)
  then show ?thesis using assms by metis
qed

lemma restore_others:
  "restore_subtree nid t d = (x, d') \<Longrightarrow> db_grants d' = db_grants d \<and> db_data_keys d' = db_data_keys d \<and>
     db_versions d' = db_versions d"
  by (auto simp: restore_subtree_def Let_def split: option.splits if_splits)

lemma sibling_name_free:
  assumes inv: "tree_inv (db_nodes d)" "sibling_names_unique (cf_text C) (db_nodes d)"
    and row: "nodes_get d nid = Some row" "\<not> is_deleted row" "nd_parent_id row = Some a"
    and fewer: "\<And>r. r \<in> set (db_nodes d') \<Longrightarrow> \<not> is_deleted r \<Longrightarrow> r \<in> set (db_nodes d)"
  shows "name_free_for C d' a (normalized_name (cf_text C) row) (Some nid)"
  unfolding name_free_for_def
proof (intro allI impI)
  fix e assume "get_child_by_name (cf_text C) d' a (normalized_name (cf_text C) row) = Some e"
  from child_by_name_Some[OF this] fewer have "e \<in> set (db_nodes d)" "nd_parent_id e = Some a"
    "normalized_name (cf_text C) e = normalized_name (cf_text C) row" "\<not> is_deleted e" by auto
  with inv nodes_get_Some[OF row(1)] row(2,3) have "e = row" by (auto simp: siblings_iff tree_inv_def)
  then show "Some (nd_id e) = Some nid" using nodes_get_Some[OF row(1)] by simp
qed

lemma restore_after_delete_returns:
  assumes del: "delete C u nid im now w = (Inr k, w1)" and C: "cache_serves C w"
    and inv: "tree_inv (db_nodes (w_db w))" "depth_le (db_nodes (w_db w)) (Suc CYCLE_GUARD_DEPTH)" "live_inv (db_nodes (w_db w))"
    and fresh: "\<forall>r\<in>set (db_nodes (w_db w)). nd_deleted_at r \<noteq> Some (case now of None \<Rightarrow> w_clock w | Some t \<Rightarrow> t)"
    and row: "nodes_get (w_db w) nid = Some row" "nd_owner_id row = us_id u'" and ub: "unbroken C (w_db w)"
  shows "\<exists>v w2. restore C u' nid now' w1 = (Inr v, w2)"
proof -
  obtain t trashed d1 a where t: "t = (case now of None \<Rightarrow> w_clock w | Some t \<Rightarrow> t)" and n: "\<not> is_deleted row"
    and s: "soft_delete_subtree nid t (w_db w) = (Inr trashed, d1)" and db1: "db_nodes (w_db w1) = db_nodes d1"
    and d: "audited (bytes_moved (nd_owner_id row) (file_bytes trashed) t True d1) (w_db w1)"
    and inv1: "tree_inv (db_nodes (w_db w1))" and g: "nodes_get (w_db w1) nid = Some (trash_row t row)"
    and a: "nd_parent_id row = Some a" and dest: "\<And>u'. restore_destination (w_db w1) u' (trash_row t row) = a"
    by (rule delete_aftermath[OF del inv row(1)]) blast
  have nid: "nd_id row = nid" using nodes_get_Some[OF row(1)] by simp
  have names: "sibling_names_unique (cf_text C) (db_nodes (w_db w))" using ub integrity_ok by (simp add: unbroken_def)
  let ?s = "case now' of None \<Rightarrow> w_clock w1 | Some t \<Rightarrow> t"
  obtain cleared d2 where r: "restore_subtree nid ?s (w_db w1) = (cleared, d2)" by fastforce
  note rows = delete_restore_rows[OF inv(1,2) row(1) n fresh[folded t] s db1 r]
  let ?m = "restore_node ?s (trash_row t row)"
  have m: "?m\<lparr>nd_parent_id := Some a\<rparr> = ?m" by (rule same_parent) (simp add: a)
  have inv2: "tree_inv (db_nodes d2)" using restore_subtree_shape[OF r] inv1 tree_inv_cong by metis
  have upd: "db_nodes (nodes_update ?m d2) = db_nodes d2" using update_same_row[OF inv2, of ?m] rows(3) nid by simp
  have "unbroken C (bytes_moved (nd_owner_id row) (file_bytes cleared) ?s False (nodes_update ?m d2))"
  proof (rule unbroken_nodes[OF ub])
    show "sibling_names_unique (cf_text C) (db_nodes (bytes_moved (nd_owner_id row) (file_bytes cleared) ?s False (nodes_update ?m d2)))"
      using names names_core[OF rows(1)] upd by simp
  qed (use restore_others[OF r] soft_delete_others[OF s] audited_nodes[OF d] in
      \<open>simp_all add: bytes_moved_others nodes_update_def\<close>)
  moreover have "name_free_for C (w_db w1) a (normalized_name (cf_text C) (trash_row t row)) (Some nid)"
  proof -
    have "name_free_for C (w_db w1) a (normalized_name (cf_text C) row) (Some nid)"
    proof (rule sibling_name_free[OF inv(1) names row(1) n a])
      show "r \<in> set (db_nodes (w_db w1)) \<Longrightarrow> \<not> is_deleted r \<Longrightarrow> r \<in> set (db_nodes (w_db w))" for r
        using soft_delete_rows[OF inv(1,2) row(1) n s] db1 by (auto simp: image_iff split: if_splits)
    qed
    then show ?thesis by (simp add: normalized_name_def trash_row_def)
  qed
  moreover define v where "v = w1\<lparr>w_db := audit_add (audit_of NODE_RESTORED ?s (us_subject u') (Some (uuid_str (nd_id ?m))) (owner_context ?m (us_id u')))
      (bytes_moved (nd_owner_id row) (file_bytes cleared) ?s False (nodes_update ?m d2))\<rparr>"
  have "cache_serves C v" using delete_serves[OF del C] by (simp add: cache_serves_def v_def)
  then obtain v' where "invalidate_subtree C ?m cleared v = (Inr (), v')" by (rule invalidate_subtree_serves)
  ultimately show ?thesis
    unfolding restore_def using g dest r rows(3) row(2) nid a
    by (simp add: progress m Let_def move_bytes_returns authorize_or_record_def require_role_def
        resolve_owner v_def flip: file_bytes_def)
qed

end
