(* ===== verification/Keyset.thy ===== *)
theory Keyset
  imports NodeService
begin

text \<open>
  Keyset pagination: what a client sees that follows the cursors of a listing. The locale \<open>keyset\<close>
  states the contract of a paginated query (a strict order of the rows, a first page, and a page after
  the row a cursor names); inside it, following the cursors is shown to deliver every row once and in
  order. The listings of the repositories are its interpretations.
\<close>

fun follow :: "nat \<Rightarrow> (string option \<Rightarrow> error + 'r page) \<Rightarrow> string option \<Rightarrow> 'r list option" where
  "follow 0 fetch c = None"
| "follow (Suc k) fetch c =
     (case fetch c of
        Inl e \<Rightarrow> None
      | Inr pg \<Rightarrow> (case pg_next_cursor pg of
          None \<Rightarrow> Some (pg_items pg)
        | Some c' \<Rightarrow> map_option (append (pg_items pg)) (follow k fetch (Some c'))))"

locale keyset =
  fixes inv :: "'d \<Rightarrow> bool" and rows :: "'d \<Rightarrow> 'r list" and before :: "'r \<Rightarrow> 'r \<Rightarrow> bool"
    and tag :: "'r \<Rightarrow> string" and fetch :: "'d \<Rightarrow> nat \<Rightarrow> string option \<Rightarrow> error + 'r page"
  assumes before_trans: "before a b \<Longrightarrow> before b c \<Longrightarrow> before a c"
    and before_irrefl: "\<not> before a a"
    and rows_sorted: "inv d \<Longrightarrow> sorted_wrt before (rows d)"
    and fetch_first: "fetch d limit None = Inr (paginate (take (limit + 1) (rows d)) limit id tag)"
    and fetch_next: "inv d \<Longrightarrow> r \<in> set (rows d) \<Longrightarrow> fetch d limit (Some (encode_cursor (tag r))) =
      Inr (paginate (take (limit + 1) (filter (before r) (rows d))) limit id tag)"
begin

lemma after_row:
  assumes "inv d" "rows d = pre @ r # post"
  shows "filter (before r) (rows d) = post"
proof -
  have s: "sorted_wrt before (pre @ r # post)" using rows_sorted[OF assms(1)] assms(2) by simp
  have "\<not> before r x" if "x \<in> set pre" for x
  proof
    assume "before r x"
    moreover have "before x r" using s that by (simp add: sorted_wrt_append)
    ultimately have "before r r" by (rule before_trans)
    then show False using before_irrefl by blast
  qed
  then have "filter (before r) pre = []" by (simp add: filter_empty_conv)
  moreover have "filter (before r) post = post"
    using s by (auto simp: filter_id_conv sorted_wrt_append)
  ultimately show ?thesis using assms(2) before_irrefl by simp
qed

lemma page_of_suffix:
  assumes "0 < limit"
  shows "paginate (take (limit + 1) post) limit id tag =
    \<lparr>pg_items = take limit post,
     pg_next_cursor = (if length post \<le> limit then None else Some (encode_cursor (tag (post ! (limit - 1)))))\<rparr>"
proof (cases "length post \<le> limit")
  case False
  then have ne: "take limit post \<noteq> []" using assms by auto
  then have "last (take limit post) = post ! (limit - 1)"
    using False assms last_conv_nth[OF ne] by (simp add: min_def)
  with False ne show ?thesis by (simp add: paginate_def Let_def min_def)
qed (simp add: paginate_def Let_def)

lemma follow_suffix:
  assumes "inv d" "0 < limit" "rows d = pre @ post" "length post < k"
    and "fetch d limit c = Inr (paginate (take (limit + 1) post) limit id tag)"
  shows "follow k (fetch d limit) c = Some post"
  using assms(3-5)
proof (induction k arbitrary: pre post c)
  case (Suc k)
  note pg = page_of_suffix[OF assms(2), of post]
  show ?case
  proof (cases "length post \<le> limit")
    case True
    with Suc.prems(3) pg show ?thesis unfolding follow.simps by (simp only:) simp
  next
    case False
    let ?r = "post ! (limit - 1)" and ?rest = "drop limit post"
    have split: "post = take (limit - 1) post @ ?r # ?rest"
      using False assms(2) id_take_nth_drop[of "limit - 1" post] by (simp add: Suc_diff_1)
    then have r: "rows d = (pre @ take (limit - 1) post) @ ?r # ?rest" using Suc.prems(1) by simp
    then have m: "?r \<in> set (rows d)" by simp
    have "follow k (fetch d limit) (Some (encode_cursor (tag ?r))) = Some ?rest"
    proof (rule Suc.IH)
      show "rows d = (pre @ take limit post) @ ?rest" using Suc.prems(1) by simp
      show "fetch d limit (Some (encode_cursor (tag ?r))) = Inr (paginate (take (limit + 1) ?rest) limit id tag)"
        using fetch_next[OF assms(1) m] after_row[OF assms(1) r] by simp
    qed (use Suc.prems(2) False assms(2) in simp)
    with Suc.prems(3) pg False show ?thesis unfolding follow.simps by (simp only:) simp
  qed
qed simp

text \<open>Following the cursors from the first page delivers exactly the rows, and ends.\<close>

lemma follow_all: "inv d \<Longrightarrow> 0 < limit \<Longrightarrow> length (rows d) < k \<Longrightarrow> follow k (fetch d limit) None = Some (rows d)"
  using follow_suffix[of d limit "[]" "rows d"] fetch_first by simp

text \<open>No page is longer than asked for.\<close>

lemma page_bound: "inv d \<Longrightarrow> 0 < limit \<Longrightarrow> fetch d limit None = Inr pg \<Longrightarrow> length (pg_items pg) \<le> limit"
  using page_of_suffix[of limit "rows d"] by (auto simp: fetch_first)

end

section \<open>Sorted queries\<close>

lemma sort_key_strict:
  assumes "inj_on key (set xs)" "distinct xs"
  shows "sorted_wrt (\<lambda>a b. key a < key b) (sort_key key xs)"
proof -
  have "distinct (map key (sort_key key xs))" using assms by (simp add: distinct_map)
  then have "sorted_wrt (<) (map key (sort_key key xs))" by (simp add: strict_sorted_iff)
  then show ?thesis by (simp add: sorted_wrt_map)
qed

lemma ids_inj: "tree_inv rows \<Longrightarrow> S \<subseteq> set rows \<Longrightarrow> (\<And>r s. key r = key s \<Longrightarrow> nd_id r = nd_id s) \<Longrightarrow> inj_on key S"
  unfolding tree_inv_def distinct_map inj_on_def by blast

section \<open>Children of a folder\<close>

text \<open>
  The cursor of a child carries its normalized name between separators; it is read back when the name
  itself does not contain the separator.
\<close>

definition listable :: "text_rules \<Rightarrow> db \<Rightarrow> bool" where
  "listable T d \<longleftrightarrow> tree_inv (db_nodes d) \<and>
     (\<forall>r\<in>set (db_nodes d). nd_id r < 2 ^ 128 \<and> CURSOR_SEPARATOR \<notin> set (normalized_name T r))"

lemma separator_not_digit: "\<not> is_digit CURSOR_SEPARATOR"
  by (simp add: is_digit_def CURSOR_SEPARATOR_def)

lemma child_cursor_read:
  assumes "nd_id r < 2 ^ 128" "CURSOR_SEPARATOR \<notin> set (normalized_name T r)"
  shows "child_cursor_key (child_cursor T r) = Some (child_order T r)"
proof -
  let ?c = CURSOR_SEPARATOR
  have "child_cursor T r = join_with [?c] [show_nat (kind_rank (nd_kind r)), normalized_name T r, uuid_str (nd_id r)]"
    by (simp add: child_cursor_def)
  moreover have "?c \<notin> set (show_nat n)" for n using show_nat_no_char[OF separator_not_digit] .
  ultimately have "split_max ?c 2 (child_cursor T r) =
      [show_nat (kind_rank (nd_kind r)), normalized_name T r, uuid_str (nd_id r)]"
    using assms(2) by (simp add: numeral_2_eq_2)
  then show ?thesis using assms(1) by (simp add: child_cursor_key_def parse_uuid_str child_order_def)
qed

interpretation children: keyset "listable T" "\<lambda>d. child_rows T d parent incl" "\<lambda>a b. child_order T a < child_order T b"
  "child_cursor T" "\<lambda>d limit c. nodes_list_children T d parent limit c incl" for T parent incl
proof
  fix d limit r
  assume d: "listable T d"
  show "sorted_wrt (\<lambda>a b. child_order T a < child_order T b) (child_rows T d parent incl)"
    unfolding child_rows_def using d
    by (intro sort_key_strict)
      (auto simp: listable_def child_order_def tree_inv_def distinct_map inj_on_def)
  assume "r \<in> set (child_rows T d parent incl)"
  then have "r \<in> set (db_nodes d)" by (simp add: child_rows_def)
  with d have "child_cursor_key (child_cursor T r) = Some (child_order T r)"
    by (intro child_cursor_read) (auto simp: listable_def)
  then show "nodes_list_children T d parent limit (Some (encode_cursor (child_cursor T r))) incl =
      Inr (paginate (take (limit + 1) (filter (\<lambda>b. child_order T r < child_order T b) (child_rows T d parent incl))) limit id (child_cursor T))"
    by (simp add: nodes_list_children_def cursor_roundtrip Let_def)
qed (auto simp: nodes_list_children_def Let_def)

section \<open>The trash\<close>

definition trash_listable :: "(string \<Rightarrow> string) \<Rightarrow> db \<Rightarrow> bool" where
  "trash_listable H d \<longleftrightarrow> hex_digest H \<and> tree_inv (db_nodes d) \<and>
     (\<forall>r\<in>set (db_nodes d). nd_id r < 2 ^ 128 \<and> (\<forall>t. nd_deleted_at r = Some t \<longrightarrow> representable t))"

definition trash_before :: "bool \<Rightarrow> node \<Rightarrow> node \<Rightarrow> bool" where
  "trash_before oldest_first a b \<longleftrightarrow> (if oldest_first then trash_order a < trash_order b else trash_order b < trash_order a)"

lemma separator_not_in_uuid: "CURSOR_SEPARATOR \<notin> set (uuid_str u)"
proof
  assume "CURSOR_SEPARATOR \<in> set (uuid_str u)"
  from set_uuid_str[OF this] obtain n where n: "n < 16" "CURSOR_SEPARATOR = digit n" by (auto simp: CURSOR_SEPARATOR_def)
  then have "digit_value CURSOR_SEPARATOR = Some n" by (metis digit_value_digit)
  then show False by (simp add: CURSOR_SEPARATOR_def digit_value_def)
qed

lemma separator_not_in_iso: "CURSOR_SEPARATOR \<notin> set (isoformat t)"
proof -
  have d: "CURSOR_SEPARATOR \<notin> set (dec_digits k n)" for k n
  proof (cases k)
    case (Suc j)
    then have "isdigit (dec_digits k n)" by (intro isdigit_dec_digits) simp
    then show ?thesis using separator_not_digit by (auto simp: isdigit_def list_all_iff)
  qed simp
  show ?thesis unfolding isoformat_def by (auto simp: d split: prod.splits) (auto simp: CURSOR_SEPARATOR_def)
qed

lemma trash_cursor_read:
  assumes "hex_digest H" "nd_deleted_at r = Some t" "representable t" "nd_id r < 2 ^ 128"
  shows "trash_cursor_key H (encode_cursor (trash_cursor H (trash_fingerprint H ow b) r)) (trash_fingerprint H ow b) =
    Inr (trash_order r)"
proof -
  have "decode_keyed_cursor H (trash_cursor H (trash_fingerprint H ow b) r) (trash_fingerprint H ow b) 2 =
      Inr [isoformat t, uuid_str (nd_id r)]"
    unfolding trash_cursor_def trash_order_def
    using keyed_roundtrip[OF assms(1), of "trash_fingerprint H ow b" "[isoformat t, uuid_str (nd_id r)]"]
      digest_no_separator[OF assms(1)] separator_not_in_iso assms(2)
    by (simp add: trash_fingerprint_def numeral_2_eq_2)
  then show ?thesis
    using assms by (simp add: trash_cursor_key_def cursor_roundtrip isoformat_roundtrip parse_uuid_str trash_order_def)
qed

lemma rev_sorted_strict: "sorted_wrt (\<lambda>a b. key a < key b) xs \<Longrightarrow> sorted_wrt (\<lambda>a b. key b < key a) (rev xs)"
  by (simp add: sorted_wrt_rev)

lemma trash_rows_sorted:
  assumes "tree_inv (db_nodes d)"
  shows "sorted_wrt (trash_before b) (trash_rows d ow b)"
proof -
  let ?xs = "filter (trash_entry_condition d ow) (db_nodes d)"
  have "inj_on trash_order (set ?xs)"
    using assms by (intro ids_inj[of "db_nodes d"]) (auto simp: trash_order_def split: option.splits)
  then have "sorted_wrt (\<lambda>a b. trash_order a < trash_order b) (sort_key trash_order ?xs)"
    using assms by (intro sort_key_strict) (auto simp: tree_inv_def distinct_map)
  then show ?thesis
    using rev_sorted_strict[of trash_order "sort_key trash_order ?xs"]
    by (cases b) (simp_all add: trash_rows_def Let_def trash_before_def[abs_def])
qed

interpretation trash_pages: keyset "trash_listable H" "\<lambda>d. trash_rows d ow b" "trash_before b"
  "trash_cursor H (trash_fingerprint H ow b)" "\<lambda>d limit c. list_trash_entries H d ow limit c b" for H ow b
proof
  fix d limit r
  assume d: "trash_listable H d"
  then show "sorted_wrt (trash_before b) (trash_rows d ow b)"
    by (intro trash_rows_sorted) (simp add: trash_listable_def)
  assume "r \<in> set (trash_rows d ow b)"
  then have r: "r \<in> set (db_nodes d)" "is_deleted r"
    by (auto simp: trash_rows_def trash_entry_condition_def Let_def split: if_splits)
  then obtain t where "nd_deleted_at r = Some t" by (auto simp: is_deleted_def)
  with d r have "trash_cursor_key H (encode_cursor (trash_cursor H (trash_fingerprint H ow b) r)) (trash_fingerprint H ow b) = Inr (trash_order r)"
    by (intro trash_cursor_read) (auto simp: trash_listable_def)
  then show "list_trash_entries H d ow limit (Some (encode_cursor (trash_cursor H (trash_fingerprint H ow b) r))) b =
      Inr (paginate (take (limit + 1) (filter (trash_before b r) (trash_rows d ow b))) limit id (trash_cursor H (trash_fingerprint H ow b)))"
    by (simp add: list_trash_entries_def Let_def trash_before_def[abs_def])
qed (auto simp: list_trash_entries_def Let_def trash_before_def split: if_splits)

section \<open>Users\<close>

interpretation users_pages: keyset "\<lambda>d. distinct (map us_subject (db_users d))" "\<lambda>d. sort_key us_subject (db_users d)"
  "\<lambda>a b. us_subject a < us_subject b" us_subject users_list_all
proof
  fix d :: db and limit r
  assume "distinct (map us_subject (db_users d))"
  then show "sorted_wrt (\<lambda>a b. us_subject a < us_subject b) (sort_key us_subject (db_users d))"
    by (intro sort_key_strict) (auto simp: distinct_map)
  show "users_list_all d limit (Some (encode_cursor (us_subject r))) =
      Inr (paginate (take (limit + 1) (filter (\<lambda>b. us_subject r < us_subject b) (sort_key us_subject (db_users d)))) limit id us_subject)"
    by (simp add: users_list_all_def cursor_roundtrip Let_def)
qed (auto simp: users_list_all_def Let_def)

section \<open>Search\<close>

text \<open>A page of a search: the cursor is read by the use case, the rows by the repository.\<close>

definition search_page :: "config \<Rightarrow> string \<Rightarrow> search_filters \<Rightarrow> db \<Rightarrow> nat \<Rightarrow> string option \<Rightarrow> error + node page" where
  "search_page C subject f d limit cursor =
     (case search_key C cursor (search_fingerprint (cf_sha256_hex C) f) of
        Inl e \<Rightarrow> Inl e
      | Inr after \<Rightarrow> Inr (nodes_search (cf_text C) (cf_sha256_hex C) d subject f limit after))"

definition searchable :: "config \<Rightarrow> db \<Rightarrow> bool" where
  "searchable C d \<longleftrightarrow> hex_digest (cf_sha256_hex C) \<and> tree_inv (db_nodes d) \<and> (\<forall>r\<in>set (db_nodes d). nd_id r < 2 ^ 128)"

definition search_tag :: "config \<Rightarrow> search_filters \<Rightarrow> node \<Rightarrow> string" where
  "search_tag C f r = encode_keyed_cursor (cf_sha256_hex C) (search_fingerprint (cf_sha256_hex C) f)
     [uuid_str (nd_id r), normalized_name (cf_text C) r]"

lemma search_key_read:
  assumes "hex_digest (cf_sha256_hex C)" "nd_id r < 2 ^ 128"
  shows "search_key C (Some (encode_cursor (search_tag C f r))) (search_fingerprint (cf_sha256_hex C) f) =
    Inr (Some (search_order (cf_text C) r))"
proof -
  have "decode_keyed_cursor (cf_sha256_hex C) (search_tag C f r) (search_fingerprint (cf_sha256_hex C) f) 2 =
      Inr [uuid_str (nd_id r), normalized_name (cf_text C) r]"
    unfolding search_tag_def
    using keyed_roundtrip[OF assms(1), of "search_fingerprint (cf_sha256_hex C) f" "[uuid_str (nd_id r), normalized_name (cf_text C) r]"]
      digest_no_separator[OF assms(1)] separator_not_in_uuid
    by (simp add: search_fingerprint_def numeral_2_eq_2)
  then show ?thesis using assms(2) by (simp add: search_key_def cursor_roundtrip parse_uuid_str search_order_def)
qed

lemma filter_sort_key: "filter P (sort_key f xs) = sort_key f (filter P xs)"
  by (rule filter_sort)

lemma search_rows_after:
  "search_rows T d subject f (Some k) = filter (\<lambda>r. k < search_order T r) (search_rows T d subject f None)"
  by (simp add: search_rows_def filter_sort_key conj_commute)

interpretation search_pages: keyset "searchable C" "\<lambda>d. search_rows (cf_text C) d subject f None"
  "\<lambda>a b. search_order (cf_text C) a < search_order (cf_text C) b" "search_tag C f" "search_page C subject f" for C subject f
proof
  fix d limit r
  assume d: "searchable C d"
  show "sorted_wrt (\<lambda>a b. search_order (cf_text C) a < search_order (cf_text C) b) (search_rows (cf_text C) d subject f None)"
    unfolding search_rows_def using d
    by (intro sort_key_strict) (auto simp: searchable_def search_order_def tree_inv_def distinct_map inj_on_def)
  assume "r \<in> set (search_rows (cf_text C) d subject f None)"
  then have "r \<in> set (db_nodes d)" by (simp add: search_rows_def)
  with d have "search_key C (Some (encode_cursor (search_tag C f r))) (search_fingerprint (cf_sha256_hex C) f) =
      Inr (Some (search_order (cf_text C) r))"
    by (intro search_key_read) (auto simp: searchable_def)
  then show "search_page C subject f d limit (Some (encode_cursor (search_tag C f r))) =
      Inr (paginate (take (limit + 1) (filter (\<lambda>b. search_order (cf_text C) r < search_order (cf_text C) b)
        (search_rows (cf_text C) d subject f None))) limit id (search_tag C f))"
    by (simp add: search_page_def nodes_search_def search_rows_after search_tag_def[abs_def])
qed (auto simp: search_page_def search_key_def nodes_search_def search_tag_def[abs_def])

end
