(* ===== verification/TrashProgress.thy ===== *)
theory TrashProgress
  imports NodeProgress SystemInvariants Keyset
begin

text \<open>
  When the destructive operations return. Destruction only removes rows, so no unique constraint that
  held before can fail after it.
\<close>

lemma unbroken_shrinks: "unbroken C d \<Longrightarrow> shrinks d d' \<Longrightarrow> unbroken C d'"
  unfolding unbroken_def integrity_error_def shrinks_def sibling_names_unique_def
  by (auto split: if_splits dest: distinct_subseq subseq_filter)

text \<open>Destruction does not use the cache.\<close>

definition cache_kept :: "'a use_case \<Rightarrow> bool" where
  "cache_kept m \<longleftrightarrow> (\<forall>w r w'. m w = (r, w') \<longrightarrow> w_cache w' = w_cache w)"

lemma cache_kept_basic [intro!]:
  "cache_kept (ret x)" "cache_kept (lift r)" "cache_kept (expect v e)" "cache_kept (qdb g)" "cache_kept (mdb h)"
  "cache_kept (emit_audit a)" "cache_kept (objects_delete key)" "cache_kept (stepdb l)" "cache_kept (rundb k)"
  by (auto simp: cache_kept_def expect_run emit_audit_def objects_delete_def stepdb_def rundb_def split: option.splits prod.splits)

lemma cache_kept_bind [intro!]: "cache_kept m \<Longrightarrow> (\<And>x. cache_kept (f x)) \<Longrightarrow> cache_kept (bind m f)"
  unfolding cache_kept_def bind_def by (fastforce split: prod.splits sum.splits)

lemma cache_kept_seq [intro!]: "cache_kept m \<Longrightarrow> cache_kept n \<Longrightarrow> cache_kept (seq m n)"
  unfolding seq_def by blast

lemma cache_kept_cases [intro!]:
  "cache_kept m \<Longrightarrow> cache_kept n \<Longrightarrow> cache_kept (if b then m else n)"
  "cache_kept m \<Longrightarrow> (\<And>x. cache_kept (f x)) \<Longrightarrow> cache_kept (case v of None \<Rightarrow> m | Some x \<Rightarrow> f x)"
  "(\<And>a b. cache_kept (g a b)) \<Longrightarrow> cache_kept (case p of (a, b) \<Rightarrow> g a b)"
  by (auto split: option.splits prod.splits)

lemma cache_kept_for_each [intro!]: "(\<And>x. cache_kept (f x)) \<Longrightarrow> cache_kept (for_each xs f)"
  by (induction xs) auto

lemma cache_kept_strip_all: "cache_kept (strip_all ids t acc)"
  by (induction ids arbitrary: acc) (auto simp: strip_node_def)

lemma cache_kept_destroy [intro!]: "cache_kept (destroy_entry e t)"
  unfolding destroy_entry_def purge_subtree_def using cache_kept_strip_all by blast

lemma cache_kept_spend: "cache_kept (spend_loop u ts t es ds acc k)"
  by (induction es arbitrary: ds acc k) (auto simp: Let_def record_purge_def)

lemma cache_kept_budget: "cache_kept (spend_purge_budget C u t)"
  unfolding spend_purge_budget_def using cache_kept_spend by blast

lemma destroy_cache: "destroy_entry e t w = (r, w') \<Longrightarrow> w_cache w' = w_cache w"
  using cache_kept_destroy unfolding cache_kept_def by blast

lemma invalidate_destroyed_serves:
  assumes "cache_serves C w"
  obtains w' where "invalidate_destroyed C es w = (Inr (), w')" "same_store w w'"
proof (cases "cf_cache_enabled C \<and> es \<noteq> []")
  case True
  have "always_returns (seq (for_each es (\<lambda>e. on_node_mutated C (nd_id e) (nd_parent_id e) None)) (invalidate_all_permissions C))"
    unfolding on_node_mutated_def invalidate_node_def invalidate_all_permissions_def
    by (auto intro!: always_returns_seq always_returns_parts always_returns_for_each)
  with True assms obtain w' where w': "invalidate_destroyed C es w = (Inr (), w')"
    unfolding always_returns_def cache_serves_def by (auto simp: invalidate_destroyed_def)
  with that invalidate_destroyed_store show thesis by blast
next
  case False
  with that[of w] show thesis by (auto simp: invalidate_destroyed_def)
qed

lemma purge_returns:
  assumes "cache_serves C w" "versions_wf (w_db w)" "unbroken C (w_db w)"
    and n: "nodes_get (w_db w) nid = Some n" "is_deleted n" "nd_owner_id n = us_id u \<or> us_is_admin u"
  shows "\<exists>p w'. purge C u nid now w = (Inr p, w')"
proof -
  let ?t = "case now of None \<Rightarrow> w_clock w | Some t \<Rightarrow> t"
  obtain p w1 where d: "destroy_entry n ?t w = (Inr p, w1)" by (rule destroy_entry_run[OF assms(2), of n ?t])
  then have "unbroken C (w_db w1)" using unbroken_shrinks[OF assms(3)] op_shrinks_destroy by (auto simp: op_shrinks_def)
  moreover obtain w2 where r: "record_purge u n p ?t w1 = (Inr (), w2)" "w_cache w2 = w_cache w1"
    by (auto simp: record_purge_def emit_audit_def)
  moreover have "cache_serves C w2" using assms(1) destroy_cache[OF d] r(2) by (simp add: cache_serves_def)
  then obtain w3 where "invalidate C (nd_id n) (nd_parent_id n) None True w2 = (Inr (), w3)" by (rule invalidate_serves)
  ultimately show ?thesis
    unfolding purge_def using n d by (auto simp: progress)
qed

lemma empty_trash_returns:
  assumes "cache_serves C w" "versions_wf (w_db w)" "tree_inv (db_nodes (w_db w))" "unbroken C (w_db w)"
    "count_trash_entries (w_db w) (us_id u) = expected"
  shows "\<exists>e w' k. empty_trash C u expected now w = (Inr e, w') \<and> em_entries_purged e = int k \<and>
    (let entries = take (nat TRASH_PURGE_NODE_BUDGET) (trash_rows (w_db w) (us_id u) True);
         totals = delete_batch_totals (w_db w) (map nd_id entries) in
     k \<le> length entries \<and> (entries \<noteq> [] \<longrightarrow> 0 < k) \<and>
     (k \<le> 1 \<or> costs totals (take k entries) \<le> TRASH_PURGE_NODE_BUDGET) \<and>
     (k < length entries \<longrightarrow> TRASH_PURGE_NODE_BUDGET < costs totals (take (Suc k) entries)) \<and>
     set (db_nodes (w_db w')) = {r \<in> set (db_nodes (w_db w)).
       \<forall>x\<in>set (take k entries). (nd_id r, nd_id x) \<notin> (parent_rel (db_nodes (w_db w)))\<^sup>*})"
proof -
  let ?t = "case now of None \<Rightarrow> w_clock w | Some t \<Rightarrow> t"
  let ?entries = "take (nat TRASH_PURGE_NODE_BUDGET) (trash_rows (w_db w) (us_id u) True)"
  let ?ts = "delete_batch_totals (w_db w) (map nd_id ?entries)"
  from spend_purge_budget_run[OF assms(2), of C u ?t] obtain pg k acc w1 where
    pg: "list_trash_entries (cf_sha256_hex C) (w_db w) (us_id u) (nat TRASH_PURGE_NODE_BUDGET) None True = Inr pg" and
    s: "spend_purge_budget C u ?t w = (Inr (take k (pg_items pg), acc), w1)" "k \<le> length (pg_items pg)"
      "pg_items pg \<noteq> [] \<longrightarrow> 0 < k"
      "k \<le> 1 \<or> costs (delete_batch_totals (w_db w) (map nd_id (pg_items pg))) (take k (pg_items pg)) \<le> TRASH_PURGE_NODE_BUDGET"
      "k < length (pg_items pg) \<longrightarrow> costs (delete_batch_totals (w_db w) (map nd_id (pg_items pg))) (take (Suc k) (pg_items pg)) > TRASH_PURGE_NODE_BUDGET" and
    rows: "set (db_nodes (w_db w1)) = {r \<in> set (db_nodes (w_db w)). \<forall>e\<in>set (take k (pg_items pg)). (nd_id r, nd_id e) \<notin> (parent_rel (db_nodes (w_db w)))\<^sup>*}"
    using assms(3) unfolding Let_def by blast
  have items: "pg_items pg = ?entries"
    using pg by (auto simp: list_trash_entries_def Let_def paginate_def)
  have ub: "unbroken C (w_db w1)" using unbroken_shrinks[OF assms(4)] op_shrinks_budget s(1) by (auto simp: op_shrinks_def)
  define es where es: "es = take k (pg_items pg)"
  obtain w2 where b: "(if es \<noteq> [] then record_batch u ?t (int (length es)) acc else ret ()) w1 = (Inr (), w2)"
    "db_nodes (w_db w2) = db_nodes (w_db w1)"
    by (cases "es = []") (auto simp: record_batch_def emit_audit_def audit_add_def)
  have "w_cache w1 = w_cache w" using cache_kept_budget s(1) unfolding cache_kept_def by blast
  moreover have "w_cache w2 = w_cache w1" using b(1) by (auto simp: record_batch_def emit_audit_def split: if_splits)
  ultimately have "cache_serves C w2" using assms(1) by (simp add: cache_serves_def)
  then obtain w3 where w3: "invalidate_destroyed C es w2 = (Inr (), w3)" "same_store w2 w3" by (rule invalidate_destroyed_serves)
  have run: "empty_trash C u expected now w = (Inr \<lparr>em_entries_purged = int (length es),
      em_entries_remaining = count_trash_entries (w_db w1) (us_id u), em_purged = acc\<rparr>, w3)"
    unfolding empty_trash_def using assms(5) s(1)[folded es] ub b(1) w3(1)
    by (simp add: progress)
  have b3: "db_nodes (w_db w3) = db_nodes (w_db w1)" using b(2) w3(2) by (simp add: same_store_def)
  have "int (length es) = int k" using s(2) es by simp
  with run b3 s items rows es show ?thesis
    by (intro exI[of _ "\<lparr>em_entries_purged = int (length es),
      em_entries_remaining = count_trash_entries (w_db w1) (us_id u), em_purged = acc\<rparr>"] exI[of _ w3] exI[of _ k]) (simp add: Let_def)
qed

lemma child_cursor_unreadable:
  assumes "normalized_name T r = a @ CURSOR_SEPARATOR # b"
  shows "child_cursor_key (child_cursor T r) = None"
proof -
  let ?c = CURSOR_SEPARATOR
  obtain x y where xy: "x @ ?c # y = a @ ?c # b" "?c \<notin> set x"
    using split_list_first[of ?c "a @ ?c # b"] by auto
  have n: "?c \<notin> set (show_nat k)" for k using show_nat_no_char[OF separator_not_digit] .
  have "child_cursor T r = show_nat (kind_rank (nd_kind r)) @ ?c # x @ ?c # (y @ ?c # uuid_str (nd_id r))"
    using assms xy by (simp add: child_cursor_def)
  then have "split_max ?c 2 (child_cursor T r) = [show_nat (kind_rank (nd_kind r)), x, y @ ?c # uuid_str (nd_id r)]"
    using n xy(2) by (simp add: numeral_2_eq_2)
  moreover have "length (filter (\<lambda>c. c \<noteq> CHR ''-'') (y @ ?c # uuid_str (nd_id r))) > 32"
    by (simp add: uuid_str_strip_hyphens CURSOR_SEPARATOR_def)
  then have "parse_uuid (y @ ?c # uuid_str (nd_id r)) = None" by (simp add: parse_uuid_def Let_def del: filter_append)
  ultimately show ?thesis by (simp add: child_cursor_key_def)
qed

end
