(* ===== verification/Samples.thy ===== *)
theory Samples
  imports TrashRoundTrip TrashProgress CacheCoherence
begin

text \<open>
  A small concrete deployment on which the hypotheses of the properties are checked: two users, a
  folder with a nested file that one shares with the other, and an entry in the trash. The text rules
  are those of plain ASCII, the digest is a function of the right shape, and a glob pattern is taken
  as a literal prefix before its star.
\<close>

definition ascii_rules :: text_rules where
  "ascii_rules = \<lparr>nfc = (\<lambda>s. s), casefold = (\<lambda>s. s), sql_lower = (\<lambda>s. s)\<rparr>"

definition toy_digest :: "'a \<Rightarrow> string" where
  "toy_digest s = replicate 64 (CHR ''0'')"

definition toy_glob :: "string \<Rightarrow> string \<Rightarrow> bool" where
  "toy_glob p k = prefix (butlast p) k"

text \<open>A cipher of the right shape: the text in the clear, tagged with the end of the associated data.\<close>

definition toy_tag :: "bytes \<Rightarrow> bytes" where
  "toy_tag a = drop (length a) (replicate 16 0 @ a)"

definition toy_aead :: aead where
  "toy_aead = \<lparr>ae_encrypt = (\<lambda>k n d a. d @ toy_tag a),
     ae_decrypt = (\<lambda>k n c a. if 16 \<le> length c \<and> drop (length c - 16) c = toy_tag a
                              then Some (take (length c - 16) c) else None)\<rparr>"

definition sample_provider :: key_provider where
  "sample_provider = \<lparr>kp_current = replicate 32 7, kp_previous = None,
     kp_current_id = replicate 16 (CHR ''0''), kp_previous_id = None\<rparr>"

definition sample_config :: config where
  "sample_config = \<lparr>cf_text = ascii_rules, cf_sha256 = toy_digest, cf_glob = toy_glob,
     cf_max_tree_depth = 64, cf_page_size_max = 200, cf_trash_retention_days = 30, cf_cache_enabled = False,
     cf_cache_schema = 1, cf_cache_policy = default_policy, cf_aead = toy_aead,
     cf_encryption = Some \<lparr>ec_provider = sample_provider, ec_frame_bytes = 1024, ec_default_on = False\<rparr>,
     cf_max_upload_bytes = 4096, cf_version_retention = 3, cf_part_bytes = 64,
     cf_scrypt = (\<lambda>p salt. take 32 (map (\<lambda>b. b mod 256) (p @ salt) @ replicate 32 0)), cf_find_subject = (\<lambda>s orgs. Inr (Some s)),
     cf_passphrase_attempts = 3, cf_rewrap_threshold = 100\<rparr>"

definition sample_filters :: search_filters where
  "sample_filters = \<lparr>sf_term = Some ''report'', sf_tags = [], sf_match = MATCH_ALL, sf_key = None, sf_value = None\<rparr>"

definition sample_user :: "uuid \<Rightarrow> string \<Rightarrow> uuid \<Rightarrow> user" where
  "sample_user uid subject root =
     \<lparr>us_id = uid, us_subject = subject, us_root_folder_id = root, us_quota_bytes = 1000, us_created_at = 0,
      us_updated_at = 0, us_is_admin = False, us_org = None, us_orgs = [], us_last_seen_at = None\<rparr>"

definition alice :: user where "alice = sample_user 3 ''alice'' 10"
definition bob :: user where "bob = sample_user 4 ''bob'' 20"

definition sample_node :: "uuid \<Rightarrow> uuid \<Rightarrow> node_kind \<Rightarrow> string \<Rightarrow> uuid option \<Rightarrow> datetime option \<Rightarrow> uuid option \<Rightarrow> int \<Rightarrow> node" where
  "sample_node nid owner kind name parent deleted version n =
     \<lparr>nd_id = nid, nd_owner_id = owner, nd_kind = kind, nd_name = name, nd_parent_id = parent,
      nd_created_at = 0, nd_updated_at = 0, nd_revision = 0, nd_deleted_at = deleted,
      nd_current_version_id = version, nd_size_bytes = n, nd_content_type = None, nd_encrypted = False,
      nd_encryption_default = INHERIT\<rparr>"

definition sample_version :: "uuid \<Rightarrow> uuid \<Rightarrow> int \<Rightarrow> file_version" where
  "sample_version vid nid n =
     \<lparr>fv_id = vid, fv_node_id = nid, fv_owner_id = 3, fv_sequence = 1, fv_size_bytes = n,
      fv_plaintext_digest = ''aa'', fv_content_type = ''text/plain'', fv_encrypted = False, fv_created_at = 0,
      fv_created_by = ''alice'', fv_seal_version_id = vid\<rparr>"

definition sample_nodes :: "node list" where
  "sample_nodes =
     [sample_node 10 3 FOLDER ''root'' None None None 0,
      sample_node 20 4 FOLDER ''root'' None None None 0,
      sample_node 11 3 FOLDER ''docs'' (Some 10) None None 0,
      sample_node 12 3 FOLDER ''drafts'' (Some 11) None None 0,
      sample_node 13 3 FILE ''a.txt'' (Some 12) None (Some 31) 5,
      sample_node 14 3 FILE ''old.txt'' (Some 10) (Some 50) (Some 32) 3]"

definition sample_grant :: grant where
  "sample_grant = \<lparr>gr_id = 41, gr_node_id = 11, gr_subject = ''bob'', gr_role = EDITOR, gr_granted_by = ''alice'',
     gr_created_at = 0, gr_updated_at = 0, gr_pending = False\<rparr>"

definition sample_db :: db where
  "sample_db = \<lparr>db_users = [alice, bob], db_nodes = sample_nodes,
     db_versions = [sample_version 31 13 5, sample_version 32 14 3], db_tags = [(11, ''work'')],
     db_metadata = [(11, ''team'', ''storage'')], db_grants = [sample_grant], db_links = [], db_user_keys = [],
     db_data_keys = [],
     db_quotas = [\<lparr>qu_user_id = 3, qu_live_bytes = 5, qu_trashed_bytes = 3, qu_version_bytes = 0, qu_updated_at = None\<rparr>,
       \<lparr>qu_user_id = 4, qu_live_bytes = 0, qu_trashed_bytes = 0, qu_version_bytes = 0, qu_updated_at = None\<rparr>],
     db_audit = [], db_s3_keys = [], db_uploads = [], db_parts = []\<rparr>"

definition sample_world :: world where
  "sample_world = \<lparr>w_db = sample_db,
     w_objects = [(object_key (sample_version 31 13 5), \<lparr>so_bytes = [1, 2, 3, 4, 5], so_modified = Some 0\<rparr>), (object_key (sample_version 32 14 3), \<lparr>so_bytes = [6, 7, 8], so_modified = Some 0\<rparr>)],
     w_cache = \<lparr>cs_entries = [], cs_breaker = \<lparr>cb_trip_after = seconds 30, cb_cooldown = seconds 10,
       cb_failing_since = None, cb_opened_at = None\<rparr>, cs_reachable = True\<rparr>,
     w_clock = 100, w_uuids = (\<lambda>n. n + 100), w_drawn = 0, w_entropy = (\<lambda>i. i mod 256), w_spent = 0,
     w_attempts = []\<rparr>"

text \<open>A run that returns, as the pair the hypotheses of the properties speak of.\<close>

definition returns :: "('s, 'e, 'a) op \<Rightarrow> 's \<Rightarrow> bool" where
  "returns m s = (case fst (m s) of Inr _ \<Rightarrow> True | Inl _ \<Rightarrow> False)"

definition result_of :: "('s, 'e, 'a) op \<Rightarrow> 's \<Rightarrow> 'a" where
  "result_of m s = projr (fst (m s))"

definition after :: "('s, 'e, 'a) op \<Rightarrow> 's \<Rightarrow> 's" where
  "after m s = snd (m s)"

lemma returnsD: "returns m s \<Longrightarrow> m s = (Inr (result_of m s), after m s)"
  by (cases "m s") (auto simp: returns_def result_of_def after_def split: sum.splits)

lemma sample_fresh: "fresh_ids sample_world"
  by (auto simp: fresh_ids_def used_ids_def sample_version_def sample_world_def sample_db_def sample_nodes_def sample_node_def inj_def)

lemma sample_db_eq [simp]: "w_db sample_world = sample_db"
  by (simp add: sample_world_def)

lemma sample_nodes_eq [simp]: "db_nodes sample_db = sample_nodes"
  by (simp add: sample_db_def)

lemma sample_config_fields [simp]: "cf_text sample_config = ascii_rules" "cf_cache_enabled sample_config = False"
  "cf_max_tree_depth sample_config = 64" "cf_sha256_hex sample_config = toy_digest" "cf_glob sample_config = toy_glob"
  by (simp_all add: sample_config_def cf_sha256_hex_def toy_digest_def fun_eq_iff)

lemma sample_tree: "tree_inv sample_nodes"
  by (rule tree_check_sound) code_simp

lemma sample_unbroken: "unbroken sample_config sample_db"
  unfolding unbroken_def sample_config_fields by code_simp

lemma sample_versions: "versions_wf sample_db"
  by code_simp

lemma sample_roots: "roots_ok sample_db"
  by code_simp

lemma sample_store: "store_inv sample_config sample_db"
  using integrity_ok[of ascii_rules sample_db] sample_unbroken
  by (simp add: store_inv_def unbroken_def sample_tree sample_versions sample_roots)

lemma sample_inv: "fs_inv sample_config sample_world"
  by (simp add: fs_inv_def sample_store sample_fresh)

lemma toy_digest_ok: "hex_digest toy_digest"
  by (simp add: hex_digest_def toy_digest_def digit_value_def)

lemma toy_glob_ok: "glob_law toy_glob"
  by (simp add: glob_law_def toy_glob_def butlast_append)

lemma sample_live: "live_inv sample_nodes"
  by code_simp

lemma sample_depth: "depth_le sample_nodes k" if "length sample_nodes \<le> k"
  using depth_le_length[OF sample_tree that] .

lemma sample_depth_guard: "depth_le sample_nodes (Suc CYCLE_GUARD_DEPTH)"
  by (rule sample_depth) (simp add: sample_nodes_def CYCLE_GUARD_DEPTH_def)

abbreviation docs :: node where "docs \<equiv> sample_node 11 3 FOLDER ''docs'' (Some 10) None None 0"
abbreviation drafts :: node where "drafts \<equiv> sample_node 12 3 FOLDER ''drafts'' (Some 11) None None 0"
abbreviation home :: node where "home \<equiv> sample_node 10 3 FOLDER ''root'' None None None 0"
abbreviation discarded :: node where "discarded \<equiv> sample_node 14 3 FILE ''old.txt'' (Some 10) (Some 50) (Some 32) 3"

lemma sample_get: "nodes_get sample_db 11 = Some docs" "nodes_get sample_db 12 = Some drafts" "nodes_get sample_db 10 = Some home"
  "nodes_get sample_db 14 = Some discarded"
  by code_simp+

lemma sample_roles: "compute_role sample_db ''alice'' 3 docs = Some OWNER" "compute_role sample_db ''bob'' 4 drafts = Some EDITOR"
  "compute_role sample_db ''bob'' 4 home = None" "compute_role sample_db ''alice'' 3 drafts = Some OWNER"
  by code_simp+

lemma sample_guard: "within_guard sample_db 11" "within_guard sample_db 12"
  by code_simp+

lemma sample_people [simp]: "us_id alice = 3" "us_subject alice = ''alice''" "us_root_folder_id alice = 10"
  "us_id bob = 4" "us_subject bob = ''bob''"
  by (simp_all add: alice_def bob_def sample_user_def)

lemma sample_node_fields [simp]:
  "nd_id (sample_node i ow k nm p dl v b) = i" "nd_owner_id (sample_node i ow k nm p dl v b) = ow"
  "nd_kind (sample_node i ow k nm p dl v b) = k" "nd_parent_id (sample_node i ow k nm p dl v b) = p"
  "nd_deleted_at (sample_node i ow k nm p dl v b) = dl" "nd_name (sample_node i ow k nm p dl v b) = nm"
  by (simp_all add: sample_node_def)

lemma sample_clock [simp]: "w_clock sample_world = 100"
  by (simp add: sample_world_def)

lemma sample_delete: "returns (delete sample_config alice 11 None None) sample_world"
  using delete_returns[of sample_config sample_world 11 docs alice None None] sample_tree sample_unbroken
  by (auto simp: sample_get sample_roles is_deleted_def is_root_def precondition_holds_def returns_def)

lemma sample_stamp: "\<forall>r\<in>set sample_nodes. nd_deleted_at r \<noteq> Some 100"
  by (simp add: sample_nodes_def)

lemma sample_create: "returns (create_folder sample_config alice 11 ''new'' INHERIT None) sample_world"
proof -
  have "\<exists>v w'. create_folder sample_config alice 11 ''new'' INHERIT None sample_world = (Inr v, w')"
  proof (rule create_folder_returns)
    show "length (nodes_ancestors (w_db sample_world) 11 ANCESTOR_GUARD_DEPTH) + 1 < cf_max_tree_depth sample_config"
      unfolding sample_db_eq sample_config_fields by code_simp
    show "get_child_by_name (cf_text sample_config) (w_db sample_world) 11 (normalize_name (cf_text sample_config) ''new'') = None"
      unfolding sample_db_eq sample_config_fields by code_simp
    show "validate_name ''new'' = Inr ''new''" by code_simp
    show "tree_inv (db_nodes (w_db sample_world))" using sample_tree by simp
    show "fst (effective_role sample_config (us_subject alice) (us_id alice) docs sample_world) = Inr (Some OWNER)"
      by (simp add: effective_role_uncached sample_roles)
  qed (auto simp: cache_serves_def sample_fresh sample_unbroken sample_get is_deleted_def is_folder_def is_root_def)
  then show ?thesis by (auto simp: returns_def)
qed

lemma sample_purge: "returns (purge sample_config alice 14 None) sample_world"
  using purge_returns[of sample_config sample_world 14 discarded alice None] sample_versions sample_unbroken
  by (auto simp: sample_get is_deleted_def returns_def cache_serves_def)

section \<open>With the cache\<close>

definition cached_config :: config where
  "cached_config = sample_config\<lparr>cf_cache_enabled := True\<rparr>"

lemma cached_config_fields [simp]: "cf_cache_enabled cached_config" "cf_glob cached_config = toy_glob"
  "cf_text cached_config = ascii_rules" "cf_max_tree_depth cached_config = cf_max_tree_depth sample_config"
  by (simp_all add: cached_config_def)

lemma sample_healthy: "healthy sample_world"
  by (simp add: healthy_def cache_up_def sample_world_def)

lemma sample_serves: "cache_serves C sample_world"
  by (simp add: cache_serves_def sample_world_def)

lemma sample_no_decisions: "no_decisions C sample_world"
  by (simp add: no_decisions_def sample_world_def)

lemma sample_cached_delete: "returns (delete cached_config alice 11 None None) sample_world"
proof -
  obtain w1 where a: "authorize cached_config alice 11 OWNER sample_world = (Inr (docs, OWNER), w1)" "healthy w1" "same_store sample_world w1"
    using authorize_fresh_returns[OF sample_no_decisions sample_healthy, of 11 docs alice OWNER OWNER]
    by (auto simp: sample_get sample_roles is_deleted_def)
  have "\<exists>k w'. delete cached_config alice 11 None None sample_world = (Inr k, w')"
  proof (rule delete_returns_from[OF a(1,3)])
    show "tree_inv (db_nodes (w_db sample_world))" using sample_tree by simp
    show "unbroken cached_config (w_db sample_world)" using sample_unbroken by (simp add: unbroken_def)
    show "\<exists>v'. invalidate cached_config (nd_id docs) (nd_parent_id docs) None True v = (Inr (), v')" if "w_cache v = w_cache w1" for v
      using invalidate_returns that a(2) unfolding always_returns_def healthy_def cache_up_def by metis
  qed (simp_all add: is_root_def precondition_holds_def)
  then show ?thesis by (auto simp: returns_def)
qed

text \<open>The circuit is open and a decision for bob is still stored.\<close>

definition broken_world :: world where
  "broken_world = sample_world\<lparr>w_cache := \<lparr>cs_entries =
       [(cache_key 1 PERMISSION [''bob'', uuid_str 11], (ordinal EDITOR, seconds 60))],
     cs_breaker = \<lparr>cb_trip_after = seconds 1, cb_cooldown = seconds 1, cb_failing_since = Some 20, cb_opened_at = Some 50\<rparr>,
     cs_reachable = True\<rparr>\<rparr>"

end
