(* ===== verification/CipherProperties.thy ===== *)
theory CipherProperties
  imports Samples
begin

text \<open>
  The promises of content encryption: sealing and opening a body, reading a range of it, detecting a
  altered object, and carrying wrapped keys through a rotation of the master key. Each is
  applied to a small object sealed with the sample cipher.
\<close>

definition sample_key :: bytes where "sample_key = replicate 32 7"
definition sample_nonces :: "nat \<Rightarrow> bytes" where "sample_nonces i = replicate 12 (i mod 256)"
definition sample_vid :: bytes where "sample_vid = replicate 16 1"

lemma toy_tag_length: "length (toy_tag a) = 16"
  by (simp add: toy_tag_def)

lemma toy_tag_last: "16 \<le> length a \<Longrightarrow> toy_tag a = drop (length a - 16) a"
  by (simp add: toy_tag_def)

lemma toy_law: "aead_law toy_aead"
  by (simp add: aead_law_def toy_aead_def toy_tag_length TAG_BYTES_def)

lemma toy_tag_flag: "toy_tag (a @ [x]) = toy_tag (a @ [y]) \<longleftrightarrow> x = y"
proof -
  have "last (toy_tag (a @ [z])) = z" for z by (simp add: toy_tag_def)
  then show ?thesis by metis
qed

lemma toy_flag: "flag_bound toy_aead k"
  by (simp add: flag_bound_def toy_aead_def toy_tag_length toy_tag_flag)

lemma toy_sealing: "length p \<le> 1024 \<Longrightarrow> sealing toy_aead sample_key sample_nonces 1024 p"
  by (simp add: sealing_def toy_law toy_flag sample_key_def sample_nonces_def aes_key_def nonce_source_def
      plain_frames_small frame_sizes NONCE_BYTES_def MIN_FRAME_BYTES_def MAX_FRAME_BYTES_def)

section \<open>Bodies\<close>

text \<open>
  C9. Sealing, which works on a buffer fed by chunks of any size, writes the same object as the
  reference description that cuts the whole plaintext into frames, all full but the last, and seals
  frame \<open>i\<close> with its nonce under the version, its number and whether it is the last. In particular the
  chunks in which an upload arrives leave no trace in the stored bytes.
\<close>

theorem seal_matches_frames:
  assumes "MIN_FRAME_BYTES \<le> int fb" "int fb \<le> MAX_FRAME_BYTES" "aes_key key"
    and "length (plain_frames fb (concat chunks)) \<le> 2 ^ 64"
  shows "\<exists>h. encode_header (int fb) = Inr h \<and>
    cipher_seal A fb nonces (chunks, None) key v = (h # sealed_frames A key nonces v 0 (plain_frames fb (concat chunks)), None)"
  using seal_spec[OF _ assms(3,4)] assms(1,2) by (auto simp: encode_header_ok)

theorem seal_matches_frames_witness:
  "\<exists>h. encode_header (int 1024) = Inr h \<and>
    cipher_seal toy_aead 1024 sample_nonces ([[1, 2], [3]], None) sample_key sample_vid =
      (h # sealed_frames toy_aead sample_key sample_nonces sample_vid 0 (plain_frames 1024 (concat [[1, 2], [3]])), None)"
  by (rule seal_matches_frames)
     (simp_all add: MIN_FRAME_BYTES_def MAX_FRAME_BYTES_def aes_key_def sample_key_def plain_frames_small)

text \<open>
  C8. Opening a sealed body returns the plaintext and ends without an error, whatever the chunks the
  plaintext was sealed from, whatever the chunks the object store serves, and whatever the frame size
  configured by then: the size is read from the object's header.
\<close>

theorem seal_open_round_trip:
  assumes "sealing A key nonces fb (concat chunks)"
    and "concat cs = concat (fst (cipher_seal A fb nonces (chunks, None) key v))"
  shows "concat (fst (cipher_open A configured (cs, None) key v None)) = concat chunks \<and>
         snd (cipher_open A configured (cs, None) key v None) = None"
  using open_seal[OF assms] .

theorem seal_open_round_trip_witness:
  "concat (fst (cipher_open toy_aead 4096 ([concat (fst (cipher_seal toy_aead 1024 sample_nonces ([[1, 2], [3]], None) sample_key sample_vid))], None)
     sample_key sample_vid None)) = concat [[1, 2], [3]] \<and>
   snd (cipher_open toy_aead 4096 ([concat (fst (cipher_seal toy_aead 1024 sample_nonces ([[1, 2], [3]], None) sample_key sample_vid))], None)
     sample_key sample_vid None) = None"
  by (rule seal_open_round_trip) (simp_all add: toy_sealing)

text \<open>
  C7. A range read fetches from the store only the ciphertext bytes of the frames that cover the
  range, and serves exactly the requested slice of the plaintext, provided that the frame size configured
  now, \<open>fb\<close>, is the one the object was sealed with. A range read plans its frames and cuts them by the
  configured size and does not look at the header, where a whole read finds the size it was sealed with.
\<close>

theorem range_read_is_slice:
  assumes "sealing A key nonces fb (concat chunks)"
    and "frames_for_range start len (int fb) (int (length (concat chunks))) = Inr span"
    and "concat cs = byte_slice (ciphertext_range span (int fb)) (concat (fst (cipher_seal A fb nonces (chunks, None) key v)))"
  shows "\<exists>out. cipher_open A fb (cs, None) key v (Some span) = (out, None) \<and>
           concat out = take (nat len) (drop (nat start) (concat chunks))"
  using open_seal_range[OF assms] .

theorem range_read_is_slice_witness:
  "\<exists>span. frames_for_range 1 2 (int 1024) (int (length (concat [[5, 6], [7, 8::nat]]))) = Inr span \<and>
    (\<exists>out. cipher_open toy_aead 1024 ([byte_slice (ciphertext_range span (int 1024))
        (concat (fst (cipher_seal toy_aead 1024 sample_nonces ([[5, 6], [7, 8]], None) sample_key sample_vid)))], None)
      sample_key sample_vid (Some span) = (out, None) \<and> concat out = take (nat 2) (drop (nat 1) (concat [[5, 6], [7, 8]])))"
proof -
  obtain span where s: "frames_for_range 1 2 (int 1024) (int (length (concat [[5, 6], [7, 8::nat]]))) = Inr span"
    by (simp add: frames_for_range_def)
  show ?thesis using range_read_is_slice[OF toy_sealing s, of "[_]"] s by fastforce
qed

text \<open>
  C6. Whatever object the store returns for a version, with frames altered, reordered,
  repeated, dropped or taken from other versions of the file, a whole read yields a prefix of the
  plaintext that was uploaded, and all of it when the read ends without an error. Authenticity of
  AES-GCM enters as \<open>unforged\<close>: no frame authenticates unless that plaintext was sealed, in some version
  sealed under the key, with that associated data.
\<close>

theorem altered_object_never_misread:
  assumes "version_log fb versions" "(v, p) \<in> set versions"
    and "unforged A key v (sealed_log fb versions) (presented_frames configured cs)"
    and "cipher_open A configured (cs, None) key v None = (out, e)"
  shows "prefix (concat out) p \<and> (e = None \<longrightarrow> concat out = p)"
  using tampered_object[OF assms] .

lemma sample_sealed_frame:
  "presented_frames 1024 (fst (cipher_seal toy_aead 1024 sample_nonces ([[1, 2], [3]], None) sample_key sample_vid)) =
     [replicate 12 0 @ [1, 2, 3] @ toy_tag (frame_aad sample_vid 0 True)]"
  by code_simp

lemma toy_tag_aad:
  assumes "toy_tag (frame_aad v i f) = toy_tag (frame_aad v j g)" "i < 2 ^ 64" "j < 2 ^ 64"
  shows "i = j \<and> f = g"
proof -
  have "drop 7 (toy_tag (frame_aad v k h)) = big_endian 8 k @ [if h then 1 else 0]" for k h
    by (simp add: toy_tag_def frame_aad_def)
  then have "frame_aad [] i f = frame_aad [] j g"
    using assms(1) unfolding frame_aad_def[of "[]"] by (metis append_Nil)
  from frame_aad_inj[OF this _ assms(2,3)] show ?thesis by simp
qed

lemma sample_unforged:
  "unforged toy_aead sample_key sample_vid (sealed_log 1024 [(sample_vid, [1, 2, 3])])
     (presented_frames 1024 (fst (cipher_seal toy_aead 1024 sample_nonces ([[1, 2], [3]], None) sample_key sample_vid)))"
  unfolding sample_sealed_frame
  by (auto simp: unforged_def toy_aead_def NONCE_BYTES_def toy_tag_length sealed_log_def plain_frames_small
      split: if_splits dest!: toy_tag_aad)

theorem altered_object_never_misread_witness:
  "\<exists>out e. cipher_open toy_aead 1024 (fst (cipher_seal toy_aead 1024 sample_nonces ([[1, 2], [3]], None) sample_key sample_vid), None)
     sample_key sample_vid None = (out, e) \<and> prefix (concat out) [1, 2, 3] \<and> (e = None \<longrightarrow> concat out = [1, 2, 3])"
proof -
  have "version_log 1024 [(sample_vid, [1, 2, 3])]"
    by (simp add: version_log_def sample_vid_def plain_frames_small)
  from altered_object_never_misread[OF this _ sample_unforged] show ?thesis
    by (metis list.set_intros(1) prod.collapse)
qed

text \<open>
  C10. The size the service predicts for a sealed body, header and frame overheads included, is the
  size of the object that sealing writes.
\<close>

theorem sealed_size_predicted:
  assumes "sealing A key nonces fb (concat chunks)"
  shows "ciphertext_length fb (int (length (concat chunks))) =
           Inr (int (length (concat (fst (cipher_seal A fb nonces (chunks, None) key v)))))"
  using sealed_size[OF assms] .

theorem sealed_size_predicted_witness:
  "ciphertext_length 1024 (int (length (concat [[1, 2], [3::nat]]))) =
     Inr (int (length (concat (fst (cipher_seal toy_aead 1024 sample_nonces ([[1, 2], [3]], None) sample_key sample_vid)))))"
  by (rule sealed_size_predicted) (simp add: toy_sealing)

section \<open>Keys\<close>

text \<open>
  C11. After the master key is replaced, with the old key configured as the previous one, a key
  encryption key wrapped under the old key still unwraps, to itself, by the master key identifier its
  row carries; wrapping it again under the new key opens by the new identifier, with the old key gone.
\<close>

theorem kek_survives_rotation:
  assumes "aead_law A" "length n0 = NONCE_BYTES" "length n1 = NONCE_BYTES"
    and "master_key_provider H k0 prev = Inr P0" "master_key_provider H k1 (Some k0) = Inr P1"
    and "master_key_provider H k1 None = Inr P2" "master_key_id H k0 \<noteq> master_key_id H k1"
    and "wrap_kek A P0 n0 kek = Inr w"
  shows "unwrap_kek A P1 w (kp_current_id P0) = Inr kek \<and>
    (\<exists>w'. wrap_kek A P1 n1 kek = Inr w' \<and> unwrap_kek A P2 w' (kp_current_id P1) = Inr kek)"
proof
  show "unwrap_kek A P1 w (kp_current_id P0) = Inr kek"
    using kek_through_rotation[OF assms(1,2,4,5) _ assms(8)] assms(7) by blast
  have P: "wrap_kek A P1 n1 kek = wrap_kek A P2 n1 kek" "kp_current_id P1 = kp_current_id P2" "length (kp_current P1) = KEY_BYTES"
    using assms(5,6) by (auto simp: master_key_provider_def wrap_kek_def split: if_splits)
  have "length kek = KEY_BYTES" using assms(8) by (auto simp: wrap_kek_def split: if_splits)
  then obtain w' where "wrap_kek A P1 n1 kek = Inr w'"
    using P(3) gcm_seal_total[of "kp_current P1" A n1 kek KEK_ASSOCIATED_DATA] by (auto simp: wrap_kek_def aes_key_def KEY_BYTES_def)
  then show "\<exists>w'. wrap_kek A P1 n1 kek = Inr w' \<and> unwrap_kek A P2 w' (kp_current_id P1) = Inr kek"
    using kek_roundtrip[OF assms(1,3)] P(1,2) by metis
qed

definition toy_fingerprint :: "bytes \<Rightarrow> string" where
  "toy_fingerprint b = map char_of (drop (length b - 16) b)"

definition other_key :: bytes where "other_key = replicate 32 8"

theorem kek_survives_rotation_witness:
  "\<exists>P0 P1 P2 w. master_key_provider toy_fingerprint sample_key None = Inr P0 \<and>
     master_key_provider toy_fingerprint other_key (Some sample_key) = Inr P1 \<and>
     master_key_provider toy_fingerprint other_key None = Inr P2 \<and>
     wrap_kek toy_aead P0 (sample_nonces 0) (replicate 32 9) = Inr w \<and>
     unwrap_kek toy_aead P1 w (kp_current_id P0) = Inr (replicate 32 9) \<and>
     (\<exists>w'. wrap_kek toy_aead P1 (sample_nonces 1) (replicate 32 9) = Inr w' \<and>
           unwrap_kek toy_aead P2 w' (kp_current_id P1) = Inr (replicate 32 9))"
proof -
  have k: "length sample_key = KEY_BYTES" "length other_key = KEY_BYTES"
    by (simp_all add: sample_key_def other_key_def KEY_BYTES_def)
  have d: "master_key_id toy_fingerprint sample_key \<noteq> master_key_id toy_fingerprint other_key" by code_simp
  obtain P0 P1 P2 where p: "master_key_provider toy_fingerprint sample_key None = Inr P0"
    "master_key_provider toy_fingerprint other_key (Some sample_key) = Inr P1"
    "master_key_provider toy_fingerprint other_key None = Inr P2" by (simp add: master_key_provider_def k)
  have "kp_current P0 = sample_key" using p(1) k by (auto simp: master_key_provider_def)
  then obtain w where w: "wrap_kek toy_aead P0 (sample_nonces 0) (replicate 32 9) = Inr w"
    using k by (simp add: wrap_kek_def gcm_seal_def aes_key_def KEY_BYTES_def)
  have n: "length (sample_nonces i) = NONCE_BYTES" for i by (simp add: sample_nonces_def NONCE_BYTES_def)
  show ?thesis using kek_survives_rotation[OF toy_law n n p d w] p w by blast
qed

end
