(* ===== verification/ContentRoundTrip.thy ===== *)
theory ContentRoundTrip
  imports ContentSteps
begin

text \<open>
  What is written is what is read: after a version was stored, its row and its object survive the
  pruning of older versions, the data key under which it was sealed is the one a download obtains, and
  the stream a download serves is the uploaded body.
\<close>

section \<open>The new version survives pruning\<close>

lemma next_sequence_greater:
  assumes "x \<in> set (db_versions d)" "fv_node_id x = nid"
  shows "fv_sequence x < next_sequence d nid"
proof (cases "max_default (map fv_sequence (filter (\<lambda>v. fv_node_id v = nid) (db_versions d)))")
  case None
  then show ?thesis using assms by (simp add: max_default_None filter_empty_conv)
next
  case (Some h)
  then have "fv_sequence x \<le> h" using assms by (simp add: max_default_Some)
  then show ?thesis by (simp add: next_sequence_def Some)
qed

lemma insort_key_below: "f x < f v \<Longrightarrow> insort_key f x (ys @ [v]) = insort_key f x ys @ [v]"
  for f :: "'a \<Rightarrow> int"
  by (induction ys) auto

lemma sort_key_snoc_greatest: "\<forall>x\<in>set xs. f x < f v \<Longrightarrow> sort_key f (xs @ [v]) = sort_key f xs @ [v]"
  for f :: "'a \<Rightarrow> int"
  by (induction xs) (auto simp: insort_key_below)

lemma newest_version_first:
  assumes "fv_sequence v = next_sequence d nid" "fv_node_id v = nid"
  shows "versions_list_for_node (versions_add v d) nid = v # versions_list_for_node d nid"
proof -
  have "\<forall>x\<in>set (filter (\<lambda>v. fv_node_id v = nid) (db_versions d)). fv_sequence x < fv_sequence v"
    using next_sequence_greater assms(1) by auto
  from sort_key_snoc_greatest[OF this] show ?thesis
    using assms(2) by (simp add: versions_list_for_node_def)
qed

text \<open>What pruning dooms after a version was added: versions of the file beyond the retention, never the new one.\<close>

lemma doomed_old:
  assumes "fv_sequence v = next_sequence d nid" "fv_node_id v = nid" "0 < keep"
  shows "set (drop keep (versions_list_for_node (versions_add v d) nid)) \<subseteq> {x \<in> set (db_versions d). fv_node_id x = nid}"
  using assms set_drop_subset[of "keep - 1" "versions_list_for_node d nid"]
  by (simp add: newest_version_first drop_Cons')

text \<open>Object keys tell versions apart.\<close>

lemma key_of_inj:
  assumes "key_of a b c = key_of a' b' c'" "c < 2 ^ 128" "c' < 2 ^ 128"
  shows "c = c'"
proof -
  have "uuid_str c = uuid_str c'" using assms(1) by (simp add: key_of_def append_eq_append_conv)
  then show ?thesis using uuid_str_inj assms(2,3) by blast
qed

text \<open>The version rows and the identifiers drawn by the end of a run are 128 bits wide.\<close>

definition uuid_range :: "world \<Rightarrow> world \<Rightarrow> bool" where
  "uuid_range w w' \<longleftrightarrow> (\<forall>i < w_drawn w'. w_uuids w i < 2 ^ 128) \<and> (\<forall>v\<in>set (db_versions (w_db w)). fv_id v < 2 ^ 128)"

section \<open>Data keys\<close>

lemma user_kek_ok:
  "user_kek C E uid w = (Inr kek, w') \<longleftrightarrow> w' = w \<and>
     (\<exists>k. get_user_key (w_db w) uid = Some k \<and>
          unwrap_kek (cf_aead C) (ec_provider E) (uk_wrapped_kek k) (uk_master_key_id k) = Inr kek)"
  by (auto simp: user_kek_def world_ok)

lemma urandom_ok:
  "urandom k w = (Inr bs, w') \<longleftrightarrow>
     bs = map (\<lambda>i. w_entropy w (w_spent w + i)) [0..<k] \<and> w' = w\<lparr>w_spent := w_spent w + k\<rparr>"
  by (auto simp: urandom_def)

lemma store_data_key_run:
  assumes "store_data_key C nid s dek kek t w = (Inr x, w')" "aead_law (cf_aead C)"
  obtains k where "w_db w' = add_data_key k (w_db w)" "dk_node_id k = nid" "dk_subject k = s"
    "unwrap_dek (cf_aead C) (dk_wrapped_dek k) kek = Inr dek"
  using assms(1) unfolding store_data_key_def draw_wrap_dek_def
  by (clarsimp simp: world_ok urandom_ok) (rule that, auto intro!: dek_roundtrip[OF assms(2)])

text \<open>The key that sealing obtains for the owner is the one a download of the owner obtains later.\<close>

lemma ensured_key_found:
  assumes e: "ensure_data_key C E n s t w = (Inr dek, w1)" and law: "aead_law (cf_aead C)"
    and u: "users_get_by_subject (w_db w) s = Some u" "us_id u = nd_owner_id n"
    and keep: "db_data_keys (w_db w2) = db_data_keys (w_db w1)" "db_user_keys (w_db w2) = db_user_keys (w_db w1)"
      "db_users (w_db w2) = db_users (w_db w1)"
  shows "data_key_for C E n s w2 = (Inr dek, w2)"
proof -
  obtain kek k where kek: "user_kek C E (nd_owner_id n) w = (Inr kek, w)"
    and k: "get_data_key (w_db w1) (nd_id n) s = Some k" "unwrap_dek (cf_aead C) (dk_wrapped_dek k) kek = Inr dek"
    and d: "db_user_keys (w_db w1) = db_user_keys (w_db w)" "db_users (w_db w1) = db_users (w_db w)"
  proof (cases "get_data_key (w_db w) (nd_id n) s")
    case (Some k)
    then show thesis using e that by (fastforce simp: ensure_data_key_def world_ok user_kek_ok)
  next
    case None
    let ?w3 = "w\<lparr>w_spent := w_spent w + KEY_BYTES\<rparr>"
    obtain kek x where kek: "user_kek C E (nd_owner_id n) w = (Inr kek, w)"
      and s: "store_data_key C (nd_id n) s dek kek t ?w3 = (Inr x, w1)"
      using e None by (auto simp: ensure_data_key_def create_data_key_def world_ok user_kek_ok urandom_ok)
    from s law show thesis
    proof (rule store_data_key_run)
      fix k assume k: "w_db w1 = add_data_key k (w_db ?w3)" "dk_node_id k = nd_id n" "dk_subject k = s"
        "unwrap_dek (cf_aead C) (dk_wrapped_dek k) kek = Inr dek"
      have "find P (xs @ [y]) = (case find P xs of Some z \<Rightarrow> Some z | None \<Rightarrow> if P y then Some y else None)"
        for P and xs :: "data_key list" and y by (induction xs) auto
      then have "get_data_key (w_db w1) (nd_id n) s = Some k"
        using None k(1-3) by (simp add: get_data_key_def add_data_key_def)
      then show thesis using that kek k(1,4) by (simp add: add_data_key_def)
    qed
  qed
  have "user_kek C E (us_id u) w2 = (Inr kek, w2)"
    using kek u(2) d keep by (simp add: user_kek_ok get_user_key_def)
  moreover have "get_data_key (w_db w2) (nd_id n) s = Some k" using k(1) keep by (simp add: get_data_key_def)
  moreover have "users_get_by_subject (w_db w2) s = Some u" using u(1) d keep by (simp add: users_get_by_subject_def)
  ultimately show ?thesis using k(2) by (simp add: data_key_for_def world_ok)
qed

section \<open>The stored object\<close>

lemma charge_frame:
  assumes "charge n k t w = (Inr x, w')"
  shows "w_objects w' = w_objects w \<and> db_data_keys (w_db w') = db_data_keys (w_db w) \<and>
    db_user_keys (w_db w') = db_user_keys (w_db w) \<and> db_users (w_db w') = db_users (w_db w) \<and>
    db_grants (w_db w') = db_grants (w_db w) \<and> db_nodes (w_db w') = db_nodes (w_db w) \<and> w_drawn w' = w_drawn w"
  using assms by (auto simp: charge_def world_ok Let_def quotas_update_def split: option.splits if_splits)

lemma lookup_filter_kept: "key \<notin> K \<Longrightarrow> objects_lookup (filter (\<lambda>(k, _). k \<notin> K) objs) key = objects_lookup objs key"
  by (induction objs) (auto simp: objects_lookup_def)

lemma put_ok:
  "objects_put key s w = (Inr k, w') \<longleftrightarrow>
     (\<exists>bs. read_body s = Inr bs \<and> k = length bs \<and>
       w' = w\<lparr>w_objects := objects_store key \<lparr>so_bytes = bs, so_modified = Some (w_clock w)\<rparr> (w_objects w)\<rparr>)"
  by (auto simp: objects_put_def split: sum.splits)

lemma stored_object:
  assumes s: "store_version C u n body ct decl t w = (Inr n', w')" and wf: "versions_wf (w_db w)" and fresh: "fresh_ids w"
    and ids: "uuid_range w w'" and keep: "0 < cf_version_retention C"
  obtains v counted payload w1 so where
    "counted = measure_body (cf_max_upload_bytes C) 0 (fst body) (snd body)"
    "v = new_version (w_uuids w (w_drawn w)) n (next_sequence (w_db w) (nd_id n)) (int (length (seen_plaintext (nd_encrypted n) counted)))
           (cf_sha256 C (seen_plaintext (nd_encrypted n) counted)) (content_type_or_default ct) (nd_encrypted n) t (us_subject u) (w_uuids w (w_drawn w))"
    "n' = with_content v t n"
    "seal_if_needed C n counted (fv_id v) t (w\<lparr>w_drawn := w_drawn w + 1\<rparr>) = (Inr payload, w1)"
    "read_body payload = Inr (so_bytes so)" "objects_lookup (w_objects w') (object_key v) = Some so"
    "versions_get (w_db w') (fv_id v) = Some v"
    "db_data_keys (w_db w') = db_data_keys (w_db w1)" "db_user_keys (w_db w') = db_user_keys (w_db w1)"
    "db_users (w_db w') = db_users (w_db w1)" "db_nodes (w_db w') = db_nodes (nodes_update n' (w_db w))"
  using s
proof (rule store_version_run)
  fix counted seen v payload w1 w2 w3
  assume c: "counted = measure_body (cf_max_upload_bytes C) 0 (fst body) (snd body)"
    and seen: "seen = seen_plaintext (nd_encrypted n) counted"
    and v: "v = new_version (w_uuids w (w_drawn w)) n (next_sequence (w_db w) (nd_id n)) (int (length seen)) (cf_sha256 C seen)
           (content_type_or_default ct) (nd_encrypted n) t (us_subject u) (w_uuids w (w_drawn w))"
    and n': "n' = with_content v t n"
    and sl: "seal_if_needed C n counted (fv_id v) t (w\<lparr>w_drawn := w_drawn w + 1\<rparr>) = (Inr payload, w1)"
    and p: "objects_put (object_key v) payload w1 = (Inr (length (concat (takeWhile (\<lambda>c. c \<noteq> []) (fst payload)))), w2)"
    and ch: "charge n (int (length seen)) t w2 = (Inr (), w3)"
    and pr: "prune_versions C n' t (w3\<lparr>w_db := nodes_update n' (versions_add v (w_db w3))\<rparr>) = (Inr (), w')"
  have k: "db_versions (w_db w3) = db_versions (w_db w)" "db_nodes (w_db w3) = db_nodes (w_db w)"
    using keeps_tablesD[OF keeps_tables_parts(3) sl] keeps_tablesD[OF keeps_tables_basic(13) p]
      keeps_tablesD[OF keeps_tables_parts(2) ch] by simp_all
  have id: "nd_id n' = nd_id n" by (simp add: n' with_content_def touch_def)
  let ?d = "nodes_update n' (versions_add v (w_db w3))" and ?doomed = "doomed_versions C (nodes_update n' (versions_add v (w_db w3))) (nd_id n)"
  have vf: "fv_sequence v = next_sequence (w_db w3) (nd_id n)" "fv_node_id v = nd_id n" "fv_id v = w_uuids w (w_drawn w)"
    using k by (simp_all add: v new_version_def next_sequence_def)
  have old: "set ?doomed \<subseteq> {x \<in> set (db_versions (w_db w)). fv_node_id x = nd_id n}"
    using doomed_old[OF vf(1,2) keep] k
    by (simp add: doomed_versions_def versions_list_for_node_def nodes_update_def)
  have new: "fv_id v \<notin> fv_id ` set (db_versions (w_db w))" using fresh by (auto simp: fresh_ids_def used_ids_def vf(3))
  have keys: "object_key v \<notin> object_key ` set ?doomed"
  proof
    assume "object_key v \<in> object_key ` set ?doomed"
    then obtain x where x: "x \<in> set (db_versions (w_db w))" "object_key v = object_key x" using old by blast
    have "fv_id v < 2 ^ 128" "fv_id x < 2 ^ 128" using ids x(1) store_version_ids[OF s] by (simp_all add: uuid_range_def vf(3))
    from key_of_inj[OF x(2)[unfolded object_key_def] this] show False using new x(1) by auto
  qed
  obtain bs where bs: "read_body payload = Inr bs"
    "w2 = w1\<lparr>w_objects := objects_store (object_key v) \<lparr>so_bytes = bs, so_modified = Some (w_clock w1)\<rparr> (w_objects w1)\<rparr>"
    using p by (auto simp: put_ok)
  note ch' = charge_frame[OF ch] and pr' = prune_versions_run[OF pr, unfolded id]
  have "objects_lookup (w_objects w') (object_key v) = Some \<lparr>so_bytes = bs, so_modified = Some (w_clock w1)\<rparr>"
    using pr' ch' keys by (simp add: lookup_filter_kept bs(2))
  moreover have "versions_get (w_db w') (fv_id v) = Some v"
  proof -
    have vs: "db_versions (w_db w') = filter (\<lambda>x. fv_id x \<notin> fv_id ` set ?doomed) (db_versions (w_db w) @ [v])"
      using pr' k by (simp add: nodes_update_def)
    have "distinct (map fv_id (db_versions (w_db w) @ [v]))" using wf new by (auto simp: versions_wf_def)
    then have "distinct (map fv_id (db_versions (w_db w')))" unfolding vs by (rule distinct_map_filter)
    moreover have "v \<in> set (db_versions (w_db w'))" using old new unfolding vs by auto
    ultimately show ?thesis by (simp add: versions_get_def row_by_iff)
  qed
  moreover have "db_data_keys (w_db w') = db_data_keys (w_db w1)" "db_user_keys (w_db w') = db_user_keys (w_db w1)"
    "db_users (w_db w') = db_users (w_db w1)" "db_nodes (w_db w') = db_nodes (nodes_update n' (w_db w))"
    using pr' ch' k by (simp_all add: bs(2) nodes_update_def versions_add_def)
  ultimately show thesis
    using bs(1) by (intro that[OF c v[unfolded seen] n' sl, of "\<lparr>so_bytes = bs, so_modified = Some (w_clock w1)\<rparr>"]) simp_all
qed

section \<open>Bodies\<close>

lemma measure_body_ok:
  assumes "measure_body limit k cs ending = (out, None)"
  shows "out = cs \<and> ending = None \<and> (cs \<noteq> [] \<longrightarrow> k + int (length (concat cs)) \<le> limit)"
  using assms
proof (induction limit k cs ending arbitrary: out rule: measure_body.induct)
  case (2 limit k c cs ending)
  then show ?case by (cases cs) (auto simp: prepend_def Let_def split: if_splits)
qed simp

lemma read_body_ok: "read_body s = Inr bs \<Longrightarrow> [] \<notin> set (fst s) \<Longrightarrow> snd s = None \<and> bs = concat (fst s)"
  by (auto simp: read_body_full split: option.splits)

lemma set_measure_body: "set (fst (measure_body limit k cs ending)) \<subseteq> set cs"
  by (induction limit k cs ending rule: measure_body.induct) (auto simp: prepend_def Let_def)

lemma seal_frame_nonempty: "seal_frame A k nonces f v i final = Inr s \<Longrightarrow> nonce_source nonces \<Longrightarrow> s \<noteq> []"
  by (auto simp: seal_frame_def nonce_source_def NONCE_BYTES_def split: sum.splits)
     (metis list.size(3) zero_neq_numeral)

lemma seal_run_nonempty: "nonce_source nonces \<Longrightarrow> [] \<notin> set (fst (seal_run A k nonces v i fs))"
  by (induction fs arbitrary: i) (auto simp: prepend_def dest: seal_frame_nonempty split: sum.splits)

lemma seal_chunks_nonempty:
  "nonce_source nonces \<Longrightarrow> [] \<notin> set (fst (seal_chunks A k nonces v fb i b cs ending))"
proof (induction cs arbitrary: i b)
  case Nil
  then show ?case by (auto dest: seal_frame_nonempty split: option.splits sum.splits)
next
  case (Cons c cs)
  obtain fs left where d: "drain fb (b @ c) = (fs, left)" by (cases "drain fb (b @ c)")
  obtain out e where r: "seal_run A k nonces v i fs = (out, e)" by (cases "seal_run A k nonces v i fs")
  show ?case using Cons seal_run_nonempty[OF Cons(2), of A k v i fs] by (auto simp: d r prepend_def split: option.splits)
qed

lemma seal_chunks_ending: "snd (seal_chunks A k nonces v fb i b cs ending) = None \<Longrightarrow> ending = None"
  by (induction cs arbitrary: i b) (auto simp: prepend_def split: option.splits sum.splits prod.splits)

lemma cipher_seal_chunks:
  assumes "nonce_source nonces"
  shows "[] \<notin> set (fst (cipher_seal A fb nonces s key v))"
  using seal_chunks_nonempty[OF assms, of A key v fb 0 "[]" "fst s" "snd s"]
  by (auto simp: cipher_seal_def prepend_def dest!: encode_header_length simp: frame_sizes split: sum.splits)

lemma cipher_seal_ending:
  assumes "snd (cipher_seal A fb nonces s key v) = None"
  shows "snd s = None \<and> aes_key key \<and> MIN_FRAME_BYTES \<le> int fb \<and> int fb \<le> MAX_FRAME_BYTES"
  using assms seal_chunks_ending[of A key nonces v fb 0 "[]" "fst s" "snd s"]
  by (auto simp: cipher_seal_def prepend_def encode_header_ok split: sum.splits if_splits)

lemma frame_nonces_source: "nonce_source (frame_nonces w)"
  by (simp add: nonce_source_def frame_nonces_def)

text \<open>A body that was sealed and stored completely meets the conditions of the cipher's round trip.\<close>

lemma stored_sealing:
  assumes "read_body (cipher_seal A fb nonces s key v) = Inr bs" "aead_law A" "flag_bound A key" "nonce_source nonces"
    and "int (length (concat (fst s))) < 2 ^ 64"
  shows "sealing A key nonces fb (concat (fst s)) \<and> snd s = None \<and> bs = concat (fst (cipher_seal A fb nonces s key v))"
proof -
  have r: "snd (cipher_seal A fb nonces s key v) = None" "bs = concat (fst (cipher_seal A fb nonces s key v))"
    using read_body_ok[OF assms(1) cipher_seal_chunks[OF assms(4)]] by auto
  note c = cipher_seal_ending[OF r(1)]
  have pos: "0 < fb" using c by (simp add: frame_sizes)
  have "length (plain_frames fb (concat (fst s))) \<le> length (concat (fst s)) + 1"
    by (simp add: plain_frames_length[OF pos] le_SucI)
  also have "\<dots> \<le> 2 ^ 64" using assms(5) by simp
  finally show ?thesis using assms(2-4) c r(2) by (simp add: sealing_def)
qed

section \<open>Ranges\<close>

definition within :: "byte_range \<Rightarrow> int \<Rightarrow> bool" where
  "within r sz \<longleftrightarrow> 0 \<le> br_start r \<and> 0 < br_length r \<and> br_start r + br_length r \<le> sz"

lemma py_int_nonneg: "py_int s = Inr n \<Longrightarrow> 0 \<le> n"
  by (auto simp: py_int_def split: if_splits)

lemma parse_range_within:
  assumes "parse_range header sz = Inr (Some r)"
  shows "within r sz"
  using assms py_int_nonneg
  by (fastforce simp: parse_range_def within_def Let_def split: option.splits if_splits prod.splits sum.splits)

definition slice_of :: "byte_range option \<Rightarrow> bytes \<Rightarrow> bytes" where
  "slice_of wanted p = (case wanted of None \<Rightarrow> p | Some r \<Rightarrow> take (nat (br_length r)) (drop (nat (br_start r)) p))"

section \<open>Reading back\<close>

lemma owner_download:
  assumes "nodes_get (w_db w) nid = Some n" "\<not> is_deleted n" "is_file n" "nd_owner_id n = us_id u"
    and "nd_current_version_id n = Some vid" "versions_get (w_db w) vid = Some v" "fv_node_id v = nd_id n"
    and "parse_range rh (fv_size_bytes v) = Inr wanted"
    and "(if fv_encrypted v then open_encrypted C n v u wanted else open_plain C v wanted) w = (Inr s, w)"
  shows "\<exists>plan w'. download C u nid rh None ra l now w = (Inr plan, w') \<and> dp_stream plan = s \<and> dp_version plan = v \<and>
    dp_total_bytes plan = fv_size_bytes v"
proof -
  let ?served = "case wanted of None \<Rightarrow> fv_size_bytes v | Some r \<Rightarrow> br_length r"
  have role: "require u n VIEWER w = (Inr OWNER, w)"
    using assms(4) by (simp add: require_ok compute_role_def Let_def resolve_owner)
  have node: "require_node nid w = (Inr n, w)" using assms(1,2) by (simp add: require_node_ok)
  have ver: "resolve_version n None w = (Inr v, w)" using assms(5-7) by (simp add: resolve_version_def world_ok)
  obtain t where t: "moment_of now w = (Inr t, w)" by (simp add: moment_of_def query_def)
  obtain w' where a: "audit_download u n ?served t l w = (Inr (), w')"
    by (simp add: audit_download_def emit_audit_ok)
  show ?thesis
    by (simp add: download_def bind_run seq_run t node role ver guard_run assms(3,8) Let_def a
        if_distrib[of "\<lambda>m. m w"] assms(9)[unfolded if_distrib[of "\<lambda>m. m w"]])
qed

lemma get_whole:
  assumes "objects_lookup objs key = Some so" "0 < cf_part_bytes C"
  obtains cs where "objects_get C objs key 0 None = (cs, None)" "concat cs = so_bytes so"
  using assms by (simp add: objects_get_def concat_pieces)

lemma get_slice:
  assumes "objects_lookup objs key = Some so" "0 < cf_part_bytes C" "0 \<le> offset" "offset < int (length (so_bytes so))" "0 < len"
  obtains cs where "objects_get C objs key offset (Some len) = (cs, None)" "concat cs = byte_slice (offset, len) (so_bytes so)"
  using assms by (simp add: objects_get_def concat_pieces byte_slice_def)

text \<open>A plain object serves the body, or the slice of it that was asked for.\<close>

lemma plain_is_opened:
  assumes "objects_lookup (w_objects w) (object_key v) = Some so" "0 < cf_part_bytes C" "cf_sha256 C (so_bytes so) = fv_plaintext_digest v"
    and "\<And>r. wanted = Some r \<Longrightarrow> within r (int (length (so_bytes so)))"
  shows "\<exists>out. open_plain C v wanted w = (Inr (out, None), w) \<and> concat out = slice_of wanted (so_bytes so)"
proof (cases wanted)
  case None
  obtain cs where "objects_get C (w_objects w) (object_key v) 0 None = (cs, None)" "concat cs = so_bytes so"
    by (rule get_whole[OF assms(1,2)])
  then show ?thesis using assms(3) by (simp add: None open_plain_def bind_run verify_stream_def slice_of_def)
next
  case (Some r)
  have "0 \<le> br_start r" "br_start r < int (length (so_bytes so))" "0 < br_length r"
    using assms(4)[OF Some] by (auto simp: within_def)
  from get_slice[OF assms(1,2) this] obtain cs where "objects_get C (w_objects w) (object_key v) (br_start r) (Some (br_length r)) = (cs, None)"
    "concat cs = byte_slice (br_start r, br_length r) (so_bytes so)" .
  then show ?thesis by (simp add: Some open_plain_def slice_of_def byte_slice_def)
qed

text \<open>A sealed object serves the plaintext, or the slice of it that was asked for.\<close>

lemma sealed_slice_served:
  assumes seal: "sealing A key nonces fb p" and obj: "so_bytes so = concat (fst (cipher_seal A fb nonces (chunks, None) key vid))"
    and p: "p = concat chunks" and look: "objects_lookup objs k = Some so" and part: "0 < cf_part_bytes C" and r: "within r (int (length p))"
  shows "\<exists>span cs out. frames_for_range (br_start r) (br_length r) (int fb) (int (length p)) = Inr span \<and>
    objects_get C objs k (fst (ciphertext_range span (int fb))) (Some (snd (ciphertext_range span (int fb)))) = (cs, None) \<and>
    cipher_open A fb (cs, None) key vid (Some span) = (out, None) \<and> concat out = slice_of (Some r) p"
proof -
  have pos: "0 < fb" by (rule sealing_pos[OF seal])
  obtain span where span: "frames_for_range (br_start r) (br_length r) (int fb) (int (length p)) = Inr span"
    using r pos by (auto simp: frames_for_range_def within_def Let_def)
  obtain first n where range: "ciphertext_range span (int fb) = (first, n)" by (cases "ciphertext_range span (int fb)")
  have rng: "0 \<le> first" "0 < n"
  proof -
    obtain s c where c: "0 < c" "fs_first_index span = int (s div fb)" "fs_last_index span = int ((s + c - 1) div fb)"
      by (rule range_span[OF span pos])
    have le: "s div fb \<le> (s + c - 1) div fb" using c(1) by (intro div_le_mono) simp
    have f: "first = int HEADER_BYTES + int (s div fb) * (int fb + int FRAME_OVERHEAD)"
      and n: "n = (int ((s + c - 1) div fb) + 1 - int (s div fb)) * (int fb + int FRAME_OVERHEAD)"
      using range c(2,3) by (auto simp: ciphertext_range_def ciphertext_offset_def sealed_frame_bytes_def Let_def left_diff_distrib)
    show "0 \<le> first" unfolding f by simp
    show "0 < n" unfolding n using le pos by (intro mult_pos_pos) simp_all
  qed
  note open_it = open_seal_range[OF seal[unfolded p] span[unfolded p]]
  have "first < int (length (so_bytes so))"
  proof (rule ccontr)
    assume "\<not> first < int (length (so_bytes so))"
    then have "concat [] = byte_slice (ciphertext_range span (int fb)) (concat (fst (cipher_seal A fb nonces (chunks, None) key vid)))"
      by (simp add: range byte_slice_def flip: obj)
    from open_it[OF this] have "take (nat (br_length r)) (drop (nat (br_start r)) (concat chunks)) = []"
      by (auto simp: cipher_open_def reader_frame_size_def reader_frames.simps[of fb "[]"] frame_sizes Let_def split: if_splits)
    then show False using r p by (auto simp: within_def)
  qed
  from get_slice[OF look part rng(1) this rng(2)] obtain cs where
    "objects_get C objs k first (Some n) = (cs, None)" "concat cs = byte_slice (first, n) (so_bytes so)" .
  then show ?thesis using open_it[of cs vid] span range obj p by (auto simp: slice_of_def)
qed

text \<open>An account as the repositories know it: found by its identifier and by its subject.\<close>

definition account :: "db \<Rightarrow> user \<Rightarrow> bool" where
  "account d u \<longleftrightarrow> users_get d (us_id u) = Some u \<and> users_get_by_subject d (us_subject u) = Some u"

text \<open>What the configuration promises when it is used to store content.\<close>

definition content_config :: "config \<Rightarrow> bool" where
  "content_config C \<longleftrightarrow> aead_law (cf_aead C) \<and> (\<forall>k. flag_bound (cf_aead C) k) \<and> 0 < cf_version_retention C \<and>
     0 < cf_part_bytes C \<and> cf_max_upload_bytes C < 2 ^ 64"

lemma apply_node_same: "nd_id r = nd_id n \<Longrightarrow> nd_kind r = nd_kind n \<Longrightarrow> nd_created_at r = nd_created_at n \<Longrightarrow> apply_node n r = n"
  by (cases n) (simp add: apply_node_def)

text \<open>The measured body never exceeds the limit.\<close>

lemma measured_size: "L < M \<Longrightarrow> j < M \<Longrightarrow> j + int (length (concat (fst (measure_body L j cs e)))) < M"
  by (induction L j cs e rule: measure_body.induct) (auto simp: prepend_def Let_def algebra_simps)

text \<open>An encrypted body, as sealed while it was stored, opens to the body or the slice asked for.\<close>

lemma sealed_is_opened:
  assumes sl: "seal_if_needed C n counted vid t w = (Inr payload, w1)" "nd_encrypted n" and body: "read_body payload = Inr (so_bytes so)"
    and cfg: "content_config C" and small: "int (length (concat (fst counted))) < 2 ^ 64"
    and ow: "account (w_db w) ow" "nd_owner_id n = us_id ow" and n': "nd_id n' = nd_id n"
    and k: "db_data_keys (w_db w2) = db_data_keys (w_db w1)" "db_user_keys (w_db w2) = db_user_keys (w_db w1)"
      "db_users (w_db w2) = db_users (w_db w1)"
    and obj: "objects_lookup (w_objects w2) (object_key v) = Some so"
    and v: "fv_seal_version_id v = vid" "fv_size_bytes v = int (length (concat (fst counted)))"
    and r: "\<And>r. wanted = Some r \<Longrightarrow> within r (fv_size_bytes v)"
  shows "snd counted = None \<and>
    (\<exists>out. open_encrypted C n' v ow wanted w2 = (Inr (out, None), w2) \<and> concat out = slice_of wanted (concat (fst counted)))"
proof -
  obtain E ow' dek wa where E: "cf_encryption C = Some E" and o': "users_get (w_db w) (nd_owner_id n) = Some ow'"
    and dek: "ensure_data_key C E n (us_subject ow') t w = (Inr dek, wa)"
    and seal: "encryption_seal C E counted dek vid wa = (Inr payload, w1)"
    using sl by (auto simp: seal_if_needed_def world_ok)
  have "ow' = ow" using o' ow by (simp add: account_def)
  let ?A = "cf_aead C" and ?fb = "ec_frame_bytes E" and ?p = "concat (fst counted)"
  have pl: "payload = cipher_seal ?A ?fb (frame_nonces wa) counted dek (uuid_bytes vid)"
    and w1: "w_db w1 = w_db wa" using seal by (auto simp: encryption_seal_def Let_def)
  have law: "aead_law ?A" "flag_bound ?A dek" "0 < cf_part_bytes C" using cfg by (simp_all add: content_config_def)
  from stored_sealing[OF body[unfolded pl] law(1,2) frame_nonces_source small]
  have sg: "sealing ?A dek (frame_nonces wa) ?fb ?p" "snd counted = None" "so_bytes so = concat (fst payload)" unfolding pl by auto
  have ct: "so_bytes so = concat (fst (cipher_seal ?A ?fb (frame_nonces wa) (fst counted, None) dek (uuid_bytes vid)))"
    using pl sg(2,3) by (metis prod.collapse)
  have "data_key_for C E n (us_subject ow) w2 = (Inr dek, w2)"
    using ow k dek[unfolded \<open>ow' = ow\<close>] by (intro ensured_key_found[OF _ law(1), of E n "us_subject ow" t w dek wa ow]) (simp_all add: account_def w1)
  then have key: "data_key_for C E n' (us_subject ow) w2 = (Inr dek, w2)" by (simp add: data_key_for_def n')
  have "\<exists>out. open_encrypted C n' v ow wanted w2 = (Inr (out, None), w2) \<and> concat out = slice_of wanted ?p"
  proof (cases wanted)
    case None
    obtain cs where cs: "objects_get C (w_objects w2) (object_key v) 0 None = (cs, None)" "concat cs = so_bytes so"
      by (rule get_whole[OF obj law(3)])
    obtain out where "cipher_open ?A ?fb (cs, None) dek (uuid_bytes vid) None = (out, None)" "concat out = ?p"
      using open_seal[OF sg(1), of cs "uuid_bytes vid" ?fb] cs(2) ct by (metis prod.collapse)
    then show ?thesis
      using cs(1) key by (simp add: None open_encrypted_def E bind_run expect_run encryption_open_def v(1) slice_of_def)
  next
    case (Some r)
    from sealed_slice_served[OF sg(1) ct refl obj law(3) assms(15)[OF Some, unfolded v(2)]]
    show ?thesis using key
      by (auto simp: Some open_encrypted_def E bind_run expect_run encryption_open_def v plan_range_def split_beta)
  qed
  then show ?thesis using sg(2) by blast
qed

lemma stored_is_served:
  assumes s: "store_version C u n (chunks, None) ct decl t w = (Inr n', w')" and cfg: "content_config C"
    and wf: "versions_wf (w_db w)" "fresh_ids w" "uuid_range w w'" and ne: "[] \<notin> set chunks"
    and m: "nodes_get (w_db w) (nd_id n) = Some m" "nd_kind n = nd_kind m" "nd_created_at n = nd_created_at m"
    and n: "\<not> is_deleted n" "is_file n" and ow: "account (w_db w) ow" "nd_owner_id n = us_id ow"
    and keep: "w_objects w2 = w_objects w'" "db_data_keys (w_db w2) = db_data_keys (w_db w')" "db_user_keys (w_db w2) = db_user_keys (w_db w')"
      "db_users (w_db w2) = db_users (w_db w')" "db_nodes (w_db w2) = db_nodes (w_db w')" "db_versions (w_db w2) = db_versions (w_db w')"
    and rh: "parse_range rh (int (length (concat chunks))) = Inr wanted"
  shows "\<exists>plan w3. download C ow (nd_id n) rh None ra l now w2 = (Inr plan, w3) \<and> snd (dp_stream plan) = None \<and>
    concat (fst (dp_stream plan)) = slice_of wanted (concat chunks) \<and> dp_total_bytes plan = int (length (concat chunks))"
  using s wf cfg[unfolded content_config_def, THEN conjunct2, THEN conjunct2, THEN conjunct1]
proof (rule stored_object)
  fix v counted payload w1 so
  assume c: "counted = measure_body (cf_max_upload_bytes C) 0 (fst (chunks, None)) (snd (chunks, None))"
    and v: "v = new_version (w_uuids w (w_drawn w)) n (next_sequence (w_db w) (nd_id n)) (int (length (seen_plaintext (nd_encrypted n) counted)))
           (cf_sha256 C (seen_plaintext (nd_encrypted n) counted)) (content_type_or_default ct) (nd_encrypted n) t (us_subject u) (w_uuids w (w_drawn w))"
    and n': "n' = with_content v t n"
    and sl: "seal_if_needed C n counted (fv_id v) t (w\<lparr>w_drawn := w_drawn w + 1\<rparr>) = (Inr payload, w1)"
    and so: "read_body payload = Inr (so_bytes so)" "objects_lookup (w_objects w') (object_key v) = Some so"
    and vg: "versions_get (w_db w') (fv_id v) = Some v"
    and k: "db_data_keys (w_db w') = db_data_keys (w_db w1)" "db_user_keys (w_db w') = db_user_keys (w_db w1)"
      "db_users (w_db w') = db_users (w_db w1)" "db_nodes (w_db w') = db_nodes (nodes_update n' (w_db w))"
  have small: "int (length (concat (fst counted))) < 2 ^ 64"
    using measured_size[of "cf_max_upload_bytes C" "2 ^ 64" 0 chunks None] cfg c by (simp add: content_config_def)
  have nec: "[] \<notin> set (fst counted)" using set_measure_body[of "cf_max_upload_bytes C" 0 chunks None] ne c by auto
  have look: "objects_lookup (w_objects w2) (object_key v) = Some so" using so(2) keep(1) by simp
  have nd: "nodes_get (w_db w2) (nd_id n) = Some n'"
  proof -
    have "apply_node n' m = n'" using m nodes_get_Some[OF m(1)] by (intro apply_node_same) (simp_all add: n' with_content_def touch_def)
    moreover have "nd_id n' = nd_id n" by (simp add: n' with_content_def touch_def)
    moreover have "nd_id (apply_node n' r) = nd_id r" for r by (simp add: apply_node_def)
    ultimately show ?thesis using m(1) by (simp add: nodes_get_def keep(5) k(4) nodes_update_def row_by_upd_row)
  qed
  have n'f: "nd_id n' = nd_id n" "nd_owner_id n' = us_id ow" "nd_current_version_id n' = Some (fv_id v)" "is_deleted n' = is_deleted n"
    "is_file n' = is_file n" using ow(2) by (simp_all add: n' with_content_def touch_def is_deleted_def is_file_def)
  have vf: "fv_node_id v = nd_id n'" "fv_encrypted v = nd_encrypted n" "fv_seal_version_id v = fv_id v"
    "fv_size_bytes v = int (length (seen_plaintext (nd_encrypted n) counted))" "fv_plaintext_digest v = cf_sha256 C (seen_plaintext (nd_encrypted n) counted)"
    by (simp_all add: v n' new_version_def with_content_def touch_def)
  have seen: "seen_plaintext (nd_encrypted n) counted = concat (fst counted)"
    using nec by (auto simp: seen_plaintext_def takeWhile_eq_all_conv intro!: arg_cong[where f = concat])
  note vf = vf[unfolded seen]
  have full: "fst counted = chunks" if "snd counted = None"
  proof -
    have "measure_body (cf_max_upload_bytes C) 0 chunks None = (fst counted, None)" using c that by (simp add: prod_eq_iff)
    from measure_body_ok[OF this] show ?thesis by simp
  qed
  have "snd counted = None"
  proof (cases "nd_encrypted n")
    case False
    then have "payload = counted" using sl by (simp add: seal_if_needed_def)
    then show ?thesis using read_body_ok[OF so(1)] nec by simp
  next
    case True
    then show ?thesis using small ow k keep
      by (intro conjunct1[OF sealed_is_opened[OF sl True so(1) cfg small _ _ n'f(1) _ _ _ look vf(3) _, where wanted = None]])
        (simp_all add: account_def vf)
  qed
  then have ch: "fst counted = chunks" by (rule full)
  have rg: "within r (fv_size_bytes v)" if "wanted = Some r" for r using parse_range_within rh that by (simp add: vf ch)
  obtain out where o: "(if fv_encrypted v then open_encrypted C n' v ow wanted else open_plain C v wanted) w2 = (Inr (out, None), w2)"
    "concat out = slice_of wanted (concat chunks)"
  proof (cases "nd_encrypted n")
    case False
    then have "payload = counted" using sl by (simp add: seal_if_needed_def)
    then have b: "so_bytes so = concat chunks" using read_body_ok[OF so(1)] nec ch by simp
    have "\<exists>out. open_plain C v wanted w2 = (Inr (out, None), w2) \<and> concat out = slice_of wanted (so_bytes so)"
      using cfg rg by (intro plain_is_opened[OF look]) (simp_all add: content_config_def vf ch b)
    then show thesis using that False b by (auto simp: vf)
  next
    case True
    have "\<exists>out. open_encrypted C n' v ow wanted w2 = (Inr (out, None), w2) \<and> concat out = slice_of wanted (concat (fst counted))"
      using ow k keep rg
      by (intro conjunct2[OF sealed_is_opened[OF sl True so(1) cfg small _ _ n'f(1) _ _ _ look vf(3)]]) (simp_all add: account_def vf)
    then show thesis using that True by (auto simp: vf ch)
  qed
  have vg2: "versions_get (w_db w2) (fv_id v) = Some v" using vg by (simp add: versions_get_def keep(6))
  have "parse_range rh (fv_size_bytes v) = Inr wanted" using rh by (simp add: vf ch)
  from owner_download[OF nd _ _ n'f(2,3) vg2 vf(1) this o(1), of ra l now] n n'f(4,5)
  obtain plan w3 where "download C ow (nd_id n) rh None ra l now w2 = (Inr plan, w3)" "dp_stream plan = (out, None)"
    "dp_total_bytes plan = fv_size_bytes v" by auto
  then show ?thesis using o(2) by (auto simp: vf(4) ch)
qed

lemma audit_content_frame:
  assumes "audit_content u n a t b w = (Inr x, w')"
  shows "w_objects w' = w_objects w \<and> db_data_keys (w_db w') = db_data_keys (w_db w) \<and> db_user_keys (w_db w') = db_user_keys (w_db w) \<and>
    db_users (w_db w') = db_users (w_db w) \<and> db_nodes (w_db w') = db_nodes (w_db w) \<and> db_versions (w_db w') = db_versions (w_db w) \<and>
    db_quotas (w_db w') = db_quotas (w_db w)"
  using assms by (auto simp: audit_content_def emit_audit_ok audit_add_def)

lemma account_kept: "account d u \<Longrightarrow> db_users d' = db_users d \<Longrightarrow> account d' u"
  by (simp add: account_def users_get_def users_get_by_subject_def)

lemma uploaded_is_served:
  assumes "upload C u pid name (chunks, None) ct decl enc now w = (Inr n', w')" "fs_inv C w" "content_config C" "uuid_range w w'"
    and "[] \<notin> set chunks" "account (w_db w) ow" "nd_owner_id n' = us_id ow"
    and "parse_range rh (int (length (concat chunks))) = Inr wanted"
  shows "\<exists>plan w3. download C ow (nd_id n') rh None ra l later w' = (Inr plan, w3) \<and> snd (dp_stream plan) = None \<and>
    concat (fst (dp_stream plan)) = slice_of wanted (concat chunks) \<and> dp_total_bytes plan = int (length (concat chunks))"
  using assms(1)
proof (rule upload_run)
  fix parent t n w1 w2
  assume p: "nodes_get (w_db w) pid = Some parent"
    and c: "(w1 = w \<and> get_child_by_name (cf_text C) (w_db w) pid (normalize_name (cf_text C) name) = Some n \<and> is_file n) \<or>
     (\<exists>wants w0. get_child_by_name (cf_text C) (w_db w) pid (normalize_name (cf_text C) name) = None \<and>
        resolve_encryption_for C parent enc u t w = (Inr wants, w0) \<and> new_file C parent name t wants w0 = (Inr n, w1))"
    and s: "store_version C u n (chunks, None) ct decl t w1 = (Inr n', w2)"
    and a: "audit_content u n' FILE_UPLOADED t (Some (nd_size_bytes n')) w2 = (Inr (), w')"
  have w1: "store_inv C (w_db w1)" "fresh_ids w1" "nodes_get (w_db w1) (nd_id n) = Some n" "w_uuids w1 = w_uuids w"
    "db_users (w_db w1) = db_users (w_db w)" "db_versions (w_db w1) = db_versions (w_db w)" "\<not> is_deleted n" "is_file n"
    using upload_target[OF assms(2) p c] by (auto simp: fs_inv_def)
  have n': "nd_id n' = nd_id n" "nd_owner_id n' = nd_owner_id n" using s
    by (rule store_version_run, simp add: with_content_def touch_def)+
  have "uuid_range w1 w2" using assms(4) w1(4,6) keeps_tablesD[OF keeps_tables_parts(4) a] by (simp add: uuid_range_def)
  with w1 assms(7) n' account_kept[OF assms(6)] show ?thesis
    unfolding n'(1) using audit_content_frame[OF a]
    by (intro stored_is_served[OF s assms(3) _ _ _ assms(5) w1(3) _ _ _ _ _ _ _ _ _ _ _ _ assms(8)]) (auto simp: store_inv_def)
qed

lemma replaced_is_served:
  assumes "replace C u nid (chunks, None) ct decl now w = (Inr n', w')" "fs_inv C w" "content_config C" "uuid_range w w'"
    and "[] \<notin> set chunks" "account (w_db w) ow" "nd_owner_id n' = us_id ow"
    and "parse_range rh (int (length (concat chunks))) = Inr wanted"
  shows "\<exists>plan w3. download C ow nid rh None ra l later w' = (Inr plan, w3) \<and> snd (dp_stream plan) = None \<and>
    concat (fst (dp_stream plan)) = slice_of wanted (concat chunks) \<and> dp_total_bytes plan = int (length (concat chunks))"
proof -
  obtain t n w1 where n: "nodes_get (w_db w) nid = Some n" "\<not> is_deleted n" "is_file n"
    and s: "store_version C u n (chunks, None) ct decl t w = (Inr n', w1)"
    and a: "audit_content u n' FILE_UPLOADED t (Some (nd_size_bytes n')) w1 = (Inr (), w')"
    using assms(1) by (auto simp: replace_def world_ok require_node_ok require_ok)
  have id: "nd_id n = nid" using nodes_get_Some[OF n(1)] by simp
  have ow: "nd_owner_id n' = nd_owner_id n" using s
    by (rule store_version_run, simp add: with_content_def touch_def)
  have "uuid_range w w1" using assms(4) keeps_tablesD[OF keeps_tables_parts(4) a] by (simp add: uuid_range_def)
  then show ?thesis
    unfolding id[symmetric] using n id ow assms audit_content_frame[OF a]
    by (intro stored_is_served[OF s assms(3) _ _ _ assms(5), of n]) (auto simp: fs_inv_def store_inv_def)
qed

end
