(* ===== verification/ContentLimits.thy ===== *)
theory ContentLimits
  imports ContentRoundTrip
begin

text \<open>
  The limits the content service enforces: how many versions of a file are kept, and how much an
  account may store.
\<close>

section \<open>Retention\<close>

lemma filter_not_dropped:
  "distinct (map f xs) \<Longrightarrow> filter (\<lambda>x. f x \<notin> f ` set (drop k xs)) xs = take k xs"
proof (induction xs arbitrary: k)
  case (Cons x xs)
  show ?case
  proof (cases k)
    case (Suc j)
    have "f x \<notin> f ` set (drop j xs)" using Cons(2) by (auto dest: in_set_dropD)
    then show ?thesis using Cons Suc by simp
  qed (auto simp: filter_empty_conv)
qed simp

lemma versions_list_filter:
  "db_versions d' = filter P (db_versions d) \<Longrightarrow> versions_list_for_node d' nid = filter P (versions_list_for_node d nid)"
  by (simp add: versions_list_for_node_def filter_sort conj_commute rev_filter[symmetric] del: rev_filter)

text \<open>After a version was stored the file keeps it and the newest of the previous ones, as many as the retention allows.\<close>

lemma retained_versions:
  assumes s: "store_version C u n body ct decl t w = (Inr n', w')" and wf: "versions_wf (w_db w)" "fresh_ids w"
  obtains v where "fv_id v = w_uuids w (w_drawn w)" "nd_current_version_id n' = Some (fv_id v)"
    "versions_list_for_node (w_db w') (nd_id n) = take (cf_version_retention C) (v # versions_list_for_node (w_db w) (nd_id n))"
  using s
proof (rule store_version_tables)
  fix v doomed
  assume v: "fv_id v = w_uuids w (w_drawn w)" "fv_node_id v = nd_id n" "n' = with_content v t n"
      "fv_sequence v = next_sequence (w_db w) (nd_id n)"
    and d: "db_versions (w_db w') = filter (\<lambda>x. fv_id x \<notin> fv_id ` doomed) (db_versions (w_db w) @ [v])"
    and doomed: "doomed = set (drop (cf_version_retention C) (versions_list_for_node (versions_add v (w_db w)) (nd_id n)))"
  let ?L = "versions_list_for_node (versions_add v (w_db w)) (nd_id n)"
  have L: "?L = v # versions_list_for_node (w_db w) (nd_id n)" by (rule newest_version_first[OF v(4,2)])
  have new: "fv_id v \<notin> fv_id ` set (db_versions (w_db w))" using wf(2) by (auto simp: fresh_ids_def used_ids_def v(1))
  have "distinct (map fv_id (versions_list_for_node (w_db w) (nd_id n)))"
    using wf(1) by (auto simp: versions_wf_def versions_list_for_node_def distinct_map inj_on_def)
  then have dist: "distinct (map fv_id ?L)" using new by (auto simp: L)
  have "versions_list_for_node (w_db w') (nd_id n) = filter (\<lambda>x. fv_id x \<notin> fv_id ` doomed) ?L"
    by (rule versions_list_filter) (simp add: d versions_add_def)
  also have "\<dots> = take (cf_version_retention C) ?L" unfolding doomed by (rule filter_not_dropped[OF dist])
  finally show thesis using that v L by (simp add: with_content_def touch_def)
qed

section \<open>Quota\<close>

lemma quota_rows_kept [simp]:
  "quotas_get (nodes_update n d) uid = quotas_get d uid" "quotas_get (versions_add v d) uid = quotas_get d uid"
  by (simp_all add: quotas_get_def nodes_update_def versions_add_def)

lemma charge_run:
  assumes "charge n k t w = (Inr x, w')" "quotas_get (w_db w) (nd_owner_id n) = Some q0" "users_get (w_db w) (nd_owner_id n) = Some ow"
    and "quota_inv q0" "0 \<le> nd_size_bytes n" "0 \<le> k"
  obtains q where "quotas_get (w_db w') (nd_owner_id n) = Some q" "quota_inv q" "total_bytes q \<le> us_quota_bytes ow"
proof -
  define q1 where "q1 = (if nd_current_version_id n \<noteq> None
                   then charge_versions (nd_size_bytes n) t (charge_live (- nd_size_bytes n) t q0) else q0)"
  have id: "qu_user_id q0 = nd_owner_id n" using row_by_Some[OF assms(2)[unfolded quotas_get_def]] by simp
  have i1: "quota_inv q1" "qu_user_id q1 = nd_owner_id n" using assms(4) id by (auto simp: q1_def quota_inv_def quota_defs)
  have room: "total_bytes q1 + k \<le> us_quota_bytes ow" and w': "w_db w' = quotas_update (charge_live k t q1) (w_db w)"
    using assms(1-3) by (auto simp: charge_def world_ok Let_def q1_def would_exceed_def ensure_room_for_def split: if_splits)
  let ?q = "charge_live k t q1"
  have "qu_user_id ?q = nd_owner_id n" using i1 by (simp add: charge_live_def)
  then have "quotas_get (w_db w') (nd_owner_id n) = Some ?q" using assms(2) by (simp add: w' quotas_get_update)
  moreover have "quota_inv ?q" "total_bytes ?q \<le> us_quota_bytes ow"
    using i1 room assms(6) by (auto simp: quota_inv_def charge_live_def total_bytes_def)
  ultimately show thesis using that by blast
qed

lemma released_versions:
  assumes "quota_inv q" "\<forall>v\<in>set vs. 0 \<le> fv_size_bytes v"
  shows "quota_inv (fold (\<lambda>v. charge_versions (- fv_size_bytes v) t) vs q) \<and>
    total_bytes (fold (\<lambda>v. charge_versions (- fv_size_bytes v) t) vs q) \<le> total_bytes q \<and>
    qu_user_id (fold (\<lambda>v. charge_versions (- fv_size_bytes v) t) vs q) = qu_user_id q"
  using assms
proof (induction vs arbitrary: q)
  case (Cons v vs)
  let ?q = "charge_versions (- fv_size_bytes v) t q"
  have "quota_inv ?q" "total_bytes ?q \<le> total_bytes q" "qu_user_id ?q = qu_user_id q"
    using Cons(2,3) by (auto simp: quota_inv_def charge_versions_def total_bytes_def)
  with Cons.IH[of ?q] Cons(3) show ?case by auto
qed simp

lemma pruned_quota:
  assumes "prune_versions C n t w = (Inr x, w')" "quotas_get (w_db w) (nd_owner_id n) = Some q" "quota_inv q"
    and "\<forall>v\<in>set (db_versions (w_db w)). 0 \<le> fv_size_bytes v"
  obtains q' where "quotas_get (w_db w') (nd_owner_id n) = Some q'" "quota_inv q'" "total_bytes q' \<le> total_bytes q"
proof (cases "doomed_versions C (w_db w) (nd_id n) = []")
  case True
  then have "w_db w' = (w_db w)\<lparr>db_versions := db_versions (w_db w)\<rparr>"
    using assms(1) by (auto simp: prune_versions_def world_ok prune_beyond_def fold_versions_delete doomed_versions_def Let_def)
  then show thesis using that[of q] assms(2,3) by (simp add: quotas_get_def)
next
  case False
  let ?vs = "doomed_versions C (w_db w) (nd_id n)" and ?f = "\<lambda>v. charge_versions (- fv_size_bytes v) t"
  have id: "qu_user_id q = nd_owner_id n" using row_by_Some[OF assms(2)[unfolded quotas_get_def]] by simp
  have "\<forall>v\<in>set ?vs. 0 \<le> fv_size_bytes v"
    using assms(4) by (auto simp: doomed_versions_def dest: in_set_dropD)
  note r = released_versions[OF assms(3) this, of t]
  have "w_db w' = quotas_update (fold ?f ?vs q) ((w_db w)\<lparr>db_versions := filter (\<lambda>v. fv_id v \<notin> fv_id ` set ?vs) (db_versions (w_db w))\<rparr>)"
    using assms(1,2) False
    by (auto simp: prune_versions_def world_ok prune_beyond_def fold_versions_delete Let_def delete_objects_run
        doomed_versions_def[symmetric] quotas_get_def)
  then show thesis using that[of "fold ?f ?vs q"] r assms(2) id by (simp add: quotas_get_update) (simp add: quotas_get_def)
qed

lemma seal_keeps_quotas:
  assumes "seal_if_needed C n s vid t w = (Inr p, w')"
  shows "db_quotas (w_db w') = db_quotas (w_db w) \<and> db_users (w_db w') = db_users (w_db w)"
proof -
  have "db_quotas (w_db w1) = db_quotas (w_db w)" if "ensure_data_key C E n sub t w = (Inr k, w1)" for E sub k w1
    using that
    by (auto simp: ensure_data_key_def create_data_key_def store_data_key_def draw_wrap_dek_def world_ok user_kek_ok urandom_ok
        add_data_key_def split: option.splits)
  moreover have "w_db w' = w_db wa" if "encryption_seal C E s dek vid wa = (Inr p, w')" for E dek wa
    using that by (auto simp: encryption_seal_def Let_def)
  ultimately have "db_quotas (w_db w') = db_quotas (w_db w)"
    using assms by (auto simp: seal_if_needed_def world_ok split: if_splits)
  then show ?thesis using keeps_tablesD[OF keeps_tables_parts(3) assms] by simp
qed

text \<open>Once a version was stored, the owner is within the quota.\<close>

lemma stored_within_quota:
  assumes s: "store_version C u n body ct decl t w = (Inr n', w')"
    and q: "quotas_get (w_db w) (nd_owner_id n) = Some q" "quota_inv q" and ow: "users_get (w_db w) (nd_owner_id n) = Some ow"
    and sizes: "0 \<le> nd_size_bytes n" "\<forall>v\<in>set (db_versions (w_db w)). 0 \<le> fv_size_bytes v"
  shows "\<exists>q'. quotas_get (w_db w') (nd_owner_id n) = Some q' \<and> quota_inv q' \<and> total_bytes q' \<le> us_quota_bytes ow"
  using s
proof (rule store_version_run)
  fix counted seen v payload w1 w2 w3
  assume v: "v = new_version (w_uuids w (w_drawn w)) n (next_sequence (w_db w) (nd_id n)) (int (length seen)) (cf_sha256 C seen)
           (content_type_or_default ct) (nd_encrypted n) t (us_subject u) (w_uuids w (w_drawn w))"
    and n': "n' = with_content v t n"
    and sl: "seal_if_needed C n counted (fv_id v) t (w\<lparr>w_drawn := w_drawn w + 1\<rparr>) = (Inr payload, w1)"
    and p: "objects_put (object_key v) payload w1 = (Inr (length (concat (takeWhile (\<lambda>c. c \<noteq> []) (fst payload)))), w2)"
    and c: "charge n (int (length seen)) t w2 = (Inr (), w3)"
    and pr: "prune_versions C n' t (w3\<lparr>w_db := nodes_update n' (versions_add v (w_db w3))\<rparr>) = (Inr (), w')"
  have k: "db_versions (w_db w3) = db_versions (w_db w)"
    using keeps_tablesD[OF keeps_tables_parts(3) sl] keeps_tablesD[OF keeps_tables_basic(13) p]
      keeps_tablesD[OF keeps_tables_parts(2) c] by simp
  have "w_db w2 = w_db w1" using p by (auto simp: put_ok)
  then have w2: "quotas_get (w_db w2) (nd_owner_id n) = Some q" "users_get (w_db w2) (nd_owner_id n) = Some ow"
    using seal_keeps_quotas[OF sl] q(1) ow by (simp_all add: quotas_get_def users_get_def)
  obtain q3 where q3: "quotas_get (w_db w3) (nd_owner_id n) = Some q3" "quota_inv q3" "total_bytes q3 \<le> us_quota_bytes ow"
    by (rule charge_run[OF c w2 q(2) sizes(1)]) simp_all
  let ?w = "w3\<lparr>w_db := nodes_update n' (versions_add v (w_db w3))\<rparr>"
  have o: "nd_owner_id n' = nd_owner_id n" by (simp add: n' with_content_def touch_def)
  have z: "\<forall>x\<in>set (db_versions (w_db ?w)). 0 \<le> fv_size_bytes x"
    using sizes(2) by (auto simp: nodes_update_def k v new_version_def)
  have "quotas_get (w_db ?w) (nd_owner_id n') = Some q3" using q3(1) by (simp add: o)
  from pr this q3(2) z obtain q' where "quotas_get (w_db w') (nd_owner_id n') = Some q'" "quota_inv q'" "total_bytes q' \<le> total_bytes q3"
    by (rule pruned_quota)
  then show ?thesis using q3(3) o by auto
qed

end
