(* ===== verification/ContentProgress.thy ===== *)
theory ContentProgress
  imports ContentLimits NodeProgress
begin

text \<open>
  Storing content succeeds: a body within the size limit, for which the owner has room, is stored
  whatever the file's history.
\<close>

lemma integrity_iff:
  "integrity_error T d = None \<longleftrightarrow> sibling_names_unique T (db_nodes d) \<and>
     distinct (map (\<lambda>g. (gr_node_id g, gr_subject g)) (db_grants d)) \<and>
     distinct (map (\<lambda>k. (dk_node_id k, dk_subject k)) (db_data_keys d)) \<and>
     distinct (map (\<lambda>v. (fv_node_id v, fv_sequence v)) (db_versions d))"
  by (simp add: integrity_error_def)

lemma names_kept_by_update:
  assumes "\<And>r. r \<in> set rs \<Longrightarrow> f r = k \<Longrightarrow> nd_parent_id (g r) = nd_parent_id r \<and> nd_deleted_at (g r) = nd_deleted_at r \<and> nd_name (g r) = nd_name r"
  shows "sibling_names_unique T (upd_row f k g rs) = sibling_names_unique T rs"
proof -
  have "map (\<lambda>r. (nd_parent_id r, normalized_name T r)) (filter (\<lambda>r. \<not> is_deleted r \<and> nd_parent_id r \<noteq> None) (upd_row f k g rs)) =
        map (\<lambda>r. (nd_parent_id r, normalized_name T r)) (filter (\<lambda>r. \<not> is_deleted r \<and> nd_parent_id r \<noteq> None) rs)"
    using assms by (induction rs) (auto simp: upd_row_def is_deleted_def normalized_name_def)
  then show ?thesis by (simp add: sibling_names_unique_def)
qed

lemma integrity_with_version:
  assumes "integrity_error T d = None" "nodes_get d (nd_id n) = Some m" "distinct (map nd_id (db_nodes d))"
    and "nd_parent_id n = nd_parent_id m" "nd_deleted_at n = nd_deleted_at m" "nd_name n = nd_name m"
    and "fv_sequence v = next_sequence d (nd_id n)" "fv_node_id v = nd_id n" "nd_id n' = nd_id n"
    and "nd_parent_id n' = nd_parent_id n" "nd_deleted_at n' = nd_deleted_at n" "nd_name n' = nd_name n"
  shows "integrity_error T (nodes_update n' (versions_add v d)) = None"
proof -
  have only: "r = m" if "r \<in> set (db_nodes d)" "nd_id r = nd_id n" for r
    using that assms(2,3) row_by_iff[of nd_id "db_nodes d" "nd_id n" r] by (simp add: nodes_get_def)
  have "sibling_names_unique T (upd_row nd_id (nd_id n') (apply_node n') (db_nodes d)) = sibling_names_unique T (db_nodes d)"
    using only assms(4-6,9-12) by (intro names_kept_by_update) (auto simp: apply_node_def)
  moreover have "(fv_node_id v, fv_sequence v) \<notin> (\<lambda>v. (fv_node_id v, fv_sequence v)) ` set (db_versions d)"
    using next_sequence_greater assms(7,8) by fastforce
  ultimately show ?thesis using assms(1) by (simp add: integrity_iff nodes_update_def versions_add_def)
qed

lemma prune_returns:
  assumes "integrity_error (cf_text C) (w_db w) = None"
  shows "\<exists>w'. prune_versions C n t w = (Inr (), w')"
proof -
  let ?ds = "doomed_versions C (w_db w) (nd_id n)"
  let ?d = "(w_db w)\<lparr>db_versions := filter (\<lambda>v. fv_id v \<notin> fv_id ` set ?ds) (db_versions (w_db w))\<rparr>"
  have p: "prune_beyond (nd_id n) (cf_version_retention C) (w_db w) = (?ds, ?d)"
    by (simp add: prune_beyond_def fold_versions_delete doomed_versions_def Let_def)
  have "integrity_error (cf_text C) (quotas_update q ?d) = None" "integrity_error (cf_text C) ?d = None" for q
    using assms by (auto simp: integrity_iff quotas_update_def intro: distinct_map_filter)
  then show ?thesis
    by (cases "quotas_get ?d (nd_owner_id n)")
      (auto simp: prune_versions_def stepdb_def p bind_run seq_run delete_objects_run flush_def qdb_def mdb_def)
qed

text \<open>The owner has room for what a write adds: the bytes of the current version stay charged, as those of an old one.\<close>

definition has_room :: "db \<Rightarrow> node \<Rightarrow> int \<Rightarrow> bool" where
  "has_room d n k \<longleftrightarrow> (\<exists>q ow. quotas_get d (nd_owner_id n) = Some q \<and> users_get d (nd_owner_id n) = Some ow \<and>
     quota_inv q \<and> 0 \<le> nd_size_bytes n \<and> (nd_current_version_id n \<noteq> None \<longrightarrow> nd_size_bytes n \<le> qu_live_bytes q) \<and>
     total_bytes q + k \<le> us_quota_bytes ow)"

lemma charge_returns:
  assumes "has_room (w_db w) n k"
  shows "\<exists>q. charge n k t w = (Inr (), w\<lparr>w_db := quotas_update q (w_db w)\<rparr>)"
proof -
  obtain q ow where q: "quotas_get (w_db w) (nd_owner_id n) = Some q" "users_get (w_db w) (nd_owner_id n) = Some ow" "quota_inv q"
    "0 \<le> nd_size_bytes n" "nd_current_version_id n \<noteq> None \<longrightarrow> nd_size_bytes n \<le> qu_live_bytes q" "total_bytes q + k \<le> us_quota_bytes ow"
    using assms by (auto simp: has_room_def)
  have "total_bytes (charge_versions (nd_size_bytes n) t (charge_live (- nd_size_bytes n) t q)) = total_bytes q"
    if "nd_current_version_id n \<noteq> None" using q(3-5) that by (auto simp: quota_inv_def quota_defs total_bytes_def)
  then show ?thesis using q(1,2,6)
    by (auto simp: charge_def run_simps qdb_def mdb_def Let_def would_exceed_def ensure_room_for_def)
qed

lemma measure_body_fits: "j + int (length (concat cs)) \<le> limit \<Longrightarrow> measure_body limit j cs None = (cs, None)"
  by (induction limit j cs "None :: error option" rule: measure_body.induct) (auto simp: prepend_def Let_def)

lemma admission_returns:
  assumes "has_room (w_db w) n k" "k \<le> cf_max_upload_bytes C" "decl = None \<or> decl = Some k"
  shows "check_admission C n decl w = (Inr (), w)"
  using assms by (auto simp: check_admission_def has_room_def run_simps qdb_def would_exceed_def)

lemma store_version_returns:
  assumes room: "has_room (w_db w) n (int (length (concat chunks)))" and size: "int (length (concat chunks)) \<le> cf_max_upload_bytes C"
    and decl: "decl = None \<or> decl = Some (int (length (concat chunks)))" and ne: "[] \<notin> set chunks"
    and sl: "seal_if_needed C n (chunks, None) (w_uuids w (w_drawn w)) t (w\<lparr>w_drawn := w_drawn w + 1\<rparr>) = (Inr payload, w1)"
      "read_body payload = Inr bs" "integrity_error (cf_text C) (w_db w1) = None"
    and m: "nodes_get (w_db w) (nd_id n) = Some n" "distinct (map nd_id (db_nodes (w_db w)))"
  shows "\<exists>n' w'. store_version C u n (chunks, None) ct decl t w = (Inr n', w')"
proof -
  let ?vid = "w_uuids w (w_drawn w)" and ?k = "int (length (concat chunks))"
  let ?key = "key_of (nd_owner_id n) (nd_id n) ?vid"
  let ?w2 = "w1\<lparr>w_objects := objects_store ?key \<lparr>so_bytes = bs, so_modified = Some (w_clock w1)\<rparr> (w_objects w1)\<rparr>"
  have seen: "seen_plaintext (nd_encrypted n) (chunks, None) = concat chunks"
    using ne by (auto simp: seen_plaintext_def takeWhile_eq_all_conv intro!: arg_cong[where f = concat])
  have body: "measure_body (cf_max_upload_bytes C) 0 chunks None = (chunks, None)" using size by (intro measure_body_fits) simp
  note k = keeps_tablesD[OF keeps_tables_parts(3) sl(1)] and kq = seal_keeps_quotas[OF sl(1)]
  have "has_room (w_db ?w2) n ?k" using room kq by (simp add: has_room_def quotas_get_def users_get_def)
  from charge_returns[OF this, of t] obtain q where c: "charge n ?k t ?w2 = (Inr (), ?w2\<lparr>w_db := quotas_update q (w_db ?w2)\<rparr>)" by blast
  let ?w3 = "?w2\<lparr>w_db := quotas_update q (w_db ?w2)\<rparr>"
  let ?v = "new_version ?vid n (next_sequence (w_db ?w3) (nd_id n)) ?k (cf_sha256 C (concat chunks)) (content_type_or_default ct)
    (nd_encrypted n) t (us_subject u) ?vid"
  let ?n' = "with_content ?v t n"
  have i: "integrity_error (cf_text C) (w_db ?w3) = None" using sl(3) by (simp add: integrity_iff quotas_update_def)
  have f: "integrity_error (cf_text C) (nodes_update ?n' (versions_add ?v (w_db ?w3))) = None"
    using i m k by (intro integrity_with_version[where m = n]) (auto simp: new_version_def with_content_def touch_def nodes_get_def quotas_update_def)
  then obtain w' where p: "prune_versions C ?n' t (?w3\<lparr>w_db := nodes_update ?n' (versions_add ?v (w_db ?w3))\<rparr>) = (Inr (), w')"
    using prune_returns[of C "?w3\<lparr>w_db := nodes_update ?n' (versions_add ?v (w_db ?w3))\<rparr>"] by auto
  have put: "objects_put ?key payload w1 = (Inr (length bs), ?w2)" using sl(2) by (simp add: objects_put_def)
  have a: "check_admission C n decl w = (Inr (), w)" by (rule admission_returns[OF room size decl])
  have "store_version C u n (chunks, None) ct decl t w = (Inr ?n', w')"
    using decl a body seen sl(1) put c f p
    by (elim disjE) (simp_all add: store_version_def seq_run bind_run uuid4_def flush_def qdb_def mdb_def Let_def)
  then show ?thesis by blast
qed

text \<open>A write to a plain file by someone who may edit it.\<close>

lemma replace_returns:
  assumes "nodes_get (w_db w) nid = Some n" "\<not> is_deleted n" "is_file n" "\<not> nd_encrypted n"
    and "compute_role (w_db w) (us_subject u) (us_id u) n = Some r" "EDITOR \<le> r"
    and "has_room (w_db w) n (int (length (concat chunks)))" "int (length (concat chunks)) \<le> cf_max_upload_bytes C"
    and "decl = None \<or> decl = Some (int (length (concat chunks)))" "[] \<notin> set chunks"
    and "unbroken C (w_db w)" "distinct (map nd_id (db_nodes (w_db w)))"
  shows "\<exists>n' w'. replace C u nid (chunks, None) ct decl now w = (Inr n', w')"
proof -
  have id: "nd_id n = nid" using nodes_get_Some[OF assms(1)] by simp
  obtain t where t: "moment_of now w = (Inr t, w)" by (simp add: moment_of_def query_def)
  have s: "seal_if_needed C n (chunks, None) (w_uuids w (w_drawn w)) t (w\<lparr>w_drawn := w_drawn w + 1\<rparr>) =
      (Inr (chunks, None), w\<lparr>w_drawn := w_drawn w + 1\<rparr>)"
    using assms(4) by (simp add: seal_if_needed_def)
  have b: "read_body (chunks, None) = Inr (concat chunks)" using assms(10) by (simp add: read_body_full)
  have i: "integrity_error (cf_text C) (w_db (w\<lparr>w_drawn := w_drawn w + 1\<rparr>)) = None" using assms(11) by (simp add: unbroken_def)
  have g: "nodes_get (w_db w) (nd_id n) = Some n" using assms(1) id by simp
  obtain n' w' where "store_version C u n (chunks, None) ct decl t w = (Inr n', w')"
    using store_version_returns[OF assms(7-10) s b i g assms(12), of u ct] by blast
  moreover have "require_node nid w = (Inr n, w)" "require u n EDITOR w = (Inr r, w)"
    using assms(1,2,5,6) by (simp_all add: require_node_ok require_ok)
  ultimately show ?thesis using assms(3) t
    by (simp add: replace_def bind_run seq_run guard_run audit_content_def emit_audit_def mdb_def)
qed

end
