(* ===== verification/ContentProperties.thy ===== *)
theory ContentProperties
  imports CipherProperties ContentProgress
begin

text \<open>
  The promises of the content service, each applied to a deployment in which a file is encrypted and its
  owner has a key.
\<close>

definition sealed_file :: node where
  "sealed_file = (sample_node 13 3 FILE ''a.txt'' (Some 12) None (Some 31) 5)\<lparr>nd_encrypted := True\<rparr>"

definition sealed_nodes :: "node list" where
  "sealed_nodes = sample_nodes[4 := sealed_file]"

definition sealed_db :: db where
  "sealed_db = sample_db\<lparr>db_nodes := sealed_nodes, db_user_keys :=
     [\<lparr>uk_user_id = 3, uk_wrapped_kek = replicate 12 0 @ replicate 32 9 @ toy_tag KEK_ASSOCIATED_DATA,
       uk_master_key_id = replicate 16 (CHR ''0''), uk_created_at = 0, uk_rotated_at = None\<rparr>]\<rparr>"

definition sealed_world :: world where
  "sealed_world = sample_world\<lparr>w_db := sealed_db\<rparr>"

lemma sealed_db_eq [simp]: "w_db sealed_world = sealed_db"
  by (simp add: sealed_world_def)

lemma sealed_nodes_eq [simp]: "db_nodes sealed_db = sealed_nodes"
  by (simp add: sealed_db_def)

lemma sealed_tree: "tree_inv sealed_nodes"
  by (rule tree_check_sound) code_simp

lemma sealed_unbroken: "unbroken sample_config sealed_db"
  unfolding unbroken_def sample_config_fields by code_simp

lemma sealed_inv: "fs_inv sample_config sealed_world"
proof -
  have "versions_wf sealed_db" "roots_ok sealed_db" by code_simp+
  then have "store_inv sample_config sealed_db"
    using integrity_ok[of ascii_rules sealed_db] sealed_unbroken by (simp add: store_inv_def unbroken_def sealed_tree)
  moreover have "fresh_ids sealed_world"
    by (auto simp: fresh_ids_def used_ids_def sample_version_def sealed_world_def sample_world_def sealed_db_def sample_db_def
        sealed_nodes_def sealed_file_def sample_nodes_def sample_node_def inj_def)
  ultimately show ?thesis by (simp add: fs_inv_def)
qed

lemma sample_content: "content_config sample_config"
  by (simp add: content_config_def toy_law toy_flag sample_config_def)

lemma sealed_account: "account sealed_db alice"
  by code_simp

lemma sealed_room: "has_room sealed_db sealed_file 3"
proof -
  have "quotas_get sealed_db 3 = Some \<lparr>qu_user_id = 3, qu_live_bytes = 5, qu_trashed_bytes = 3, qu_version_bytes = 0, qu_updated_at = None\<rparr>"
    "users_get sealed_db 3 = Some alice" by code_simp+
  then show ?thesis
    by (simp add: has_room_def sealed_file_def sample_node_def quota_inv_def total_bytes_def alice_def sample_user_def)
qed

definition sealing_run :: "stream use_case" where
  "sealing_run = seal_if_needed sample_config sealed_file ([[1, 2], [3]], None) 100 100"

lemma sealed_seal: "returns sealing_run (sealed_world\<lparr>w_drawn := 1\<rparr>)"
  by code_simp

lemma sealed_payload: "\<not> isl (read_body (result_of sealing_run (sealed_world\<lparr>w_drawn := 1\<rparr>)))"
  by code_simp

lemma sealed_keys: "integrity_error ascii_rules (w_db (after sealing_run (sealed_world\<lparr>w_drawn := 1\<rparr>))) = None"
  by code_simp

lemma sealed_get: "nodes_get sealed_db 13 = Some sealed_file"
  by code_simp

lemma sealed_file_fields [simp]: "nd_id sealed_file = 13" "nd_owner_id sealed_file = 3" "\<not> is_deleted sealed_file" "is_file sealed_file"
  "nd_encrypted sealed_file" "nd_size_bytes sealed_file = 5"
  by (simp_all add: sealed_file_def sample_node_def is_deleted_def is_file_def)

lemma sealed_draws: "w_drawn (after sealing_run (sealed_world\<lparr>w_drawn := 1\<rparr>)) = 2"
  by code_simp

lemma sealed_start [simp]: "w_uuids sealed_world = (\<lambda>n. n + 100)" "w_drawn sealed_world = 0" "w_clock sealed_world = 100"
  by (simp_all add: sealed_world_def sample_world_def)

lemma sealed_seal_run:
  "seal_if_needed sample_config sealed_file ([[1, 2], [3]], None) (w_uuids sealed_world (w_drawn sealed_world)) 100
        (sealed_world\<lparr>w_drawn := w_drawn sealed_world + 1\<rparr>) =
      (Inr (result_of sealing_run (sealed_world\<lparr>w_drawn := 1\<rparr>)), after sealing_run (sealed_world\<lparr>w_drawn := 1\<rparr>))"
  using returnsD[OF sealed_seal] by (simp add: sealing_run_def)

lemma sealed_write:
  obtains n' w' where "store_version sample_config alice sealed_file ([[1, 2], [3]], None) None None 100 sealed_world = (Inr n', w')"
    "w_drawn w' = 2" "nd_owner_id n' = 3"
proof -
  obtain bs where b: "read_body (result_of sealing_run (sealed_world\<lparr>w_drawn := 1\<rparr>)) = Inr bs"
    using sealed_payload by (cases "read_body (result_of sealing_run (sealed_world\<lparr>w_drawn := 1\<rparr>))") auto
  have "\<exists>n' w'. store_version sample_config alice sealed_file ([[1, 2], [3]], None) None None 100 sealed_world = (Inr n', w')"
    by (rule store_version_returns[OF _ _ _ _ sealed_seal_run b])
      (use sealed_keys sealed_room sealed_get sealed_tree in \<open>auto simp: sample_config_def tree_inv_def\<close>)
  then obtain n' w' where s: "store_version sample_config alice sealed_file ([[1, 2], [3]], None) None None 100 sealed_world = (Inr n', w')"
    by blast
  then have "w_drawn w' = 2 \<and> nd_owner_id n' = 3"
  proof (rule store_version_run)
    fix counted seen v payload w1 w2 w3
    assume c: "counted = measure_body (cf_max_upload_bytes sample_config) 0 (fst ([[1, 2], [3]], None)) (snd ([[1, 2], [3]], None))"
      and v: "v = new_version (w_uuids sealed_world (w_drawn sealed_world)) sealed_file (next_sequence (w_db sealed_world) (nd_id sealed_file))
           (int (length seen)) (cf_sha256 sample_config seen) (content_type_or_default None) (nd_encrypted sealed_file) 100 (us_subject alice)
           (w_uuids sealed_world (w_drawn sealed_world))"
      and n': "n' = with_content v 100 sealed_file"
      and sl: "seal_if_needed sample_config sealed_file counted (fv_id v) 100 (sealed_world\<lparr>w_drawn := w_drawn sealed_world + 1\<rparr>) = (Inr payload, w1)"
      and p: "objects_put (object_key v) payload w1 = (Inr (length (concat (takeWhile (\<lambda>c. c \<noteq> []) (fst payload)))), w2)"
      and ch: "charge sealed_file (int (length seen)) 100 w2 = (Inr (), w3)"
      and pr: "prune_versions sample_config n' 100 (w3\<lparr>w_db := nodes_update n' (versions_add v (w_db w3))\<rparr>) = (Inr (), w')"
    have "counted = ([[1, 2], [3]], None)" by (simp add: c prepend_def Let_def sample_config_def)
    moreover have "fv_id v = w_uuids sealed_world (w_drawn sealed_world)" by (simp add: v new_version_def)
    ultimately have "w_drawn w1 = 2" using sl sealed_seal_run sealed_draws by simp
    then show ?thesis using p charge_frame[OF ch] prune_versions_run[OF pr] by (auto simp: put_ok n' with_content_def touch_def)
  qed
  then show thesis using that s by blast
qed

lemma sealed_replace:
  obtains n' w' where "replace sample_config alice 13 ([[1, 2], [3]], None) None None None sealed_world = (Inr n', w')"
    "nd_owner_id n' = us_id alice" "uuid_range sealed_world w'"
proof -
  obtain n' w1 where s: "store_version sample_config alice sealed_file ([[1, 2], [3]], None) None None 100 sealed_world = (Inr n', w1)"
    "w_drawn w1 = 2" "nd_owner_id n' = 3" by (rule sealed_write)
  have "require_node 13 sealed_world = (Inr sealed_file, sealed_world)" by (simp add: require_node_ok sealed_get)
  moreover have "require alice sealed_file EDITOR sealed_world = (Inr OWNER, sealed_world)"
    by (simp add: require_ok compute_role_def Let_def resolve_owner less_eq_role_def)
  moreover have "moment_of None sealed_world = (Inr 100, sealed_world)" by (simp add: moment_of_def query_def)
  ultimately obtain w' where r: "replace sample_config alice 13 ([[1, 2], [3]], None) None None None sealed_world = (Inr n', w')" "w_drawn w' = 2"
    using s by (simp add: replace_def bind_run seq_run guard_run audit_content_def emit_audit_def mdb_def)
  have "\<forall>v\<in>set (db_versions sealed_db). fv_id v < 2 ^ 128"
    by (simp add: sealed_db_def sample_db_def sample_version_def)
  then show thesis using that r s(3) by (simp add: uuid_range_def)
qed

section \<open>Reading back what was written\<close>

text \<open>
  C5. Once a write to a file returned, the owner can download it: the download returns, its stream
  ends without an error, and its bytes are the uploaded body, or exactly the slice the \<open>Range\<close> header asks
  for. This holds whether or not the file is encrypted, whatever the chunks the body came in, and across
  the pruning of old versions. The body has no empty chunk, which the object store would take for its end.
\<close>

theorem write_then_read:
  assumes "replace C u nid (chunks, None) ct decl now w = (Inr n', w')" "fs_inv C w" "content_config C" "uuid_range w w'"
    and "[] \<notin> set chunks" "account (w_db w) ow" "nd_owner_id n' = us_id ow"
    and "parse_range rh (int (length (concat chunks))) = Inr wanted"
  shows "\<exists>plan w3. download C ow nid rh None ra l later w' = (Inr plan, w3) \<and> snd (dp_stream plan) = None \<and>
    concat (fst (dp_stream plan)) = slice_of wanted (concat chunks) \<and> dp_total_bytes plan = int (length (concat chunks))"
  using replaced_is_served[OF assms] .

theorem write_then_read_witness:
  "\<exists>n' w'. replace sample_config alice 13 ([[1, 2], [3]], None) None None None sealed_world = (Inr n', w') \<and>
    (\<exists>plan w3. download sample_config alice 13 (Some ''bytes=1-'') None True None None w' = (Inr plan, w3) \<and> snd (dp_stream plan) = None \<and>
      concat (fst (dp_stream plan)) = slice_of (Some \<lparr>br_start = 1, br_length = 2\<rparr>) (concat [[1, 2], [3]]) \<and>
      dp_total_bytes plan = int (length (concat [[1, 2], [3::nat]])))"
proof -
  obtain n' w' where r: "replace sample_config alice 13 ([[1, 2], [3]], None) None None None sealed_world = (Inr n', w')"
    "nd_owner_id n' = us_id alice" "uuid_range sealed_world w'" by (rule sealed_replace)
  have p: "parse_range (Some ''bytes=1-'') (int (length (concat [[1, 2], [3::nat]]))) = Inr (Some \<lparr>br_start = 1, br_length = 2\<rparr>)"
    by code_simp
  have a: "account (w_db sealed_world) alice" using sealed_account by simp
  show ?thesis using write_then_read[OF r(1) sealed_inv sample_content r(3) _ a r(2) p] r(1) by auto
qed

text \<open>
  C25. A write to a live plain file by someone whose role is at least editor returns, when the body is
  within the size limit and the owner has room for it and a declared length, if any, is the true one.
\<close>

theorem write_succeeds:
  assumes "nodes_get (w_db w) nid = Some n" "\<not> is_deleted n" "is_file n" "\<not> nd_encrypted n"
    and "compute_role (w_db w) (us_subject u) (us_id u) n = Some r" "EDITOR \<le> r"
    and "has_room (w_db w) n (int (length (concat chunks)))" "int (length (concat chunks)) \<le> cf_max_upload_bytes C"
    and "decl = None \<or> decl = Some (int (length (concat chunks)))" "[] \<notin> set chunks"
    and "unbroken C (w_db w)" "fs_inv C w"
  shows "\<exists>n' w'. replace C u nid (chunks, None) ct decl now w = (Inr n', w')"
  using replace_returns[OF assms(1-11)] assms(12) by (simp add: fs_inv_def store_inv_def tree_inv_def)

lemma sample_file_get: "nodes_get sample_db 13 = Some (sample_node 13 3 FILE ''a.txt'' (Some 12) None (Some 31) 5)"
  by code_simp

lemma sample_file_room: "has_room sample_db (sample_node 13 3 FILE ''a.txt'' (Some 12) None (Some 31) 5) 3"
proof -
  have "quotas_get sample_db 3 = Some \<lparr>qu_user_id = 3, qu_live_bytes = 5, qu_trashed_bytes = 3, qu_version_bytes = 0, qu_updated_at = None\<rparr>"
    "users_get sample_db 3 = Some alice" by code_simp+
  then show ?thesis
    by (simp add: has_room_def sample_node_def quota_inv_def total_bytes_def alice_def sample_user_def)
qed

theorem write_succeeds_witness:
  "\<exists>n' w'. replace sample_config bob 13 ([[1, 2], [3]], None) None (Some 3) None sample_world = (Inr n', w')"
proof (rule write_succeeds[where r = EDITOR])
  show "compute_role (w_db sample_world) (us_subject bob) (us_id bob) (sample_node 13 3 FILE ''a.txt'' (Some 12) None (Some 31) 5) = Some EDITOR"
    by code_simp
qed (use sample_file_get sample_file_room sample_unbroken sample_inv in
    \<open>auto simp: is_deleted_def is_file_def sample_node_def sample_config_def\<close>)

section \<open>Limits\<close>

text \<open>
  C26. After a write, the versions of the file are the new one followed by the newest of the previous
  ones, cut to the configured retention; the new one is current.
\<close>

theorem retention_keeps_newest:
  assumes "replace C u nid body ct decl now w = (Inr n', w')" "fs_inv C w"
  shows "\<exists>v. nd_current_version_id n' = Some (fv_id v) \<and>
    versions_list_for_node (w_db w') nid = take (cf_version_retention C) (v # versions_list_for_node (w_db w) nid)"
proof -
  obtain t n w1 where n: "nodes_get (w_db w) nid = Some n"
    and s: "store_version C u n body ct decl t w = (Inr n', w1)"
    and a: "audit_content u n' FILE_UPLOADED t (Some (nd_size_bytes n')) w1 = (Inr (), w')"
    using assms(1) by (auto simp: replace_def world_ok require_node_ok require_ok)
  have id: "nd_id n = nid" using nodes_get_Some[OF n] by simp
  have same: "versions_list_for_node (w_db w') nid = versions_list_for_node (w_db w1) nid"
    using audit_content_frame[OF a] by (simp add: versions_list_for_node_def)
  have wf: "versions_wf (w_db w)" "fresh_ids w" using assms(2) by (auto simp: fs_inv_def store_inv_def)
  obtain v where "nd_current_version_id n' = Some (fv_id v)"
    "versions_list_for_node (w_db w1) (nd_id n) = take (cf_version_retention C) (v # versions_list_for_node (w_db w) (nd_id n))"
    by (rule retained_versions[OF s wf])
  then show ?thesis using id same by auto
qed

theorem retention_keeps_newest_witness:
  "\<exists>n' w'. replace sample_config alice 13 ([[1, 2], [3]], None) None None None sealed_world = (Inr n', w') \<and>
    (\<exists>v. nd_current_version_id n' = Some (fv_id v) \<and>
      versions_list_for_node (w_db w') 13 = take (cf_version_retention sample_config) (v # versions_list_for_node (w_db sealed_world) 13))"
proof -
  obtain n' w' where "replace sample_config alice 13 ([[1, 2], [3]], None) None None None sealed_world = (Inr n', w')"
    by (rule sealed_replace)
  with retention_keeps_newest[OF this sealed_inv] show ?thesis by blast
qed

text \<open>
  C27. Once a write returned, the owner's live, trashed and old-version bytes together are within the
  owner's quota, and no bucket is negative.
\<close>

theorem write_within_quota:
  assumes "replace C u nid body ct decl now w = (Inr n', w')"
    and "quotas_get (w_db w) (nd_owner_id n') = Some q" "quota_inv q" "users_get (w_db w) (nd_owner_id n') = Some ow"
    and "\<forall>n\<in>set (db_nodes (w_db w)). 0 \<le> nd_size_bytes n" "\<forall>v\<in>set (db_versions (w_db w)). 0 \<le> fv_size_bytes v"
  shows "\<exists>q'. quotas_get (w_db w') (nd_owner_id n') = Some q' \<and> quota_inv q' \<and> total_bytes q' \<le> us_quota_bytes ow"
proof -
  obtain t n w1 where n: "nodes_get (w_db w) nid = Some n"
    and s: "store_version C u n body ct decl t w = (Inr n', w1)"
    and a: "audit_content u n' FILE_UPLOADED t (Some (nd_size_bytes n')) w1 = (Inr (), w')"
    using assms(1) by (auto simp: replace_def world_ok require_node_ok require_ok)
  have ow: "nd_owner_id n' = nd_owner_id n" using s
    by (rule store_version_run, simp add: with_content_def touch_def)
  have "0 \<le> nd_size_bytes n" using nodes_get_Some[OF n] assms(5) by simp
  from stored_within_quota[OF s _ assms(3) _ this assms(6)] assms(2,4) ow audit_content_frame[OF a]
  show ?thesis by (auto simp: quotas_get_def)
qed

theorem write_within_quota_witness:
  "\<exists>n' w' q'. replace sample_config alice 13 ([[1, 2], [3]], None) None None None sealed_world = (Inr n', w') \<and>
     quotas_get (w_db w') 3 = Some q' \<and> quota_inv q' \<and> total_bytes q' \<le> us_quota_bytes alice"
proof -
  obtain n' w' where r: "replace sample_config alice 13 ([[1, 2], [3]], None) None None None sealed_world = (Inr n', w')"
    "nd_owner_id n' = us_id alice" by (rule sealed_replace)
  have q: "quotas_get (w_db sealed_world) 3 = Some \<lparr>qu_user_id = 3, qu_live_bytes = 5, qu_trashed_bytes = 3, qu_version_bytes = 0, qu_updated_at = None\<rparr>"
    "users_get (w_db sealed_world) 3 = Some alice" unfolding sealed_db_eq by code_simp+
  have z: "\<forall>n\<in>set (db_nodes (w_db sealed_world)). 0 \<le> nd_size_bytes n" "\<forall>v\<in>set (db_versions (w_db sealed_world)). 0 \<le> fv_size_bytes v"
    unfolding sealed_db_eq by code_simp+
  have i: "quota_inv \<lparr>qu_user_id = 3, qu_live_bytes = 5, qu_trashed_bytes = 3, qu_version_bytes = 0, qu_updated_at = None\<rparr>"
    by (simp add: quota_inv_def)
  have o: "nd_owner_id n' = 3" using r(2) by simp
  show ?thesis using write_within_quota[OF r(1) _ i _ z, unfolded o, OF q] r(1) by blast
qed

end
