(* ===== verification/Sharing.thy ===== *)
theory Sharing
  imports Encryption
begin

text \<open>
  Grants, public links and the transfer of ownership (\<open>application/sharing.py\<close>). The user directory is
  the parameter \<open>cf_find_subject\<close>, and the key service is the encryption service, when one is configured.
  The limiter of passphrase attempts lives in the process, so what it counts outlasts a rolled-back
  request.
\<close>

fun slug :: "role \<Rightarrow> string" where
  "slug VIEWER = ''viewer''"
| "slug EDITOR = ''editor''"
| "slug OWNER = ''owner''"

definition PASSPHRASE_WINDOW :: timedelta where "PASSPHRASE_WINDOW = seconds 60"

definition attempts :: "config \<Rightarrow> world \<Rightarrow> limiter" where
  "attempts C w = \<lparr>li_limit = cf_passphrase_attempts C, li_window = PASSPHRASE_WINDOW, li_windows = w_attempts w\<rparr>"

definition record_attempt :: "config \<Rightarrow> string \<Rightarrow> datetime \<Rightarrow> unit use_case" where
  "record_attempt C key now = modify (\<lambda>w. w\<lparr>w_attempts := li_windows (record_event key now (attempts C w))\<rparr>)"

record issued_link =
  il_link :: public_link
  il_token :: string

record link_access =
  la_link :: public_link
  la_node :: node
  la_role :: role

section \<open>Helpers\<close>

definition sharing_audit ::
  "audit_action \<Rightarrow> datetime \<Rightarrow> string option \<Rightarrow> uuid option \<Rightarrow> string option \<Rightarrow> role option \<Rightarrow> string option
     \<Rightarrow> (string \<times> context_value) list \<Rightarrow> unit use_case" where
  "sharing_audit action now actor target recipient r source_ip ctx =
     emit_audit \<lparr>ar_action = action, ar_occurred_at = now, ar_protocol = REST, ar_actor_subject = actor,
       ar_target_id = map_option uuid_str target, ar_recipient_subject = recipient, ar_reason = None,
       ar_source_ip = source_ip,
       ar_context = ctx @ (case r of None \<Rightarrow> [] | Some x \<Rightarrow> [(''role'', CStr (slug x))])\<rparr>"

definition require_live :: "uuid \<Rightarrow> node use_case" where
  "require_live nid =
     bind (qdb (\<lambda>d. nodes_get d nid)) (\<lambda>found.
     bind (expect found NotFoundError) (\<lambda>n.
     seq (guard (\<not> is_deleted n) NotFoundError) (ret n)))"

definition require_owned :: "user \<Rightarrow> uuid \<Rightarrow> node use_case" where
  "require_owned u nid =
     bind (require_live nid) (\<lambda>n.
     bind (qdb (\<lambda>d. compute_role d (us_subject u) (us_id u) n)) (\<lambda>r.
     seq (lift (require_role r OWNER)) (ret n)))"

definition resolve_recipient :: "config \<Rightarrow> user \<Rightarrow> string \<Rightarrow> string use_case" where
  "resolve_recipient C u identifier =
     bind (lift (cf_find_subject C identifier (map org_id (us_orgs u)))) (\<lambda>found.
     expect found RecipientUnknownError)"

definition invalidate_subject :: "config \<Rightarrow> string \<Rightarrow> unit use_case" where
  "invalidate_subject C subject =
     (if cf_cache_enabled C then invalidate_permissions_for_subject C subject else ret ())"

section \<open>Key material\<close>

definition rewrap_one :: "config \<Rightarrow> node \<Rightarrow> string \<Rightarrow> datetime \<Rightarrow> unit use_case" where
  "rewrap_one C n subject now =
     (if \<not> nd_encrypted n then ret ()
      else (case cf_encryption C of
              None \<Rightarrow> raise PermissionDeniedError
            | Some E \<Rightarrow> rewrap_for C E n subject now))"

definition rewrap_subtree :: "config \<Rightarrow> node \<Rightarrow> string \<Rightarrow> datetime \<Rightarrow> unit use_case" where
  "rewrap_subtree C n subject now =
     seq (rewrap_one C n subject now)
    (bind (qdb (\<lambda>d. nodes_descendants d (nd_id n) ANCESTOR_GUARD_DEPTH False)) (\<lambda>ds.
     for_each ds (\<lambda>m. rewrap_one C m subject now)))"

definition revoke_keys :: "config \<Rightarrow> node \<Rightarrow> string \<Rightarrow> unit use_case" where
  "revoke_keys C n subject =
     (case cf_encryption C of
        None \<Rightarrow> mdb (delete_data_key (nd_id n) subject)
      | Some E \<Rightarrow>
         seq (revoke_for n subject)
        (bind (qdb (\<lambda>d. nodes_descendants d (nd_id n) ANCESTOR_GUARD_DEPTH False)) (\<lambda>ds.
         for_each ds (\<lambda>m. revoke_for m subject))))"

section \<open>Grants\<close>

definition count_encrypted :: "db \<Rightarrow> node \<Rightarrow> int" where
  "count_encrypted d n =
     (if nd_encrypted n then 1 else 0) +
     int (length (filter nd_encrypted (nodes_descendants d (nd_id n) ANCESTOR_GUARD_DEPTH False)))"

definition should_defer :: "config \<Rightarrow> db \<Rightarrow> node \<Rightarrow> bool" where
  "should_defer C d n = (if cf_encryption C = None then False else count_encrypted d n > cf_rewrap_threshold C)"

definition finalize_grant :: "config \<Rightarrow> user \<Rightarrow> node \<Rightarrow> string \<Rightarrow> role \<Rightarrow> bool \<Rightarrow> datetime \<Rightarrow> unit use_case" where
  "finalize_grant C u n subject r is_update moment =
     seq (sharing_audit (if is_update then GRANT_UPDATED else GRANT_CREATED) moment (Some (us_subject u)) (Some (nd_id n))
            (Some subject) (Some r) None [])
    (seq (invalidate_subject C subject)
         (flush C))"

definition new_grant :: "uuid \<Rightarrow> node \<Rightarrow> string \<Rightarrow> role \<Rightarrow> string \<Rightarrow> datetime \<Rightarrow> bool \<Rightarrow> grant" where
  "new_grant gid n subject r by_subject moment pending =
     \<lparr>gr_id = gid, gr_node_id = nd_id n, gr_subject = subject, gr_role = r, gr_granted_by = by_subject,
      gr_created_at = moment, gr_updated_at = moment, gr_pending = pending\<rparr>"

definition grant_now :: "config \<Rightarrow> user \<Rightarrow> node \<Rightarrow> string \<Rightarrow> role \<Rightarrow> grant option \<Rightarrow> datetime \<Rightarrow> grant use_case" where
  "grant_now C u n subject r existing moment =
     bind (case existing of
             Some g \<Rightarrow> (let g' = with_role g r moment in seq (mdb (grants_update g')) (ret g'))
           | None \<Rightarrow> bind uuid4 (\<lambda>gid.
               let g' = new_grant gid n subject r (us_subject u) moment False in seq (mdb (grants_add g')) (ret g'))) (\<lambda>g.
     seq (rewrap_subtree C n subject moment)
    (seq (finalize_grant C u n subject r (existing \<noteq> None) moment)
         (ret g)))"

definition grant_pending :: "config \<Rightarrow> user \<Rightarrow> node \<Rightarrow> string \<Rightarrow> role \<Rightarrow> datetime \<Rightarrow> grant use_case" where
  "grant_pending C u n subject r moment =
     bind uuid4 (\<lambda>gid.
     let g = new_grant gid n subject r (us_subject u) moment True in
     seq (mdb (grants_add g))
    (seq (finalize_grant C u n subject r False moment)
         (ret g)))"

definition grant_access :: "config \<Rightarrow> user \<Rightarrow> uuid \<Rightarrow> string \<Rightarrow> role \<Rightarrow> datetime option \<Rightarrow> grant use_case" where
  "grant_access C u nid recipient r now =
     bind (moment_of now) (\<lambda>moment.
     bind (require_owned u nid) (\<lambda>n.
     bind (resolve_recipient C u recipient) (\<lambda>subject.
     seq (guard (subject \<noteq> us_subject u) CannotShareWithSelfError)
    (bind (qdb (\<lambda>d. grants_find d (nd_id n) subject)) (\<lambda>existing.
     bind (qdb (\<lambda>d. existing = None \<and> should_defer C d n)) (\<lambda>defer.
     if defer then grant_pending C u n subject r moment
     else grant_now C u n subject r existing moment))))))"

definition revoke :: "config \<Rightarrow> user \<Rightarrow> uuid \<Rightarrow> string \<Rightarrow> datetime option \<Rightarrow> unit use_case" where
  "revoke C u nid subject now =
     bind (moment_of now) (\<lambda>moment.
     bind (require_live nid) (\<lambda>n.
     seq (guard (\<not> (nd_owner_id n \<noteq> us_id u \<and> subject \<noteq> us_subject u)) PermissionDeniedError)
    (bind (qdb (\<lambda>d. users_get d (nd_owner_id n))) (\<lambda>owner.
     seq (guard (\<not> (case owner of None \<Rightarrow> False | Some ow \<Rightarrow> subject = us_subject ow)) CannotRevokeOwnerError)
    (bind (qdb (\<lambda>d. grants_find d (nd_id n) subject)) (\<lambda>found.
     bind (expect found NotFoundError) (\<lambda>g.
     seq (mdb (grants_delete (gr_id g)))
    (seq (revoke_keys C n subject)
    (seq (sharing_audit GRANT_REVOKED moment (Some (us_subject u)) (Some (nd_id n)) (Some subject) None None [])
    (seq (invalidate_subject C subject)
         (flush C)))))))))))"

definition list_grants :: "user \<Rightarrow> uuid \<Rightarrow> grant list use_case" where
  "list_grants u nid =
     bind (require_owned u nid) (\<lambda>n. qdb (\<lambda>d. grants_list_for_node d (nd_id n)))"

definition shared_root :: "db \<Rightarrow> uuid set \<Rightarrow> grant \<Rightarrow> node option" where
  "shared_root d granted_ids g =
     (case nodes_get d (gr_node_id g) of
        None \<Rightarrow> None
      | Some n \<Rightarrow>
          if is_deleted n then None
          else if (\<exists>a\<in>set (nodes_ancestors d (nd_id n) ANCESTOR_GUARD_DEPTH). nd_id a \<in> granted_ids) then None
          else Some n)"

definition shared_with_me :: "user \<Rightarrow> node list use_case" where
  "shared_with_me u =
     qdb (\<lambda>d. let grants = grants_list_for_subject d (us_subject u); granted_ids = gr_node_id ` set grants in
       List.map_filter (shared_root d granted_ids) grants)"

section \<open>Public links\<close>

definition create_link ::
  "config \<Rightarrow> user \<Rightarrow> uuid \<Rightarrow> datetime option \<Rightarrow> string option \<Rightarrow> datetime option \<Rightarrow> issued_link use_case" where
  "create_link C u nid expiry passphrase now =
     bind (moment_of now) (\<lambda>moment.
     bind (require_owned u nid) (\<lambda>n.
     seq (guard (\<not> (case expiry of None \<Rightarrow> False | Some t \<Rightarrow> t \<le> moment)) ValidationError)
    (bind (urandom TOKEN_BYTES) (\<lambda>rnd.
     let token = generate_token rnd in
     bind uuid4 (\<lambda>lid.
     bind (case passphrase of
             None \<Rightarrow> ret None
           | Some p \<Rightarrow> if p = [] then ret None
                        else bind (urandom SCRYPT_SALT_BYTES) (\<lambda>salt. ret (Some (hash_passphrase (cf_scrypt C) salt p)))) (\<lambda>ph.
     let link = \<lparr>pl_id = lid, pl_node_id = nd_id n, pl_token_hash = hash_token (cf_sha256 C) token,
                 pl_created_by = us_subject u, pl_created_at = moment, pl_expires_at = expiry, pl_passphrase_hash = ph,
                 pl_revoked_at = None, pl_access_count = 0, pl_last_accessed_at = None\<rparr> in
     seq (mdb (links_add link))
    (seq (sharing_audit PUBLIC_LINK_CREATED moment (Some (us_subject u)) (Some (nd_id n)) None None None [])
    (seq (flush C)
         (ret \<lparr>il_link = link, il_token = token\<rparr>)))))))))"

definition attempt_key :: "public_link \<Rightarrow> string option \<Rightarrow> string" where
  "attempt_key l source_ip =
     uuid_str (pl_id l) @ '':'' @ (case source_ip of None \<Rightarrow> ''anonymous'' | Some ip \<Rightarrow> if ip = [] then ''anonymous'' else ip)"

definition check_passphrase ::
  "config \<Rightarrow> public_link \<Rightarrow> string option \<Rightarrow> string option \<Rightarrow> datetime \<Rightarrow> unit use_case" where
  "check_passphrase C l passphrase source_ip now =
     (let key = attempt_key l source_ip in
      bind (query (\<lambda>w. is_limited (attempts C w) key now)) (\<lambda>limited.
      seq (guard (\<not> limited) RateLimitedError)
          (if (case passphrase of
                 None \<Rightarrow> True
               | Some p \<Rightarrow> \<not> verify_passphrase (cf_scrypt C) p (case pl_passphrase_hash l of None \<Rightarrow> [] | Some h \<Rightarrow> h))
           then seq (record_attempt C key now) (raise PermissionDeniedError)
           else ret ())))"

definition resolve_link ::
  "config \<Rightarrow> string \<Rightarrow> string option \<Rightarrow> string option \<Rightarrow> datetime option \<Rightarrow> link_access use_case" where
  "resolve_link C token passphrase source_ip now =
     bind (moment_of now) (\<lambda>moment.
     bind (qdb (\<lambda>d. get_by_token_hash d (hash_token (cf_sha256 C) token))) (\<lambda>found.
     bind (expect found NotFoundError) (\<lambda>l.
     seq (guard (is_usable l moment) NotFoundError)
    (seq (if requires_passphrase l then check_passphrase C l passphrase source_ip moment else ret ())
    (bind (qdb (\<lambda>d. nodes_get d (pl_node_id l))) (\<lambda>node.
     bind (expect node NotFoundError) (\<lambda>n.
     seq (guard (\<not> is_deleted n) NotFoundError)
    (let l' = record_access l moment in
     seq (mdb (links_update l'))
    (seq (sharing_audit PUBLIC_LINK_ACCESSED moment None (Some (nd_id n)) None None source_ip
            [(''link_id'', CStr (uuid_str (pl_id l')))])
         (ret \<lparr>la_link = l', la_node = n, la_role = VIEWER\<rparr>))))))))))"

definition revoke_link :: "config \<Rightarrow> user \<Rightarrow> uuid \<Rightarrow> datetime option \<Rightarrow> unit use_case" where
  "revoke_link C u lid now =
     bind (moment_of now) (\<lambda>moment.
     bind (qdb (\<lambda>d. links_get d lid)) (\<lambda>found.
     bind (expect found NotFoundError) (\<lambda>l.
     bind (require_owned u (pl_node_id l)) (\<lambda>n.
     seq (mdb (links_update (revoke_link_at l moment)))
    (seq (sharing_audit PUBLIC_LINK_REVOKED moment (Some (us_subject u)) (Some (nd_id n)) None None None
            [(''link_id'', CStr (uuid_str (pl_id l)))])
         (flush C))))))"

definition list_links :: "user \<Rightarrow> uuid \<Rightarrow> public_link list use_case" where
  "list_links u nid =
     bind (require_owned u nid) (\<lambda>n. qdb (\<lambda>d. links_list_for_node d (nd_id n)))"

section \<open>Ownership\<close>

definition move_quota :: "user \<Rightarrow> user \<Rightarrow> int \<Rightarrow> datetime \<Rightarrow> unit use_case" where
  "move_quota previous new_owner sz now =
     (if sz \<le> 0 then ret ()
      else
        bind (qdb (\<lambda>d. quotas_get d (us_id new_owner))) (\<lambda>found.
        bind (expect found QuotaExceededError) (\<lambda>target.
        seq (guard (\<not> would_exceed target (us_quota_bytes new_owner) sz) QuotaExceededError)
       (seq (mdb (quotas_update (charge_live sz now target)))
       (bind (qdb (\<lambda>d. quotas_get d (us_id previous))) (\<lambda>source.
        case source of
          None \<Rightarrow> ret ()
        | Some q \<Rightarrow> mdb (quotas_update (charge_live (- sz) now q))))))))"

definition hand_over :: "config \<Rightarrow> string \<Rightarrow> uuid \<Rightarrow> datetime \<Rightarrow> node \<Rightarrow> unit use_case" where
  "hand_over C subject new_owner moment item =
     seq (rewrap_one C item subject moment)
         (mdb (nodes_update (touch moment (item\<lparr>nd_owner_id := new_owner\<rparr>))))"

definition transfer_ownership ::
  "config \<Rightarrow> user \<Rightarrow> uuid \<Rightarrow> string \<Rightarrow> bool \<Rightarrow> datetime option \<Rightarrow> node use_case" where
  "transfer_ownership C u nid recipient keep_editor_access now =
     bind (moment_of now) (\<lambda>moment.
     bind (require_owned u nid) (\<lambda>n.
     bind (resolve_recipient C u recipient) (\<lambda>subject.
     seq (guard (subject \<noteq> us_subject u) CannotShareWithSelfError)
    (bind (qdb (\<lambda>d. users_get_by_subject d subject)) (\<lambda>found.
     bind (expect found RecipientUnknownError) (\<lambda>new_owner.
     bind (qdb (\<lambda>d. nodes_descendants d (nd_id n) ANCESTOR_GUARD_DEPTH True)) (\<lambda>subtree.
     let moving = n # subtree;
         sz = sum_list (map nd_size_bytes (filter is_file moving));
         n' = touch moment (n\<lparr>nd_owner_id := us_id new_owner\<rparr>) in
     seq (move_quota u new_owner sz moment)
    (seq (for_each moving (hand_over C subject (us_id new_owner) moment))
    (seq (if keep_editor_access
          then bind uuid4 (\<lambda>gid.
               seq (mdb (grants_add (new_grant gid n (us_subject u) EDITOR (us_subject u) moment False)))
                   (rewrap_subtree C n' (us_subject u) moment))
          else ret ())
    (seq (sharing_audit OWNERSHIP_TRANSFERRED moment (Some (us_subject u)) (Some (nd_id n)) (Some subject) None None
            [(''bytes_moved'', CInt sz)])
    (seq (invalidate_subject C subject)
    (seq (invalidate_subject C (us_subject u))
    (seq (flush C)
         (ret n'))))))))))))))"

end
