(* ===== verification/SharingFacts.thy ===== *)
theory SharingFacts
  imports Sharing ContentRoundTrip Access CacheCoherence
begin

text \<open>What the sharing operations do to the state: the facts their properties rest on.\<close>

section \<open>Operations on key material\<close>

text \<open>Wrapping and dropping data keys touches the table of data keys alone.\<close>

definition keys_only :: "world \<Rightarrow> world \<Rightarrow> bool" where
  "keys_only w w' \<longleftrightarrow> (\<exists>ks. w_db w' = (w_db w)\<lparr>db_data_keys := ks\<rparr>) \<and> w_objects w' = w_objects w \<and> w_cache w' = w_cache w \<and>
     w_clock w' = w_clock w \<and> w_uuids w' = w_uuids w \<and> w_drawn w \<le> w_drawn w' \<and> w_attempts w' = w_attempts w"

definition op_keys :: "'a use_case \<Rightarrow> bool" where
  "op_keys m \<longleftrightarrow> (\<forall>w r w'. m w = (r, w') \<longrightarrow> keys_only w w')"

lemma same_keys: "\<exists>ks. d = d\<lparr>db_data_keys := ks\<rparr>" for d :: db
  by (rule exI[of _ "db_data_keys d"]) simp

lemma keys_only_refl: "keys_only w w"
  using same_keys[of "w_db w"] by (simp add: keys_only_def)

lemma keys_only_trans: "keys_only a b \<Longrightarrow> keys_only b c \<Longrightarrow> keys_only a c"
  unfolding keys_only_def by (elim conjE exE) (intro conjI, auto intro: exI)

lemma op_keysD: "op_keys m \<Longrightarrow> m w = (r, w') \<Longrightarrow> keys_only w w'"
  by (simp add: op_keys_def)

lemma op_keys_bind [intro!]: "op_keys m \<Longrightarrow> (\<And>x. op_keys (f x)) \<Longrightarrow> op_keys (bind m f)"
  unfolding op_keys_def bind_def by (fastforce split: prod.splits sum.splits intro: keys_only_trans)

lemma op_keys_seq [intro!]: "op_keys m \<Longrightarrow> op_keys n \<Longrightarrow> op_keys (seq m n)"
  unfolding seq_def by blast

lemma op_keys_basic [intro!]:
  "op_keys (ret x)" "op_keys (raise e)" "op_keys (query g)" "op_keys (lift r)" "op_keys (guard b e)" "op_keys (expect v e)"
  "op_keys (qdb h)"
  by (auto simp: op_keys_def guard_run expect_run keys_only_refl split: if_splits option.splits)

lemma op_keys_draws [intro!]: "op_keys uuid4" "op_keys (urandom k)"
  unfolding op_keys_def keys_only_def uuid4_def urandom_def by (auto simp: same_keys)

lemma op_keys_mdb: "(\<And>d. \<exists>ks. f d = d\<lparr>db_data_keys := ks\<rparr>) \<Longrightarrow> op_keys (mdb f)"
  by (simp add: op_keys_def keys_only_def)

lemma op_keys_writes [intro!]: "op_keys (mdb (add_data_key k))" "op_keys (mdb (delete_data_key i s))"
  by (auto intro!: op_keys_mdb simp: add_data_key_def delete_data_key_def)

lemma op_keys_cases [intro!]:
  "op_keys m \<Longrightarrow> (\<And>x. op_keys (f x)) \<Longrightarrow> op_keys (case v of None \<Rightarrow> m | Some x \<Rightarrow> f x)"
  "op_keys m \<Longrightarrow> op_keys n \<Longrightarrow> op_keys (if b then m else n)"
  by (auto split: option.splits)

lemma op_keys_for_each [intro!]: "(\<And>x. op_keys (f x)) \<Longrightarrow> op_keys (for_each xs f)"
  by (induction xs) auto

lemma op_keys_rewrap [intro!]:
  "op_keys (rewrap_one C n s t)" "op_keys (rewrap_subtree C n s t)" "op_keys (revoke_keys C n s)"
  unfolding rewrap_one_def rewrap_subtree_def revoke_keys_def rewrap_for_def revoke_for_def data_key_for_def user_kek_def draw_wrap_dek_def
  by blast+

section \<open>The key a subject holds\<close>

definition held_key :: "config \<Rightarrow> encryption_config \<Rightarrow> db \<Rightarrow> node \<Rightarrow> string \<Rightarrow> error + bytes" where
  "held_key C E d n s =
     (case (get_data_key d (nd_id n) s, users_get_by_subject d s) of
        (Some k, Some u) \<Rightarrow>
          (case get_user_key d (us_id u) of
             None \<Rightarrow> Inl KeyUnavailableError
           | Some uk \<Rightarrow>
              (case unwrap_kek (cf_aead C) (ec_provider E) (uk_wrapped_kek uk) (uk_master_key_id uk) of
                 Inl e \<Rightarrow> Inl e
               | Inr kek \<Rightarrow> unwrap_dek (cf_aead C) (dk_wrapped_dek k) kek))
      | _ \<Rightarrow> Inl KeyUnavailableError)"

lemma data_key_for_eq: "data_key_for C E n s w = (held_key C E (w_db w) n s, w)"
  by (simp add: data_key_for_def held_key_def user_kek_def run_simps split: option.splits sum.splits)

text \<open>The row found for a node and a subject stays the one found while rows are only appended.\<close>

lemma get_data_key_append:
  "get_data_key (add_data_key k d) i s =
     (case get_data_key d i s of Some x \<Rightarrow> Some x | None \<Rightarrow> if dk_node_id k = i \<and> dk_subject k = s then Some k else None)"
proof -
  have "find P (xs @ [y]) = (case find P xs of Some z \<Rightarrow> Some z | None \<Rightarrow> if P y then Some y else None)"
    for P and xs :: "data_key list" and y by (induction xs) auto
  then show ?thesis by (simp add: get_data_key_def add_data_key_def)
qed

lemma add_data_key_keeps [simp]:
  "users_get_by_subject (add_data_key k d) = users_get_by_subject d" "users_get (add_data_key k d) = users_get d"
  "get_user_key (add_data_key k d) = get_user_key d"
  by (simp_all add: add_data_key_def users_get_by_subject_def users_get_def get_user_key_def fun_eq_iff)

lemma held_key_append:
  "get_data_key d (nd_id n) s \<noteq> None \<Longrightarrow> held_key C E (add_data_key k d) n s = held_key C E d n s"
  by (auto simp: held_key_def get_data_key_append split: option.splits)

lemma rewrap_for_run:
  assumes r: "rewrap_for C E n s t w = (Inr x, w')" and e: "nd_encrypted n" and new: "get_data_key (w_db w) (nd_id n) s = None"
    and law: "aead_law (cf_aead C)"
  obtains ow k dek where "users_get (w_db w) (nd_owner_id n) = Some ow" "w_db w' = add_data_key k (w_db w)"
    "dk_node_id k = nd_id n" "dk_subject k = s" "held_key C E (w_db w) n (us_subject ow) = Inr dek" "held_key C E (w_db w') n s = Inr dek"
proof -
  obtain ow rcp dek kek uk wrapped where ow: "users_get (w_db w) (nd_owner_id n) = Some ow"
    and dek: "held_key C E (w_db w) n (us_subject ow) = Inr dek" "length dek = KEY_BYTES"
    and rcp: "users_get_by_subject (w_db w) s = Some rcp" "get_user_key (w_db w) (us_id rcp) = Some uk"
      "unwrap_kek (cf_aead C) (ec_provider E) (uk_wrapped_kek uk) (uk_master_key_id uk) = Inr kek"
    and wr: "wrap_dek (cf_aead C) (map (\<lambda>i. w_entropy w (w_spent w + i)) [0..<NONCE_BYTES]) dek kek = Inr wrapped"
    and w': "w_db w' = add_data_key \<lparr>dk_id = w_uuids w (w_drawn w), dk_node_id = nd_id n, dk_subject = s, dk_wrapped_dek = wrapped, dk_created_at = t\<rparr> (w_db w)"
    using r e new by (auto simp: rewrap_for_def draw_wrap_dek_def world_ok user_kek_ok urandom_ok data_key_for_eq)
  let ?k = "\<lparr>dk_id = w_uuids w (w_drawn w), dk_node_id = nd_id n, dk_subject = s, dk_wrapped_dek = wrapped, dk_created_at = t\<rparr>"
  have "unwrap_dek (cf_aead C) wrapped kek = Inr dek" using wr by (intro dek_roundtrip[OF law]) simp_all
  then have "held_key C E (w_db w') n s = Inr dek"
    using new rcp by (simp add: w' held_key_def get_data_key_append)
  then show thesis using that[OF ow w'] dek by simp
qed

text \<open>The subject and the owner of a node hold the same data key.\<close>

definition shares_key :: "config \<Rightarrow> encryption_config \<Rightarrow> db \<Rightarrow> node \<Rightarrow> string \<Rightarrow> bool" where
  "shares_key C E d n s \<longleftrightarrow>
     (\<exists>ow dek. users_get d (nd_owner_id n) = Some ow \<and> held_key C E d n (us_subject ow) = Inr dek \<and> held_key C E d n s = Inr dek)"

lemma held_key_row: "held_key C E d n s = Inr dek \<Longrightarrow> get_data_key d (nd_id n) s \<noteq> None"
  by (auto simp: held_key_def split: option.splits)

lemma shares_key_append: "shares_key C E d n s \<Longrightarrow> shares_key C E (add_data_key k d) n s"
  unfolding shares_key_def by (metis add_data_key_keeps(2) held_key_append held_key_row)

lemma rewrap_one_run:
  assumes r: "rewrap_one C n s t w = (Inr x, w')" and E: "cf_encryption C = Some E" and law: "aead_law (cf_aead C)"
  shows "w_db w' = w_db w \<or> (\<exists>k. w_db w' = add_data_key k (w_db w) \<and> dk_node_id k = nd_id n \<and> dk_subject k = s)"
    and "nd_encrypted n \<Longrightarrow> get_data_key (w_db w) (nd_id n) s = None \<Longrightarrow> shares_key C E (w_db w') n s"
proof -
  have rw: "nd_encrypted n \<Longrightarrow> rewrap_for C E n s t w = (Inr x, w')" and nop: "\<not> nd_encrypted n \<Longrightarrow> w' = w"
    using r E by (simp_all add: rewrap_one_def)
  have present: "nd_encrypted n \<Longrightarrow> get_data_key (w_db w) (nd_id n) s \<noteq> None \<Longrightarrow> w' = w"
    using rw by (auto simp: rewrap_for_def bind_run)
  have wrapped: "(\<exists>k. w_db w' = add_data_key k (w_db w) \<and> dk_node_id k = nd_id n \<and> dk_subject k = s) \<and> shares_key C E (w_db w') n s"
    if "nd_encrypted n" "get_data_key (w_db w) (nd_id n) s = None"
    by (rule rewrap_for_run[OF rw[OF that(1)] that law]) (auto simp: shares_key_def held_key_append held_key_row)
  show "w_db w' = w_db w \<or> (\<exists>k. w_db w' = add_data_key k (w_db w) \<and> dk_node_id k = nd_id n \<and> dk_subject k = s)"
    using wrapped present nop by blast
  show "nd_encrypted n \<Longrightarrow> get_data_key (w_db w) (nd_id n) s = None \<Longrightarrow> shares_key C E (w_db w') n s"
    using wrapped by blast
qed

lemma rewrap_all_run:
  assumes "for_each ms (\<lambda>m. rewrap_one C m s t) w = (Inr x, w')" "cf_encryption C = Some E" "aead_law (cf_aead C)"
    and "inj_on nd_id (set ms)"
  shows "shares_key C E (w_db w) n s \<Longrightarrow> shares_key C E (w_db w') n s"
    and "n \<in> set ms \<Longrightarrow> nd_encrypted n \<Longrightarrow> get_data_key (w_db w) (nd_id n) s = None \<Longrightarrow> shares_key C E (w_db w') n s"
  using assms(1,4)
proof (induction ms arbitrary: w)
  case (Cons m ms)
  { case 1
    then obtain w1 where w1: "rewrap_one C m s t w = (Inr (), w1)" "for_each ms (\<lambda>m. rewrap_one C m s t) w1 = (Inr x, w')"
      by (auto simp: world_ok)
    have "shares_key C E (w_db w1) n s"
      using rewrap_one_run(1)[OF w1(1) assms(2,3)] 1(1) by (auto intro: shares_key_append)
    then show ?case using Cons.IH(1) w1(2) 1(3) by simp
  next
    case 2
    then obtain w1 where w1: "rewrap_one C m s t w = (Inr (), w1)" "for_each ms (\<lambda>m. rewrap_one C m s t) w1 = (Inr x, w')"
      by (auto simp: world_ok)
    show ?case
    proof (cases "n = m")
      case True
      then show ?thesis using rewrap_one_run(2)[OF w1(1) assms(2,3)] 2 Cons.IH(1) w1(2) by simp
    next
      case False
      then have n: "n \<in> set ms" "nd_id m \<noteq> nd_id n" using 2 by auto
      then have "get_data_key (w_db w1) (nd_id n) s = None"
        using rewrap_one_run(1)[OF w1(1) assms(2,3)] 2(3) by (auto simp: get_data_key_append)
      then show ?thesis using Cons.IH(2)[OF n(1) 2(2)] w1(2) 2(5) by simp
    qed }
qed (auto simp: world_ok)

end
