(* ===== verification/GrantFacts.thy ===== *)
theory GrantFacts
  imports SharingFacts
begin

text \<open>What granting and revoking do to grants, keys and cached decisions.\<close>

section \<open>The steps they share\<close>

lemma invalidate_subject_store: "invalidate_subject C s w = (r, w') \<Longrightarrow> same_store w w'"
  by (auto simp: invalidate_subject_def invalidate_permissions_for_subject_def dest: invalidate_prefix_store split: if_splits)

lemma finalize_grant_run:
  assumes "finalize_grant C u n s r b t w = (Inr x, w')"
  shows "audited (w_db w) (w_db w') \<and> w_objects w' = w_objects w"
  using assms
  by (auto simp: finalize_grant_def sharing_audit_def world_ok audited_def same_store_def dest!: invalidate_subject_store)

lemma require_owned_ok:
  "require_owned u nid w = (Inr n, w') \<longleftrightarrow> w' = w \<and> nodes_get (w_db w) nid = Some n \<and> \<not> is_deleted n \<and>
     compute_role (w_db w) (us_subject u) (us_id u) n = Some OWNER"
proof -
  have top: "OWNER \<le> r \<longleftrightarrow> r = OWNER" for r by (cases r) (simp_all add: less_eq_role_def)
  show ?thesis
    by (auto simp: require_owned_def require_live_def world_ok require_role_ok top)
qed

lemma grants_find_Some:
  "grants_find d nid s = Some g \<Longrightarrow> g \<in> set (db_grants d) \<and> gr_node_id g = nid \<and> gr_subject g = s"
  by (auto simp: grants_find_def find_Some_iff)

text \<open>The tables a role, a version or a key of another subject is read from.\<close>

definition same_files :: "db \<Rightarrow> db \<Rightarrow> bool" where
  "same_files d d' \<longleftrightarrow> db_nodes d' = db_nodes d \<and> db_versions d' = db_versions d \<and> db_users d' = db_users d \<and>
     db_user_keys d' = db_user_keys d \<and> db_quotas d' = db_quotas d"

lemma same_files_refl [simp]: "same_files d d"
  by (simp add: same_files_def)

lemma same_files_trans: "same_files a b \<Longrightarrow> same_files b c \<Longrightarrow> same_files a c"
  by (simp add: same_files_def)

lemma same_files_steps [simp]:
  "same_files d (grants_add g d)" "same_files d (grants_update g d)" "same_files d (grants_delete i d)"
  "same_files d (add_data_key k d)" "same_files d (audit_add a d)"
  by (simp_all add: same_files_def grants_add_def grants_update_def grants_delete_def add_data_key_def audit_add_def)

lemma keys_only_files: "keys_only w w' \<Longrightarrow> same_files (w_db w) (w_db w') \<and> db_grants (w_db w') = db_grants (w_db w) \<and> w_objects w' = w_objects w"
  by (auto simp: keys_only_def same_files_def)

lemma audited_files: "audited d d' \<Longrightarrow> same_files d d' \<and> db_grants d' = db_grants d \<and> db_data_keys d' = db_data_keys d"
  by (auto simp: audited_def same_files_def audit_add_def)

section \<open>Granting\<close>

lemma grant_row_stored:
  assumes "(case existing of
             Some g \<Rightarrow> (let g' = with_role g r t in seq (mdb (grants_update g')) (ret g'))
           | None \<Rightarrow> bind uuid4 (\<lambda>gid. let g' = new_grant gid n s r b t False in seq (mdb (grants_add g')) (ret g'))) w = (Inr g, w1)"
    and "existing = grants_find (w_db w) (nd_id n) s"
  shows "same_files (w_db w) (w_db w1)" "db_data_keys (w_db w1) = db_data_keys (w_db w)" "w_objects w1 = w_objects w"
    "gr_subject g = s" "gr_role g = r" "\<not> gr_pending g \<Longrightarrow> \<exists>h\<in>set (db_grants (w_db w1)). gr_node_id h = nd_id n \<and> gr_subject h = s \<and> gr_role h = r \<and> \<not> gr_pending h"
proof -
  have "(same_files (w_db w) (w_db w1) \<and> db_data_keys (w_db w1) = db_data_keys (w_db w) \<and> w_objects w1 = w_objects w \<and>
    gr_subject g = s \<and> gr_role g = r) \<and> (\<not> gr_pending g \<longrightarrow> (\<exists>h\<in>set (db_grants (w_db w1)). gr_node_id h = nd_id n \<and> gr_subject h = s \<and> gr_role h = r \<and> \<not> gr_pending h))"
  proof (cases existing)
    case None
    then show ?thesis using assms(1) by (auto simp: world_ok Let_def new_grant_def) (simp_all add: grants_add_def)
  next
    case (Some h)
    have "h \<in> set (db_grants (w_db w))" "gr_node_id h = nd_id n" "gr_subject h = s"
      using grants_find_Some Some assms(2) by metis+
    then show ?thesis
      using assms(1) Some
      by (auto simp: world_ok Let_def with_role_def grants_update_def upd_row_def same_files_def
          intro!: bexI[of _ "h\<lparr>gr_role := r, gr_updated_at := t, gr_pending := gr_pending h\<rparr>"])
  qed
  then show "same_files (w_db w) (w_db w1)" "db_data_keys (w_db w1) = db_data_keys (w_db w)" "w_objects w1 = w_objects w"
    "gr_subject g = s" "gr_role g = r" "\<not> gr_pending g \<Longrightarrow> \<exists>h\<in>set (db_grants (w_db w1)). gr_node_id h = nd_id n \<and> gr_subject h = s \<and> gr_role h = r \<and> \<not> gr_pending h"
    by blast+
qed

lemma grant_now_run:
  assumes "grant_now C u n s r existing t w = (Inr g, w')" "existing = grants_find (w_db w) (nd_id n) s"
  obtains w1 w2 where "same_files (w_db w) (w_db w1)" "db_data_keys (w_db w1) = db_data_keys (w_db w)"
    "rewrap_subtree C n s t w1 = (Inr (), w2)" "keys_only w1 w2" "audited (w_db w2) (w_db w')" "w_objects w' = w_objects w"
    "gr_subject g = s" "gr_role g = r"
    "\<not> gr_pending g \<longrightarrow> (\<exists>h\<in>set (db_grants (w_db w1)). gr_node_id h = nd_id n \<and> gr_subject h = s \<and> gr_role h = r \<and> \<not> gr_pending h)"
proof -
  obtain w1 w2 x y where st: "(case existing of
             Some g \<Rightarrow> (let g' = with_role g r t in seq (mdb (grants_update g')) (ret g'))
           | None \<Rightarrow> bind uuid4 (\<lambda>gid. let g' = new_grant gid n s r (us_subject u) t False in seq (mdb (grants_add g')) (ret g'))) w = (Inr g, w1)"
    and rw: "rewrap_subtree C n s t w1 = (Inr x, w2)" and fin: "finalize_grant C u n s r (existing \<noteq> None) t w2 = (Inr y, w')"
    using assms(1) unfolding grant_now_def op_ok by blast
  note k = op_keysD[OF op_keys_rewrap(2) rw]
  show thesis
    using grant_row_stored[OF st assms(2)] finalize_grant_run[OF fin] keys_only_files[OF k]
    by (intro that[OF _ _ rw[unfolded unit_eq[of x]] k]) simp_all
qed

lemma grant_access_run:
  assumes "grant_access C u nid recipient r now w = (Inr g, w')" "\<not> gr_pending g"
  obtains n where "nodes_get (w_db w) nid = Some n" "\<not> is_deleted n"
    "grant_now C u n (gr_subject g) r (grants_find (w_db w) nid (gr_subject g)) (case now of None \<Rightarrow> w_clock w | Some t \<Rightarrow> t) w = (Inr g, w')"
    "cf_find_subject C recipient (map org_id (us_orgs u)) = Inr (Some (gr_subject g))"
proof -
  let ?t = "case now of None \<Rightarrow> w_clock w | Some t \<Rightarrow> t"
  obtain n s where n: "nodes_get (w_db w) nid = Some n" "\<not> is_deleted n" "nd_id n = nid"
    and s: "cf_find_subject C recipient (map org_id (us_orgs u)) = Inr (Some s)"
    and run: "(if grants_find (w_db w) nid s = None \<and> should_defer C (w_db w) n then grant_pending C u n s r ?t
      else grant_now C u n s r (grants_find (w_db w) nid s) ?t) w = (Inr g, w')"
    using assms(1) unfolding grant_access_def
    by (auto simp: world_ok require_owned_ok resolve_recipient_def dest: nodes_get_Some)
  have "\<not> (grants_find (w_db w) nid s = None \<and> should_defer C (w_db w) n)"
    using run assms(2) by (auto simp: grant_pending_def new_grant_def world_ok Let_def)
  then have g: "grant_now C u n s r (grants_find (w_db w) nid s) ?t w = (Inr g, w')" using run by auto
  have "gr_subject g = s" by (rule grant_now_run[OF g]) (simp_all add: n(3))
  then show thesis using that n s g by blast
qed

lemma reaching_grant:
  assumes "tree_inv (db_nodes d)" "nodes_get d (nd_id m) = Some m'" "within_guard d (nd_id m)"
    and "h \<in> set (db_grants d)" "gr_subject h = s" "\<not> gr_pending h" "(nd_id m, gr_node_id h) \<in> (parent_rel (db_nodes d))\<^sup>*"
  obtains r where "compute_role d s uid m = Some r" "gr_role h \<le> r"
proof -
  have "h \<in> reaching d s (nd_id m)" using assms(4-7) by (simp add: reaching_def)
  moreover have "gr_role h \<le> OWNER" by (cases "gr_role h") (simp_all add: less_eq_role_def)
  ultimately show thesis using compute_role_spec[OF assms(1-3), of s uid] that
    by (cases "compute_role d s uid m") (auto simp: role_spec_def split: if_splits)
qed

lemma same_files_get: "same_files d d' \<Longrightarrow> nodes_get d' = nodes_get d \<and> nodes_descendants d' = nodes_descendants d \<and>
    nodes_ancestors d' = nodes_ancestors d"
  by (auto simp: same_files_def nodes_get_def nodes_descendants_def nodes_ancestors_def fun_eq_iff split: option.splits)

lemma granted_files:
  assumes "grant_access C u nid recipient r now w = (Inr g, w')" "\<not> gr_pending g"
  shows "same_files (w_db w) (w_db w')"
proof -
  obtain n where n: "nodes_get (w_db w) nid = Some n"
    and run: "grant_now C u n (gr_subject g) r (grants_find (w_db w) nid (gr_subject g)) (case now of None \<Rightarrow> w_clock w | Some t \<Rightarrow> t) w = (Inr g, w')"
    by (rule grant_access_run[OF assms])
  show ?thesis
  proof (rule grant_now_run[OF run])
    fix w1 w2 assume "same_files (w_db w) (w_db w1)" "keys_only w1 w2" "audited (w_db w2) (w_db w')"
    then show ?thesis using keys_only_files[of w1 w2] audited_files[of "w_db w2" "w_db w'"] by (auto intro: same_files_trans)
  qed (use nodes_get_Some[OF n] in simp)
qed

lemma granted_role:
  assumes "grant_access C u nid recipient r now w = (Inr g, w')" "\<not> gr_pending g" "tree_inv (db_nodes (w_db w))"
    and m: "nodes_get (w_db w) (nd_id m) = Some m" "within_guard (w_db w) (nd_id m)" "(nd_id m, nid) \<in> (parent_rel (db_nodes (w_db w)))\<^sup>*"
  obtains r' where "compute_role (w_db w') (gr_subject g) uid m = Some r'" "r \<le> r'"
proof -
  obtain n where n: "nodes_get (w_db w) nid = Some n"
    and run: "grant_now C u n (gr_subject g) r (grants_find (w_db w) nid (gr_subject g)) (case now of None \<Rightarrow> w_clock w | Some t \<Rightarrow> t) w = (Inr g, w')"
    by (rule grant_access_run[OF assms(1,2)])
  have id: "nd_id n = nid" using nodes_get_Some[OF n] by simp
  show thesis
  proof (rule grant_now_run[OF run])
    fix w1 w2 assume a: "same_files (w_db w) (w_db w1)" "keys_only w1 w2" "audited (w_db w2) (w_db w')"
      "\<not> gr_pending g \<longrightarrow> (\<exists>h\<in>set (db_grants (w_db w1)). gr_node_id h = nd_id n \<and> gr_subject h = gr_subject g \<and> gr_role h = r \<and> \<not> gr_pending h)"
    note f = same_files_trans[OF a(1) same_files_trans[OF conjunct1[OF keys_only_files[OF a(2)]] conjunct1[OF audited_files[OF a(3)]]]]
    have gs: "db_grants (w_db w') = db_grants (w_db w1)" using keys_only_files[OF a(2)] audited_files[OF a(3)] by simp
    obtain h where h: "h \<in> set (db_grants (w_db w'))" "gr_node_id h = nid" "gr_subject h = gr_subject g" "gr_role h = r" "\<not> gr_pending h"
      using a(4) assms(2) gs id by auto
    show thesis
    proof (rule reaching_grant[of "w_db w'" m m h "gr_subject g" uid])
      show "within_guard (w_db w') (nd_id m)" using m(2) same_files_get[OF f] by (simp add: within_guard_def)
    qed (use assms(3) m h f same_files_get[OF f] that in \<open>auto simp: same_files_def\<close>)
  qed (simp add: id)
qed

section \<open>The keys of a shared subtree\<close>

lemma guard_descendant:
  assumes inv: "tree_inv (db_nodes d)" and m: "m \<in> set (db_nodes d)" "within_guard d (nd_id m)" "\<not> is_deleted m"
    and below: "(nd_id m, nid) \<in> (parent_rel (db_nodes d))\<^sup>+"
  shows "m \<in> set (nodes_descendants d nid ANCESTOR_GUARD_DEPTH False)"
proof -
  let ?rows = "db_nodes d"
  from below obtain i where i: "(nd_id m, nid) \<in> parent_rel ?rows ^^ Suc i"
    by (metis trancl_power gr0_implies_Suc)
  then obtain y where y: "(nd_id m, y) \<in> parent_rel ?rows ^^ i" "(y, nid) \<in> parent_rel ?rows" by auto
  then obtain c where c: "c \<in> set ?rows" "nd_id c = y" "nd_parent_id c = Some nid"
    by (auto simp: parent_rel_def)
  have "nodes_get d (nd_id m) = Some m" using m(1) inv by (simp add: nodes_get_iff)
  then have short: "length (chain_up ?rows ANCESTOR_GUARD_DEPTH m) < ANCESTOR_GUARD_DEPTH"
    using m(2) ancestors_eq[OF inv, of "nd_id m" m ANCESTOR_GUARD_DEPTH] by (simp add: within_guard_def)
  have "i \<le> ANCESTOR_GUARD_DEPTH"
  proof (rule ccontr)
    assume "\<not> i \<le> ANCESTOR_GUARD_DEPTH"
    then have "i = ANCESTOR_GUARD_DEPTH + (i - ANCESTOR_GUARD_DEPTH)" by simp
    with y(1) obtain b where "(nd_id m, b) \<in> parent_rel ?rows ^^ ANCESTOR_GUARD_DEPTH" by (metis relcomp.cases relpow_add)
    from chain_up_reaches[OF this m(1) inv order_refl] short show False by simp
  qed
  moreover have "c \<in> set (children_of ?rows [nid])" using c by (simp add: set_children_of)
  moreover have "set (children_of ?rows [nid]) \<subseteq> set ?rows" by (auto simp: set_children_of)
  ultimately have "m \<in> set (subtree_levels ?rows ANCESTOR_GUARD_DEPTH (children_of ?rows [nid]))"
    using subtree_levels_complete[OF m(1), of i ANCESTOR_GUARD_DEPTH c] y c inv by (simp add: tree_inv_def)
  then show ?thesis using m(3) by (simp add: nodes_descendants_def)
qed

lemma rewrap_subtree_all:
  assumes "rewrap_subtree C n s t w = (Inr x, w')"
  shows "for_each (n # nodes_descendants (w_db w) (nd_id n) ANCESTOR_GUARD_DEPTH False) (\<lambda>m. rewrap_one C m s t) w = (Inr x, w')"
proof -
  obtain y w1 where r: "rewrap_one C n s t w = (Inr y, w1)"
    "for_each (nodes_descendants (w_db w1) (nd_id n) ANCESTOR_GUARD_DEPTH False) (\<lambda>m. rewrap_one C m s t) w1 = (Inr x, w')"
    using assms by (auto simp: rewrap_subtree_def world_ok)
  have "nodes_descendants (w_db w1) = nodes_descendants (w_db w)"
    using keys_only_files[OF op_keysD[OF op_keys_rewrap(1) r(1)]] same_files_get by blast
  with r show ?thesis by (auto simp: world_ok)
qed

lemma held_key_files:
  assumes "same_files d d'" "db_data_keys d' = db_data_keys d"
  shows "held_key C E d' = held_key C E d \<and> users_get d' = users_get d"
proof -
  have "get_data_key d' = get_data_key d" "users_get_by_subject d' = users_get_by_subject d" "get_user_key d' = get_user_key d"
    "users_get d' = users_get d"
    using assms by (simp_all add: same_files_def get_data_key_def users_get_by_subject_def users_get_def get_user_key_def fun_eq_iff)
  then show ?thesis by (simp only: held_key_def fun_eq_iff simp_thms)
qed

lemma granted_key:
  assumes g: "grant_access C u nid recipient r now w = (Inr g, w')" "\<not> gr_pending g" and inv: "tree_inv (db_nodes (w_db w))"
    and m: "nodes_get (w_db w) (nd_id m) = Some m" "within_guard (w_db w) (nd_id m)" "(nd_id m, nid) \<in> (parent_rel (db_nodes (w_db w)))\<^sup>*" "\<not> is_deleted m"
    and E: "cf_encryption C = Some E" "aead_law (cf_aead C)" "nd_encrypted m" "get_data_key (w_db w) (nd_id m) (gr_subject g) = None"
  shows "shares_key C E (w_db w') m (gr_subject g)"
proof -
  let ?s = "gr_subject g"
  obtain n where n: "nodes_get (w_db w) nid = Some n"
    and run: "grant_now C u n ?s r (grants_find (w_db w) nid ?s) (case now of None \<Rightarrow> w_clock w | Some t \<Rightarrow> t) w = (Inr g, w')"
    by (rule grant_access_run[OF g])
  have nn: "n \<in> set (db_nodes (w_db w))" "nd_id n = nid" using nodes_get_Some[OF n] by auto
  show ?thesis
  proof (rule grant_now_run[OF run])
    fix w1 w2 assume a: "same_files (w_db w) (w_db w1)" "db_data_keys (w_db w1) = db_data_keys (w_db w)"
      "rewrap_subtree C n ?s (case now of None \<Rightarrow> w_clock w | Some t \<Rightarrow> t) w1 = (Inr (), w2)" "audited (w_db w2) (w_db w')"
    let ?ms = "n # nodes_descendants (w_db w1) (nd_id n) ANCESTOR_GUARD_DEPTH False"
    have nodes: "db_nodes (w_db w1) = db_nodes (w_db w)" and desc: "nodes_descendants (w_db w1) = nodes_descendants (w_db w)"
      using a(1) same_files_get[OF a(1)] by (simp_all add: same_files_def)
    have rows: "set ?ms \<subseteq> set (db_nodes (w_db w))" using nn(1) descendants_sound[of _ "w_db w1"] nodes by auto
    have "inj_on nd_id (set (db_nodes (w_db w)))" using inv by (simp add: tree_inv_def distinct_map)
    then have inj: "inj_on nd_id (set ?ms)" by (rule inj_on_subset[OF _ rows])
    have "m \<in> set ?ms"
    proof (cases "nd_id m = nid")
      case True then show ?thesis using m(1) n by simp
    next
      case False
      then have "(nd_id m, nid) \<in> (parent_rel (db_nodes (w_db w)))\<^sup>+" using m(3) by (auto simp: rtrancl_eq_or_trancl)
      then show ?thesis using guard_descendant[OF inv _ m(2,4)] nodes_get_Some[OF m(1)] nn(2) desc by simp
    qed
    moreover have "get_data_key (w_db w1) (nd_id m) ?s = None" using E(4) a(2) by (simp add: get_data_key_def)
    ultimately have "shares_key C E (w_db w2) m ?s"
      using rewrap_all_run(2)[OF rewrap_subtree_all[OF a(3)] E(1,2) inj] E(3) by blast
    then show ?thesis using held_key_files[of "w_db w2" "w_db w'"] audited_files[OF a(4)] by (simp add: shares_key_def)
  qed (simp add: nn)
qed

section \<open>Two readers of one file\<close>

text \<open>A download depends on its caller through the role and, when the version is encrypted, the key held.\<close>

lemma download_alike:
  assumes d: "download C a nid rh vid ra l now w = (Inr plan, w1)"
    and role: "compute_role (w_db w) (us_subject b) (us_id b) (dp_node plan) = Some r"
    and key: "\<And>E. cf_encryption C = Some E \<Longrightarrow> fv_encrypted (dp_version plan) \<Longrightarrow>
      held_key C E (w_db w) (dp_node plan) (us_subject b) = held_key C E (w_db w) (dp_node plan) (us_subject a)"
  shows "\<exists>w2. download C b nid rh vid ra l now w = (Inr plan, w2)"
proof -
  obtain t n v wanted s where t: "moment_of now w = (Inr t, w)" and n: "require_node nid w = (Inr n, w)" "is_file n"
    and v: "resolve_version n vid w = (Inr v, w)" and wanted: "parse_range rh (fv_size_bytes v) = Inr wanted"
    and s: "fst ((if fv_encrypted v then open_encrypted C n v a wanted else open_plain C v wanted) w) = Inr s"
    and plan: "plan = \<lparr>dp_node = n, dp_version = v, dp_stream = s, dp_total_bytes = fv_size_bytes v,
      dp_served_bytes = (case wanted of None \<Rightarrow> fv_size_bytes v | Some r \<Rightarrow> br_length r), dp_content_range = wanted\<rparr>"
    using d unfolding download_def
    by (auto simp: op_ok moment_ok require_node_ok require_ok resolve_version_def qdb_ok Let_def)
  have low: "VIEWER \<le> r" by (cases r) (simp_all add: less_eq_role_def)
  have req: "require b n VIEWER w = (Inr r, w)" using role low by (simp add: require_ok plan)
  have alike: "open_encrypted C n v b wanted w = open_encrypted C n v a wanted w" if "fv_encrypted v"
    using key that by (cases "cf_encryption C") (auto simp: plan open_encrypted_def run_simps data_key_for_eq)
  have pure: "(if fv_encrypted v then open_encrypted C n v b wanted else open_plain C v wanted) w = (Inr s, w)"
    using s alike
    by (auto simp: open_encrypted_def open_plain_def run_simps data_key_for_eq split: option.splits sum.splits prod.splits if_splits)
  show ?thesis
    by (simp add: download_def bind_run seq_run t n v guard_run req wanted Let_def pure plan audit_download_def emit_audit_def
        if_distrib[of "\<lambda>m. m w"] pure[unfolded if_distrib[of "\<lambda>m. m w"]])
qed

section \<open>Revoking\<close>

lemma revoke_for_all:
  "for_each ms (\<lambda>m. revoke_for m s) w =
     (Inr (), w\<lparr>w_db := (w_db w)\<lparr>db_data_keys :=
       filter (\<lambda>k. \<not> (dk_subject k = s \<and> dk_node_id k \<in> nd_id ` set ms)) (db_data_keys (w_db w))\<rparr>\<rparr>)"
proof (induction ms arbitrary: w)
  case (Cons m ms)
  let ?w = "w\<lparr>w_db := (w_db w)\<lparr>db_data_keys := filter (\<lambda>k. \<not> (dk_node_id k = nd_id m \<and> dk_subject k = s)) (db_data_keys (w_db w))\<rparr>\<rparr>"
  have "revoke_for m s w = (Inr (), ?w)" by (simp add: revoke_for_def delete_data_key_def)
  then have "for_each (m # ms) (\<lambda>m. revoke_for m s) w = for_each ms (\<lambda>m. revoke_for m s) ?w" by (simp add: seq_run)
  also have "\<dots> = (Inr (), w\<lparr>w_db := (w_db w)\<lparr>db_data_keys :=
       filter (\<lambda>k. \<not> (dk_subject k = s \<and> dk_node_id k \<in> nd_id ` set (m # ms))) (db_data_keys (w_db w))\<rparr>\<rparr>)"
    unfolding Cons by (auto intro!: arg_cong[where f = "\<lambda>ks. w\<lparr>w_db := (w_db w)\<lparr>db_data_keys := ks\<rparr>\<rparr>"] filter_cong)
  finally show ?case .
qed simp

lemma revoke_keys_run:
  assumes "revoke_keys C n s w = (Inr x, w')" "cf_encryption C = Some E"
  shows "w' = w\<lparr>w_db := (w_db w)\<lparr>db_data_keys := filter (\<lambda>k. \<not> (dk_subject k = s \<and>
       dk_node_id k \<in> nd_id ` set (n # nodes_descendants (w_db w) (nd_id n) ANCESTOR_GUARD_DEPTH False))) (db_data_keys (w_db w))\<rparr>\<rparr>"
proof -
  have "nodes_descendants (delete_data_key i s d) = nodes_descendants d" for i d
    by (simp add: delete_data_key_def nodes_descendants_def fun_eq_iff)
  then have "for_each (n # nodes_descendants (w_db w) (nd_id n) ANCESTOR_GUARD_DEPTH False) (\<lambda>m. revoke_for m s) w = (Inr x, w')"
    using assms by (auto simp: revoke_keys_def world_ok revoke_for_def seq_run)
  then show ?thesis unfolding revoke_for_all by simp
qed

lemma revoke_run:
  assumes "revoke C u nid s now w = (Inr x, w')"
  obtains n g w1 w2 where "nodes_get (w_db w) nid = Some n" "grants_find (w_db w) nid s = Some g"
    "revoke_keys C n s (w\<lparr>w_db := grants_delete (gr_id g) (w_db w)\<rparr>) = (Inr (), w1)"
    "audited (w_db w1) (w_db w2)" "w_cache w2 = w_cache w1" "invalidate_subject C s w2 = (Inr (), w')"
proof -
  let ?t = "case now of None \<Rightarrow> w_clock w | Some t \<Rightarrow> t"
  obtain n g w1 w2 where n: "nodes_get (w_db w) nid = Some n" and g: "grants_find (w_db w) (nd_id n) s = Some g"
    and k: "revoke_keys C n s (w\<lparr>w_db := grants_delete (gr_id g) (w_db w)\<rparr>) = (Inr (), w1)"
    and a: "sharing_audit GRANT_REVOKED ?t (Some (us_subject u)) (Some (nd_id n)) (Some s) None None [] w1 = (Inr (), w2)"
    and i: "invalidate_subject C s w2 = (Inr (), w')"
    using assms unfolding revoke_def require_live_def
    by (auto simp: op_ok qdb_ok mdb_ok moment_ok flush_ok)
  have "audited (w_db w1) (w_db w2)" "w_cache w2 = w_cache w1"
    using a by (auto simp: sharing_audit_def emit_audit_ok audited_def)
  then show thesis using that n g k i nodes_get_Some[OF n] by blast
qed

lemma invalidate_subject_fresh:
  assumes "healthy w" "glob_law (cf_glob C)" "literal_pattern s" "invalidate_subject C s w = (r, w')"
  shows "fst (effective_role C s uid n w') = Inr (compute_role (w_db w) s uid n)"
proof (cases "cf_cache_enabled C")
  case True
  let ?pre = "dataset_prefix (cf_cache_schema C) PERMISSION @ s @ '':''"
  have lit: "literal_pattern ?pre" using assms(3) dataset_prefix_literal by (simp add: literal_pattern_def)
  have st: "same_store w w'" and es: "cs_entries (w_cache w') = filter (\<lambda>(k, _). \<not> cf_glob C (?pre @ ''*'') k) (cs_entries (w_cache w))"
    using invalidate_prefix_healthy[OF assms(1), of C ?pre r w'] assms(4) True
    by (simp_all add: invalidate_subject_def invalidate_permissions_for_subject_def)
  define key where "key = cache_key (cf_cache_schema C) PERMISSION [s, uuid_str (nd_id n)]"
  have "prefix ?pre key" by (simp add: key_def cache_key_def dataset_prefix_def)
  then have "cf_glob C (?pre @ ''*'') key" using glob_lawD[OF assms(2) lit] by blast
  then have "key \<notin> fst ` set (filter (\<lambda>(k, _). \<not> cf_glob C (?pre @ ''*'') k) (cs_entries (w_cache w)))" by (auto simp del: append_assoc)
  then have "map_of (cs_entries (w_cache w')) key = None" unfolding es map_of_eq_None_iff .
  note this[unfolded key_def]
  from fresh_decision_at[OF this, of uid] st show ?thesis by (simp add: same_store_def)
qed (use assms(4) in \<open>simp add: invalidate_subject_def effective_role_uncached\<close>)

text \<open>Each grant row has its own identifier, and a node has one grant per subject.\<close>

lemma grants_after_revoke:
  assumes "grants_find d nid s = Some g" "distinct (map gr_id (db_grants d))"
    and "distinct (map (\<lambda>g. (gr_node_id g, gr_subject g)) (db_grants d))"
  shows "db_grants (grants_delete (gr_id g) d) = filter (\<lambda>h. \<not> (gr_node_id h = nid \<and> gr_subject h = s)) (db_grants d)"
proof -
  have g: "g \<in> set (db_grants d)" "gr_node_id g = nid" "gr_subject g = s" using grants_find_Some[OF assms(1)] by auto
  have "inj_on gr_id (set (db_grants d))" "inj_on (\<lambda>g. (gr_node_id g, gr_subject g)) (set (db_grants d))"
    using assms(2,3) by (simp_all add: distinct_map)
  then have "h = g" if "h \<in> set (db_grants d)" "gr_id h = gr_id g \<or> (gr_node_id h = nid \<and> gr_subject h = s)" for h
    using that g by (elim disjE) (simp_all add: inj_on_def)
  then show ?thesis using g by (auto simp: grants_delete_def intro!: filter_cong)
qed

lemma revoke_effect:
  assumes "revoke C u nid s now w = (Inr x, w')" "cf_encryption C = Some E" "distinct (map gr_id (db_grants (w_db w)))"
    and "distinct (map (\<lambda>g. (gr_node_id g, gr_subject g)) (db_grants (w_db w)))"
  obtains n w2 where "nodes_get (w_db w) nid = Some n" "same_files (w_db w) (w_db w')"
    "db_grants (w_db w') = filter (\<lambda>h. \<not> (gr_node_id h = nid \<and> gr_subject h = s)) (db_grants (w_db w))"
    "db_data_keys (w_db w') = filter (\<lambda>k. \<not> (dk_subject k = s \<and> dk_node_id k \<in> nd_id `
       set (n # nodes_descendants (w_db w) nid ANCESTOR_GUARD_DEPTH False))) (db_data_keys (w_db w))"
    "w_cache w2 = w_cache w" "w_db w2 = w_db w'" "invalidate_subject C s w2 = (Inr (), w')"
proof (rule revoke_run[OF assms(1)])
  fix n g w1 w2
  assume n: "nodes_get (w_db w) nid = Some n" and g: "grants_find (w_db w) nid s = Some g"
    and k: "revoke_keys C n s (w\<lparr>w_db := grants_delete (gr_id g) (w_db w)\<rparr>) = (Inr (), w1)"
    and a: "audited (w_db w1) (w_db w2)" "w_cache w2 = w_cache w1" and i: "invalidate_subject C s w2 = (Inr (), w')"
  let ?d = "grants_delete (gr_id g) (w_db w)"
  define ids where "ids = nd_id ` set (n # nodes_descendants (w_db w) nid ANCESTOR_GUARD_DEPTH False)"
  have keys: "db_data_keys ?d = db_data_keys (w_db w)" by (simp add: grants_delete_def)
  have desc: "nodes_descendants ?d = nodes_descendants (w_db w)" using same_files_get[of "w_db w" ?d] by simp
  have id: "nd_id n = nid" using nodes_get_Some[OF n] by simp
  have w1: "w1 = w\<lparr>w_db := ?d\<lparr>db_data_keys := filter (\<lambda>k. \<not> (dk_subject k = s \<and> dk_node_id k \<in> ids)) (db_data_keys (w_db w))\<rparr>\<rparr>"
    using revoke_keys_run[OF k assms(2)] by (simp add: keys desc id ids_def)
  have w': "w_db w' = w_db w2" using invalidate_subject_store[OF i] by (simp add: same_store_def)
  note au = audited_files[OF a(1)]
  have "same_files (w_db w) (w_db w1)" by (simp add: w1 same_files_def grants_delete_def)
  then have "same_files (w_db w) (w_db w')" using au w' by (auto intro: same_files_trans)
  moreover have "db_grants (w_db w') = db_grants ?d" using au w' by (simp add: w1)
  moreover have "db_data_keys (w_db w') = filter (\<lambda>k. \<not> (dk_subject k = s \<and> dk_node_id k \<in> ids)) (db_data_keys (w_db w))"
    using au w' by (simp add: w1)
  moreover have "w_cache w2 = w_cache w" using a(2) by (simp add: w1)
  ultimately show thesis
    using n w' i grants_after_revoke[OF g assms(3,4)] by (intro that[of n w2]) (simp_all add: ids_def)
qed

text \<open>Taking rows of one subject away leaves what is found for another.\<close>

lemma find_filter_other: "(\<And>x. P x \<Longrightarrow> Q x) \<Longrightarrow> find P (filter Q xs) = find P xs"
  by (induction xs) auto

lemma roles_of_others:
  assumes "same_files d d'" "db_grants d' = filter (\<lambda>h. \<not> (gr_node_id h = nid \<and> gr_subject h = s)) (db_grants d)" "s' \<noteq> s"
  shows "compute_role d' s' uid n = compute_role d s' uid n"
proof -
  have "filter (\<lambda>g. gr_subject g = s' \<and> gr_node_id g \<in> set ids \<and> \<not> gr_pending g) (db_grants d') =
      filter (\<lambda>g. gr_subject g = s' \<and> gr_node_id g \<in> set ids \<and> \<not> gr_pending g) (db_grants d)" for ids
    using assms(3) by (auto simp: assms(2) intro!: filter_cong)
  then have "highest_role_over d' s' = highest_role_over d s'" by (simp add: highest_role_over_def fun_eq_iff)
  then show ?thesis using same_files_get[OF assms(1)] by (simp add: compute_role_def)
qed

section \<open>Progress\<close>

text \<open>A first grant of a live node by its owner returns once the keys could be wrapped.\<close>

lemma grant_returns:
  assumes n: "nodes_get (w_db w) nid = Some n" "\<not> is_deleted n" "compute_role (w_db w) (us_subject u) (us_id u) n = Some OWNER"
    and s: "cf_find_subject C recipient (map org_id (us_orgs u)) = Inr (Some s)" "s \<noteq> us_subject u"
    and new: "grants_find (w_db w) nid s = None" "\<not> should_defer C (w_db w) n" and off: "\<not> cf_cache_enabled C"
    and g: "g = new_grant (w_uuids w (w_drawn w)) n s r (us_subject u) (w_clock w) False"
    and rw: "rewrap_subtree C n s (w_clock w) (w\<lparr>w_drawn := w_drawn w + 1, w_db := grants_add g (w_db w)\<rparr>) = (Inr (), w1)"
    and ok: "integrity_error (cf_text C) (w_db w1) = None"
  shows "\<exists>a. grant_access C u nid recipient r None w = (Inr g, w1\<lparr>w_db := audit_add a (w_db w1)\<rparr>)"
proof -
  have id: "nd_id n = nid" using nodes_get_Some[OF n(1)] by simp
  have owned: "require_owned u nid w = (Inr n, w)" using n by (simp add: require_owned_ok)
  have ok': "integrity_error (cf_text C) (audit_add a (w_db w1)) = None" for a
    using ok by (auto simp: integrity_error_def audit_add_def split: if_splits)
  show ?thesis
    using s new off
    by (simp add: grant_access_def grant_now_def finalize_grant_def invalidate_subject_def sharing_audit_def emit_audit_def bind_run seq_run
        moment_of_def owned resolve_recipient_def guard_run expect_run id Let_def uuid4_def g[symmetric] rw[simplified] flush_def ok')
      (rule exI, rule refl)
qed

text \<open>An owner's revocation of a grant returns while the cache is in working order.\<close>

lemma revoke_returns:
  assumes n: "nodes_get (w_db w) nid = Some n" "\<not> is_deleted n" "nd_owner_id n = us_id u"
    and ow: "users_get (w_db w) (us_id u) = Some ow" "s \<noteq> us_subject ow" and g: "grants_find (w_db w) nid s = Some g"
    and E: "cf_encryption C = Some E" and ok: "integrity_error (cf_text C) (w_db w) = None" and up: "healthy w"
  shows "\<exists>w'. revoke C u nid s None w = (Inr (), w')"
proof -
  let ?w1 = "w\<lparr>w_db := grants_delete (gr_id g) (w_db w)\<rparr>"
  have id: "nd_id n = nid" using nodes_get_Some[OF n(1)] by simp
  have live: "require_live nid w = (Inr n, w)" using n by (simp add: require_live_def run_simps)
  obtain w2 where k: "revoke_keys C n s ?w1 = (Inr (), w2)"
    by (simp add: revoke_keys_def E seq_run revoke_for_def[of n] bind_run revoke_for_all)
  note w2 = revoke_keys_run[OF k E]
  let ?a = "\<lparr>ar_action = GRANT_REVOKED, ar_occurred_at = w_clock w, ar_protocol = REST, ar_actor_subject = Some (us_subject u),
       ar_target_id = Some (uuid_str nid), ar_recipient_subject = Some s, ar_reason = None, ar_source_ip = None, ar_context = []\<rparr>"
  obtain y w3 where i: "invalidate_subject C s (w2\<lparr>w_db := audit_add ?a (w_db w2)\<rparr>) = (y, w3)" by fastforce
  have "healthy (w2\<lparr>w_db := audit_add ?a (w_db w2)\<rparr>)" using up by (simp add: w2 healthy_def)
  then have y: "y = Inr ()"
    using i invalidate_prefix_healthy by (fastforce simp: invalidate_subject_def invalidate_permissions_for_subject_def split: if_splits)
  have "w_db w3 = audit_add ?a (w_db w2)" using invalidate_subject_store[OF i] by (simp add: same_store_def)
  then have "integrity_error (cf_text C) (w_db w3) = None"
    using ok by (auto simp: w2 integrity_error_def audit_add_def grants_delete_def intro: distinct_map_filter split: if_splits)
  then have f: "flush C w3 = (Inr (), w3)" by (simp add: flush_def run_simps)
  show ?thesis
    using n(3) ow
    by (simp add: revoke_def bind_run seq_run moment_of_def live guard_run expect_run id g k sharing_audit_def emit_audit_def i y f)
qed

end
