(* ===== verification/LinkFacts.thy ===== *)
theory LinkFacts
  imports SharingFacts
begin

text \<open>Public links: what resolving one checks, and what wrong passphrases leave behind.\<close>

section \<open>Guesses against the limiter\<close>

text \<open>A wrong guess is counted unless the key is limited already.\<close>

definition guess_event :: "string \<Rightarrow> datetime \<Rightarrow> limiter \<Rightarrow> limiter" where
  "guess_event key t l = (if is_limited l key t then l else record_event key t l)"

lemma guess_event_params [simp]:
  "li_limit (guess_event key t l) = li_limit l" "li_window (guess_event key t l) = li_window l"
  by (simp_all add: guess_event_def)

lemma fold_guess_params [simp]:
  "li_limit (fold (guess_event key) ts l) = li_limit l" "li_window (fold (guess_event key) ts l) = li_window l"
  by (induction ts arbitrary: l) auto

lemma guesses_counted:
  assumes "0 < li_limit l" "map_of (li_windows l) key = Some \<lparr>rw_started_at = t, rw_count = c\<rparr>" "c \<le> li_limit l"
    and "\<forall>s\<in>set ts. s - t < li_window l"
  shows "map_of (li_windows (fold (guess_event key) ts l)) key =
    Some \<lparr>rw_started_at = t, rw_count = min (c + int (length ts)) (li_limit l)\<rparr>"
  using assms
proof (induction ts arbitrary: l c)
  case (Cons s ts)
  have w: "s - t < li_window l" using Cons(5) by simp
  show ?case
  proof (cases "c < li_limit l")
    case True
    have "map_of (li_windows (guess_event key s l)) key = Some \<lparr>rw_started_at = t, rw_count = c + 1\<rparr>"
      using Cons(2,3) True w
      by (simp add: guess_event_def is_limited_def record_event_def limiter_enabled_def rolled_over_def map_of_window_put)
    from Cons.IH[OF _ this] Cons(2,5) True show ?thesis by (simp add: algebra_simps)
  next
    case False
    then have "guess_event key s l = l" using Cons(2-4) w
      by (simp add: guess_event_def is_limited_def limiter_enabled_def rolled_over_def)
    with Cons.IH[OF Cons(2-4)] Cons(5) False show ?thesis by simp
  qed
qed simp

lemma limited_after_guesses:
  assumes lim: "0 < li_limit l" and fresh: "case map_of (li_windows l) key of None \<Rightarrow> True | Some win \<Rightarrow> rolled_over l t win"
    and ts: "\<forall>s\<in>set ts. s - t < li_window l" and now: "now - t < li_window l" and enough: "li_limit l \<le> int (length (t # ts))"
  shows "is_limited (fold (guess_event key) (t # ts) l) key now"
proof -
  have "\<not> is_limited l key t" using fresh by (auto simp: is_limited_def split: option.splits)
  then have "map_of (li_windows (guess_event key t l)) key = Some \<lparr>rw_started_at = t, rw_count = 1\<rparr>"
    using lim fresh by (auto simp: guess_event_def record_event_def limiter_enabled_def map_of_window_put split: option.splits)
  from guesses_counted[OF _ this, of ts] show ?thesis
    using lim ts now enough by (simp add: is_limited_def limiter_enabled_def rolled_over_def)
qed

lemma guess_other_key: "k \<noteq> key \<Longrightarrow> is_limited (fold (guess_event key) ts l) k now = is_limited l k now"
  by (induction ts arbitrary: l) (simp_all add: guess_event_def fw.other_key)

section \<open>Wrong passphrases\<close>

text \<open>A link that a token leads to, protected by a passphrase that the given one does not match.\<close>

definition guarded_link :: "config \<Rightarrow> string \<Rightarrow> public_link \<Rightarrow> db \<Rightarrow> bool" where
  "guarded_link C token l d \<longleftrightarrow> get_by_token_hash d (hash_token (cf_sha256 C) token) = Some l \<and> requires_passphrase l"

definition wrong_passphrase :: "config \<Rightarrow> public_link \<Rightarrow> string \<Rightarrow> bool" where
  "wrong_passphrase C l p \<longleftrightarrow> \<not> verify_passphrase (cf_scrypt C) p (case pl_passphrase_hash l of None \<Rightarrow> [] | Some h \<Rightarrow> h)"

text \<open>One request that follows the link, in its own transaction.\<close>

definition follow_link :: "config \<Rightarrow> string \<Rightarrow> string option \<Rightarrow> datetime \<times> string \<Rightarrow> link_access use_case" where
  "follow_link C token source_ip tp = transaction C (resolve_link C token (Some (snd tp)) source_ip (Some (fst tp)))"

lemma follow_link_limited:
  assumes "guarded_link C token l (w_db w)" "is_usable l (fst tp)" "is_limited (attempts C w) (attempt_key l ip) (fst tp)"
  shows "follow_link C token ip tp w = (Inl RateLimitedError, w)"
  using assms
  by (simp add: guarded_link_def follow_link_def transaction_def resolve_link_def check_passphrase_def run_simps moment_of_def Let_def)

lemma follow_link_wrong:
  assumes "guarded_link C token l (w_db w)" "is_usable l (fst tp)" "wrong_passphrase C l (snd tp)"
    and "\<not> is_limited (attempts C w) (attempt_key l ip) (fst tp)"
  shows "follow_link C token ip tp w =
    (Inl PermissionDeniedError, w\<lparr>w_attempts := li_windows (record_event (attempt_key l ip) (fst tp) (attempts C w))\<rparr>)"
  using assms
  by (simp add: guarded_link_def wrong_passphrase_def follow_link_def transaction_def resolve_link_def check_passphrase_def record_attempt_def
      run_simps moment_of_def Let_def)

lemma attempts_recorded:
  "attempts C (w\<lparr>w_attempts := li_windows (record_event key t (attempts C w))\<rparr>) = record_event key t (attempts C w)"
  by (rule limiter.equality) (simp_all add: attempts_def)

lemma guess_run:
  assumes "guarded_link C token l (w_db w)" "is_usable l (fst tp)" "wrong_passphrase C l (snd tp)"
  shows "\<exists>a. snd (follow_link C token ip tp w) = w\<lparr>w_attempts := a\<rparr> \<and>
    attempts C (snd (follow_link C token ip tp w)) = guess_event (attempt_key l ip) (fst tp) (attempts C w)"
proof (cases "is_limited (attempts C w) (attempt_key l ip) (fst tp)")
  case True
  then show ?thesis using follow_link_limited[OF assms(1,2) True]
    by (simp add: guess_event_def) (rule exI[of _ "w_attempts w"], simp)
next
  case False
  then show ?thesis using follow_link_wrong[OF assms False]
    by (simp add: guess_event_def attempts_recorded) blast
qed

lemma guesses_run:
  assumes "guarded_link C token l (w_db w)" "\<forall>tp\<in>set gs. is_usable l (fst tp) \<and> wrong_passphrase C l (snd tp)"
  shows "\<exists>a. fold (\<lambda>tp w. snd (follow_link C token ip tp w)) gs w = w\<lparr>w_attempts := a\<rparr> \<and>
    attempts C (fold (\<lambda>tp w. snd (follow_link C token ip tp w)) gs w) = fold (guess_event (attempt_key l ip)) (map fst gs) (attempts C w)"
  using assms
proof (induction gs arbitrary: w)
  case Nil
  then show ?case by simp (rule exI[of _ "w_attempts w"], simp)
next
  case (Cons tp gs)
  obtain a where a: "snd (follow_link C token ip tp w) = w\<lparr>w_attempts := a\<rparr>"
    "attempts C (snd (follow_link C token ip tp w)) = guess_event (attempt_key l ip) (fst tp) (attempts C w)"
    using guess_run[OF Cons(2), of tp ip] Cons(3) by auto
  have "guarded_link C token l (w_db (w\<lparr>w_attempts := a\<rparr>))" using Cons(2) by simp
  from Cons.IH[OF this] Cons(3) a show ?case by auto
qed

text \<open>The answer depends on the counted attempts only through the limit on its own key.\<close>

lemma follow_link_depends:
  assumes "guarded_link C token l (w_db w)"
    and "is_limited (attempts C (w\<lparr>w_attempts := a\<rparr>)) (attempt_key l ip) (fst tp) = is_limited (attempts C w) (attempt_key l ip) (fst tp)"
  shows "fst (follow_link C token ip tp (w\<lparr>w_attempts := a\<rparr>)) = fst (follow_link C token ip tp w)"
  using assms
  by (auto simp: guarded_link_def follow_link_def transaction_def resolve_link_def check_passphrase_def record_attempt_def run_simps
      moment_of_def Let_def sharing_audit_def emit_audit_def flush_def split: option.splits sum.splits prod.splits)

section \<open>Following a new link\<close>

lemma require_owned_live:
  "require_owned u nid w = (Inr n, w') \<Longrightarrow> w' = w \<and> nodes_get (w_db w) nid = Some n \<and> nd_id n = nid \<and> \<not> is_deleted n"
  by (auto simp: require_owned_def require_live_def world_ok dest: nodes_get_Some)

lemma create_link_run:
  assumes "create_link C u nid expiry p now w = (Inr il, w')"
  obtains n l where "nodes_get (w_db w) nid = Some n" "\<not> is_deleted n" "il_link il = l"
    "audited (links_add l (w_db w)) (w_db w')" "pl_node_id l = nid" "pl_token_hash l = hash_token (cf_sha256 C) (il_token il)"
    "pl_expires_at l = expiry" "pl_revoked_at l = None" "pl_access_count l = 0"
    "pl_passphrase_hash l = (case p of None \<Rightarrow> None | Some q \<Rightarrow> if q = [] then None else
       Some (hash_passphrase (cf_scrypt C) (map (\<lambda>i. w_entropy w (w_spent w + TOKEN_BYTES + i)) [0..<SCRYPT_SALT_BYTES]) q))"
proof -
  let ?t = "case now of None \<Rightarrow> w_clock w | Some t \<Rightarrow> t"
  let ?w1 = "w\<lparr>w_spent := w_spent w + TOKEN_BYTES\<rparr>"
  let ?w2 = "?w1\<lparr>w_drawn := w_drawn w + 1\<rparr>"
  let ?hash = "case p of None \<Rightarrow> ret None | Some p \<Rightarrow> if p = [] then ret None
      else bind (urandom SCRYPT_SALT_BYTES) (\<lambda>salt. ret (Some (hash_passphrase (cf_scrypt C) salt p)))"
  obtain n ph w3 l where n: "nodes_get (w_db w) nid = Some n" "nd_id n = nid" "\<not> is_deleted n"
    and h: "?hash ?w2 = (Inr ph, w3)"
    and l: "l = \<lparr>pl_id = w_uuids w (w_drawn w), pl_node_id = nd_id n, pl_token_hash = hash_token (cf_sha256 C) (il_token il),
                 pl_created_by = us_subject u, pl_created_at = ?t, pl_expires_at = expiry, pl_passphrase_hash = ph,
                 pl_revoked_at = None, pl_access_count = 0, pl_last_accessed_at = None\<rparr>" "il_link il = l"
    and a: "audited (links_add l (w_db w3)) (w_db w')"
    using assms unfolding create_link_def
    by (clarsimp simp: op_ok moment_ok urandom_ok uuid4_ok mdb_ok flush_ok sharing_audit_def emit_audit_ok Let_def audited_def
        dest!: require_owned_live) blast
  have "w_db w3 = w_db w" "ph = (case p of None \<Rightarrow> None | Some q \<Rightarrow> if q = [] then None else
       Some (hash_passphrase (cf_scrypt C) (map (\<lambda>i. w_entropy w (w_spent w + TOKEN_BYTES + i)) [0..<SCRYPT_SALT_BYTES]) q))"
    using h by (auto simp: op_ok urandom_ok split: option.splits if_splits)
  then show thesis using n l a by (intro that[of n l]) simp_all
qed

lemma token_found:
  assumes "get_by_token_hash d (pl_token_hash l) = None"
  shows "get_by_token_hash (links_add l d) (pl_token_hash l) = Some l"
  using assms by (auto simp: get_by_token_hash_def row_by_def links_add_def find_None_iff find_Some_iff nth_append)

lemma new_link_followed:
  assumes c: "create_link C u nid expiry p now w = (Inr il, w')"
    and fresh: "get_by_token_hash (w_db w) (hash_token (cf_sha256 C) (il_token il)) = None"
    and scrypt: "\<forall>q s. is_bytes (cf_scrypt C q s)" and entropy: "\<forall>i. w_entropy w i < 256"
    and time: "\<forall>e. expiry = Some e \<longrightarrow> t < e" and free: "\<not> is_limited (attempts C w') (attempt_key (il_link il) ip) t"
  obtains acc w2 where "resolve_link C (il_token il) p ip (Some t) w' = (Inr acc, w2)" "la_role acc = VIEWER"
    "nd_id (la_node acc) = nid" "la_link acc = record_access (il_link il) t" "w_attempts w2 = w_attempts w'"
proof (rule create_link_run[OF c])
  fix n l assume n: "nodes_get (w_db w) nid = Some n" "\<not> is_deleted n" and l: "il_link il = l"
    and a: "audited (links_add l (w_db w)) (w_db w')" and f: "pl_node_id l = nid" "pl_token_hash l = hash_token (cf_sha256 C) (il_token il)"
    "pl_expires_at l = expiry" "pl_revoked_at l = None"
    and ph: "pl_passphrase_hash l = (case p of None \<Rightarrow> None | Some q \<Rightarrow> if q = [] then None else
       Some (hash_passphrase (cf_scrypt C) (map (\<lambda>i. w_entropy w (w_spent w + TOKEN_BYTES + i)) [0..<SCRYPT_SALT_BYTES]) q))"
  have get: "get_by_token_hash (w_db w') (hash_token (cf_sha256 C) (il_token il)) = Some l"
    using token_found[of "w_db w" l] fresh f(2) a by (auto simp: audited_def audit_add_def get_by_token_hash_def)
  have node: "nodes_get (w_db w') nid = Some n" using n(1) a by (auto simp: audited_def audit_add_def links_add_def nodes_get_def)
  have use: "is_usable l t" using time f by (auto simp: is_usable_def is_revoked_def is_expired_def split: option.splits)
  have check: "check_passphrase C l p ip t w' = (Inr (), w')" if req: "requires_passphrase l"
  proof -
    obtain q where q: "p = Some q" "q \<noteq> []" using req ph by (auto simp: requires_passphrase_def split: option.splits if_splits)
    have "is_bytes (map (\<lambda>i. w_entropy w (w_spent w + TOKEN_BYTES + i)) [0..<SCRYPT_SALT_BYTES])" using entropy by (simp add: is_bytes_def)
    from passphrase_verifies[OF this scrypt, of q] q ph free l show ?thesis
      by (simp add: check_passphrase_def run_simps Let_def)
  qed
  have chk: "(if requires_passphrase l then check_passphrase C l p ip t else ret ()) w' = (Inr (), w')" using check by simp
  obtain w2 where run: "resolve_link C (il_token il) p ip (Some t) w' = (Inr \<lparr>la_link = record_access l t, la_node = n, la_role = VIEWER\<rparr>, w2)"
    "w_attempts w2 = w_attempts w'"
    using n(2) f(1)
    by (simp add: l resolve_link_def bind_run seq_run moment_of_def get use chk node guard_run expect_run Let_def sharing_audit_def emit_audit_def)
  then show thesis using nodes_get_Some[OF n(1)] l by (intro that[OF run(1)]) simp_all
qed

end
