(* ===== verification/TransferFacts.thy ===== *)
theory TransferFacts
  imports GrantFacts
begin

text \<open>Handing a subtree over to another account: the rows that change owner and the bytes that change hands.\<close>

definition handed :: "uuid \<Rightarrow> datetime \<Rightarrow> node \<Rightarrow> node" where
  "handed owner t r = touch t (r\<lparr>nd_owner_id := owner\<rparr>)"

lemma hand_over_run:
  assumes "hand_over C s owner t m w = (Inr x, w')"
  shows "db_nodes (w_db w') = upd_row nd_id (nd_id m) (apply_node (handed owner t m)) (db_nodes (w_db w)) \<and>
    db_quotas (w_db w') = db_quotas (w_db w) \<and> db_users (w_db w') = db_users (w_db w)"
proof -
  obtain y w1 where r: "rewrap_one C m s t w = (Inr y, w1)" "w' = w1\<lparr>w_db := nodes_update (handed owner t m) (w_db w1)\<rparr>"
    using assms by (auto simp: hand_over_def world_ok handed_def)
  show ?thesis using keys_only_files[OF op_keysD[OF op_keys_rewrap(1) r(1)]]
    by (simp add: r(2) nodes_update_def handed_def touch_def same_files_def)
qed

lemma upd_handed:
  assumes "m \<in> set rows" "inj_on nd_id (set rows)"
  shows "upd_row nd_id (nd_id m) (apply_node (handed owner t m)) (map (\<lambda>r. if r \<in> A then handed owner t r else r) rows) =
    map (\<lambda>r. if r \<in> insert m A then handed owner t r else r) rows"
proof -
  have "(if nd_id (if r \<in> A then handed owner t r else r) = nd_id m then apply_node (handed owner t m) (if r \<in> A then handed owner t r else r)
      else (if r \<in> A then handed owner t r else r)) = (if r \<in> insert m A then handed owner t r else r)" if "r \<in> set rows" for r
  proof (cases "nd_id r = nd_id m")
    case True
    then have "r = m" using that assms by (auto simp: inj_on_def)
    then show ?thesis by (auto simp: apply_node_def handed_def touch_def)
  qed (auto simp: handed_def touch_def)
  then show ?thesis by (simp add: upd_row_def)
qed

lemma hand_over_all:
  assumes "for_each ms (hand_over C s owner t) w = (Inr x, w')" "set ms \<subseteq> set rows" "inj_on nd_id (set rows)"
    and "db_nodes (w_db w) = map (\<lambda>r. if r \<in> A then handed owner t r else r) rows"
  shows "db_nodes (w_db w') = map (\<lambda>r. if r \<in> A \<union> set ms then handed owner t r else r) rows \<and>
    db_quotas (w_db w') = db_quotas (w_db w) \<and> db_users (w_db w') = db_users (w_db w)"
  using assms(1,2,4)
proof (induction ms arbitrary: w A)
  case (Cons m ms)
  then obtain w1 where r: "hand_over C s owner t m w = (Inr (), w1)" "for_each ms (hand_over C s owner t) w1 = (Inr x, w')"
    by (auto simp: world_ok)
  note h = hand_over_run[OF r(1)]
  have "db_nodes (w_db w1) = map (\<lambda>r. if r \<in> insert m A then handed owner t r else r) rows"
    using h upd_handed[OF _ assms(3), of m owner t A] Cons(3,4) by simp
  from Cons.IH[OF r(2) _ this] Cons(3) h show ?case by simp
qed (simp add: world_ok)

section \<open>Bytes\<close>

lemma move_quota_run:
  assumes "move_quota a b sz t w = (Inr x, w')" "0 < sz" "us_id a \<noteq> us_id b" "quotas_get (w_db w) (us_id a) = Some qa"
  obtains qb where "quotas_get (w_db w) (us_id b) = Some qb" "total_bytes qb + sz \<le> us_quota_bytes b"
    "quotas_get (w_db w') (us_id a) = Some (charge_live (- sz) t qa)" "quotas_get (w_db w') (us_id b) = Some (charge_live sz t qb)"
    "db_nodes (w_db w') = db_nodes (w_db w)"
proof -
  have uid: "qu_user_id q = i" if "quotas_get d i = Some q" for d i q using that by (auto simp: quotas_get_def row_by_def find_Some_iff)
  have keep: "qu_user_id (charge_live k t q) = qu_user_id q" for k q by (simp add: charge_live_def)
  have nodes: "db_nodes (quotas_update q d) = db_nodes d" for q d by (simp add: quotas_update_def)
  obtain qb where b: "quotas_get (w_db w) (us_id b) = Some qb" "\<not> would_exceed qb (us_quota_bytes b) sz"
    and run: "(case quotas_get (quotas_update (charge_live sz t qb) (w_db w)) (us_id a) of
       None \<Rightarrow> ret () | Some q \<Rightarrow> mdb (quotas_update (charge_live (- sz) t q)))
       (w\<lparr>w_db := quotas_update (charge_live sz t qb) (w_db w)\<rparr>) = (Inr x, w')"
    using assms(1,2) by (auto simp: move_quota_def op_ok qdb_ok mdb_ok)
  have other: "quotas_get (quotas_update (charge_live sz t qb) (w_db w)) (us_id a) = Some qa"
    using assms(3,4) uid[OF b(1)] by (simp add: quotas_get_update keep)
  have w': "w_db w' = quotas_update (charge_live (- sz) t qa) (quotas_update (charge_live sz t qb) (w_db w))"
    using run by (auto simp: other)
  show thesis
    using b assms(3,4) uid[OF assms(4)] uid[OF b(1)]
    by (intro that[OF b(1)]) (simp_all add: w' other quotas_get_update keep would_exceed_def nodes)
qed

lemma move_quota_nodes: "move_quota a b sz t w = (Inr x, w') \<Longrightarrow> db_nodes (w_db w') = db_nodes (w_db w)"
  by (auto simp: move_quota_def world_ok quotas_update_def split: if_splits option.splits)

lemma move_quota_none: "move_quota a b sz t w = (Inr x, w') \<Longrightarrow> sz \<le> 0 \<Longrightarrow> w' = w"
  by (simp add: move_quota_def)

lemma move_quota_others:
  assumes "move_quota a b sz t w = (Inr x, w')" "i \<noteq> us_id a" "i \<noteq> us_id b"
  shows "quotas_get (w_db w') i = quotas_get (w_db w) i"
proof -
  have "qu_user_id q = j" if "quotas_get d j = Some q" for d j q using that by (auto simp: quotas_get_def row_by_def find_Some_iff)
  moreover have "qu_user_id (charge_live k t q) = qu_user_id q" for k q by (simp add: charge_live_def)
  ultimately show ?thesis
    using assms by (auto simp: move_quota_def world_ok quotas_get_update split: if_splits option.splits)
qed

section \<open>The whole transfer\<close>

lemma transfer_run:
  assumes "transfer_ownership C u nid recipient keep now w = (Inr n', w')"
  obtains n v w1 w2 where "nodes_get (w_db w) nid = Some n" "\<not> is_deleted n" "users_get_by_subject (w_db w) (us_subject v) = Some v"
    "us_subject v \<noteq> us_subject u" "cf_find_subject C recipient (map org_id (us_orgs u)) = Inr (Some (us_subject v))"
    "move_quota u v (sum_list (map nd_size_bytes (filter is_file (n # nodes_descendants (w_db w) nid ANCESTOR_GUARD_DEPTH True))))
       (case now of None \<Rightarrow> w_clock w | Some t \<Rightarrow> t) w = (Inr (), w1)"
    "for_each (n # nodes_descendants (w_db w) nid ANCESTOR_GUARD_DEPTH True)
       (hand_over C (us_subject v) (us_id v) (case now of None \<Rightarrow> w_clock w | Some t \<Rightarrow> t)) w1 = (Inr (), w2)"
    "same_files (w_db w2) (w_db w')"
    "n' = handed (us_id v) (case now of None \<Rightarrow> w_clock w | Some t \<Rightarrow> t) n"
proof -
  let ?t = "case now of None \<Rightarrow> w_clock w | Some t \<Rightarrow> t"
  let ?keep = "\<lambda>n v. if keep then bind uuid4 (\<lambda>gid. seq (mdb (grants_add (new_grant gid n (us_subject u) EDITOR (us_subject u) ?t False)))
                   (rewrap_subtree C (handed (us_id v) ?t n) (us_subject u) ?t)) else ret ()"
  obtain n s v w1 w2 w3 w4 where n: "nodes_get (w_db w) nid = Some n" "\<not> is_deleted n" and s: "s \<noteq> us_subject u" "cf_find_subject C recipient (map org_id (us_orgs u)) = Inr (Some s)"
    and v: "users_get_by_subject (w_db w) s = Some v"
    and m: "move_quota u v (sum_list (map nd_size_bytes (filter is_file (n # nodes_descendants (w_db w) (nd_id n) ANCESTOR_GUARD_DEPTH True)))) ?t w = (Inr (), w1)"
    and h: "for_each (n # nodes_descendants (w_db w) (nd_id n) ANCESTOR_GUARD_DEPTH True) (hand_over C s (us_id v) ?t) w1 = (Inr (), w2)"
    and k: "?keep n v w2 = (Inr (), w3)"
    and i: "seq (invalidate_subject C s) (seq (invalidate_subject C (us_subject u)) (flush C)) w4 = (Inr (), w')"
    and a: "sharing_audit OWNERSHIP_TRANSFERRED ?t (Some (us_subject u)) (Some (nd_id n)) (Some s) None None
       [(''bytes_moved'', CInt (sum_list (map nd_size_bytes (filter is_file (n # nodes_descendants (w_db w) (nd_id n) ANCESTOR_GUARD_DEPTH True)))))] w3 = (Inr (), w4)"
    and n': "n' = handed (us_id v) ?t n"
    using assms unfolding transfer_ownership_def Let_def handed_def[symmetric] resolve_recipient_def
    by (clarsimp simp: bind_ok seq_ok ret_ok guard_ok expect_ok lift_ok moment_ok qdb_ok require_owned_ok simp del: for_each.simps) blast
  have au: "audited (w_db w3) (w_db w4)" using a by (auto simp: sharing_audit_def emit_audit_ok audited_def)
  have "us_subject v = s" using v by (auto simp: users_get_by_subject_def row_by_def find_Some_iff)
  moreover have "same_files (w_db w2) (w_db w')"
  proof (rule same_files_trans)
    show "same_files (w_db w2) (w_db w3)" using k by (auto simp: world_ok dest!: op_keysD[OF op_keys_rewrap(2)] keys_only_files intro: same_files_trans[OF same_files_steps(1)] split: if_splits)
    show "same_files (w_db w3) (w_db w')" using i audited_files[OF au] by (auto simp: world_ok same_store_def dest!: invalidate_subject_store)
  qed
  moreover have "nd_id n = nid" using nodes_get_Some[OF n(1)] by simp
  ultimately show thesis using n s v m h n' by (intro that[of n v w1 w2]) simp_all
qed

text \<open>The rows at and below the node, and the bytes of the files among them.\<close>

definition subtree_rows :: "db \<Rightarrow> uuid \<Rightarrow> node set" where
  "subtree_rows d nid = {r \<in> set (db_nodes d). (nd_id r, nid) \<in> (parent_rel (db_nodes d))\<^sup>*}"

lemma subtree_rows_list:
  assumes "tree_inv (db_nodes d)" "depth_le (db_nodes d) (Suc ANCESTOR_GUARD_DEPTH)" "nodes_get d nid = Some n"
  shows "set (n # nodes_descendants d nid ANCESTOR_GUARD_DEPTH True) = subtree_rows d nid"
proof -
  have n: "n \<in> set (db_nodes d)" "nd_id n = nid" using nodes_get_Some[OF assms(3)] by auto
  have uniq: "r = n" if "r \<in> set (db_nodes d)" "nd_id r = nid" for r
    using that assms(1,3) nodes_get_iff[OF assms(1), of nid r] by simp
  show ?thesis
  proof (intro set_eqI iffI)
    fix r assume "r \<in> set (n # nodes_descendants d nid ANCESTOR_GUARD_DEPTH True)"
    then show "r \<in> subtree_rows d nid"
      using n descendants_sound[of r d nid ANCESTOR_GUARD_DEPTH True] by (auto simp: subtree_rows_def)
  next
    fix r assume "r \<in> subtree_rows d nid"
    then have r: "r \<in> set (db_nodes d)" "nd_id r = nid \<or> (nd_id r, nid) \<in> (parent_rel (db_nodes d))\<^sup>+"
      by (auto simp: subtree_rows_def rtrancl_eq_or_trancl)
    then show "r \<in> set (n # nodes_descendants d nid ANCESTOR_GUARD_DEPTH True)"
      using uniq[OF r(1)] descendants_complete[OF assms(1,2) r(1)] by auto
  qed
qed

text \<open>The walk down meets every row once: a row has one distance to the node.\<close>

lemma distance_unique:
  assumes "tree_inv rows" "(a, nid) \<in> parent_rel rows ^^ i" "(a, nid) \<in> parent_rel rows ^^ j"
  shows "i = j"
proof -
  have no: False if "i < j" "(a, nid) \<in> parent_rel rows ^^ i" "(a, nid) \<in> parent_rel rows ^^ j" for i j
  proof -
    have "(a, nid) \<in> parent_rel rows ^^ i O parent_rel rows ^^ (j - i)" using that(1,3) by (metis relpow_add le_add_diff_inverse less_imp_le)
    then obtain b where b: "(a, b) \<in> parent_rel rows ^^ i" "(b, nid) \<in> parent_rel rows ^^ (j - i)" by blast
    have "single_valued (parent_rel rows ^^ i)"
      using assms(1) by (intro single_valued_relpow parent_rel_single) (simp add: tree_inv_def)
    then have "b = nid" using b(1) that(2) by (auto dest: single_valuedD)
    then have "(nid, nid) \<in> (parent_rel rows)\<^sup>+" using b(2) that(1) unfolding trancl_power by (intro exI[of _ "j - i"]) simp
    then show False using assms(1) by (auto simp: tree_inv_def acyclic_def)
  qed
  show ?thesis using no[OF _ assms(2,3)] no[OF _ assms(3,2)] by (cases i j rule: linorder_cases) auto
qed

lemma subtree_levels_distinct:
  assumes "tree_inv rows"
  shows "distinct level \<Longrightarrow> \<forall>r\<in>set level. r \<in> set rows \<and> (nd_id r, nid) \<in> parent_rel rows ^^ j \<Longrightarrow>
    distinct (subtree_levels rows k level) \<and> (\<forall>r\<in>set (subtree_levels rows k level). \<exists>i\<ge>j. (nd_id r, nid) \<in> parent_rel rows ^^ i)"
proof (induction k arbitrary: level j)
  case (Suc k)
  let ?next = "children_of rows (map nd_id level)"
  have d: "distinct ?next" using assms by (auto simp: children_of_def tree_inv_def distinct_map)
  have step: "\<forall>r\<in>set ?next. r \<in> set rows \<and> (nd_id r, nid) \<in> parent_rel rows ^^ Suc j"
  proof
    fix r assume "r \<in> set ?next"
    then obtain p where p: "r \<in> set rows" "p \<in> set level" "nd_parent_id r = Some (nd_id p)" by (auto simp: set_children_of)
    then have "(nd_id r, nd_id p) \<in> parent_rel rows" by (auto simp: parent_rel_def)
    moreover have "(nd_id p, nid) \<in> parent_rel rows ^^ j" using p(2) Suc.prems(2) by blast
    ultimately show "r \<in> set rows \<and> (nd_id r, nid) \<in> parent_rel rows ^^ Suc j" using p(1) relpow_Suc_I2 by fast
  qed
  note IH = Suc.IH[OF d step]
  have "set level \<inter> set (subtree_levels rows k ?next) = {}"
  proof (intro equals0I)
    fix r assume r: "r \<in> set level \<inter> set (subtree_levels rows k ?next)"
    then obtain i where "Suc j \<le> i" "(nd_id r, nid) \<in> parent_rel rows ^^ i" using IH by blast
    moreover have "(nd_id r, nid) \<in> parent_rel rows ^^ j" using r Suc.prems(2) by blast
    ultimately show False using distance_unique[OF assms, of "nd_id r" nid i j] by simp
  qed
  moreover have "\<exists>i\<ge>j. (nd_id r, nid) \<in> parent_rel rows ^^ i" if "r \<in> set (subtree_levels rows k ?next)" for r
    using IH that by (meson Suc_leD)
  ultimately show ?case using IH Suc.prems by (simp add: ball_Un) blast
qed auto

lemma descendants_distinct:
  assumes "tree_inv (db_nodes d)" "nodes_get d nid = Some n"
  shows "distinct (n # nodes_descendants d nid k b)"
proof -
  have n: "n \<in> set (db_nodes d)" "nd_id n = nid" using nodes_get_Some[OF assms(2)] by auto
  have "distinct (children_of (db_nodes d) [nid])" using assms(1) by (auto simp: children_of_def tree_inv_def distinct_map)
  moreover have "\<forall>r\<in>set (children_of (db_nodes d) [nid]). r \<in> set (db_nodes d) \<and> (nd_id r, nid) \<in> parent_rel (db_nodes d) ^^ 1"
    by (auto simp: set_children_of parent_rel_def)
  ultimately have "distinct (subtree_levels (db_nodes d) k (children_of (db_nodes d) [nid]))"
    using subtree_levels_distinct[OF assms(1)] by blast
  then have "distinct (nodes_descendants d nid k b)" by (simp add: nodes_descendants_def)
  moreover have "n \<notin> set (nodes_descendants d nid k b)"
    using descendants_sound[of n d nid k b] n assms(1) by (auto simp: tree_inv_def acyclic_def)
  ultimately show ?thesis by simp
qed

lemma subtree_bytes:
  assumes "tree_inv (db_nodes d)" "depth_le (db_nodes d) (Suc ANCESTOR_GUARD_DEPTH)" "nodes_get d nid = Some n"
  shows "sum_list (map nd_size_bytes (filter is_file (n # nodes_descendants d nid ANCESTOR_GUARD_DEPTH True))) =
    (\<Sum>r | r \<in> subtree_rows d nid \<and> is_file r. nd_size_bytes r)"
proof -
  let ?l = "filter is_file (n # nodes_descendants d nid ANCESTOR_GUARD_DEPTH True)"
  have "distinct ?l" using descendants_distinct[OF assms(1,3)] by (rule distinct_filter)
  then have "sum_list (map nd_size_bytes ?l) = (\<Sum>r\<in>set ?l. nd_size_bytes r)" by (rule sum_list_distinct_conv_sum_set)
  also have "set ?l = {r. r \<in> subtree_rows d nid \<and> is_file r}" unfolding subtree_rows_list[OF assms, symmetric] by auto
  finally show ?thesis .
qed

end
