(* ===== verification/SharingProperties.thy ===== *)
theory SharingProperties
  imports ContentProperties GrantFacts LinkFacts TransferFacts
begin

text \<open>
  The promises of the sharing service: what a grant gives, what a revocation takes away, what a transfer
  of ownership moves, and what protects a public link.
\<close>

section \<open>A deployment to apply them to\<close>

text \<open>Alice keeps an encrypted file below a folder, and bob has a key of his own; nothing is shared yet.\<close>

definition held_version :: file_version where
  "held_version = (sample_version 31 13 3)\<lparr>fv_encrypted := True\<rparr>"

definition sample_kek :: "uuid \<Rightarrow> nat \<Rightarrow> user_key" where
  "sample_kek uid b = \<lparr>uk_user_id = uid, uk_wrapped_kek = replicate 12 0 @ replicate 32 b @ toy_tag KEK_ASSOCIATED_DATA,
       uk_master_key_id = replicate 16 (CHR ''0''), uk_created_at = 0, uk_rotated_at = None\<rparr>"

definition alice_dek :: data_key where
  "alice_dek = \<lparr>dk_id = 51, dk_node_id = 13, dk_subject = ''alice'',
     dk_wrapped_dek = replicate 12 0 @ replicate 32 5 @ toy_tag DEK_ASSOCIATED_DATA, dk_created_at = 0\<rparr>"

definition shared_db :: db where
  "shared_db = sealed_db\<lparr>db_versions := [held_version], db_grants := [], db_data_keys := [alice_dek],
     db_user_keys := [sample_kek 3 9, sample_kek 4 8]\<rparr>"

definition shared_world :: world where
  "shared_world = sample_world\<lparr>w_db := shared_db, w_objects := [(object_key held_version,
     \<lparr>so_bytes = [67, 70, 83, 69, 78, 67, 1, 0, 0, 4, 0, 0, 0, 0, 0, 0, 0, 0, 0, 0, 0, 0, 0,
        1, 2, 3, 0, 0, 0, 0, 0, 0, 31, 0, 0, 0, 0, 0, 0, 0, 0, 1], so_modified = Some 0\<rparr>)]\<rparr>"

lemma shared_db_eq [simp]: "w_db shared_world = shared_db" "db_nodes shared_db = sealed_nodes" "w_drawn shared_world = 0" "w_clock shared_world = 100"
  "w_uuids shared_world 0 = 100"
  by (simp_all add: shared_world_def shared_db_def sample_world_def)

definition bob_grant :: grant where
  "bob_grant = new_grant 100 drafts ''bob'' EDITOR ''alice'' 100 False"



definition sample_encryption :: encryption_config where
  "sample_encryption = \<lparr>ec_provider = sample_provider, ec_frame_bytes = 1024, ec_default_on = False\<rparr>"

lemma sample_encrypts: "cf_encryption sample_config = Some sample_encryption" "aead_law (cf_aead sample_config)"
  by (simp_all add: sample_config_def sample_encryption_def toy_law)







lemma sample_unencrypted: "\<not> nd_encrypted (sample_node i ow k nm p dl v b)"
  by (simp add: sample_node_def)


lemma below_drafts: "(nd_id sealed_file, 12) \<in> (parent_rel sealed_nodes)\<^sup>*"
  by (auto simp: parent_rel_def sealed_nodes_def sample_nodes_def sealed_file_def intro!: r_into_rtrancl exI[of _ sealed_file])

section \<open>Grants\<close>




text \<open>
  C13. With the cache in working order, after a revocation the subject reaches the live nodes at and
  below the node only through other grants. Without one, the role decided for them on such a node is none
  whatever the cache held before, no data key of theirs is left for it, and a download is answered as if
  the file did not exist. The roles and keys of everyone else stay as they were. Their own keys for
  trashed nodes below the node stay too: the revocation walks the live descendants only. The node asked
  for is live and within the bound of the walks, encryption is configured, and the subject holds no
  metacharacter of a Redis pattern, since the invalidation deletes by pattern.
\<close>

theorem revoke_locks_out:
  assumes "revoke C u nid s now w = (Inr x, w')" "tree_inv (db_nodes (w_db w))" "unbroken C (w_db w)" "distinct (map gr_id (db_grants (w_db w)))"
    and "cf_encryption C = Some E" "healthy w" "glob_law (cf_glob C)" "literal_pattern s"
    and "nodes_get (w_db w) (nd_id m) = Some m" "\<not> is_deleted m" "within_guard (w_db w) (nd_id m)"
      "(nd_id m, nid) \<in> (parent_rel (db_nodes (w_db w)))\<^sup>*"
    and "\<forall>g\<in>reaching (w_db w) s (nd_id m). gr_node_id g = nid" "nd_owner_id m \<noteq> us_id v" "us_subject v = s"
  shows "fst (effective_role C s (us_id v) m w') = Inr None \<and> get_data_key (w_db w') (nd_id m) s = None \<and>
    fst (download C v (nd_id m) rh vid ra l t w') = Inl (if is_file m then NotFoundError else ValidationError) \<and>
    (\<forall>i s'. s' \<noteq> s \<longrightarrow> get_data_key (w_db w') i s' = get_data_key (w_db w) i s') \<and>
    (\<forall>n uid s'. s' \<noteq> s \<longrightarrow> compute_role (w_db w') s' uid n = compute_role (w_db w) s' uid n) \<and>
    (\<forall>k\<in>set (db_data_keys (w_db w)). dk_node_id k \<noteq> nid \<longrightarrow>
       (\<forall>r\<in>set (db_nodes (w_db w)). nd_id r = dk_node_id k \<longrightarrow> is_deleted r) \<longrightarrow> k \<in> set (db_data_keys (w_db w')))"
proof (rule revoke_effect[OF assms(1,5,4)])
  show "distinct (map (\<lambda>g. (gr_node_id g, gr_subject g)) (db_grants (w_db w)))" using assms(3) by (simp add: unbroken_def integrity_iff)
next
  fix n w2
  let ?ms = "n # nodes_descendants (w_db w) nid ANCESTOR_GUARD_DEPTH False"
  assume n: "nodes_get (w_db w) nid = Some n" and files: "same_files (w_db w) (w_db w')"
    "db_grants (w_db w') = filter (\<lambda>h. \<not> (gr_node_id h = nid \<and> gr_subject h = s)) (db_grants (w_db w))"
    and keys: "db_data_keys (w_db w') = filter (\<lambda>k. \<not> (dk_subject k = s \<and> dk_node_id k \<in> nd_id ` set ?ms)) (db_data_keys (w_db w))"
    and w2: "w_cache w2 = w_cache w" "w_db w2 = w_db w'" "invalidate_subject C s w2 = (Inr (), w')"
  note get = same_files_get[OF files(1)]
  have "reaching (w_db w') s (nd_id m) = {}"
    using assms(13) files by (auto simp: reaching_def same_files_def)
  moreover have "role_spec (w_db w') s (us_id v) m (compute_role (w_db w') s (us_id v) m)"
    using assms(2,9,11) get files(1) by (intro compute_role_spec) (auto simp: same_files_def within_guard_def)
  ultimately have none: "compute_role (w_db w') s (us_id v) m = None"
    using assms(14) by (auto simp: role_spec_def split: option.splits)
  have "healthy w2" using assms(6) w2(1) by (simp add: healthy_def)
  from invalidate_subject_fresh[OF this assms(7,8) w2(3)] none w2(2) have fresh: "fst (effective_role C s (us_id v) m w') = Inr None" by simp
  have "m \<in> set ?ms"
    using guard_descendant[OF assms(2) _ assms(11,10)] nodes_get_Some[OF assms(9)] assms(9,12) n by (auto simp: rtrancl_eq_or_trancl)
  then have key: "get_data_key (w_db w') (nd_id m) s = None" by (auto simp: get_data_key_def keys find_None_iff)
  have refused: "fst (download C v (nd_id m) rh vid ra l t w') = Inl (if is_file m then NotFoundError else ValidationError)"
    using none assms(9,10,15) get
    by (auto simp: download_def run_simps moment_of_def require_node_def require_def require_role_def authorize_or_record_def
        emit_denial_def emit_audit_def)
  have others: "get_data_key (w_db w') j s' = get_data_key (w_db w) j s'" if "s' \<noteq> s" for j s'
    using that unfolding get_data_key_def keys by (intro find_filter_other) auto
  have trashed: "k \<in> set (db_data_keys (w_db w'))" if "k \<in> set (db_data_keys (w_db w))" "dk_node_id k \<noteq> nid"
    "\<forall>r\<in>set (db_nodes (w_db w)). nd_id r = dk_node_id k \<longrightarrow> is_deleted r" for k
    using that nodes_get_Some[OF n] descendants_sound[of _ "w_db w" nid ANCESTOR_GUARD_DEPTH False]
    by (fastforce simp: keys nodes_descendants_def)
  show ?thesis using fresh key refused others roles_of_others[OF files] trashed by blast
qed

text \<open>Bob holds the grant, a key for the file and a cached decision.\<close>

definition granted_db :: db where
  "granted_db = shared_db\<lparr>db_grants := [bob_grant], db_data_keys := [alice_dek, alice_dek\<lparr>dk_id := 52, dk_subject := ''bob''\<rparr>]\<rparr>"

definition granted_world :: world where
  "granted_world = sample_world\<lparr>w_db := granted_db, w_cache := (w_cache sample_world)\<lparr>cs_entries :=
     [(cache_key 1 PERMISSION [''bob'', uuid_str 13], (ordinal EDITOR, seconds 600))]\<rparr>\<rparr>"

lemma granted_queries:
  "nodes_get granted_db 12 = Some drafts" "users_get granted_db 3 = Some alice" "grants_find granted_db 12 ''bob'' = Some bob_grant"
  "nodes_get granted_db 13 = Some sealed_file" "within_guard granted_db 13" "integrity_error ascii_rules granted_db = None"
  by code_simp+

lemma granted_eq [simp]: "w_db granted_world = granted_db" "db_nodes granted_db = sealed_nodes" "db_grants granted_db = [bob_grant]"
  by (simp_all add: granted_world_def granted_db_def)

lemma granted_healthy: "healthy granted_world"
  by (simp add: healthy_def cache_up_def granted_world_def sample_world_def)

lemma granted_revoke: "returns (revoke cached_config alice 12 ''bob'' None) granted_world"
  using revoke_returns[of granted_world 12 drafts alice alice "''bob''" bob_grant cached_config sample_encryption] granted_queries granted_healthy
  by (auto simp: returns_def is_deleted_def cached_config_def sample_encrypts)

theorem revoke_locks_out_witness:
  "\<exists>w'. revoke cached_config alice 12 ''bob'' None granted_world = (Inr (), w') \<and>
    fst (effective_role cached_config ''bob'' 4 sealed_file w') = Inr None \<and> get_data_key (w_db w') 13 ''bob'' = None \<and>
    fst (download cached_config bob 13 None None True None None w') = Inl NotFoundError"
proof -
  let ?w = "after (revoke cached_config alice 12 ''bob'' None) granted_world"
  have "fst (effective_role cached_config ''bob'' (us_id bob) sealed_file ?w) = Inr None \<and> get_data_key (w_db ?w) (nd_id sealed_file) ''bob'' = None \<and>
    fst (download cached_config bob (nd_id sealed_file) None None True None None ?w) = Inl (if is_file sealed_file then NotFoundError else ValidationError) \<and>
    (\<forall>i s'. s' \<noteq> ''bob'' \<longrightarrow> get_data_key (w_db ?w) i s' = get_data_key (w_db granted_world) i s') \<and>
    (\<forall>n uid s'. s' \<noteq> ''bob'' \<longrightarrow> compute_role (w_db ?w) s' uid n = compute_role (w_db granted_world) s' uid n) \<and>
    (\<forall>k\<in>set (db_data_keys (w_db granted_world)). dk_node_id k \<noteq> 12 \<longrightarrow>
       (\<forall>r\<in>set (db_nodes (w_db granted_world)). nd_id r = dk_node_id k \<longrightarrow> is_deleted r) \<longrightarrow> k \<in> set (db_data_keys (w_db ?w)))"
    by (rule revoke_locks_out[OF returnsD[OF granted_revoke], of sample_encryption])
      (use granted_queries granted_healthy sealed_tree below_drafts toy_glob_ok in
        \<open>auto simp: unbroken_def cached_config_def sample_encrypts reaching_def bob_grant_def new_grant_def literal_pattern_def\<close>)
  then show ?thesis using returnsD[OF granted_revoke] by (intro exI[of _ ?w]) simp
qed

section \<open>Ownership\<close>

text \<open>
  C14. A transfer of ownership gives the new owner exactly the rows at and below the node, trashed
  ones included, and leaves every other row alone. When those files hold bytes, that number is charged to
  the live bytes of the new owner's account, who stays within quota, and released from those of the
  account of the caller, down to zero at least. The caller is the owner or holds the owner role by a
  grant; every other account keeps its counters, in the second case that of the previous owner too.
\<close>

theorem transfer_moves_subtree:
  assumes "transfer_ownership C u nid recipient keep_editor now w = (Inr n', w')" "tree_inv (db_nodes (w_db w))"
    and "depth_le (db_nodes (w_db w)) (Suc ANCESTOR_GUARD_DEPTH)" "quotas_get (w_db w) (us_id u) = Some q"
    and "account (w_db w) u" "inj_on us_id (set (db_users (w_db w)))"
    and "t = (case now of None \<Rightarrow> w_clock w | Some m \<Rightarrow> m)" "sz = (\<Sum>r | r \<in> subtree_rows (w_db w) nid \<and> is_file r. nd_size_bytes r)"
  shows "\<exists>v. cf_find_subject C recipient (map org_id (us_orgs u)) = Inr (Some (us_subject v)) \<and>
    users_get_by_subject (w_db w) (us_subject v) = Some v \<and> us_subject v \<noteq> us_subject u \<and> nd_owner_id n' = us_id v \<and>
    db_nodes (w_db w') = map (\<lambda>r. if (nd_id r, nid) \<in> (parent_rel (db_nodes (w_db w)))\<^sup>* then handed (us_id v) t r else r) (db_nodes (w_db w)) \<and>
    (0 < sz \<longrightarrow> (\<exists>p. quotas_get (w_db w) (us_id v) = Some p \<and> total_bytes p + sz \<le> us_quota_bytes v \<and>
       quotas_get (w_db w') (us_id u) = Some (charge_live (- sz) t q) \<and> quotas_get (w_db w') (us_id v) = Some (charge_live sz t p))) \<and>
    (\<forall>i. i \<noteq> us_id u \<longrightarrow> i \<noteq> us_id v \<longrightarrow> quotas_get (w_db w') i = quotas_get (w_db w) i)"
proof (rule transfer_run[OF assms(1)])
  fix n v w1 w2
  let ?t = "case now of None \<Rightarrow> w_clock w | Some t \<Rightarrow> t" and ?ms = "n # nodes_descendants (w_db w) nid ANCESTOR_GUARD_DEPTH True"
  let ?sz = "sum_list (map nd_size_bytes (filter is_file ?ms))" and ?rows = "db_nodes (w_db w)"
  assume n: "nodes_get (w_db w) nid = Some n" and v: "users_get_by_subject (w_db w) (us_subject v) = Some v"
    and m: "move_quota u v ?sz ?t w = (Inr (), w1)" and h: "for_each ?ms (hand_over C (us_subject v) (us_id v) ?t) w1 = (Inr (), w2)"
    and other: "us_subject v \<noteq> us_subject u" "cf_find_subject C recipient (map org_id (us_orgs u)) = Inr (Some (us_subject v))" and f: "same_files (w_db w2) (w_db w')" and n': "n' = handed (us_id v) ?t n"
  note sub = subtree_rows_list[OF assms(2,3) n]
  have rows1: "db_nodes (w_db w1) = ?rows" by (rule move_quota_nodes[OF m])
  have inj: "inj_on nd_id (set ?rows)" using assms(2) by (simp add: tree_inv_def distinct_map)
  have all: "db_nodes (w_db w2) = map (\<lambda>r. if r \<in> {} \<union> set ?ms then handed (us_id v) ?t r else r) ?rows \<and>
      db_quotas (w_db w2) = db_quotas (w_db w1) \<and> db_users (w_db w2) = db_users (w_db w1)"
    using sub by (intro hand_over_all[OF h _ inj]) (auto simp: subtree_rows_def rows1)
  have nodes: "db_nodes (w_db w') = map (\<lambda>r. if (nd_id r, nid) \<in> (parent_rel ?rows)\<^sup>* then handed (us_id v) ?t r else r) ?rows"
    using all f unfolding sub by (auto simp: same_files_def subtree_rows_def)
  have quota: "quotas_get (w_db w') i = quotas_get (w_db w1) i" for i using all f by (simp add: same_files_def quotas_get_def)
  have bytes: "\<exists>p. quotas_get (w_db w) (us_id v) = Some p \<and> total_bytes p + ?sz \<le> us_quota_bytes v \<and>
       quotas_get (w_db w') (us_id u) = Some (charge_live (- ?sz) ?t q) \<and> quotas_get (w_db w') (us_id v) = Some (charge_live ?sz ?t p)"
    if "0 < ?sz"
  proof -
    have "u \<in> set (db_users (w_db w))" "v \<in> set (db_users (w_db w))"
      using assms(5) v by (auto simp: account_def users_get_def users_get_by_subject_def dest: row_by_Some)
    then have "us_id u \<noteq> us_id v" using other(1) assms(6) by (auto simp: inj_on_def)
    then show ?thesis using move_quota_run[OF m that _ assms(4)] quota by metis
  qed
  have rest: "quotas_get (w_db w') i = quotas_get (w_db w) i" if "i \<noteq> us_id u" "i \<noteq> us_id v" for i
    using quota move_quota_others[OF m that] by simp
  have "nd_owner_id n' = us_id v" by (simp add: n' handed_def touch_def)
  with v other nodes bytes rest show ?thesis unfolding assms(7,8) subtree_bytes[OF assms(2,3) n] by blast
qed

text \<open>Alice hands the folder with its file over to bob.\<close>

definition transfer_db :: db where
  "transfer_db = fold (\<lambda>n. nodes_update (handed 4 100 n)) [docs, drafts, sample_node 13 3 FILE ''a.txt'' (Some 12) None (Some 31) 5]
     (quotas_update (charge_live (- 5) 100 (hd (db_quotas sample_db))) (quotas_update (charge_live 5 100 (hd (tl (db_quotas sample_db)))) sample_db))"

lemma transfer_queries:
  "users_get_by_subject sample_db ''bob'' = Some bob"
  "nodes_descendants sample_db 11 ANCESTOR_GUARD_DEPTH True = [drafts, sample_node 13 3 FILE ''a.txt'' (Some 12) None (Some 31) 5]"
  "quotas_get sample_db 4 = Some (hd (tl (db_quotas sample_db)))" "\<not> would_exceed (hd (tl (db_quotas sample_db))) (us_quota_bytes bob) 5"
  "quotas_get (quotas_update (charge_live 5 100 (hd (tl (db_quotas sample_db)))) sample_db) 3 = Some (hd (db_quotas sample_db))"
  "integrity_error ascii_rules transfer_db = None" "quotas_get sample_db 3 = Some (hd (db_quotas sample_db))"
  by code_simp+

lemma sample_transfer: "returns (transfer_ownership sample_config alice 11 ''bob'' False None) sample_world"
proof -
  have owned: "require_owned alice 11 sample_world = (Inr docs, sample_world)"
    by (simp add: require_owned_ok sample_get sample_roles is_deleted_def)
  have found: "cf_find_subject sample_config s orgs = Inr (Some s)" for s orgs by (simp add: sample_config_def)
  have ok: "integrity_error ascii_rules (audit_add x transfer_db) = None" for x
    using transfer_queries(6) by (simp add: integrity_iff audit_add_def)
  have "for_each [docs, drafts, sample_node 13 3 FILE ''a.txt'' (Some 12) None (Some 31) 5] (hand_over sample_config ''bob'' 4 100)
      (sample_world\<lparr>w_db := quotas_update (charge_live (- 5) 100 (hd (db_quotas sample_db)))
        (quotas_update (charge_live 5 100 (hd (tl (db_quotas sample_db)))) sample_db)\<rparr>) = (Inr (), sample_world\<lparr>w_db := transfer_db\<rparr>)"
    by (simp add: hand_over_def rewrap_one_def sample_unencrypted seq_run transfer_db_def handed_def)
  then show ?thesis
    by (simp add: returns_def transfer_ownership_def bind_run seq_run moment_of_def owned resolve_recipient_def found expect_run guard_run
        transfer_queries Let_def move_quota_def is_file_def sample_node_def[of _ _ _ _ _ _ _ 5] sharing_audit_def emit_audit_def invalidate_subject_def flush_def ok)
qed

theorem transfer_moves_subtree_witness:
  "\<exists>n' w' p. transfer_ownership sample_config alice 11 ''bob'' False None sample_world = (Inr n', w') \<and> nd_owner_id n' = 4 \<and>
     quotas_get (w_db w') 4 = Some (charge_live 5 100 p)"
proof -
  have guard: "depth_le sample_nodes (Suc ANCESTOR_GUARD_DEPTH)"
    using sample_depth_guard by (simp add: CYCLE_GUARD_DEPTH_def ANCESTOR_GUARD_DEPTH_def)
  have sz: "5 = (\<Sum>r | r \<in> subtree_rows (w_db sample_world) 11 \<and> is_file r. nd_size_bytes r)"
    using subtree_bytes[of sample_db 11 docs] sample_tree guard
    by (simp add: sample_get transfer_queries is_file_def sample_node_def[of _ _ _ _ _ _ _ 5])
  note tr = transfer_moves_subtree[OF returnsD[OF sample_transfer] _ _ _ _ _ refl sz, of "hd (db_quotas sample_db)"]
  have "account sample_db alice" by code_simp
  moreover have "inj_on us_id (set (db_users sample_db))" by (auto simp: sample_db_def)
  ultimately show ?thesis
    using tr returnsD[OF sample_transfer] sample_tree guard transfer_queries
    by (auto simp: sample_config_def)
qed

section \<open>Public links\<close>

text \<open>
  C15. The token that creating a link returns, with the passphrase it was created with, resolves to the
  node as a viewer and counts one access, until the link expires. The stored row holds a digest of the
  token only.
\<close>

theorem link_round_trip:
  assumes "create_link C u nid expiry p now w = (Inr il, w')" "get_by_token_hash (w_db w) (hash_token (cf_sha256 C) (il_token il)) = None"
    and "\<forall>q s. is_bytes (cf_scrypt C q s)" "\<forall>i. w_entropy w i < 256"
    and "\<forall>e. expiry = Some e \<longrightarrow> t < e" "\<not> is_limited (attempts C w') (attempt_key (il_link il) ip) t"
  shows "\<exists>acc w2. resolve_link C (il_token il) p ip (Some t) w' = (Inr acc, w2) \<and> la_role acc = VIEWER \<and> nd_id (la_node acc) = nid \<and>
    la_link acc = record_access (il_link il) t \<and> pl_token_hash (il_link il) = hash_token (cf_sha256 C) (il_token il)"
proof -
  obtain acc w2 where "resolve_link C (il_token il) p ip (Some t) w' = (Inr acc, w2)" "la_role acc = VIEWER"
    "nd_id (la_node acc) = nid" "la_link acc = record_access (il_link il) t" by (rule new_link_followed[OF assms])
  moreover have "pl_token_hash (il_link il) = hash_token (cf_sha256 C) (il_token il)" by (rule create_link_run[OF assms(1)]) simp
  ultimately show ?thesis by blast
qed

lemma sample_link:
  obtains il w' where "create_link sample_config alice 11 (Some 500) (Some ''open'') None sample_world = (Inr il, w')" "w_attempts w' = []"
proof -
  have owned: "require_owned alice 11 sample_world = (Inr docs, sample_world)"
    by (simp add: require_owned_ok sample_get sample_roles is_deleted_def)
  have ok: "integrity_error ascii_rules (audit_add a (links_add l sample_db)) = None" for a l
    using sample_unbroken by (simp add: unbroken_def integrity_iff audit_add_def links_add_def)
  have "\<exists>il w'. create_link sample_config alice 11 (Some 500) (Some ''open'') None sample_world = (Inr il, w') \<and> w_attempts w' = []"
    by (simp add: create_link_def bind_run seq_run moment_of_def owned guard_run urandom_def uuid4_def sharing_audit_def emit_audit_def
        flush_def ok Let_def) (simp add: sample_world_def)
  then show thesis using that by blast
qed

theorem link_round_trip_witness:
  "\<exists>il w' acc w2. create_link sample_config alice 11 (Some 500) (Some ''open'') None sample_world = (Inr il, w') \<and>
     resolve_link sample_config (il_token il) (Some ''open'') None (Some 200) w' = (Inr acc, w2) \<and> nd_id (la_node acc) = 11"
proof -
  obtain il w' where c: "create_link sample_config alice 11 (Some 500) (Some ''open'') None sample_world = (Inr il, w')" "w_attempts w' = []"
    by (rule sample_link)
  have "\<exists>acc w2. resolve_link sample_config (il_token il) (Some ''open'') None (Some 200) w' = (Inr acc, w2) \<and> la_role acc = VIEWER \<and>
     nd_id (la_node acc) = 11 \<and> la_link acc = record_access (il_link il) 200 \<and> pl_token_hash (il_link il) = hash_token (cf_sha256 sample_config) (il_token il)"
    by (intro link_round_trip[OF c(1)])
      (auto simp: get_by_token_hash_def row_by_def sample_db_def sample_config_def sample_world_def is_limited_def attempts_def c(2) is_bytes_def
        dest!: in_set_takeD)
  with c show ?thesis by blast
qed

text \<open>
  C16. Wrong passphrases from one address are counted although each request fails and its
  transaction is rolled back: once their number within a minute of the first reaches the limit, even
  the right passphrase is refused from that address for the rest of the minute. Nothing else changes.
\<close>

theorem passphrase_guessing_limited:
  assumes "guarded_link C token l (w_db w)" "\<forall>tp\<in>set ((t, p) # gs). is_usable l (fst tp) \<and> wrong_passphrase C l (snd tp)"
    and "0 < cf_passphrase_attempts C" "cf_passphrase_attempts C \<le> int (length ((t, p) # gs))"
    and "\<forall>tp\<in>set gs. fst tp - t < PASSPHRASE_WINDOW" "now - t < PASSPHRASE_WINDOW" "is_usable l now"
    and "case map_of (w_attempts w) (attempt_key l ip) of None \<Rightarrow> True | Some win \<Rightarrow> PASSPHRASE_WINDOW \<le> t - rw_started_at win"
  shows "\<exists>a. fold (\<lambda>tp w. snd (follow_link C token ip tp w)) ((t, p) # gs) w = w\<lparr>w_attempts := a\<rparr> \<and>
    follow_link C token ip (now, right) (w\<lparr>w_attempts := a\<rparr>) = (Inl RateLimitedError, w\<lparr>w_attempts := a\<rparr>)"
proof -
  obtain a where a: "fold (\<lambda>tp w. snd (follow_link C token ip tp w)) ((t, p) # gs) w = w\<lparr>w_attempts := a\<rparr>"
    "attempts C (w\<lparr>w_attempts := a\<rparr>) = fold (guess_event (attempt_key l ip)) (map fst ((t, p) # gs)) (attempts C w)"
    using guesses_run[OF assms(1,2), of ip] by auto
  have "is_limited (fold (guess_event (attempt_key l ip)) (t # map fst gs) (attempts C w)) (attempt_key l ip) now"
    by (rule limited_after_guesses) (use assms in \<open>auto simp: attempts_def rolled_over_def split: option.splits\<close>)
  then have "is_limited (attempts C (w\<lparr>w_attempts := a\<rparr>)) (attempt_key l ip) now" using a(2) by simp
  then have "follow_link C token ip (now, right) (w\<lparr>w_attempts := a\<rparr>) = (Inl RateLimitedError, w\<lparr>w_attempts := a\<rparr>)"
    using assms(1,7) by (intro follow_link_limited) simp_all
  with a(1) show ?thesis by blast
qed

definition guarded_db :: db where
  "guarded_db = sample_db\<lparr>db_links := [\<lparr>pl_id = 61, pl_node_id = 11, pl_token_hash = hash_token toy_digest ''token'', pl_created_by = ''alice'',
     pl_created_at = 0, pl_expires_at = None, pl_passphrase_hash = Some (hash_passphrase (cf_scrypt sample_config) [1] ''open''), pl_revoked_at = None,
     pl_access_count = 0, pl_last_accessed_at = None\<rparr>]\<rparr>"

definition guarded_world :: world where
  "guarded_world = sample_world\<lparr>w_db := guarded_db\<rparr>"

abbreviation the_link :: public_link where "the_link \<equiv> hd (db_links guarded_db)"

lemma guarded_sample: "guarded_link sample_config ''token'' the_link (w_db guarded_world)" "is_usable the_link t"
  "w_attempts guarded_world = []" "0 < cf_passphrase_attempts sample_config" "cf_passphrase_attempts sample_config = 3"
  by (simp_all add: guarded_link_def guarded_world_def guarded_db_def get_by_token_hash_def row_by_def sample_config_def requires_passphrase_def
      is_usable_def is_revoked_def is_expired_def sample_world_def)

lemma wrong_sample: "wrong_passphrase sample_config the_link ''a''" "wrong_passphrase sample_config the_link ''b''"
  by code_simp+

theorem passphrase_guessing_limited_witness:
  "\<exists>a. follow_link sample_config ''token'' None (160, ''open'') (guarded_world\<lparr>w_attempts := a\<rparr>) =
    (Inl RateLimitedError, guarded_world\<lparr>w_attempts := a\<rparr>)"
  using passphrase_guessing_limited[OF guarded_sample(1), of 100 "''a''" "[(110, ''b''), (150, ''a'')]" 160 None "''open''"]
  by (auto simp: guarded_sample wrong_sample PASSPHRASE_WINDOW_def)

text \<open>
  C17. The limit is kept per address: whatever was guessed from one address, a request from
  another one is answered as it would have been without the guesses.
\<close>

theorem other_address_not_limited:
  assumes "guarded_link C token l (w_db w)" "\<forall>tp\<in>set gs. is_usable l (fst tp) \<and> wrong_passphrase C l (snd tp)"
    and "attempt_key l other \<noteq> attempt_key l ip"
  shows "fst (follow_link C token other tp (fold (\<lambda>tp w. snd (follow_link C token ip tp w)) gs w)) = fst (follow_link C token other tp w)"
proof -
  obtain a where a: "fold (\<lambda>tp w. snd (follow_link C token ip tp w)) gs w = w\<lparr>w_attempts := a\<rparr>"
    "attempts C (w\<lparr>w_attempts := a\<rparr>) = fold (guess_event (attempt_key l ip)) (map fst gs) (attempts C w)"
    using guesses_run[OF assms(1,2), of ip] by auto
  have "is_limited (attempts C (w\<lparr>w_attempts := a\<rparr>)) (attempt_key l other) (fst tp) = is_limited (attempts C w) (attempt_key l other) (fst tp)"
    unfolding a(2) by (rule guess_other_key[OF assms(3)])
  then show ?thesis unfolding a(1) by (rule follow_link_depends[OF assms(1)])
qed

theorem other_address_not_limited_witness:
  "fst (follow_link sample_config ''token'' (Some ''10.0.0.2'') (100, ''open'')
     (fold (\<lambda>tp w. snd (follow_link sample_config ''token'' (Some ''10.0.0.1'') tp w)) [(100, ''a''), (100, ''b''), (100, ''a'')] guarded_world)) =
   fst (follow_link sample_config ''token'' (Some ''10.0.0.2'') (100, ''open'') guarded_world)"
  by (rule other_address_not_limited[OF guarded_sample(1)]) (auto simp: guarded_sample wrong_sample attempt_key_def)

end
