(* ===== verification/Schedule.thy ===== *)
theory Schedule
  imports Calendar
begin

text \<open>
  Cron expressions and the next time one fires (\<open>domain/schedule.py\<close>). Instants are UTC. The loop that
  looks for a matching minute is bounded by a year of minutes. Python's \<open>datetime\<close> ends with the year 9999,
  whose last ordinal is \<open>MAX_ORDINAL\<close>; the overflow of a search that runs past it is not modelled.
\<close>

definition MAX_ORDINAL :: int where "MAX_ORDINAL = 3652059"

datatype cron_error = CronError | ValueError

record cron_fields =
  cr_minutes :: "int set"
  cr_hours :: "int set"
  cr_days :: "int set"
  cr_months :: "int set"
  cr_weekdays :: "int set"
  cr_dom_restricted :: bool
  cr_dow_restricted :: bool

definition MINUTE :: timedelta where "MINUTE = seconds 60"
definition SEARCH_LIMIT_MINUTES :: nat where "SEARCH_LIMIT_MINUTES = 366 * 24 * 60"

text \<open>\<open>range\<close> with a positive step, and \<open>int\<close> of dashes followed by digits in the sense of \<open>isdigit\<close>.\<close>

definition py_range :: "int \<Rightarrow> int \<Rightarrow> int \<Rightarrow> int list" where
  "py_range start stop step = map (\<lambda>i. start + int i * step) [0..<nat ((stop - start + step - 1) div step)]"

definition cron_int :: "string \<Rightarrow> cron_error + int" where
  "cron_int s =
     (let (negative, ds) = (case s of [] \<Rightarrow> (False, []) | c # cs \<Rightarrow> if c = CHR ''-'' then (True, cs) else (False, s)) in
      if isdigit ds \<and> length ds \<le> 4300 then Inr (if negative then - int (read_nat ds) else int (read_nat ds)) else Inl ValueError)"

definition parse_step :: "string \<Rightarrow> cron_error + int" where
  "parse_step text =
     (if \<not> py_isdigit text then Inl CronError
      else (case cron_int text of Inl e \<Rightarrow> Inl e | Inr n \<Rightarrow> if n \<le> 0 then Inl CronError else Inr n))"

definition parse_value :: "string \<Rightarrow> int \<Rightarrow> int \<Rightarrow> cron_error + int" where
  "parse_value text low high =
     (if \<not> py_isdigit (lstrip_by (\<lambda>c. c = CHR ''-'') text) then Inl CronError
      else (case cron_int text of
              Inl e \<Rightarrow> Inl e
            | Inr v \<Rightarrow> if low \<le> v \<and> v \<le> high then Inr v else Inl CronError))"

definition parse_bounds :: "string \<Rightarrow> int \<Rightarrow> int \<Rightarrow> cron_error + int \<times> int" where
  "parse_bounds text low high =
     (case partition_at (CHR ''-'') text of (start_text, _, end_text) \<Rightarrow>
      (case parse_value start_text low high of
         Inl e \<Rightarrow> Inl e
       | Inr start \<Rightarrow>
          (case parse_value end_text low high of
             Inl e \<Rightarrow> Inl e
           | Inr stop \<Rightarrow> if start > stop then Inl CronError else Inr (start, stop))))"

definition parse_part :: "string \<Rightarrow> int \<Rightarrow> int \<Rightarrow> cron_error + int set" where
  "parse_part part low high =
     (case partition_at (CHR ''/'') part of (base, sep, step_text) \<Rightarrow>
      (case (if sep then parse_step step_text else Inr 1) of
         Inl e \<Rightarrow> Inl e
       | Inr step \<Rightarrow>
          (case (if base = ''*'' then Inr (low, high)
                 else if CHR ''-'' \<in> set base then parse_bounds base low high
                 else (case parse_value base low high of Inl e \<Rightarrow> Inl e | Inr v \<Rightarrow> Inr (v, v))) of
             Inl e \<Rightarrow> Inl e
           | Inr (start, stop) \<Rightarrow> Inr (set (py_range start (stop + 1) step)))))"

fun parse_parts :: "string list \<Rightarrow> int \<Rightarrow> int \<Rightarrow> cron_error + int set" where
  "parse_parts [] low high = Inr {}"
| "parse_parts (part # parts) low high =
     (if part = [] then Inl CronError
      else (case parse_part part low high of
              Inl e \<Rightarrow> Inl e
            | Inr vs \<Rightarrow> (case parse_parts parts low high of Inl e \<Rightarrow> Inl e | Inr ws \<Rightarrow> Inr (vs \<union> ws))))"

definition parse_field :: "string \<Rightarrow> int \<Rightarrow> int \<Rightarrow> cron_error + int set" where
  "parse_field spec low high = parse_parts (split_on (CHR '','') spec) low high"

definition parse_weekdays :: "string \<Rightarrow> cron_error + int set" where
  "parse_weekdays spec =
     (case parse_field spec 0 7 of Inl e \<Rightarrow> Inl e | Inr field \<Rightarrow> Inr ((\<lambda>day. if day = 7 then 0 else day) ` field))"

text \<open>\<open>str.split()\<close>: the maximal runs of characters that are no white space.\<close>

fun split_words :: "string \<Rightarrow> string list" where
  "split_words [] = []"
| "split_words (c # cs) =
     (if is_space c then split_words cs
      else (case cs of
              [] \<Rightarrow> [[c]]
            | d # _ \<Rightarrow> if is_space d then [c] # split_words cs
                       else (case split_words cs of [] \<Rightarrow> [[c]] | w # ws \<Rightarrow> (c # w) # ws)))"

definition parse_cron :: "string \<Rightarrow> cron_error + cron_fields" where
  "parse_cron expr =
     (case split_words expr of
        [minute, hour, mday, month, wday] \<Rightarrow>
          (case parse_field minute 0 59 of Inl e \<Rightarrow> Inl e | Inr minutes \<Rightarrow>
          (case parse_field hour 0 23 of Inl e \<Rightarrow> Inl e | Inr hours \<Rightarrow>
          (case parse_field mday 1 31 of Inl e \<Rightarrow> Inl e | Inr mdays \<Rightarrow>
          (case parse_field month 1 12 of Inl e \<Rightarrow> Inl e | Inr months \<Rightarrow>
          (case parse_weekdays wday of Inl e \<Rightarrow> Inl e | Inr weekdays \<Rightarrow>
             Inr \<lparr>cr_minutes = minutes, cr_hours = hours, cr_days = mdays, cr_months = months, cr_weekdays = weekdays,
                  cr_dom_restricted = (mday \<noteq> ''*''), cr_dow_restricted = (wday \<noteq> ''*'')\<rparr>)))))
      | _ \<Rightarrow> Inl CronError)"

definition validate_cron :: "string \<Rightarrow> cron_error + unit" where
  "validate_cron expr = (case parse_cron expr of Inl e \<Rightarrow> Inl e | Inr _ \<Rightarrow> Inr ())"

definition cron_weekday :: "datetime \<Rightarrow> int" where
  "cron_weekday moment = (weekday moment + 1) mod 7"

definition day_matches :: "datetime \<Rightarrow> cron_fields \<Rightarrow> bool" where
  "day_matches moment f =
     (let dom_ok = snd (snd (date_of moment)) \<in> cr_days f; dow_ok = cron_weekday moment \<in> cr_weekdays f in
      if cr_dom_restricted f \<and> cr_dow_restricted f then dom_ok \<or> dow_ok else dom_ok \<and> dow_ok)"

definition cron_matches :: "datetime \<Rightarrow> cron_fields \<Rightarrow> bool" where
  "cron_matches moment f \<longleftrightarrow>
     minute_of moment \<in> cr_minutes f \<and> hour_of moment \<in> cr_hours f \<and> fst (snd (date_of moment)) \<in> cr_months f \<and> day_matches moment f"

fun search_minute :: "nat \<Rightarrow> cron_fields \<Rightarrow> datetime \<Rightarrow> datetime option" where
  "search_minute 0 f candidate = None"
| "search_minute (Suc k) f candidate =
     (if cron_matches candidate f then Some candidate else search_minute k f (candidate + MINUTE))"

definition next_run_after :: "string \<Rightarrow> datetime \<Rightarrow> cron_error + datetime" where
  "next_run_after expr t =
     (case parse_cron expr of
        Inl e \<Rightarrow> Inl e
      | Inr f \<Rightarrow>
         (case search_minute SEARCH_LIMIT_MINUTES f (t - t mod MINUTE + MINUTE) of
            Some u \<Rightarrow> Inr u
          | None \<Rightarrow> Inl CronError))"

section \<open>Parsed fields\<close>

lemma py_range_bounds:
  assumes "v \<in> set (py_range start stop step)" "0 < step"
  shows "start \<le> v \<and> v < stop"
proof -
  obtain i where i: "v = start + int i * step" "int i < (stop - start + step - 1) div step"
    using assms by (auto simp: py_range_def)
  then have "int i + 1 \<le> (stop - start + step - 1) div step" by simp
  then have "(int i + 1) * step \<le> (stop - start + step - 1) div step * step" using assms(2) by (intro mult_right_mono) simp_all
  also have "\<dots> \<le> stop - start + step - 1" using pos_mod_sign[OF assms(2), of "stop - start + step - 1"] div_mult_mod_eq[of "stop - start + step - 1" step] by linarith
  finally show ?thesis using i(1) assms(2) by (simp add: algebra_simps)
qed

lemma py_range_start: "start < stop \<Longrightarrow> 0 < step \<Longrightarrow> start \<in> set (py_range start stop step)"
proof -
  assume "start < stop" "0 < step"
  then have "0 < (stop - start + step - 1) div step" by (simp add: pos_imp_zdiv_pos_iff)
  then show ?thesis by (force simp: py_range_def image_iff)
qed

lemma py_range_unit: "start < stop \<Longrightarrow> set (py_range start stop 1) = {start..<stop}"
  by (auto simp: py_range_def image_iff intro!: bexI[of _ "nat (_ - start)"])

definition field_ok :: "int \<Rightarrow> int \<Rightarrow> int set \<Rightarrow> bool" where
  "field_ok low high vs \<longleftrightarrow> vs \<noteq> {} \<and> vs \<subseteq> {low..high}"

lemma parse_step_pos: "parse_step s = Inr n \<Longrightarrow> 0 < n"
  by (auto simp: parse_step_def split: if_splits sum.splits)

lemma parse_bounds_ok: "parse_bounds s low high = Inr (a, b) \<Longrightarrow> low \<le> a \<and> a \<le> b \<and> b \<le> high"
  by (auto simp: parse_bounds_def parse_value_def split: if_splits sum.splits prod.splits)

lemma parse_part_ok:
  assumes "parse_part s low high = Inr vs" "low \<le> high"
  shows "field_ok low high vs"
proof -
  obtain step a b where s: "0 < step" "vs = set (py_range a (b + 1) step)" "low \<le> a" "a \<le> b" "b \<le> high"
  proof -
    obtain base sep st where p: "partition_at (CHR ''/'') s = (base, sep, st)" by (cases "partition_at (CHR ''/'') s")
    obtain step where step: "(if sep then parse_step st else Inr 1) = Inr step"
      using assms(1) by (cases "if sep then parse_step st else Inr 1") (auto simp: parse_part_def p)
    then have "0 < step" using parse_step_pos by (auto split: if_splits)
    moreover obtain a b where "(if base = ''*'' then Inr (low, high)
                 else if CHR ''-'' \<in> set base then parse_bounds base low high
                 else (case parse_value base low high of Inl e \<Rightarrow> Inl e | Inr v \<Rightarrow> Inr (v, v))) = Inr (a, b)" "vs = set (py_range a (b + 1) step)"
      using assms(1) by (auto simp: parse_part_def p step split: sum.splits)
    moreover then have "low \<le> a \<and> a \<le> b \<and> b \<le> high"
      using assms(2) parse_bounds_ok[of base low high a b] by (auto simp: parse_value_def split: if_splits sum.splits)
    ultimately show thesis using that by blast
  qed
  have "a \<in> vs" unfolding s(2) using s by (intro py_range_start) auto
  moreover have "v \<in> {low..high}" if "v \<in> vs" for v using py_range_bounds[of v a "b + 1" step] that s by auto
  ultimately show ?thesis by (auto simp: field_ok_def)
qed

lemma parse_parts_ok: "parse_parts ps low high = Inr vs \<Longrightarrow> low \<le> high \<Longrightarrow> ps \<noteq> [] \<Longrightarrow> field_ok low high vs"
proof (induction ps arbitrary: vs)
  case (Cons p ps)
  obtain a b where ab: "parse_part p low high = Inr a" "parse_parts ps low high = Inr b" "vs = a \<union> b"
    using Cons(2) by (auto split: if_splits sum.splits)
  have "field_ok low high a" by (rule parse_part_ok[OF ab(1) Cons(3)])
  moreover have "b \<subseteq> {low..high}" using Cons.IH[OF ab(2) Cons(3)] ab(2) by (cases ps) (auto simp: field_ok_def)
  ultimately show ?case by (auto simp: field_ok_def ab(3))
qed simp

lemma parse_field_ok: "parse_field s low high = Inr vs \<Longrightarrow> low \<le> high \<Longrightarrow> field_ok low high vs"
  unfolding parse_field_def by (erule parse_parts_ok) (auto simp: split_on_not_Nil)

lemma parse_field_star: "low \<le> high \<Longrightarrow> parse_field ''*'' low high = Inr {low..high}"
  by (simp add: parse_field_def parse_part_def py_range_unit) auto

definition fields_ok :: "cron_fields \<Rightarrow> bool" where
  "fields_ok f \<longleftrightarrow> field_ok 0 59 (cr_minutes f) \<and> field_ok 0 23 (cr_hours f) \<and> field_ok 1 31 (cr_days f) \<and> field_ok 1 12 (cr_months f) \<and>
     field_ok 0 6 (cr_weekdays f) \<and> (\<not> cr_dom_restricted f \<longrightarrow> cr_days f = {1..31}) \<and> (\<not> cr_dow_restricted f \<longrightarrow> cr_weekdays f = {0..6})"

lemma fields_okD:
  assumes "fields_ok f"
  shows "x \<in> cr_minutes f \<Longrightarrow> 0 \<le> x \<and> x < 60" "x \<in> cr_hours f \<Longrightarrow> 0 \<le> x \<and> x < 24"
    "x \<in> cr_days f \<Longrightarrow> 1 \<le> x" "x \<in> cr_months f \<Longrightarrow> 1 \<le> x \<and> x \<le> 12"
  using assms unfolding fields_ok_def field_ok_def by fastforce+

lemma parse_weekdays_ok: "parse_weekdays s = Inr vs \<Longrightarrow> field_ok 0 6 vs"
proof -
  assume "parse_weekdays s = Inr vs"
  then obtain field where f: "parse_field s 0 7 = Inr field" "vs = (\<lambda>day. if day = 7 then 0 else day) ` field"
    by (auto simp: parse_weekdays_def split: sum.splits)
  have "field_ok 0 7 field" by (rule parse_field_ok[OF f(1)]) simp
  then show ?thesis by (auto simp: field_ok_def f(2))
qed

lemma parse_weekdays_star: "parse_weekdays ''*'' = Inr {0..6}"
proof -
  have "(\<lambda>day. if day = 7 then 0 else day) ` {0..7} = {0..6::int}" by (auto simp: image_iff intro!: bexI)
  then show ?thesis by (simp add: parse_weekdays_def parse_field_star)
qed

lemma parse_cron_ok: "parse_cron expr = Inr f \<Longrightarrow> fields_ok f"
  by (auto simp: parse_cron_def fields_ok_def parse_field_star parse_weekdays_star
      dest: parse_field_ok parse_weekdays_ok split: list.splits sum.splits)

section \<open>The search\<close>

lemma search_minute_Some:
  "search_minute k f c = Some u \<Longrightarrow> \<exists>i<k. u = c + int i * MINUTE \<and> cron_matches u f \<and> (\<forall>j<i. \<not> cron_matches (c + int j * MINUTE) f)"
proof (induction k arbitrary: c)
  case (Suc k)
  show ?case
  proof (cases "cron_matches c f")
    case True
    then show ?thesis using Suc.prems by (intro exI[of _ 0]) simp
  next
    case False
    then obtain i where i: "i < k" "u = c + MINUTE + int i * MINUTE" "cron_matches u f" "\<forall>j<i. \<not> cron_matches (c + MINUTE + int j * MINUTE) f"
      using Suc by auto
    have "\<not> cron_matches (c + int j * MINUTE) f" if "j < Suc i" for j
      using that False i(4) by (cases j) (auto simp: algebra_simps)
    then show ?thesis using i by (intro exI[of _ "Suc i"]) (auto simp: algebra_simps)
  qed
qed simp

lemma search_minute_None: "search_minute k f c = None \<Longrightarrow> i < k \<Longrightarrow> \<not> cron_matches (c + int i * MINUTE) f"
proof (induction k arbitrary: c i)
  case (Suc k)
  show ?case
  proof (cases i)
    case 0
    then show ?thesis using Suc.prems by (auto split: if_splits)
  next
    case (Suc j)
    have "search_minute k f (c + MINUTE) = None" using Suc.prems(1) by (auto split: if_splits)
    from Suc.IH[OF this, of j] Suc.prems(2) Suc show ?thesis by (simp add: algebra_simps)
  qed
qed simp

section \<open>Dates of the calendar\<close>

lemma div_step: "0 < k \<Longrightarrow> y div k = (y - 1) div k + (if k dvd y then 1 else 0)" for y k :: int
proof (cases "k dvd y")
  case True
  assume k: "0 < k"
  obtain q where "y = k * q" using True by blast
  moreover have "(k * q - 1) div k = q - 1" by (rule int_div_pos_eq[where r = "k - 1"]) (use k in \<open>auto simp: algebra_simps\<close>)
  ultimately show ?thesis using k by simp
next
  case False
  assume k: "0 < k"
  have r: "0 \<le> y mod k" "y mod k < k" "y mod k \<noteq> 0" using k False by (auto simp: dvd_eq_mod_eq_0)
  have "(y - 1) div k = y div k"
    by (rule int_div_pos_eq[where r = "y mod k - 1"]) (use r div_mult_mod_eq[of y k] in \<open>auto simp: algebra_simps\<close>)
  then show ?thesis using False by simp
qed

lemma days_before_year_Suc: "days_before_year (y + 1) = days_before_year y + 365 + (if is_leap y then 1 else 0)"
proof -
  have bools: "y * 365 + (a + (if P then 1 else 0)) - (b + (if Q then 1 else 0)) + (c + (if R then 1 else 0)) =
      (y - 1) * 365 + a - b + c + 365 + (if P \<and> (\<not> Q \<or> R) then 1 else 0)" if "R \<Longrightarrow> Q" "Q \<Longrightarrow> P" for a b c and P Q R
    using that by (cases P; cases Q; cases R) simp_all
  have leap: "is_leap y \<longleftrightarrow> 4 dvd y \<and> (\<not> 100 dvd y \<or> 400 dvd y)" by (simp only: is_leap_def dvd_eq_mod_eq_0)
  have "(100::int) dvd 400" "(4::int) dvd 100" by simp_all
  then have "400 dvd y \<Longrightarrow> 100 dvd y" "100 dvd y \<Longrightarrow> 4 dvd y" by (blast intro: dvd_trans)+
  then have split: "y * 365 + (a + (if 4 dvd y then 1 else 0)) - (b + (if 100 dvd y then 1 else 0)) + (c + (if 400 dvd y then 1 else 0)) =
      (y - 1) * 365 + a - b + c + 365 + (if is_leap y then 1 else 0)" for a b c
    unfolding leap by (rule bools)
  have "days_before_year (y + 1) = y * 365 + y div 4 - y div 100 + y div 400"
    by (simp only: days_before_year_def Let_def add_diff_cancel_right')
  also have "\<dots> = (y - 1) * 365 + (y - 1) div 4 - (y - 1) div 100 + (y - 1) div 400 + 365 + (if is_leap y then 1 else 0)"
    unfolding div_step[OF zero_less_numeral, of y] by (rule split)
  also have "\<dots> = days_before_year y + 365 + (if is_leap y then 1 else 0)" by (simp only: days_before_year_def Let_def)
  finally show ?thesis .
qed

lemma days_before_year_mono: "y \<le> z \<Longrightarrow> days_before_year y + 365 * (z - y) \<le> days_before_year z"
proof (induction "nat (z - y)" arbitrary: z)
  case (Suc k)
  have "days_before_year y + 365 * (z - 1 - y) \<le> days_before_year (z - 1)" using Suc by (intro Suc(1)) auto
  then show ?case using days_before_year_Suc[of "z - 1"] by (auto split: if_splits)
qed simp

lemma valid_day_of_year:
  assumes "1 \<le> m" "m \<le> 12" "1 \<le> d" "d \<le> days_in_month y m"
  shows "1 \<le> days_before_month y m + d \<and> days_before_month y m + d \<le> 365 + (if is_leap y then 1 else 0)"
  using assms(3,4) by (cases rule: month_cases[OF assms(1,2)])
    (auto simp: days_before_month_def days_before_month_table_def days_in_month_def)

lemma month_step:
  assumes "1 \<le> m" "m < 12"
  shows "days_before_month y (m + 1) = days_before_month y m + days_in_month y m"
proof -
  have "m \<le> 12" using assms(2) by simp
  from assms(1) this show ?thesis using assms(2)
    by (cases rule: month_cases) (auto simp: days_before_month_def days_before_month_table_def days_in_month_def)
qed

lemma days_in_month_pos: "1 \<le> m \<Longrightarrow> m \<le> 12 \<Longrightarrow> 0 < days_in_month y m"
  by (cases rule: month_cases[of m]) (auto simp: days_in_month_def)

lemma month_start_mono:
  assumes "1 \<le> m" "m < m'" "m' \<le> 12"
  shows "days_before_month y m + days_in_month y m \<le> days_before_month y m'"
  using assms(2,3)
proof (induction "nat (m' - m)" arbitrary: m')
  case (Suc k)
  show ?case
  proof (cases "m' = m + 1")
    case True
    then show ?thesis using month_step[OF assms(1), of y] Suc by simp
  next
    case False
    then have "days_before_month y m + days_in_month y m \<le> days_before_month y (m' - 1)" using Suc by (intro Suc(1)) auto
    moreover have "0 < days_in_month y (m' - 1)" using assms(1) Suc(3,4) by (intro days_in_month_pos) auto
    ultimately show ?thesis using month_step[of "m' - 1" y] assms(1) Suc(3,4) by simp
  qed
qed simp

lemma day_of_year_unique:
  assumes "1 \<le> m" "m \<le> 12" "1 \<le> d" "d \<le> days_in_month y m" "1 \<le> m'" "m' \<le> 12" "1 \<le> d'" "d' \<le> days_in_month y m'"
    and "days_before_month y m + d = days_before_month y m' + d'"
  shows "m = m' \<and> d = d'"
  using month_start_mono[of m m' y] month_start_mono[of m' m y] assms by (cases m m' rule: linorder_cases) auto

lemma ord2ymd_ymd2ord:
  assumes "1 \<le> y" "1 \<le> m" "m \<le> 12" "1 \<le> d" "d \<le> days_in_month y m"
  shows "ord2ymd (ymd2ord (y, m, d)) = (y, m, d)"
proof -
  let ?k = "ymd2ord (y, m, d)"
  note v = valid_day_of_year[OF assms(2-5)]
  have "days_before_year 1 = 0" by (simp add: days_before_year_def)
  then have "1 \<le> ?k" using days_before_year_mono[OF assms(1)] v assms(1) by (auto simp: ymd2ord_def)
  note r = ymd_roundtrip[OF this]
  obtain y' m' d' where o: "ord2ymd ?k = (y', m', d')" by (metis prod_cases3)
  with r have v': "1 \<le> y'" "1 \<le> m'" "m' \<le> 12" "1 \<le> d'" "d' \<le> days_in_month y' m'"
    and e: "days_before_year y' + days_before_month y' m' + d' = days_before_year y + days_before_month y m + d"
    by (auto simp: ymd2ord_def)
  note w = valid_day_of_year[OF v'(2-5)]
  have "y' = y"
  proof (rule ccontr)
    assume "y' \<noteq> y"
    then consider "y' + 1 \<le> y" | "y + 1 \<le> y'" by linarith
    then show False
    proof cases
      case 1
      from days_before_year_mono[OF 1] days_before_year_Suc[of y'] v w e 1 show False by (auto split: if_splits)
    next
      case 2
      from days_before_year_mono[OF 2] days_before_year_Suc[of y] v w e 2 show False by (auto split: if_splits)
    qed
  qed
  with day_of_year_unique[OF assms(2-5), of m' d'] v' e o show ?thesis by simp
qed

lemma parts_of_instant:
  assumes "1 \<le> y" "1 \<le> m" "m \<le> 12" "1 \<le> d" "d \<le> days_in_month y m" "0 \<le> h" "h < 24" "0 \<le> mi" "mi < 60"
  defines "t \<equiv> datetime_of (y, m, d) h mi 0 0"
  shows "date_of t = (y, m, d)" "hour_of t = h" "minute_of t = mi" "toordinal t = ymd2ord (y, m, d)" "t mod MINUTE = 0"
proof -
  have day: "t = (ymd2ord (y, m, d) - EPOCH_ORDINAL) * 86400000000 + (h * 3600000000 + mi * 60000000)"
    by (simp add: t_def datetime_of_def DAY_MICROS_def)
  have small: "0 \<le> h * 3600000000 + mi * 60000000" "h * 3600000000 + mi * 60000000 < 86400000000" using assms(6-9) by auto
  have q: "t div 86400000000 = ymd2ord (y, m, d) - EPOCH_ORDINAL" "t mod 86400000000 = h * 3600000000 + mi * 60000000"
    by (rule int_div_pos_eq[OF _ small], simp add: day)
      (rule int_mod_pos_eq[OF _ small, where q = "ymd2ord (y, m, d) - EPOCH_ORDINAL"], simp add: day)
  then show o: "toordinal t = ymd2ord (y, m, d)" by (simp add: toordinal_def DAY_MICROS_def)
  show "date_of t = (y, m, d)" unfolding date_of_def o by (rule ord2ymd_ymd2ord[OF assms(1-5)])
  show "hour_of t = h" using q(2) assms(8,9) by (simp add: hour_of_def DAY_MICROS_def)
  have "t mod 3600000000 = mi * 60000000"
    by (rule int_mod_pos_eq[where q = "(ymd2ord (y, m, d) - EPOCH_ORDINAL) * 24 + h"]) (use assms(8,9) in \<open>simp_all add: day\<close>)
  then show "minute_of t = mi" by (simp add: minute_of_def)
  have "t = MINUTE * ((ymd2ord (y, m, d) - EPOCH_ORDINAL) * 1440 + h * 60 + mi)" by (simp add: day MINUTE_def)
  then show "t mod MINUTE = 0" by simp
qed

section \<open>A run within a year\<close>

lemma cron_weekday_ordinal: "cron_weekday t = toordinal t mod 7"
  by (simp add: cron_weekday_def weekday_def mod_simps)

lemma year_apart: "1 \<le> m \<Longrightarrow> m \<le> 12 \<Longrightarrow> ymd2ord (y + 1, m, d) \<le> ymd2ord (y, m, d) + 366"
  by (simp add: ymd2ord_def days_before_year_Suc days_before_month_def)

lemma within_year:
  assumes "1 \<le> m" "m \<le> 12" "1 \<le> d" "d \<le> days_in_month y m"
  shows "days_before_year y < ymd2ord (y, m, d) \<and> ymd2ord (y, m, d) \<le> days_before_year (y + 1)"
  using valid_day_of_year[OF assms] by (simp add: ymd2ord_def days_before_year_Suc)

lemma short_day: "1 \<le> m \<Longrightarrow> m \<le> 12 \<Longrightarrow> d \<le> 28 \<Longrightarrow> d \<le> days_in_month y m"
  by (cases rule: month_cases[of m]) (auto simp: days_in_month_def)

text \<open>Early and late in some month of every year there is a day that matches.\<close>

lemma matching_days:
  assumes f: "fields_ok f" and d0: "d0 \<in> cr_days f" "d0 \<le> 28" and m: "m \<in> cr_months f" and h: "h \<in> cr_hours f" and mi: "mi \<in> cr_minutes f"
  obtains lo hi where "lo \<le> hi"
    "\<forall>y\<ge>1. \<exists>d. 1 \<le> d \<and> d \<le> lo \<and> d \<le> 28 \<and> cron_matches (datetime_of (y, m, d) h mi 0 0) f"
    "\<forall>y\<ge>1. \<exists>d. 1 \<le> d \<and> hi \<le> d \<and> d \<le> 28 \<and> cron_matches (datetime_of (y, m, d) h mi 0 0) f"
proof -
  have r: "1 \<le> m" "m \<le> 12" "0 \<le> h" "h < 24" "0 \<le> mi" "mi < 60" "1 \<le> d0"
    using fields_okD[OF f] m h mi d0(1) by blast+
  have parts: "date_of (datetime_of (y, m, d) h mi 0 0) = (y, m, d)" "hour_of (datetime_of (y, m, d) h mi 0 0) = h"
    "minute_of (datetime_of (y, m, d) h mi 0 0) = mi" "toordinal (datetime_of (y, m, d) h mi 0 0) = ymd2ord (y, m, d)"
    if "1 \<le> y" "1 \<le> d" "d \<le> 28" for y d
    by (rule parts_of_instant; use that r short_day[of m d y] in simp)+
  define on where "on y d \<longleftrightarrow> ymd2ord (y, m, d) mod 7 \<in> cr_weekdays f" for y d
  have match: "cron_matches (datetime_of (y, m, d) h mi 0 0) f \<longleftrightarrow>
      (if cr_dom_restricted f \<and> cr_dow_restricted f then d \<in> cr_days f \<or> on y d else d \<in> cr_days f \<and> on y d)"
    if "1 \<le> y" "1 \<le> d" "d \<le> 28" for y d
    using parts[OF that] m h mi by (simp add: cron_matches_def day_matches_def cron_weekday_ordinal Let_def on_def)
  have every: "on y d" if "\<not> cr_dow_restricted f" for y d
    using that f by (simp add: on_def fields_ok_def)
  show thesis
  proof (cases "cr_dow_restricted f \<and> \<not> cr_dom_restricted f")
    case False
    have "cron_matches (datetime_of (y, m, d0) h mi 0 0) f" if "1 \<le> y" for y
      using match[OF that r(7) d0(2)] d0(1) False every by (auto split: if_splits)
    then show thesis using r(7) d0(2) by (intro that[of d0 d0]) auto
  next
    case True
    obtain wd where wd: "wd \<in> cr_weekdays f" "0 \<le> wd" "wd < 7" using f by (fastforce simp: fields_ok_def field_ok_def)
    have days: "d \<in> cr_days f" if "1 \<le> d" "d \<le> 28" for d using that f True by (auto simp: fields_ok_def)
    have some: "\<exists>d. s \<le> d \<and> d \<le> s + 6 \<and> cron_matches (datetime_of (y, m, d) h mi 0 0) f" if "1 \<le> y" "1 \<le> s" "s \<le> 22" for y s
    proof -
      define i where "i = (wd - ymd2ord (y, m, s)) mod 7"
      have i: "0 \<le> i" "i < 7" by (simp_all add: i_def)
      have "ymd2ord (y, m, s + i) = ymd2ord (y, m, s) + i" by (simp add: ymd2ord_def)
      then have "on y (s + i)" using wd by (simp add: on_def i_def mod_simps)
      moreover have "1 \<le> s + i" "s + i \<le> 28" using that i by simp_all
      ultimately show ?thesis using match[OF that(1), of "s + i"] i days[of "s + i"] True by (intro exI[of _ "s + i"]) simp
    qed
    have "\<exists>d. 1 \<le> d \<and> d \<le> 7 \<and> d \<le> 28 \<and> cron_matches (datetime_of (y, m, d) h mi 0 0) f" if "1 \<le> y" for y
      using some[OF that, of 1] by auto
    moreover have "\<exists>d. 1 \<le> d \<and> 22 \<le> d \<and> d \<le> 28 \<and> cron_matches (datetime_of (y, m, d) h mi 0 0) f" if y: "1 \<le> y" for y
    proof -
      obtain d where "22 \<le> d" "d \<le> 28" "cron_matches (datetime_of (y, m, d) h mi 0 0) f" using some[OF y, of 22] by auto
      then show ?thesis by (intro exI[of _ d]) simp
    qed
    ultimately show thesis by (intro that[of 7 22]) auto
  qed
qed

lemma occurrence:
  assumes f: "fields_ok f" "d0 \<in> cr_days f" "d0 \<le> 28" and c: "1 \<le> toordinal c"
  obtains u where "c \<le> u" "u < c + 366 * DAY_MICROS" "u mod MINUTE = 0" "cron_matches u f"
proof -
  obtain m h mi where mh: "m \<in> cr_months f" "h \<in> cr_hours f" "mi \<in> cr_minutes f"
    using f(1) by (fastforce simp: fields_ok_def field_ok_def)
  then have r: "1 \<le> m" "m \<le> 12" "0 \<le> h" "h < 24" "0 \<le> mi" "mi < 60" using fields_okD[OF f(1)] by blast+
  obtain lo hi where lohi: "lo \<le> hi"
    "\<forall>y\<ge>1. \<exists>d. 1 \<le> d \<and> d \<le> lo \<and> d \<le> 28 \<and> cron_matches (datetime_of (y, m, d) h mi 0 0) f"
    "\<forall>y\<ge>1. \<exists>d. 1 \<le> d \<and> hi \<le> d \<and> d \<le> 28 \<and> cron_matches (datetime_of (y, m, d) h mi 0 0) f"
    by (rule matching_days[OF f mh])
  obtain y mc dc where dc: "ord2ymd (toordinal c) = (y, mc, dc)" by (metis prod_cases3)
  with ymd_roundtrip[OF c] have v: "1 \<le> y" "1 \<le> mc" "mc \<le> 12" "1 \<le> dc" "dc \<le> days_in_month y mc" "ymd2ord (y, mc, dc) = toordinal c" by auto
  note cy = within_year[OF v(2-5)]
  define e where "e = h * 3600000000 + mi * 60000000"
  have e: "0 \<le> e" "e < DAY_MICROS" using r by (auto simp: e_def DAY_MICROS_def)
  have inst: "datetime_of (y, m, d) h mi 0 0 = (ymd2ord (y, m, d) - EPOCH_ORDINAL) * DAY_MICROS + e" for y d
    by (simp add: datetime_of_def e_def)
  obtain rest where cc: "c = (toordinal c - EPOCH_ORDINAL) * DAY_MICROS + rest" "0 \<le> rest" "rest < DAY_MICROS"
    by (rule that[of "c mod DAY_MICROS"]) (simp_all add: toordinal_def DAY_MICROS_def)
  have minute: "datetime_of (y, m, d) h mi 0 0 mod MINUTE = 0" if "1 \<le> y" "1 \<le> d" "d \<le> 28" for y d
    by (rule parts_of_instant; use that r short_day[of m d y] in simp)
  obtain d1 where d1: "1 \<le> d1" "hi \<le> d1" "d1 \<le> 28" "cron_matches (datetime_of (y, m, d1) h mi 0 0) f" using lohi(3) v(1) by blast
  note y1 = within_year[OF r(1,2) d1(1) short_day[OF r(1,2) d1(3)], of y]
  show thesis
  proof (cases "c \<le> datetime_of (y, m, d1) h mi 0 0")
    case True
    have "ymd2ord (y, m, d1) \<le> toordinal c + 365" using y1 cy v(6) days_before_year_Suc[of y] by (auto split: if_splits)
    then have "(ymd2ord (y, m, d1) - EPOCH_ORDINAL) * DAY_MICROS \<le> (toordinal c + 365 - EPOCH_ORDINAL) * DAY_MICROS"
      by (intro mult_right_mono) (auto simp: DAY_MICROS_def)
    then have "datetime_of (y, m, d1) h mi 0 0 < c + 366 * DAY_MICROS"
      using cc e unfolding inst by (simp add: algebra_simps)
    then show thesis by (rule that[OF True _ minute[OF v(1) d1(1,3)] d1(4)])
  next
    case False
    obtain d2 where d2: "1 \<le> d2" "d2 \<le> lo" "d2 \<le> 28" "cron_matches (datetime_of (y + 1, m, d2) h mi 0 0) f" using lohi(2) v(1) by (metis add_increasing2 zero_le_one)
    note y2 = within_year[OF r(1,2) d2(1) short_day[OF r(1,2) d2(3)], of "y + 1"]
    have "toordinal c + 1 \<le> ymd2ord (y + 1, m, d2)" using y2 cy v(6) by simp
    then have "(toordinal c + 1 - EPOCH_ORDINAL) * DAY_MICROS \<le> (ymd2ord (y + 1, m, d2) - EPOCH_ORDINAL) * DAY_MICROS"
      by (intro mult_right_mono) (auto simp: DAY_MICROS_def)
    then have ge: "c \<le> datetime_of (y + 1, m, d2) h mi 0 0" using cc e unfolding inst by (simp add: algebra_simps)
    have "ymd2ord (y + 1, m, d2) \<le> ymd2ord (y + 1, m, d1)" using d1(2) d2(2) lohi(1) by (simp add: ymd2ord_def)
    then have "ymd2ord (y + 1, m, d2) \<le> ymd2ord (y, m, d1) + 366" using year_apart[OF r(1,2), of y d1] by simp
    then have "(ymd2ord (y + 1, m, d2) - EPOCH_ORDINAL) * DAY_MICROS \<le> (ymd2ord (y, m, d1) + 366 - EPOCH_ORDINAL) * DAY_MICROS"
      by (intro mult_right_mono) (auto simp: DAY_MICROS_def)
    then have "datetime_of (y + 1, m, d2) h mi 0 0 < c + 366 * DAY_MICROS" using False unfolding inst by (simp add: algebra_simps)
    then show thesis by (rule that[OF ge _ minute[OF _ d2(1,3)] d2(4)]) (use v(1) in simp)
  qed
qed

lemma minutes_between:
  assumes "c mod MINUTE = 0" "u mod MINUTE = 0" "c \<le> u" "u < c + int k * MINUTE"
  obtains i where "i < k" "u = c + int i * MINUTE"
proof -
  have "MINUTE dvd u - c" using assms(1,2) by (simp add: dvd_diff mod_eq_0_iff_dvd)
  then obtain q where q: "u - c = MINUTE * q" by blast
  have pos: "0 < MINUTE" by (simp add: MINUTE_def)
  have "0 \<le> MINUTE * q" "MINUTE * q < MINUTE * int k" using assms(3,4) q by (auto simp: algebra_simps)
  then have "0 \<le> q" "q < int k" using pos by (simp_all add: zero_le_mult_iff)
  then show thesis using that[of "nat q"] q by (simp add: algebra_simps)
qed

lemma next_run_first:
  assumes p: "parse_cron expr = Inr f" and d: "d \<in> cr_days f" "d \<le> 28" and t: "1 \<le> toordinal t"
  obtains u where "next_run_after expr t = Inr u" "t < u" "u \<le> t + 366 * DAY_MICROS" "u mod MINUTE = 0" "cron_matches u f"
    "\<forall>v. t < v \<and> v < u \<and> v mod MINUTE = 0 \<longrightarrow> \<not> cron_matches v f"
proof -
  define c where "c = t - t mod MINUTE + MINUTE"
  have M: "0 < MINUTE" "366 * DAY_MICROS = int SEARCH_LIMIT_MINUTES * MINUTE" by (simp_all add: MINUTE_def DAY_MICROS_def SEARCH_LIMIT_MINUTES_def)
  have tm: "0 \<le> t mod MINUTE" "t mod MINUTE < MINUTE" using M(1) by simp_all
  have c: "c mod MINUTE = 0" "t < c" "c \<le> t + MINUTE"
    using tm by (simp_all add: c_def)
  have "1 \<le> toordinal c" using t c(2) by (auto simp: toordinal_def DAY_MICROS_def intro: order_trans zdiv_mono1)
  then obtain w where w: "c \<le> w" "w < c + 366 * DAY_MICROS" "w mod MINUTE = 0" "cron_matches w f"
    by (rule occurrence[OF parse_cron_ok[OF p] d])
  obtain i where i: "i < SEARCH_LIMIT_MINUTES" "w = c + int i * MINUTE" by (rule minutes_between[OF c(1) w(3,1)]) (use w(2) M(2) in auto)
  then obtain u where u: "search_minute SEARCH_LIMIT_MINUTES f c = Some u"
    using search_minute_None[of SEARCH_LIMIT_MINUTES f c i] w(4) by (cases "search_minute SEARCH_LIMIT_MINUTES f c") auto
  then obtain j where j: "j < SEARCH_LIMIT_MINUTES" "u = c + int j * MINUTE" "cron_matches u f" "\<forall>k<j. \<not> cron_matches (c + int k * MINUTE) f"
    using search_minute_Some by blast
  have um: "u mod MINUTE = 0" using c(1) j(2) by simp
  have "int j * MINUTE + MINUTE \<le> int SEARCH_LIMIT_MINUTES * MINUTE"
    using j(1) M(1) mult_right_mono[of "int j + 1" "int SEARCH_LIMIT_MINUTES" MINUTE] by (simp add: algebra_simps)
  then have late: "u \<le> t + 366 * DAY_MICROS" using c(3) j(2) M(2) by simp
  have "0 \<le> int j * MINUTE" using M(1) by (intro mult_nonneg_nonneg) simp_all
  then have "t < u" using c(2) j(2) by linarith
  moreover have "\<not> cron_matches v f" if v: "t < v" "v < u" "v mod MINUTE = 0" for v
  proof -
    have "c \<le> v"
    proof (rule ccontr)
      assume "\<not> c \<le> v"
      moreover have "(t - t mod MINUTE) mod MINUTE = 0" by (simp add: minus_mod_eq_mult_div)
      ultimately show False using minutes_between[of "t - t mod MINUTE" v 1] v(1,3) tm by (auto simp: c_def)
    qed
    then obtain k where "k < j" "v = c + int k * MINUTE" by (rule minutes_between[OF c(1) v(3)]) (use v(2) j(2) in auto)
    then show ?thesis using j(4) by blast
  qed
  ultimately show thesis using that late u um j(3) p by (simp add: next_run_after_def c_def)
qed

text \<open>The thirtieth of February.\<close>

lemma feb30_parsed: "parse_cron ''0 0 30 2 *'' = Inr \<lparr>cr_minutes = {0}, cr_hours = {0}, cr_days = {30}, cr_months = {2},
    cr_weekdays = {0..6}, cr_dom_restricted = True, cr_dow_restricted = False\<rparr>"
proof -
  have "parse_field ''0'' 0 59 = Inr {0}" "parse_field ''0'' 0 23 = Inr {0}" "parse_field ''30'' 1 31 = Inr {30}" "parse_field ''2'' 1 12 = Inr {2}"
    by code_simp+
  moreover have "split_words ''0 0 30 2 *'' = [''0'', ''0'', ''30'', ''2'', ''*'']" by code_simp
  ultimately show ?thesis by (simp add: parse_cron_def parse_weekdays_star)
qed

lemma never_feb30:
  assumes "1 \<le> toordinal t" "fst (snd (date_of t)) = 2"
  shows "snd (snd (date_of t)) \<noteq> 30"
proof -
  obtain y m d where o: "date_of t = (y, m, d)" by (metis prod_cases3)
  then have "d \<le> days_in_month y m" using ymd_roundtrip[OF assms(1)] by (simp add: date_of_def)
  moreover have "days_in_month y 2 \<le> 29" by (simp add: days_in_month_def)
  ultimately show ?thesis using o assms(2) by auto
qed

end
