(* ===== verification/ScheduleProperties.thy ===== *)
theory ScheduleProperties
  imports Schedule
begin

text \<open>When a scheduled job runs next.\<close>

text \<open>
  C39. For a valid expression that admits some day up to the 28th, the search for the next run ends
  within its bound of a year of minutes: the instant is a whole minute after the given one, at most 366
  days later, matches the expression, and no earlier minute does.
\<close>

theorem next_run_found:
  assumes "parse_cron expr = Inr f" "d \<in> cr_days f" "d \<le> 28" "1 \<le> toordinal t"
    and "toordinal t + 367 \<le> MAX_ORDINAL"
  shows "\<exists>u. next_run_after expr t = Inr u \<and> t < u \<and> u \<le> t + 366 * DAY_MICROS \<and> u mod MINUTE = 0 \<and> cron_matches u f \<and>
    (\<forall>v. t < v \<and> v < u \<and> v mod MINUTE = 0 \<longrightarrow> \<not> cron_matches v f)"
proof -
  obtain u where "next_run_after expr t = Inr u" "t < u" "u \<le> t + 366 * DAY_MICROS" "u mod MINUTE = 0" "cron_matches u f"
    "\<forall>v. t < v \<and> v < u \<and> v mod MINUTE = 0 \<longrightarrow> \<not> cron_matches v f"
    by (rule next_run_first[OF assms(1-4)])
  then show ?thesis by (intro exI[of _ u] conjI)
qed

lemma nightly_parsed: "parse_cron ''30 2 * * 1-5'' = Inr \<lparr>cr_minutes = {30}, cr_hours = {2}, cr_days = {1..31}, cr_months = {1..12},
    cr_weekdays = {1..5}, cr_dom_restricted = False, cr_dow_restricted = True\<rparr>"
proof -
  have "parse_field ''30'' 0 59 = Inr {30}" "parse_field ''2'' 0 23 = Inr {2}" by code_simp+
  moreover have "parse_weekdays ''1-5'' = Inr {1, 2, 3, 4, 5}" by code_simp
  moreover have "{1, 2, 3, 4, 5} = {1..5::int}" by auto
  moreover have "split_words ''30 2 * * 1-5'' = [''30'', ''2'', ''*'', ''*'', ''1-5'']" by code_simp
  ultimately show ?thesis by (simp add: parse_cron_def parse_field_star)
qed

theorem next_run_found_witness:
  "\<exists>u. next_run_after ''30 2 * * 1-5'' 1700000000000000 = Inr u \<and> 1700000000000000 < u \<and> minute_of u = 30 \<and> hour_of u = 2"
proof -
  have "1 \<le> toordinal 1700000000000000 \<and> toordinal 1700000000000000 + 367 \<le> MAX_ORDINAL" by code_simp
  with next_run_found[OF nightly_parsed, of 1 1700000000000000] show ?thesis by (auto simp: cron_matches_def)
qed

text \<open>
  C40. An expression that names the thirtieth of February is accepted as valid, and asking for its
  next run fails at every instant whose following year \<open>datetime\<close> can represent.
\<close>

theorem impossible_schedule_accepted:
  assumes "1 \<le> toordinal t" "toordinal t + 367 \<le> MAX_ORDINAL"
  shows "validate_cron ''0 0 30 2 *'' = Inr () \<and> next_run_after ''0 0 30 2 *'' t = Inl CronError"
proof -
  let ?f = "\<lparr>cr_minutes = {0}, cr_hours = {0}, cr_days = {30}, cr_months = {2}, cr_weekdays = {0..6::int}, cr_dom_restricted = True, cr_dow_restricted = False\<rparr>"
  let ?c = "t - t mod MINUTE + MINUTE"
  have no: "\<not> cron_matches v ?f" if "t \<le> v" for v
  proof -
    have "1 \<le> toordinal v" using assms(1) that by (auto simp: toordinal_def DAY_MICROS_def intro: order_trans zdiv_mono1)
    then show ?thesis using never_feb30[of v] by (auto simp: cron_matches_def day_matches_def Let_def)
  qed
  have "t mod MINUTE < MINUTE" by (simp add: MINUTE_def)
  then have "t \<le> ?c + int i * MINUTE" for i by (simp add: MINUTE_def add_increasing2)
  then have "search_minute SEARCH_LIMIT_MINUTES ?f ?c = None"
    using search_minute_Some[of SEARCH_LIMIT_MINUTES ?f ?c] no by (cases "search_minute SEARCH_LIMIT_MINUTES ?f ?c") blast+
  then show ?thesis by (simp add: validate_cron_def next_run_after_def feb30_parsed)
qed

theorem impossible_schedule_accepted_witness: "next_run_after ''0 0 30 2 *'' 1700000000000000 = Inl CronError"
proof -
  have "1 \<le> toordinal 1700000000000000 \<and> toordinal 1700000000000000 + 367 \<le> MAX_ORDINAL" by code_simp
  then show ?thesis using impossible_schedule_accepted by blast
qed

end
