(* ===== verification/Activity.thy ===== *)
theory Activity
  imports Auditing Calendar
begin

text \<open>
  A user's own activity (\<open>domain/activity.py\<close>): which audit actions count as activity and may be pruned,
  and the fold of grouped counts into a rollup. A day is given by its ordinal.
\<close>

definition ACTIVITY_ACTIONS :: "audit_action list" where
  "ACTIVITY_ACTIONS =
     [FILE_UPLOADED, FILE_DOWNLOADED, NODE_CREATED, NODE_RENAMED, NODE_TAGS_CHANGED, NODE_METADATA_CHANGED,
      NODE_MOVED, NODE_COPIED, NODE_DELETED, NODE_RESTORED, VERSION_RESTORED, PUBLIC_LINK_ACCESSED]"

definition SECURITY_ACTIONS :: "audit_action set" where
  "SECURITY_ACTIONS = {a. a \<notin> set ACTIVITY_ACTIONS}"

datatype summary_bucket = Uploads | Downloads | SharesGranted | SharesRevoked | Deletions | Restores

fun SUMMARY_BUCKETS :: "audit_action \<Rightarrow> summary_bucket option" where
  "SUMMARY_BUCKETS FILE_UPLOADED = Some Uploads"
| "SUMMARY_BUCKETS FILE_DOWNLOADED = Some Downloads"
| "SUMMARY_BUCKETS GRANT_CREATED = Some SharesGranted"
| "SUMMARY_BUCKETS GRANT_REVOKED = Some SharesRevoked"
| "SUMMARY_BUCKETS PUBLIC_LINK_CREATED = Some SharesGranted"
| "SUMMARY_BUCKETS PUBLIC_LINK_REVOKED = Some SharesRevoked"
| "SUMMARY_BUCKETS NODE_DELETED = Some Deletions"
| "SUMMARY_BUCKETS NODE_RESTORED = Some Restores"
| "SUMMARY_BUCKETS VERSION_RESTORED = Some Restores"
| "SUMMARY_BUCKETS _ = None"

record activity_count =
  ac_action :: audit_action
  ac_day :: int
  ac_count :: int
  ac_bytes :: int

record activity_rollup =
  ro_window_start :: datetime
  ro_window_end :: datetime
  ro_uploads :: int
  ro_downloads :: int
  ro_shares_granted :: int
  ro_shares_revoked :: int
  ro_deletions :: int
  ro_restores :: int
  ro_bytes_uploaded :: int
  ro_bytes_downloaded :: int
  ro_busiest_day :: "int option"

definition empty_rollup :: "datetime \<Rightarrow> datetime \<Rightarrow> activity_rollup" where
  "empty_rollup window_start window_end =
     \<lparr>ro_window_start = window_start, ro_window_end = window_end, ro_uploads = 0, ro_downloads = 0,
      ro_shares_granted = 0, ro_shares_revoked = 0, ro_deletions = 0, ro_restores = 0,
      ro_bytes_uploaded = 0, ro_bytes_downloaded = 0, ro_busiest_day = None\<rparr>"

record activity_entry =
  ae_action :: audit_action
  ae_occurred_at :: datetime
  ae_node_id :: "string option"
  ae_node_name :: "string option"
  ae_protocol :: audit_protocol

text \<open>
  The accumulators of the loop: the six counters, the bytes sent up and down, and the operations of each
  day in the order the days were first seen.
\<close>

record rollup_state =
  rs_buckets :: "summary_bucket \<Rightarrow> int"
  rs_per_day :: "(int \<times> int) list"
  rs_up :: int
  rs_down :: int

definition rollup_start :: rollup_state where
  "rollup_start = \<lparr>rs_buckets = (\<lambda>_. 0), rs_per_day = [], rs_up = 0, rs_down = 0\<rparr>"

fun day_add :: "int \<Rightarrow> int \<Rightarrow> (int \<times> int) list \<Rightarrow> (int \<times> int) list" where
  "day_add day n [] = [(day, n)]"
| "day_add day n ((k, v) # xs) = (if k = day then (k, v + n) # xs else (k, v) # day_add day n xs)"

definition rollup_step :: "activity_count \<Rightarrow> rollup_state \<Rightarrow> rollup_state" where
  "rollup_step c s =
     s\<lparr>rs_buckets := (case SUMMARY_BUCKETS (ac_action c) of
                         None \<Rightarrow> rs_buckets s
                       | Some b \<Rightarrow> (rs_buckets s)(b := rs_buckets s b + ac_count c)),
       rs_up := (if ac_action c = FILE_UPLOADED then rs_up s + ac_bytes c else rs_up s),
       rs_down := (if ac_action c = FILE_DOWNLOADED then rs_down s + ac_bytes c else rs_down s),
       rs_per_day := day_add (ac_day c) (ac_count c) (rs_per_day s)\<rparr>"

text \<open>\<open>max\<close> of the days by the key \<open>(per_day[day], day)\<close>.\<close>

definition busier :: "int \<times> int \<Rightarrow> int \<times> int \<Rightarrow> int \<times> int" where
  "busier best x = (if snd best < snd x \<or> (snd best = snd x \<and> fst best < fst x) then x else best)"

definition busiest :: "(int \<times> int) list \<Rightarrow> int option" where
  "busiest per_day = (case per_day of [] \<Rightarrow> None | x # xs \<Rightarrow> Some (fst (foldl busier x xs)))"

definition build_rollup :: "activity_count list \<Rightarrow> datetime \<Rightarrow> datetime \<Rightarrow> activity_rollup" where
  "build_rollup counts window_start window_end =
     (let s = fold rollup_step counts rollup_start in
      \<lparr>ro_window_start = window_start, ro_window_end = window_end,
       ro_uploads = rs_buckets s Uploads, ro_downloads = rs_buckets s Downloads,
       ro_shares_granted = rs_buckets s SharesGranted, ro_shares_revoked = rs_buckets s SharesRevoked,
       ro_deletions = rs_buckets s Deletions, ro_restores = rs_buckets s Restores,
       ro_bytes_uploaded = rs_up s, ro_bytes_downloaded = rs_down s, ro_busiest_day = busiest (rs_per_day s)\<rparr>)"

section \<open>What the rollup says\<close>

definition bucket_total :: "summary_bucket \<Rightarrow> activity_count list \<Rightarrow> int" where
  "bucket_total b cs = sum_list (map ac_count (filter (\<lambda>c. SUMMARY_BUCKETS (ac_action c) = Some b) cs))"

definition day_total :: "int \<Rightarrow> activity_count list \<Rightarrow> int" where
  "day_total d cs = sum_list (map ac_count (filter (\<lambda>c. ac_day c = d) cs))"

definition byte_total :: "audit_action \<Rightarrow> activity_count list \<Rightarrow> int" where
  "byte_total a cs = sum_list (map ac_bytes (filter (\<lambda>c. ac_action c = a) cs))"

lemma rollup_counters:
  "rs_buckets (fold rollup_step cs s) b = rs_buckets s b + bucket_total b cs"
  by (induction cs arbitrary: s) (auto simp: rollup_step_def bucket_total_def split: option.splits)

lemma rollup_bytes:
  "rs_up (fold rollup_step cs s) = rs_up s + byte_total FILE_UPLOADED cs"
  "rs_down (fold rollup_step cs s) = rs_down s + byte_total FILE_DOWNLOADED cs"
  by (induction cs arbitrary: s) (auto simp: rollup_step_def byte_total_def)

definition day_count :: "int \<Rightarrow> (int \<times> int) list \<Rightarrow> int" where
  "day_count d xs = (case map_of xs d of None \<Rightarrow> 0 | Some n \<Rightarrow> n)"

lemma day_add_count: "day_count d (day_add day n xs) = day_count d xs + (if d = day then n else 0)"
  by (induction xs) (auto simp: day_count_def)

lemma day_add_days: "fst ` set (day_add day n xs) = insert day (fst ` set xs)"
proof (induction xs)
  case (Cons x xs)
  then show ?case by (cases x) (simp add: insert_commute)
qed simp

lemma day_add_distinct: "distinct (map fst xs) \<Longrightarrow> distinct (map fst (day_add day n xs))"
proof (induction xs)
  case (Cons x xs)
  then show ?case using day_add_days[of day n xs] by (cases x) (auto simp: image_iff)
qed simp

lemma rollup_days:
  "day_count d (rs_per_day (fold rollup_step cs s)) = day_count d (rs_per_day s) + day_total d cs \<and>
   fst ` set (rs_per_day (fold rollup_step cs s)) = fst ` set (rs_per_day s) \<union> ac_day ` set cs \<and>
   (distinct (map fst (rs_per_day s)) \<longrightarrow> distinct (map fst (rs_per_day (fold rollup_step cs s))))"
proof (induction cs arbitrary: s)
  case (Cons c cs)
  let ?s = "rollup_step c s"
  have "rs_per_day ?s = day_add (ac_day c) (ac_count c) (rs_per_day s)" by (simp add: rollup_step_def)
  with Cons[of ?s] show ?case
    by (auto simp: day_add_count day_add_days day_add_distinct day_total_def)
qed (simp add: day_total_def)

definition busier_eq :: "int \<times> int \<Rightarrow> int \<times> int \<Rightarrow> bool" where
  "busier_eq a b \<longleftrightarrow> snd b < snd a \<or> (snd b = snd a \<and> fst b \<le> fst a)"

lemma foldl_busier:
  "foldl busier x xs \<in> set (x # xs) \<and> (\<forall>y\<in>set (x # xs). busier_eq (foldl busier x xs) y)"
proof (induction xs arbitrary: x)
  case Nil
  then show ?case by (simp add: busier_eq_def)
next
  case (Cons z zs)
  have le: "busier_eq (busier x z) x" "busier_eq (busier x z) z" "busier x z \<in> {x, z}"
    by (auto simp: busier_def busier_eq_def)
  have tr: "busier_eq a b \<Longrightarrow> busier_eq b c \<Longrightarrow> busier_eq a c" for a b c by (auto simp: busier_eq_def)
  let ?m = "foldl busier (busier x z) zs"
  have m: "?m \<in> set (busier x z # zs)" "\<forall>y\<in>set (busier x z # zs). busier_eq ?m y" using Cons[of "busier x z"] by blast+
  then have "busier_eq ?m (busier x z)" by simp
  then have "busier_eq ?m x" "busier_eq ?m z" using le tr by blast+
  with m le(3) show ?case by auto
qed

lemma busiest_spec:
  assumes "distinct (map fst xs)"
  shows "busiest xs = None \<longleftrightarrow> xs = []"
    and "busiest xs = Some d \<Longrightarrow> d \<in> fst ` set xs \<and>
      (\<forall>e\<in>fst ` set xs. day_count e xs < day_count d xs \<or> (day_count e xs = day_count d xs \<and> e \<le> d))"
proof -
  show "busiest xs = None \<longleftrightarrow> xs = []" by (simp add: busiest_def split: list.splits)
  assume "busiest xs = Some d"
  then obtain y ys where xs: "xs = y # ys" "d = fst (foldl busier y ys)" by (auto simp: busiest_def split: list.splits)
  let ?m = "foldl busier y ys"
  have m: "?m \<in> set xs" "\<forall>z\<in>set xs. busier_eq ?m z" using foldl_busier[of y ys] xs by auto
  have cnt: "day_count (fst z) xs = snd z" if "z \<in> set xs" for z
    using map_of_is_SomeI[OF assms, of "fst z" "snd z"] that by (simp add: day_count_def)
  show "d \<in> fst ` set xs \<and>
      (\<forall>e\<in>fst ` set xs. day_count e xs < day_count d xs \<or> (day_count e xs = day_count d xs \<and> e \<le> d))"
    using m xs(2) cnt by (auto simp: busier_eq_def)
qed

text \<open>The rollup is the reference sums over the counts, and its busiest day has the most operations, the latest of those.\<close>

lemma rollup_busiest:
  assumes "ro_busiest_day (build_rollup cs a b) = Some d"
  shows "d \<in> ac_day ` set cs"
    and "e \<in> ac_day ` set cs \<Longrightarrow> day_total e cs < day_total d cs \<or> (day_total e cs = day_total d cs \<and> e \<le> d)"
proof -
  let ?p = "rs_per_day (fold rollup_step cs rollup_start)"
  have p: "distinct (map fst ?p)" "fst ` set ?p = ac_day ` set cs" "\<And>e. day_count e ?p = day_total e cs"
    using rollup_days[of _ cs rollup_start] by (auto simp: rollup_start_def day_count_def)
  have "busiest ?p = Some d" using assms by (simp add: build_rollup_def Let_def)
  then show "d \<in> ac_day ` set cs"
    and "e \<in> ac_day ` set cs \<Longrightarrow> day_total e cs < day_total d cs \<or> (day_total e cs = day_total d cs \<and> e \<le> d)"
    using busiest_spec(2)[OF p(1)] p by auto
qed

lemma rollup_quiet: "ro_busiest_day (build_rollup cs a b) = None \<longleftrightarrow> cs = []"
proof -
  let ?p = "rs_per_day (fold rollup_step cs rollup_start)"
  have "fst ` set ?p = ac_day ` set cs" using rollup_days[of _ cs rollup_start] by (auto simp: rollup_start_def)
  then have "?p = [] \<longleftrightarrow> cs = []" by auto
  moreover have "busiest ?p = None \<longleftrightarrow> ?p = []" by (simp add: busiest_def split: list.splits)
  ultimately show ?thesis by (simp add: build_rollup_def Let_def)
qed

lemma empty_rollup_is_quiet: "build_rollup [] a b = empty_rollup a b"
  by (simp add: build_rollup_def rollup_start_def empty_rollup_def busiest_def Let_def)

end
