(* ===== verification/Jobs.thy ===== *)
theory Jobs
  imports Sharing Purge Objects Activity
begin

text \<open>
  Background maintenance (\<open>application/jobs.py\<close>): purging expired trash, reaping orphaned objects and
  abandoned multipart uploads, reconciling quota counters, pruning activity records, and completing
  deferred shares. A job runs in its own unit of work; \<open>RewrapJob\<close> commits after every grant, so it is a
  sequence of transactions. Log lines and metrics are left out.
\<close>

record job_settings =
  js_orphan_grace_minutes :: int
  js_multipart_abandon_hours :: int
  js_activity_retention_days :: int

section \<open>Multipart rows\<close>

definition multipart_create :: "multipart_upload \<Rightarrow> db \<Rightarrow> db" where
  "multipart_create up d = d\<lparr>db_uploads := db_uploads d @ [up]\<rparr>"

definition multipart_get :: "db \<Rightarrow> string \<Rightarrow> multipart_upload option" where
  "multipart_get d upload_id = row_by mu_upload_id upload_id (db_uploads d)"

text \<open>Part rows cascade on the upload's foreign key.\<close>

definition multipart_delete :: "string \<Rightarrow> db \<Rightarrow> db" where
  "multipart_delete upload_id d =
     d\<lparr>db_uploads := filter (\<lambda>x. mu_upload_id x \<noteq> upload_id) (db_uploads d),
       db_parts := filter (\<lambda>p. mp_upload_id p \<noteq> upload_id) (db_parts d)\<rparr>"

definition multipart_add_part :: "multipart_part \<Rightarrow> db \<Rightarrow> db" where
  "multipart_add_part part d =
     d\<lparr>db_parts := filter (\<lambda>p. \<not> (mp_upload_id p = mp_upload_id part \<and> mp_part_number p = mp_part_number part)) (db_parts d)
                   @ [part]\<rparr>"

definition multipart_list_parts :: "db \<Rightarrow> string \<Rightarrow> multipart_part list" where
  "multipart_list_parts d upload_id = sort_key mp_part_number (filter (\<lambda>p. mp_upload_id p = upload_id) (db_parts d))"

definition list_abandoned_before :: "db \<Rightarrow> datetime \<Rightarrow> nat \<Rightarrow> multipart_upload list" where
  "list_abandoned_before d cutoff limit =
     take limit (sort_key mu_created_at (filter (\<lambda>x. mu_created_at x < cutoff) (db_uploads d)))"

section \<open>Purging expired trash\<close>

fun purge_each :: "uuid list \<Rightarrow> datetime \<Rightarrow> purged \<Rightarrow> purged use_case" where
  "purge_each [] now acc = ret acc"
| "purge_each (nid # ids) now acc = bind (purge_one nid now) (\<lambda>p. purge_each ids now (purged_add acc p))"

definition run_purge :: "config \<Rightarrow> datetime option \<Rightarrow> purged use_case" where
  "run_purge C now =
     transaction C
      (bind (moment_of now) (\<lambda>moment.
       bind (qdb (\<lambda>d. list_trashed_before d (moment - cf_trash_retention_days C * seconds 86400) (cf_page_size_max C))) (\<lambda>expired.
       purge_each (map nd_id expired) moment no_purge)))"

section \<open>Reaping orphans\<close>

record reaper_result =
  rr_scanned :: nat
  rr_deleted :: nat
  rr_reclaimed :: int
  rr_uploads :: nat

text \<open>
  \<open>OBJECT_KEY_PATTERN\<close>: three fields of 36 characters from \<open>[0-9a-f-]\<close>. The final \<open>$\<close> of the pattern also
  matches before a trailing line feed.
\<close>

definition key_char :: "char \<Rightarrow> bool" where
  "key_char c \<longleftrightarrow> c \<in> set ''0123456789abcdef-''"

definition parse_object_key :: "string \<Rightarrow> (uuid \<times> uuid) option" where
  "parse_object_key key =
     (let k = (if key \<noteq> [] \<and> last key = CHR 0x0A then butlast key else key);
          owner = take 36 k; node = take 36 (drop 37 k); version = drop 74 k
      in if length k = 110 \<and> k ! 36 = CHR ''/'' \<and> k ! 73 = CHR ''/'' \<and> list_all key_char (owner @ node @ version)
         then (case parse_uuid node of None \<Rightarrow> None | Some n \<Rightarrow>
               (case parse_uuid version of None \<Rightarrow> None | Some v \<Rightarrow> Some (n, v)))
         else None)"

definition is_referenced :: "db \<Rightarrow> string \<Rightarrow> bool" where
  "is_referenced d key =
     (case parse_object_key key of
        None \<Rightarrow> True
      | Some (_, version_id) \<Rightarrow> versions_get d version_id \<noteq> None)"

definition is_old_enough :: "job_settings \<Rightarrow> datetime option \<Rightarrow> datetime \<Rightarrow> bool" where
  "is_old_enough J last_modified now =
     (case last_modified of
        None \<Rightarrow> False
      | Some modified \<Rightarrow> now - modified \<ge> js_orphan_grace_minutes J * seconds 60)"

fun reap_objects :: "job_settings \<Rightarrow> datetime \<Rightarrow> (string \<times> int \<times> datetime option) list \<Rightarrow> nat \<times> nat \<times> int \<Rightarrow> (nat \<times> nat \<times> int) use_case" where
  "reap_objects J now [] acc = ret acc"
| "reap_objects J now ((key, n, modified) # rest) (scanned, deleted, reclaimed) =
     bind (qdb (\<lambda>d. is_referenced d key)) (\<lambda>referenced.
     if referenced \<or> \<not> is_old_enough J modified now then reap_objects J now rest (scanned + 1, deleted, reclaimed)
     else seq (objects_delete key) (reap_objects J now rest (scanned + 1, deleted + 1, reclaimed + n)))"

fun reap_parts :: "multipart_part list \<Rightarrow> int \<Rightarrow> int use_case" where
  "reap_parts [] acc = ret acc"
| "reap_parts (p # ps) acc = seq (objects_delete (mp_object_key p)) (reap_parts ps (acc + mp_size p))"

fun reap_uploads :: "multipart_upload list \<Rightarrow> int \<Rightarrow> int use_case" where
  "reap_uploads [] acc = ret acc"
| "reap_uploads (x # xs) acc =
     bind (qdb (\<lambda>d. multipart_list_parts d (mu_upload_id x))) (\<lambda>parts.
     bind (reap_parts parts acc) (\<lambda>acc'.
     seq (mdb (multipart_delete (mu_upload_id x))) (reap_uploads xs acc')))"

definition reap_abandoned_multipart :: "config \<Rightarrow> job_settings \<Rightarrow> datetime \<Rightarrow> (nat \<times> int) use_case" where
  "reap_abandoned_multipart C J now =
     bind (qdb (\<lambda>d. list_abandoned_before d (now - js_multipart_abandon_hours J * seconds 3600) (cf_page_size_max C))) (\<lambda>abandoned.
     bind (reap_uploads abandoned 0) (\<lambda>reclaimed. ret (length abandoned, reclaimed)))"

definition run_reaper :: "config \<Rightarrow> job_settings \<Rightarrow> datetime option \<Rightarrow> reaper_result use_case" where
  "run_reaper C J now =
     transaction C
      (bind (moment_of now) (\<lambda>moment.
       bind (query (\<lambda>w. list_keys (w_objects w) [])) (\<lambda>entries.
       bind (reap_objects J moment entries (0, 0, 0)) (\<lambda>(scanned, deleted, reclaimed).
       bind (reap_abandoned_multipart C J moment) (\<lambda>(uploads, upload_bytes).
       ret \<lparr>rr_scanned = scanned, rr_deleted = deleted, rr_reclaimed = reclaimed + upload_bytes, rr_uploads = uploads\<rparr>)))))"

section \<open>Reconciling quotas\<close>

record reconcile_result =
  rc_checked :: nat
  rc_corrected :: nat

fun reconcile_users :: "datetime \<Rightarrow> user list \<Rightarrow> reconcile_result \<Rightarrow> reconcile_result use_case" where
  "reconcile_users now [] acc = ret acc"
| "reconcile_users now (u # us) acc =
     bind (qdb (\<lambda>d. quotas_recompute d (us_id u))) (\<lambda>truth.
     bind (qdb (\<lambda>d. quotas_get d (us_id u))) (\<lambda>usage.
     case usage of
       None \<Rightarrow>
         seq (mdb (quotas_add truth))
             (reconcile_users now us \<lparr>rc_checked = rc_checked acc + 1, rc_corrected = rc_corrected acc + 1\<rparr>)
     | Some q \<Rightarrow>
         (case reconcile (qu_live_bytes truth) (qu_trashed_bytes truth) (qu_version_bytes truth) now q of
            (drifted, q') \<Rightarrow>
              if drifted then
                seq (mdb (quotas_update q'))
                    (reconcile_users now us \<lparr>rc_checked = rc_checked acc + 1, rc_corrected = rc_corrected acc + 1\<rparr>)
              else reconcile_users now us (acc\<lparr>rc_checked := rc_checked acc + 1\<rparr>))))"

definition run_reconcile :: "config \<Rightarrow> datetime option \<Rightarrow> reconcile_result use_case" where
  "run_reconcile C now =
     transaction C
      (bind (moment_of now) (\<lambda>moment.
       bind (qdb (\<lambda>d. users_list_all d (cf_page_size_max C) None)) (\<lambda>found.
       bind (lift found) (\<lambda>page.
       reconcile_users moment (pg_items page) \<lparr>rc_checked = 0, rc_corrected = 0\<rparr>))))"

section \<open>Pruning activity\<close>

definition run_activity_prune :: "config \<Rightarrow> job_settings \<Rightarrow> datetime option \<Rightarrow> nat use_case" where
  "run_activity_prune C J now =
     transaction C
      (bind (moment_of now) (\<lambda>moment.
       stepdb (prune_activity (moment - js_activity_retention_days J * seconds 86400) ACTIVITY_ACTIONS)))"

section \<open>Completing deferred shares\<close>

record rewrap_result =
  rw_scanned :: nat
  rw_activated :: nat
  rw_nodes :: nat

definition rewrap_tree :: "db \<Rightarrow> node \<Rightarrow> node list" where
  "rewrap_tree d n = n # nodes_descendants d (nd_id n) ANCESTOR_GUARD_DEPTH False"

definition fully_rewrapped :: "db \<Rightarrow> node list \<Rightarrow> string \<Rightarrow> bool" where
  "fully_rewrapped d tree subject = list_all (\<lambda>m. \<not> (nd_encrypted m \<and> get_data_key d (nd_id m) subject = None)) tree"

definition drop_grant :: "grant \<Rightarrow> unit use_case" where
  "drop_grant g = seq (mdb (grants_delete (gr_id g))) (mdb (delete_data_key (gr_node_id g) (gr_subject g)))"

definition activate_one :: "config \<Rightarrow> encryption_config \<Rightarrow> grant \<Rightarrow> node \<Rightarrow> datetime \<Rightarrow> nat option use_case" where
  "activate_one C E g n now =
     bind (qdb (\<lambda>d. rewrap_tree d n)) (\<lambda>tree.
     seq (for_each (filter nd_encrypted tree) (\<lambda>m. rewrap_for C E m (gr_subject g) now))
    (bind (qdb (\<lambda>d. fully_rewrapped d tree (gr_subject g))) (\<lambda>complete.
     if \<not> complete then ret None
     else seq (mdb (grants_update (activated g now))) (ret (Some (length (filter nd_encrypted tree)))))))"

definition complete_grant :: "config \<Rightarrow> encryption_config \<Rightarrow> datetime \<Rightarrow> grant \<Rightarrow> nat option use_case" where
  "complete_grant C E now g =
     transaction C
      (bind (qdb (\<lambda>d. nodes_get d (gr_node_id g))) (\<lambda>found.
       case found of
         None \<Rightarrow> seq (drop_grant g) (ret None)
       | Some n \<Rightarrow> if is_deleted n then seq (drop_grant g) (ret None) else activate_one C E g n now))"

fun complete_grants ::
  "config \<Rightarrow> encryption_config \<Rightarrow> datetime \<Rightarrow> grant list \<Rightarrow> string list \<times> nat \<Rightarrow> (string list \<times> nat) use_case" where
  "complete_grants C E now [] acc = ret acc"
| "complete_grants C E now (g # gs) (subjects, nodes) =
     bind (complete_grant C E now g) (\<lambda>r.
     complete_grants C E now gs (case r of None \<Rightarrow> (subjects, nodes) | Some n \<Rightarrow> (subjects @ [gr_subject g], nodes + n)))"

definition run_rewrap :: "config \<Rightarrow> encryption_config \<Rightarrow> datetime option \<Rightarrow> rewrap_result use_case" where
  "run_rewrap C E now =
     bind (moment_of now) (\<lambda>moment.
     bind (qdb (\<lambda>d. grants_list_pending d (cf_page_size_max C))) (\<lambda>pending.
     bind (complete_grants C E moment pending ([], 0)) (\<lambda>(subjects, nodes).
     seq (for_each subjects (invalidate_subject C))
         (ret \<lparr>rw_scanned = length pending, rw_activated = length subjects, rw_nodes = nodes\<rparr>))))"

end
