(* ===== verification/JobFacts.thy ===== *)
theory JobFacts
  imports Jobs SharingFacts
begin

text \<open>What the maintenance jobs do to the store.\<close>

section \<open>Object keys\<close>

lemma key_char_uuid_str: "list_all key_char (uuid_str u)"
proof -
  have "key_char (digit d)" if "d < 16" for d
  proof -
    have "\<forall>d\<in>set [0..<16]. key_char (digit d)" by code_simp
    with that show ?thesis by simp
  qed
  moreover have "key_char (CHR ''-'')" by (simp add: key_char_def)
  ultimately show ?thesis using set_uuid_str by (auto simp: list_all_iff)
qed

lemma parse_object_key_written:
  assumes "fv_node_id v < 2 ^ 128" "fv_id v < 2 ^ 128"
  shows "parse_object_key (object_key v) = Some (fv_node_id v, fv_id v)"
proof -
  let ?o = "uuid_str (fv_owner_id v)" and ?n = "uuid_str (fv_node_id v)" and ?i = "uuid_str (fv_id v)"
  have k: "object_key v = ?o @ CHR ''/'' # ?n @ CHR ''/'' # ?i" by (simp add: object_key_def key_of_def)
  have "last (object_key v) \<in> set ?i" by (simp add: k) (metis last_in_set length_uuid_str list.size(3) zero_neq_numeral)
  then have "key_char (last (object_key v))" using key_char_uuid_str[of "fv_id v"] unfolding list_all_iff by blast
  moreover have "\<not> key_char (CHR 0x0A)" by code_simp
  ultimately have nl: "last (object_key v) \<noteq> CHR 0x0A" by metis
  have n: "take 36 (drop 37 (object_key v)) = ?n" and i: "drop 74 (object_key v) = ?i" and o: "take 36 (object_key v) = ?o"
    by (simp_all add: k)
  have "object_key v ! 36 = CHR ''/''" "object_key v ! 73 = CHR ''/''" "length (object_key v) = 110"
    by (simp_all add: k nth_append)
  then show ?thesis
    using nl assms key_char_uuid_str by (simp add: parse_object_key_def Let_def n i o parse_uuid_str)
qed

text \<open>The shape of the keys CyberFS writes: three fields of 36 hexadecimal digits and hyphens.\<close>

definition key_fields :: "string \<Rightarrow> string \<Rightarrow> string \<Rightarrow> string \<Rightarrow> bool" where
  "key_fields key a b c \<longleftrightarrow> key \<in> {a @ ''/'' @ b @ ''/'' @ c, a @ ''/'' @ b @ ''/'' @ c @ [CHR 0x0A]} \<and>
     length a = 36 \<and> length b = 36 \<and> length c = 36 \<and> set (a @ b @ c) \<subseteq> set ''0123456789abcdef-''"

lemma parse_object_key_iff:
  "parse_object_key key = Some (n, v) \<longleftrightarrow> (\<exists>a b c. key_fields key a b c \<and> parse_uuid b = Some n \<and> parse_uuid c = Some v)"
proof
  define k where "k = (if key \<noteq> [] \<and> last key = CHR 0x0A then butlast key else key)"
  define a b c where "a = take 36 k" and "b = take 36 (drop 37 k)" and "c = drop 74 k"
  assume "parse_object_key key = Some (n, v)"
  then have p: "length k = 110" "k ! 36 = CHR ''/''" "k ! 73 = CHR ''/''" "list_all key_char (a @ b @ c)"
    "parse_uuid b = Some n" "parse_uuid c = Some v"
    by (auto simp: parse_object_key_def Let_def k_def[symmetric] a_def[symmetric] b_def[symmetric] c_def[symmetric]
        split: if_split_asm option.splits)
  have "k = a @ k ! 36 # drop 37 k" "drop 37 k = b @ drop 37 k ! 36 # c"
    using p(1) id_take_nth_drop[of 36 k] id_take_nth_drop[of 36 "drop 37 k"] by (auto simp: a_def b_def c_def)
  then have k: "k = a @ ''/'' @ b @ ''/'' @ c" using p(1-3) by simp
  have "key = k \<or> key = k @ [CHR 0x0A]" unfolding k_def by (cases key rule: rev_cases) auto
  then have "key \<in> {a @ ''/'' @ b @ ''/'' @ c, a @ ''/'' @ b @ ''/'' @ c @ [CHR 0x0A]}" unfolding k by auto
  moreover have "set (a @ b @ c) \<subseteq> set ''0123456789abcdef-''" using p(4) unfolding list_all_iff key_char_def by blast
  moreover have "length a = 36" "length b = 36" "length c = 36" using p(1) by (simp_all add: a_def b_def c_def)
  ultimately have "key_fields key a b c" unfolding key_fields_def by blast
  with p(5,6) show "\<exists>a b c. key_fields key a b c \<and> parse_uuid b = Some n \<and> parse_uuid c = Some v" by blast
next
  assume "\<exists>a b c. key_fields key a b c \<and> parse_uuid b = Some n \<and> parse_uuid c = Some v"
  then obtain a b c where f: "key_fields key a b c" and u: "parse_uuid b = Some n" "parse_uuid c = Some v" by blast
  let ?k = "a @ CHR ''/'' # b @ CHR ''/'' # c"
  have chars: "list_all key_char (a @ b @ c)" using f unfolding key_fields_def list_all_iff key_char_def by blast
  have l: "length a = 36" "length b = 36" "length c = 36" using f by (auto simp: key_fields_def)
  have "\<not> key_char (CHR 0x0A)" by code_simp
  moreover have "last c \<in> set c" using l(3) by (intro last_in_set) auto
  ultimately have "last ?k \<noteq> CHR 0x0A" using chars l(3) by (auto simp: list_all_iff)
  then have k: "(if key \<noteq> [] \<and> last key = CHR 0x0A then butlast key else key) = ?k"
    using f by (auto simp: key_fields_def butlast_append)
  have "take 36 ?k = a" "take 36 (drop 37 ?k) = b" "drop 74 ?k = c" "?k ! 36 = CHR ''/''" "?k ! 73 = CHR ''/''" "length ?k = 110"
    using l by (simp_all add: nth_append)
  then show "parse_object_key key = Some (n, v)" unfolding parse_object_key_def k Let_def using chars u by simp
qed

section \<open>The reaper\<close>

text \<open>
  An orphan has a key of the shape CyberFS writes, names a version that has no row, and is known to have
  been written at least the grace period ago.
\<close>

definition orphan :: "job_settings \<Rightarrow> db \<Rightarrow> datetime \<Rightarrow> string \<Rightarrow> datetime option \<Rightarrow> bool" where
  "orphan J d now key modified \<longleftrightarrow>
     (\<exists>a b c n v t. key_fields key a b c \<and> parse_uuid b = Some n \<and> parse_uuid c = Some v \<and> v \<notin> fv_id ` set (db_versions d) \<and>
        modified = Some t \<and> t + js_orphan_grace_minutes J * seconds 60 \<le> now)"

lemma orphan_iff: "orphan J d now key modified \<longleftrightarrow> \<not> is_referenced d key \<and> is_old_enough J modified now"
proof -
  have "\<not> is_referenced d key \<longleftrightarrow> (\<exists>n v. parse_object_key key = Some (n, v) \<and> v \<notin> fv_id ` set (db_versions d))"
    by (auto simp: is_referenced_def versions_get_def row_by_None split: option.splits)
  moreover have "is_old_enough J modified now \<longleftrightarrow> (\<exists>t. modified = Some t \<and> t + js_orphan_grace_minutes J * seconds 60 \<le> now)"
    by (auto simp: is_old_enough_def split: option.splits)
  ultimately show ?thesis unfolding orphan_def parse_object_key_iff by blast
qed

definition staged_keys :: "db \<Rightarrow> string set \<Rightarrow> string set" where
  "staged_keys d ids = mp_object_key ` {p \<in> set (db_parts d). mp_upload_id p \<in> ids}"

definition without_uploads :: "string set \<Rightarrow> db \<Rightarrow> db" where
  "without_uploads ids d = d\<lparr>db_uploads := filter (\<lambda>x. mu_upload_id x \<notin> ids) (db_uploads d),
     db_parts := filter (\<lambda>p. mp_upload_id p \<notin> ids) (db_parts d)\<rparr>"

lemma reap_objects_run:
  "\<exists>acc'. reap_objects J now es acc w =
     (Inr acc', w\<lparr>w_objects := objects_without {k. \<exists>n m. (k, n, m) \<in> set es \<and> orphan J (w_db w) now k m} (w_objects w)\<rparr>)"
proof (induction es arbitrary: acc w)
  case Nil
  then show ?case by (cases acc) (auto simp: objects_without_def split_beta')
next
  case (Cons e es)
  obtain key n m where e: "e = (key, n, m)" by (cases e)
  obtain a b c where acc: "acc = (a, b, c)" by (cases acc)
  let ?w1 = "w\<lparr>w_objects := objects_without {key} (w_objects w)\<rparr>"
  let ?S = "{k. \<exists>n m. (k, n, m) \<in> set es \<and> orphan J (w_db w) now k m}"
  have del: "objects_delete key w = (Inr (), ?w1)" by (simp add: objects_delete_def objects_without_def split_beta')
  show ?case
  proof (cases "orphan J (w_db w) now key m")
    case True
    then have S: "{k. \<exists>n m. (k, n, m) \<in> set (e # es) \<and> orphan J (w_db w) now k m} = ?S \<union> {key}" by (auto simp: e)
    from True have "\<not> is_referenced (w_db w) key" "is_old_enough J m now" by (simp_all add: orphan_iff)
    with Cons[of "(a + 1, b + 1, c + n)" ?w1] show ?thesis
      unfolding S by (simp add: e acc bind_run seq_run del objects_without_twice)
  next
    case False
    then have S: "{k. \<exists>n m. (k, n, m) \<in> set (e # es) \<and> orphan J (w_db w) now k m} = ?S" by (auto simp: e)
    from False have "is_referenced (w_db w) key \<or> \<not> is_old_enough J m now" by (simp add: orphan_iff)
    with Cons[of "(a + 1, b, c)" w] show ?thesis unfolding S by (simp add: e acc bind_run)
  qed
qed

lemma reap_parts_run:
  "reap_parts ps acc w =
     (Inr (acc + sum_list (map mp_size ps)), w\<lparr>w_objects := objects_without (mp_object_key ` set ps) (w_objects w)\<rparr>)"
proof (induction ps arbitrary: acc w)
  case Nil
  then show ?case by (simp add: objects_without_def split_beta')
next
  case (Cons p ps)
  let ?w1 = "w\<lparr>w_objects := objects_without {mp_object_key p} (w_objects w)\<rparr>"
  have "objects_delete (mp_object_key p) w = (Inr (), ?w1)" by (simp add: objects_delete_def objects_without_def split_beta')
  then show ?case by (simp add: Cons seq_run objects_without_twice)
qed

lemma reap_uploads_run:
  "\<exists>n. reap_uploads xs acc w = (Inr n, w\<lparr>w_objects := objects_without (staged_keys (w_db w) (mu_upload_id ` set xs)) (w_objects w),
     w_db := without_uploads (mu_upload_id ` set xs) (w_db w)\<rparr>)"
proof (induction xs arbitrary: acc w)
  case Nil
  then show ?case by (simp add: objects_without_def staged_keys_def without_uploads_def split_beta')
next
  case (Cons x xs)
  let ?i = "mu_upload_id x" and ?I = "mu_upload_id ` set xs"
  let ?ps = "multipart_list_parts (w_db w) ?i"
  let ?w1 = "w\<lparr>w_objects := objects_without (staged_keys (w_db w) {?i}) (w_objects w), w_db := without_uploads {?i} (w_db w)\<rparr>"
  have ps: "mp_object_key ` set ?ps = staged_keys (w_db w) {?i}" by (auto simp: multipart_list_parts_def staged_keys_def)
  have del: "multipart_delete ?i (w_db w) = without_uploads {?i} (w_db w)" by (simp add: multipart_delete_def without_uploads_def)
  have keys: "staged_keys (without_uploads {?i} (w_db w)) ?I \<union> staged_keys (w_db w) {?i} = staged_keys (w_db w) (insert ?i ?I)"
    by (auto simp: staged_keys_def without_uploads_def)
  have rows: "without_uploads ?I (without_uploads {?i} (w_db w)) = without_uploads (insert ?i ?I) (w_db w)"
    by (simp add: without_uploads_def conj_commute)
  from Cons[of "acc + sum_list (map mp_size ?ps)" ?w1] obtain n where
    "reap_uploads xs (acc + sum_list (map mp_size ?ps)) ?w1 = (Inr n, ?w1\<lparr>w_objects := objects_without (staged_keys (w_db ?w1) ?I) (w_objects ?w1),
     w_db := without_uploads ?I (w_db ?w1)\<rparr>)" by blast
  then show ?case by (simp add: bind_run seq_run reap_parts_run ps del keys rows objects_without_twice)
qed

lemma without_uploads_frame [simp]:
  "db_versions (without_uploads I d) = db_versions d" "db_nodes (without_uploads I d) = db_nodes d"
  "integrity_error T (without_uploads I d) = integrity_error T d"
  by (simp_all add: without_uploads_def integrity_error_def)

definition abandoned_ids :: "config \<Rightarrow> job_settings \<Rightarrow> db \<Rightarrow> datetime \<Rightarrow> string set" where
  "abandoned_ids C J d now =
     mu_upload_id ` set (list_abandoned_before d (now - js_multipart_abandon_hours J * seconds 3600) (cf_page_size_max C))"

lemma run_reaper_effect:
  assumes "integrity_error (cf_text C) (w_db w) = None" "distinct (map fst (w_objects w))"
  obtains r w' where "run_reaper C J (Some now) w = (Inr r, w')" "w_db w' = without_uploads (abandoned_ids C J (w_db w) now) (w_db w)"
    "w_objects w' = filter (\<lambda>(k, so). \<not> orphan J (w_db w) now k (so_modified so) \<and> k \<notin> staged_keys (w_db w) (abandoned_ids C J (w_db w) now))
       (w_objects w)"
proof -
  let ?es = "list_keys (w_objects w) []"
  let ?S = "{k. \<exists>n m. (k, n, m) \<in> set ?es \<and> orphan J (w_db w) now k m}"
  let ?I = "abandoned_ids C J (w_db w) now"
  let ?w1 = "w\<lparr>w_objects := objects_without ?S (w_objects w)\<rparr>"
  let ?xs = "list_abandoned_before (w_db w) (now - js_multipart_abandon_hours J * seconds 3600) (cf_page_size_max C)"
  obtain a b c where o: "reap_objects J now ?es (0, 0, 0) w = (Inr (a, b, c), ?w1)"
    using reap_objects_run[of J now ?es "(0, 0, 0)" w] by auto
  obtain n where u: "reap_uploads ?xs 0 ?w1 = (Inr n, ?w1\<lparr>w_objects := objects_without (staged_keys (w_db w) ?I) (w_objects ?w1),
     w_db := without_uploads ?I (w_db w)\<rparr>)"
    using reap_uploads_run[of ?xs 0 ?w1] by (auto simp: abandoned_ids_def)
  have S: "k \<in> ?S \<longleftrightarrow> orphan J (w_db w) now k (so_modified so)" if m: "(k, so) \<in> set (w_objects w)" for k so
  proof -
    have "so' = so" if "(k, so') \<in> set (w_objects w)" for so' using m that assms(2) by (meson eq_key_imp_eq_value)
    moreover have "(\<exists>n x. (k, n, x) \<in> set ?es \<and> orphan J (w_db w) now k x) \<longleftrightarrow>
        (\<exists>so'. (k, so') \<in> set (w_objects w) \<and> orphan J (w_db w) now k (so_modified so'))"
      by (simp add: list_keys_def image_iff split_beta' Bex_def) metis
    ultimately show ?thesis using m by blast
  qed
  have "objects_without (staged_keys (w_db w) ?I) (objects_without ?S (w_objects w)) =
    filter (\<lambda>(k, so). \<not> orphan J (w_db w) now k (so_modified so) \<and> k \<notin> staged_keys (w_db w) ?I) (w_objects w)"
    unfolding objects_without_twice unfolding objects_without_def
    by (rule filter_cong[OF refl], clarsimp simp: S simp del: mem_Collect_eq) blast
  then show thesis
    using assms(1) o u
    by (intro that[of "\<lparr>rr_scanned = a, rr_deleted = b, rr_reclaimed = c + n, rr_uploads = length ?xs\<rparr>"
          "?w1\<lparr>w_objects := objects_without (staged_keys (w_db w) ?I) (w_objects ?w1), w_db := without_uploads ?I (w_db w)\<rparr>"])
      (simp_all add: run_reaper_def transaction_def reap_abandoned_multipart_def bind_run moment_of_def flush_def)
qed

section \<open>Reconciliation\<close>

definition settled :: "db \<Rightarrow> uuid \<Rightarrow> bool" where
  "settled d uid \<longleftrightarrow> (\<exists>q. quotas_get d uid = Some q \<and> qu_live_bytes q = sum_nodes d uid False \<and>
     qu_trashed_bytes q = sum_nodes d uid True \<and> qu_version_bytes q = qu_version_bytes (quotas_recompute d uid))"

definition quotas_only :: "db \<Rightarrow> db \<Rightarrow> bool" where
  "quotas_only d d' \<longleftrightarrow> (\<exists>qs. d' = d\<lparr>db_quotas := qs\<rparr>)"

lemma quotas_only_refl: "quotas_only d d"
  unfolding quotas_only_def by (rule exI[of _ "db_quotas d"]) simp

lemma quotas_only_trans: "quotas_only a b \<Longrightarrow> quotas_only b c \<Longrightarrow> quotas_only a c"
  by (auto simp: quotas_only_def)

lemma quotas_only_truth:
  assumes "quotas_only d d'"
  shows "quotas_recompute d' = quotas_recompute d" "sum_nodes d' = sum_nodes d" "integrity_error T d' = integrity_error T d"
  using assms by (auto simp: quotas_only_def quotas_recompute_def sum_nodes_def nodes_get_def integrity_error_def fun_eq_iff)

text \<open>One turn of the loop: this user's counters become the recomputed ones, no other user's change.\<close>

definition corrected :: "datetime \<Rightarrow> uuid \<Rightarrow> db \<Rightarrow> db" where
  "corrected now uid d =
     (let truth = quotas_recompute d uid in
      case quotas_get d uid of
        None \<Rightarrow> quotas_add truth d
      | Some q \<Rightarrow>
         (case reconcile (qu_live_bytes truth) (qu_trashed_bytes truth) (qu_version_bytes truth) now q of
            (drifted, q') \<Rightarrow> if drifted then quotas_update q' d else d))"

lemma corrected_settles:
  shows "quotas_only d (corrected now uid d)" "settled (corrected now uid d) uid"
    "x \<noteq> uid \<Longrightarrow> quotas_get (corrected now uid d) x = quotas_get d x"
proof -
  show only: "quotas_only d (corrected now uid d)"
    using quotas_only_refl[of d]
    by (auto simp: corrected_def quotas_only_def quotas_add_def quotas_update_def Let_def split: option.splits prod.splits)
  note truth = quotas_only_truth[OF only]
  show "settled (corrected now uid d) uid"
  proof (cases "quotas_get d uid")
    case None
    then have "quotas_get (corrected now uid d) uid = Some (quotas_recompute d uid)"
      by (simp add: corrected_def quotas_get_def quotas_add_def row_by_append quotas_recompute_def)
    then show ?thesis unfolding settled_def truth by (simp add: quotas_recompute_def)
  next
    case (Some q)
    moreover from Some have "qu_user_id q = uid" by (auto simp: quotas_get_def dest: row_by_Some)
    ultimately have "\<exists>q'. quotas_get (corrected now uid d) uid = Some q' \<and> qu_live_bytes q' = qu_live_bytes (quotas_recompute d uid) \<and>
        qu_trashed_bytes q' = qu_trashed_bytes (quotas_recompute d uid) \<and> qu_version_bytes q' = qu_version_bytes (quotas_recompute d uid)"
      by (auto simp: corrected_def reconcile_def Let_def quotas_get_update)
    then show ?thesis unfolding settled_def truth by (simp add: quotas_recompute_def)
  qed
  show "quotas_get (corrected now uid d) x = quotas_get d x" if "x \<noteq> uid"
  proof (cases "quotas_get d uid")
    case None
    with that show ?thesis by (auto simp: corrected_def quotas_get_def quotas_add_def row_by_append quotas_recompute_def split: option.splits)
  next
    case (Some q)
    then have "qu_user_id q = uid" by (auto simp: quotas_get_def dest: row_by_Some)
    with Some that show ?thesis by (auto simp: corrected_def reconcile_def Let_def quotas_get_update)
  qed
qed

lemma corrected_keeps_settled: "settled d x \<Longrightarrow> settled (corrected now uid d) x"
  using corrected_settles[where d = d and now = now and uid = uid] quotas_only_truth[of d "corrected now uid d"]
  by (cases "x = uid") (auto simp: settled_def)

lemma reconcile_users_run:
  "\<exists>r. reconcile_users now us acc w = (Inr r, w\<lparr>w_db := fold (corrected now) (map us_id us) (w_db w)\<rparr>)"
proof (induction us arbitrary: acc w)
  case (Cons u us)
  let ?w1 = "w\<lparr>w_db := corrected now (us_id u) (w_db w)\<rparr>"
  have step: "\<exists>acc'. reconcile_users now (u # us) acc w = reconcile_users now us acc' ?w1"
    by (auto simp: bind_run seq_run corrected_def Let_def split: option.splits prod.splits)
  then obtain acc' where "reconcile_users now (u # us) acc w = reconcile_users now us acc' ?w1" by blast
  with Cons[of acc' ?w1] show ?case by auto
qed auto

lemma fold_corrected:
  "quotas_only d (fold (corrected now) ids d) \<and> (\<forall>x\<in>set ids. settled (fold (corrected now) ids d) x) \<and>
   (\<forall>x. settled d x \<longrightarrow> settled (fold (corrected now) ids d) x) \<and>
   (\<forall>x. x \<notin> set ids \<longrightarrow> quotas_get (fold (corrected now) ids d) x = quotas_get d x)"
proof (induction ids arbitrary: d)
  case (Cons i ids)
  let ?d = "corrected now i d"
  have "quotas_only d ?d" "settled ?d i" by (simp_all add: corrected_settles)
  then show ?case
    using Cons[of ?d] quotas_only_trans[of d ?d] by (auto intro: corrected_keeps_settled simp: corrected_settles)
qed (simp add: quotas_only_refl)

lemma run_reconcile_effect:
  assumes "integrity_error (cf_text C) (w_db w) = None"
  obtains r w' where "run_reconcile C (Some now) w = (Inr r, w')"
    "w' = w\<lparr>w_db := fold (corrected now) (map us_id (take (cf_page_size_max C) (sort_key us_subject (db_users (w_db w))))) (w_db w)\<rparr>"
proof -
  let ?rows = "sort_key us_subject (db_users (w_db w))"
  have items: "pg_items (paginate (take (Suc (cf_page_size_max C)) ?rows) (cf_page_size_max C) id us_subject) = take (cf_page_size_max C) ?rows" by (simp add: paginate_def Let_def)
  let ?d = "fold (corrected now) (map us_id (take (cf_page_size_max C) ?rows)) (w_db w)"
  obtain r where "reconcile_users now (take (cf_page_size_max C) ?rows) \<lparr>rc_checked = 0, rc_corrected = 0\<rparr> w = (Inr r, w\<lparr>w_db := ?d\<rparr>)"
    using reconcile_users_run by blast
  moreover have "integrity_error (cf_text C) ?d = None"
    using fold_corrected[of "w_db w" now] quotas_only_truth(3) assms by metis
  ultimately have "run_reconcile C (Some now) w = (Inr r, w\<lparr>w_db := ?d\<rparr>)"
    by (simp add: run_reconcile_def transaction_def bind_run moment_of_def users_list_all_def items flush_def)
  then show thesis using that by blast
qed

section \<open>Deferred shares\<close>

text \<open>Every encrypted node of the shared tree has a data key for the recipient of the grant.\<close>

definition key_complete :: "db \<Rightarrow> grant \<Rightarrow> bool" where
  "key_complete d g \<longleftrightarrow> (\<exists>n. nodes_get d (gr_node_id g) = Some n \<and> \<not> is_deleted n \<and>
     (\<forall>m\<in>set (rewrap_tree d n). nd_encrypted m \<longrightarrow> get_data_key d (nd_id m) (gr_subject g) \<noteq> None))"

text \<open>What completing grants may change: the keys of live nodes only grow, the node table stays.\<close>

definition keys_grow :: "db \<Rightarrow> db \<Rightarrow> bool" where
  "keys_grow d d' \<longleftrightarrow> db_nodes d' = db_nodes d \<and>
     (\<forall>n s. (\<exists>m\<in>set (db_nodes d). nd_id m = n \<and> \<not> is_deleted m) \<longrightarrow> get_data_key d n s \<noteq> None \<longrightarrow> get_data_key d' n s \<noteq> None)"

lemma keys_grow_refl: "keys_grow d d"
  by (simp add: keys_grow_def)

lemma keys_grow_trans: "keys_grow a b \<Longrightarrow> keys_grow b c \<Longrightarrow> keys_grow a c"
  unfolding keys_grow_def by metis

lemma rewrap_tree_live: "\<not> is_deleted n \<Longrightarrow> n \<in> set (db_nodes d) \<Longrightarrow> m \<in> set (rewrap_tree d n) \<Longrightarrow> m \<in> set (db_nodes d) \<and> \<not> is_deleted m"
proof -
  have "set (subtree_levels rows k lvl) \<subseteq> set rows" if "set lvl \<subseteq> set rows" for rows k lvl
    using that by (induction rows k lvl rule: subtree_levels.induct) (auto simp: children_of_def)
  moreover have "set (children_of rows ids) \<subseteq> set rows" for rows ids by (auto simp: children_of_def)
  ultimately have "set (subtree_levels (db_nodes d) ANCESTOR_GUARD_DEPTH (children_of (db_nodes d) [nd_id n])) \<subseteq> set (db_nodes d)" by simp
  then show "\<not> is_deleted n \<Longrightarrow> n \<in> set (db_nodes d) \<Longrightarrow> m \<in> set (rewrap_tree d n) \<Longrightarrow> m \<in> set (db_nodes d) \<and> \<not> is_deleted m"
    unfolding rewrap_tree_def nodes_descendants_def by auto
qed

lemma key_complete_grow:
  assumes "key_complete d g" "keys_grow d d'"
  shows "key_complete d' g"
proof -
  obtain n where n: "nodes_get d (gr_node_id g) = Some n" "\<not> is_deleted n"
    "\<forall>m\<in>set (rewrap_tree d n). nd_encrypted m \<longrightarrow> get_data_key d (nd_id m) (gr_subject g) \<noteq> None"
    using assms(1) by (auto simp: key_complete_def)
  have nodes: "db_nodes d' = db_nodes d" using assms(2) by (simp add: keys_grow_def)
  then have "nodes_get d' = nodes_get d" "rewrap_tree d' n = rewrap_tree d n"
    by (simp_all add: nodes_get_def rewrap_tree_def nodes_descendants_def fun_eq_iff)
  moreover have "get_data_key d' (nd_id m) (gr_subject g) \<noteq> None" if m: "m \<in> set (rewrap_tree d n)" "nd_encrypted m" for m
  proof -
    have "n \<in> set (db_nodes d)" using n(1) by (auto simp: nodes_get_def dest: row_by_Some)
    then have "m \<in> set (db_nodes d) \<and> \<not> is_deleted m" using rewrap_tree_live n(2) m(1) by blast
    then show ?thesis using assms(2) n(3) m by (auto simp: keys_grow_def)
  qed
  ultimately show ?thesis using n by (auto simp: key_complete_def)
qed

definition adds_keys :: "db \<Rightarrow> db \<Rightarrow> bool" where
  "adds_keys d d' \<longleftrightarrow> (\<exists>ks. d' = d\<lparr>db_data_keys := db_data_keys d @ ks\<rparr>)"

lemma adds_keys_step: "rewrap_for C E n s t w = (r, w') \<Longrightarrow> adds_keys (w_db w) (w_db w')"
proof -
  assume run: "rewrap_for C E n s t w = (r, w')"
  have "adds_keys d d" for d unfolding adds_keys_def by (rule exI[of _ "[]"]) simp
  moreover have "adds_keys d (add_data_key k d)" for k d by (auto simp: adds_keys_def add_data_key_def)
  ultimately show ?thesis using run
    unfolding rewrap_for_def data_key_for_def user_kek_def draw_wrap_dek_def
    by (auto simp: bind_run seq_run uuid4_def urandom_def expect_run guard_run lift_run split: if_splits option.splits sum.splits prod.splits)
qed

lemma adds_keys_all: "for_each ms (\<lambda>m. rewrap_for C E m s t) w = (r, w') \<Longrightarrow> adds_keys (w_db w) (w_db w')"
proof (induction ms arbitrary: w)
  case Nil
  then show ?case by (auto simp: adds_keys_def intro: exI[of _ "[]"])
next
  case (Cons m ms)
  obtain r1 w1 where w1: "rewrap_for C E m s t w = (r1, w1)" by (cases "rewrap_for C E m s t w")
  note a = adds_keys_step[OF w1]
  show ?case
  proof (cases r1)
    case (Inl e)
    with Cons.prems w1 a show ?thesis by (simp add: seq_run)
  next
    case (Inr x)
    with Cons.prems w1 have "for_each ms (\<lambda>m. rewrap_for C E m s t) w1 = (r, w')" by (simp add: seq_run)
    from Cons.IH[OF this] a show ?thesis by (auto simp: adds_keys_def)
  qed
qed

definition grants_follow :: "db \<Rightarrow> db \<Rightarrow> bool" where
  "grants_follow d d' \<longleftrightarrow> (\<forall>x\<in>set (db_grants d'). \<exists>y\<in>set (db_grants d).
     gr_id x = gr_id y \<and> gr_node_id x = gr_node_id y \<and> gr_subject x = gr_subject y \<and> (x = y \<or> key_complete d' x))"

lemma grants_follow_refl: "grants_follow d d"
  by (auto simp: grants_follow_def)

lemma grants_follow_trans:
  assumes "grants_follow a b" "grants_follow b c" "keys_grow b c"
  shows "grants_follow a c"
  using assms key_complete_grow unfolding grants_follow_def by metis

lemma drop_grant_run:
  assumes "distinct (map nd_id (db_nodes (w_db w)))"
    and "case nodes_get (w_db w) (gr_node_id g) of None \<Rightarrow> True | Some n \<Rightarrow> is_deleted n"
  obtains w' where "drop_grant g w = (Inr (), w')" "keys_grow (w_db w) (w_db w')" "grants_follow (w_db w) (w_db w')"
proof -
  let ?d = "delete_data_key (gr_node_id g) (gr_subject g) (grants_delete (gr_id g) (w_db w))"
  have dead: "is_deleted m" if "m \<in> set (db_nodes (w_db w))" "nd_id m = gr_node_id g" for m
    using that assms row_by_iff[OF assms(1), of "nd_id m" m] by (simp add: nodes_get_def)
  have other: "find (\<lambda>k. dk_node_id k = n \<and> dk_subject k = s) (filter (\<lambda>k. \<not> (dk_node_id k = a \<and> dk_subject k = b)) ks) =
      find (\<lambda>k. dk_node_id k = n \<and> dk_subject k = s) ks" if "n \<noteq> a" for n s a b and ks :: "data_key list"
    using that by (induction ks) auto
  have "get_data_key ?d n s = get_data_key (w_db w) n s" if "n \<noteq> gr_node_id g" for n s
    using other[OF that] by (simp add: get_data_key_def delete_data_key_def grants_delete_def)
  moreover have "db_nodes ?d = db_nodes (w_db w)" by (simp add: delete_data_key_def grants_delete_def)
  ultimately have "keys_grow (w_db w) ?d" using dead unfolding keys_grow_def by metis
  moreover have "grants_follow (w_db w) ?d"
    by (auto simp: grants_follow_def delete_data_key_def grants_delete_def)
  ultimately show thesis by (intro that[of "w\<lparr>w_db := ?d\<rparr>"]) (simp_all add: drop_grant_def seq_run)
qed

lemma activate_one_run:
  assumes run: "activate_one C E g n now w = (Inr r, w')"
    and n: "nodes_get (w_db w) (gr_node_id g) = Some n" "\<not> is_deleted n"
    and rows: "\<And>x. x \<in> set (db_grants (w_db w)) \<Longrightarrow> gr_id x = gr_id g \<Longrightarrow> gr_node_id x = gr_node_id g \<and> gr_subject x = gr_subject g"
  shows "keys_grow (w_db w) (w_db w')" "grants_follow (w_db w) (w_db w')"
proof -
  let ?tree = "rewrap_tree (w_db w) n"
  obtain w1 where w1: "for_each (filter nd_encrypted ?tree) (\<lambda>m. rewrap_for C E m (gr_subject g) now) w = (Inr (), w1)"
    and fin: "w_db w' = (if fully_rewrapped (w_db w1) ?tree (gr_subject g) then grants_update (activated g now) (w_db w1) else w_db w1)"
    using run by (auto simp: activate_one_def world_ok split: if_splits)
  obtain ks where d1: "w_db w1 = (w_db w)\<lparr>db_data_keys := db_data_keys (w_db w) @ ks\<rparr>"
    using adds_keys_all[OF w1] by (auto simp: adds_keys_def)
  have app: "find P xs \<noteq> None \<Longrightarrow> find P (xs @ ys) \<noteq> None" for P and xs ys :: "data_key list" by (induction xs) auto
  show grow: "keys_grow (w_db w) (w_db w')"
    using app by (auto simp: keys_grow_def fin d1 grants_update_def get_data_key_def)
  show "grants_follow (w_db w) (w_db w')"
  proof (cases "fully_rewrapped (w_db w1) ?tree (gr_subject g)")
    case True
    have same: "nodes_get (w_db w') = nodes_get (w_db w)" "rewrap_tree (w_db w') n = ?tree" "get_data_key (w_db w') = get_data_key (w_db w1)"
      using fin d1 True by (simp_all add: grants_update_def nodes_get_def rewrap_tree_def nodes_descendants_def get_data_key_def fun_eq_iff)
    have "key_complete (w_db w') x" if "gr_node_id x = gr_node_id g" "gr_subject x = gr_subject g" for x
      using True n that by (auto simp: key_complete_def same fully_rewrapped_def list_all_iff)
    moreover have "db_grants (w_db w') = map (\<lambda>r. if gr_id r = gr_id g
        then r\<lparr>gr_role := gr_role g, gr_updated_at := now, gr_pending := False\<rparr> else r) (db_grants (w_db w))"
      using fin d1 True by (simp add: grants_update_def upd_row_def activated_def)
    ultimately show ?thesis
      unfolding grants_follow_def using rows by (auto split: if_splits intro: rev_bexI)
  next
    case False
    then show ?thesis using fin d1 by (auto simp: grants_follow_def)
  qed
qed

lemma complete_grant_step:
  assumes run: "complete_grant C E now g w = (r, w')"
    and ids: "distinct (map nd_id (db_nodes (w_db w)))"
    and rows: "\<And>x. x \<in> set (db_grants (w_db w)) \<Longrightarrow> gr_id x = gr_id g \<Longrightarrow> gr_node_id x = gr_node_id g \<and> gr_subject x = gr_subject g"
  shows "keys_grow (w_db w) (w_db w') \<and> grants_follow (w_db w) (w_db w')"
proof (cases r)
  case (Inl e)
  then have "w_db w' = w_db w" using run by (auto simp: complete_grant_def transaction_def split: prod.splits sum.splits)
  then show ?thesis by (simp add: keys_grow_refl grants_follow_refl)
next
  case (Inr x)
  let ?body = "bind (qdb (\<lambda>d. nodes_get d (gr_node_id g))) (\<lambda>found. case found of
         None \<Rightarrow> seq (drop_grant g) (ret None)
       | Some n \<Rightarrow> if is_deleted n then seq (drop_grant g) (ret None) else activate_one C E g n now)"
  have body: "?body w = (Inr x, w')"
    using run Inr by (auto simp: complete_grant_def transaction_def world_ok split: prod.splits sum.splits)
  show ?thesis
  proof (cases "case nodes_get (w_db w) (gr_node_id g) of None \<Rightarrow> True | Some n \<Rightarrow> is_deleted n")
    case True
    with body obtain w1 where "drop_grant g w = (Inr (), w1)" "w' = w1"
      by (auto simp: world_ok split: option.splits)
    then show ?thesis using drop_grant_run[OF ids True] by (metis Pair_inject)
  next
    case False
    then obtain n where "nodes_get (w_db w) (gr_node_id g) = Some n" "\<not> is_deleted n" by (auto split: option.splits)
    with body show ?thesis using activate_one_run[OF _ _ _ rows] by (simp add: bind_run)
  qed
qed

lemma complete_grants_steps:
  assumes "complete_grants C E now gs acc w = (r, w')" "distinct (map nd_id (db_nodes (w_db w)))"
    and "distinct (map gr_id (db_grants d0))" "set gs \<subseteq> set (db_grants d0)" "grants_follow d0 (w_db w)"
  shows "keys_grow (w_db w) (w_db w') \<and> grants_follow d0 (w_db w')"
  using assms
proof (induction gs arbitrary: acc w)
  case Nil
  then show ?case by (cases acc) (auto simp: keys_grow_refl)
next
  case (Cons g gs)
  obtain subjects nodes where acc: "acc = (subjects, nodes)" by (cases acc)
  obtain r1 w1 where w1: "complete_grant C E now g w = (r1, w1)" by (cases "complete_grant C E now g w")
  have rows: "gr_node_id x = gr_node_id g \<and> gr_subject x = gr_subject g"
    if x: "x \<in> set (db_grants (w_db w))" "gr_id x = gr_id g" for x
  proof -
    have "\<forall>x\<in>set (db_grants (w_db w)). \<exists>y\<in>set (db_grants d0). gr_id x = gr_id y \<and> gr_node_id x = gr_node_id y \<and> gr_subject x = gr_subject y"
      using Cons.prems(5) unfolding grants_follow_def by (blast elim!: ballE)
    then obtain y where y: "y \<in> set (db_grants d0)" "gr_id x = gr_id y" "gr_node_id x = gr_node_id y" "gr_subject x = gr_subject y"
      using x(1) by blast
    have "g \<in> set (db_grants d0)" using Cons.prems(4) by simp
    with y(1,2) x(2) have "y = g" using Cons.prems(3) unfolding distinct_map inj_on_def by simp
    with y show ?thesis by simp
  qed
  have s: "keys_grow (w_db w) (w_db w1)" "grants_follow (w_db w) (w_db w1)"
    using complete_grant_step[OF w1 Cons.prems(2) rows] by blast+
  have f: "grants_follow d0 (w_db w1)" by (rule grants_follow_trans[OF Cons.prems(5) s(2) s(1)])
  have ids: "distinct (map nd_id (db_nodes (w_db w1)))" using s(1) Cons.prems(2) by (simp add: keys_grow_def)
  show ?case
  proof (cases r1)
    case (Inl e)
    with Cons.prems(1) w1 acc s f show ?thesis by (simp add: bind_run)
  next
    case (Inr v)
    with Cons.prems(1) w1 acc obtain acc' where "complete_grants C E now gs acc' w1 = (r, w')" by (auto simp: bind_run)
    from Cons.IH[OF this ids Cons.prems(3) _ f] Cons.prems(4) s(1) show ?thesis by (auto intro: keys_grow_trans)
  qed
qed

lemma run_rewrap_follows:
  assumes "run_rewrap C E now w = (r, w')" "distinct (map nd_id (db_nodes (w_db w)))" "distinct (map gr_id (db_grants (w_db w)))"
  shows "grants_follow (w_db w) (w_db w')"
proof -
  let ?gs = "grants_list_pending (w_db w) (cf_page_size_max C)"
  let ?t = "case now of None \<Rightarrow> w_clock w | Some t \<Rightarrow> t"
  obtain r1 w1 where w1: "complete_grants C E ?t ?gs ([], 0) w = (r1, w1)" by (cases "complete_grants C E ?t ?gs ([], 0) w")
  have "set ?gs \<subseteq> set (db_grants (w_db w))" by (auto simp: grants_list_pending_def dest: in_set_takeD)
  then have "grants_follow (w_db w) (w_db w1)"
    using complete_grants_steps[OF w1 assms(2,3)] grants_follow_refl by blast
  moreover have "same_store w0 w2" if "for_each ss (invalidate_subject C) w0 = (q, w2)" for ss w0 q w2
    using that
  proof (induction ss arbitrary: w0)
    case (Cons a ss)
    obtain q1 w3 where w3: "invalidate_subject C a w0 = (q1, w3)" by (cases "invalidate_subject C a w0")
    then have "same_store w0 w3"
      by (auto simp: invalidate_subject_def invalidate_permissions_for_subject_def dest: invalidate_prefix_store split: if_splits)
    then show ?case using Cons w3 by (cases q1) (auto simp: seq_run intro: same_store_trans)
  qed simp
  ultimately show ?thesis
    using assms(1) w1
    by (auto simp: run_rewrap_def bind_run seq_run moment_of_def same_store_def split: prod.splits sum.splits)
qed

end
