(* ===== verification/Provisioning.thy ===== *)
theory Provisioning
  imports System
begin

text \<open>
  First-touch provisioning (\<open>application/provisioning.py\<close>): a verified principal is resolved to a local
  account, which is created with its root folder, key, quota row and audit record in the unit of work of
  the request that first needs it. The lemmas show what a first resolution leaves, that it keeps the
  invariant of the store, and that a second one finds the same account.
\<close>

definition ROOT_FOLDER_NAME :: string where "ROOT_FOLDER_NAME = ''root''"

definition new_root :: "uuid \<Rightarrow> uuid \<Rightarrow> datetime \<Rightarrow> node" where
  "new_root nid owner now =
     \<lparr>nd_id = nid, nd_owner_id = owner, nd_kind = FOLDER, nd_name = ROOT_FOLDER_NAME, nd_parent_id = None,
      nd_created_at = now, nd_updated_at = now, nd_revision = 0, nd_deleted_at = None,
      nd_current_version_id = None, nd_size_bytes = 0, nd_content_type = None, nd_encrypted = False,
      nd_encryption_default = INHERIT\<rparr>"

definition new_user :: "uuid \<Rightarrow> uuid \<Rightarrow> int \<Rightarrow> principal \<Rightarrow> datetime \<Rightarrow> user" where
  "new_user uid root_id quota p now =
     \<lparr>us_id = uid, us_subject = pr_subject p, us_root_folder_id = root_id, us_quota_bytes = quota,
      us_created_at = now, us_updated_at = now, us_is_admin = pr_is_admin p, us_org = pr_org p,
      us_orgs = pr_orgs p, us_last_seen_at = Some now\<rparr>"

definition provision :: "config \<Rightarrow> encryption_config \<Rightarrow> int \<Rightarrow> principal \<Rightarrow> datetime \<Rightarrow> user use_case" where
  "provision C E quota p now =
     bind uuid4 (\<lambda>uid.
     bind uuid4 (\<lambda>root_id.
     seq (mdb (users_add (new_user uid root_id quota p now)))
    (seq (flush C)
    (seq (mdb (nodes_add (new_root root_id uid now)))
    (bind (urandom KEY_BYTES) (\<lambda>kek.
     bind (draw_wrap_kek C E kek) (\<lambda>wrapped.
     seq (mdb (add_user_key \<lparr>uk_user_id = uid, uk_wrapped_kek = wrapped,
                             uk_master_key_id = kp_current_id (ec_provider E), uk_created_at = now, uk_rotated_at = None\<rparr>))
    (seq (mdb (quotas_add \<lparr>qu_user_id = uid, qu_live_bytes = 0, qu_trashed_bytes = 0, qu_version_bytes = 0,
                           qu_updated_at = Some now\<rparr>))
    (seq (emit_audit (audit_of USER_PROVISIONED now (pr_subject p) (Some (uuid_str uid)) []))
         (ret (new_user uid root_id quota p now)))))))))))"

definition refresh_account :: "user \<Rightarrow> principal \<Rightarrow> datetime \<Rightarrow> user use_case" where
  "refresh_account u p now =
     (case refresh_from_claims (pr_is_admin p) (pr_org p) (pr_orgs p) now u of
        (_, u') \<Rightarrow> seq (mdb (users_update u')) (ret u'))"

definition resolve_account :: "config \<Rightarrow> encryption_config \<Rightarrow> int \<Rightarrow> principal \<Rightarrow> datetime option \<Rightarrow> user use_case" where
  "resolve_account C E quota p now =
     seq (guard (\<not> pr_is_service p) PermissionDeniedError)
    (bind (moment_of now) (\<lambda>moment.
     bind (qdb (\<lambda>d. users_get_by_subject d (pr_subject p))) (\<lambda>existing.
     case existing of
       Some u \<Rightarrow> refresh_account u p moment
     | None \<Rightarrow> provision C E quota p moment)))"

section \<open>The rows of a new account\<close>

definition provisioned :: "uuid \<Rightarrow> uuid \<Rightarrow> int \<Rightarrow> principal \<Rightarrow> datetime \<Rightarrow> string \<Rightarrow> bytes \<Rightarrow> db \<Rightarrow> db" where
  "provisioned uid root_id quota p now mid wrapped d =
     d\<lparr>db_users := db_users d @ [new_user uid root_id quota p now],
       db_nodes := db_nodes d @ [new_root root_id uid now],
       db_user_keys := db_user_keys d @ [\<lparr>uk_user_id = uid, uk_wrapped_kek = wrapped, uk_master_key_id = mid, uk_created_at = now, uk_rotated_at = None\<rparr>],
       db_quotas := db_quotas d @ [\<lparr>qu_user_id = uid, qu_live_bytes = 0, qu_trashed_bytes = 0, qu_version_bytes = 0, qu_updated_at = Some now\<rparr>],
       db_audit := db_audit d @ [audit_of USER_PROVISIONED now (pr_subject p) (Some (uuid_str uid)) []]\<rparr>"

lemma integrity_users [simp]: "integrity_error T (d\<lparr>db_users := us\<rparr>) = integrity_error T d"
  by (simp add: integrity_error_def)

lemma provision_run:
  assumes "integrity_error (cf_text C) (w_db w) = None" "aead_law (cf_aead C)" "length (kp_current (ec_provider E)) = KEY_BYTES"
  obtains kek wrapped w' where "provision C E quota p now w = (Inr (new_user (w_uuids w (w_drawn w)) (w_uuids w (Suc (w_drawn w))) quota p now), w')"
    "w_db w' = provisioned (w_uuids w (w_drawn w)) (w_uuids w (Suc (w_drawn w))) quota p now (kp_current_id (ec_provider E)) wrapped (w_db w)"
    "unwrap_kek (cf_aead C) (ec_provider E) wrapped (kp_current_id (ec_provider E)) = Inr kek" "length kek = KEY_BYTES"
    "w_uuids w' = w_uuids w" "w_drawn w' = Suc (Suc (w_drawn w))"
proof -
  let ?kek = "map (\<lambda>i. w_entropy w (w_spent w + i)) [0..<KEY_BYTES]"
  let ?nonce = "map (\<lambda>i. w_entropy w (w_spent w + KEY_BYTES + i)) [0..<NONCE_BYTES]"
  obtain wrapped where wr: "wrap_kek (cf_aead C) (ec_provider E) ?nonce ?kek = Inr wrapped"
    using assms(3) by (auto simp: wrap_kek_def gcm_seal_def aes_key_def KEY_BYTES_def)
  then have "unwrap_kek (cf_aead C) (ec_provider E) wrapped (kp_current_id (ec_provider E)) = Inr ?kek"
    by (intro kek_roundtrip[OF assms(2)]) simp_all
  then show thesis
    using assms(1) wr
    by (intro that[of "snd (provision C E quota p now w)" wrapped ?kek])
      (simp_all add: provision_def draw_wrap_kek_def bind_run seq_run uuid4_def urandom_def guard_run flush_def emit_audit_def
        provisioned_def users_add_def nodes_add_def add_user_key_def quotas_add_def audit_add_def)
qed

section \<open>The invariant\<close>

lemma tree_inv_add_root:
  assumes "tree_inv rows" "nd_id n \<notin> nd_id ` set rows" "nd_parent_id n = None"
  shows "tree_inv (rows @ [n])"
proof -
  have "parent_rel (rows @ [n]) = parent_rel rows" using assms(3) by (auto simp: parent_rel_def)
  with assms show ?thesis by (auto simp: tree_inv_def)
qed

lemma provisioned_store_inv:
  assumes "store_inv C d" "root_id \<notin> nd_id ` set (db_nodes d)"
  shows "store_inv C (provisioned uid root_id quota p now mid wrapped d)"
proof -
  let ?d = "provisioned uid root_id quota p now mid wrapped d"
  have "tree_inv (db_nodes ?d)"
    using assms tree_inv_add_root[of "db_nodes d" "new_root root_id uid now"]
    by (simp add: provisioned_def store_inv_def new_root_def)
  moreover have "sibling_names_unique (cf_text C) (db_nodes ?d)"
    using assms(1) by (simp add: store_inv_def provisioned_def sibling_names_unique_def new_root_def)
  moreover have "versions_wf ?d" using assms(1) by (auto simp: store_inv_def provisioned_def versions_wf_def)
  moreover have "roots_ok ?d"
    using assms(1) unfolding store_inv_def roots_ok_def provisioned_def by (auto simp: new_user_def new_root_def is_deleted_def)
  ultimately show ?thesis by (simp add: store_inv_def)
qed

lemma provisioned_integrity:
  "integrity_error T (provisioned uid root_id quota p now mid wrapped d) = integrity_error T d"
  by (simp add: provisioned_def integrity_error_def sibling_names_unique_def new_root_def)

text \<open>No row of an account carries this identifier.\<close>

definition account_unused :: "db \<Rightarrow> uuid \<Rightarrow> bool" where
  "account_unused d uid \<longleftrightarrow> uid \<notin> us_id ` set (db_users d) \<and> uid \<notin> uk_user_id ` set (db_user_keys d) \<and>
     uid \<notin> qu_user_id ` set (db_quotas d)"

definition complete_account :: "config \<Rightarrow> encryption_config \<Rightarrow> db \<Rightarrow> user \<Rightarrow> bool" where
  "complete_account C E d u \<longleftrightarrow>
     users_get d (us_id u) = Some u \<and> users_get_by_subject d (us_subject u) = Some u \<and>
     (\<exists>r. nodes_get d (us_root_folder_id u) = Some r \<and> nd_owner_id r = us_id u \<and> is_folder r \<and> is_root r \<and> \<not> is_deleted r) \<and>
     (\<exists>k kek. get_user_key d (us_id u) = Some k \<and>
        unwrap_kek (cf_aead C) (ec_provider E) (uk_wrapped_kek k) (uk_master_key_id k) = Inr kek \<and> length kek = KEY_BYTES) \<and>
     (\<exists>q. quotas_get d (us_id u) = Some q)"

lemma provisioned_complete:
  assumes "account_unused d uid" "users_get_by_subject d (pr_subject p) = None" "root_id \<notin> nd_id ` set (db_nodes d)"
    and "unwrap_kek (cf_aead C) (ec_provider E) wrapped mid = Inr kek" "length kek = KEY_BYTES"
  shows "complete_account C E (provisioned uid root_id quota p now mid wrapped d) (new_user uid root_id quota p now)"
    and "quotas_get (provisioned uid root_id quota p now mid wrapped d) uid =
      Some \<lparr>qu_user_id = uid, qu_live_bytes = 0, qu_trashed_bytes = 0, qu_version_bytes = 0, qu_updated_at = Some now\<rparr>"
proof -
  let ?d = "provisioned uid root_id quota p now mid wrapped d"
  have n: "row_by us_id uid (db_users d) = None" "row_by uk_user_id uid (db_user_keys d) = None"
    "row_by qu_user_id uid (db_quotas d) = None" "row_by nd_id root_id (db_nodes d) = None"
    using assms(1,3) by (auto simp: account_unused_def row_by_None)
  have s: "find (\<lambda>u. us_subject u = pr_subject p) (db_users d) = None"
    using assms(2) by (simp add: users_get_by_subject_def row_by_def)
  have app: "find P xs = None \<Longrightarrow> find P (xs @ ys) = find P ys" for P and xs ys :: "user list" by (induction xs) (auto split: if_splits)
  show q: "quotas_get ?d uid = Some \<lparr>qu_user_id = uid, qu_live_bytes = 0, qu_trashed_bytes = 0, qu_version_bytes = 0, qu_updated_at = Some now\<rparr>"
    using n by (simp add: quotas_get_def provisioned_def row_by_append)
  have "users_get ?d uid = Some (new_user uid root_id quota p now)"
    using n by (simp add: users_get_def provisioned_def row_by_append new_user_def)
  moreover have "users_get_by_subject ?d (pr_subject p) = Some (new_user uid root_id quota p now)"
    using s by (simp add: users_get_by_subject_def provisioned_def row_by_def app new_user_def)
  moreover have "nodes_get ?d root_id = Some (new_root root_id uid now)"
    using n by (simp add: nodes_get_def provisioned_def row_by_append new_root_def)
  moreover have "get_user_key ?d uid = Some \<lparr>uk_user_id = uid, uk_wrapped_kek = wrapped, uk_master_key_id = mid, uk_created_at = now, uk_rotated_at = None\<rparr>"
    using n by (simp add: get_user_key_def provisioned_def row_by_append)
  moreover have "us_id (new_user uid root_id quota p now) = uid" "us_root_folder_id (new_user uid root_id quota p now) = root_id"
    "us_subject (new_user uid root_id quota p now) = pr_subject p" by (simp_all add: new_user_def)
  moreover have "nd_owner_id (new_root root_id uid now) = uid \<and> is_folder (new_root root_id uid now) \<and> is_root (new_root root_id uid now) \<and>
      \<not> is_deleted (new_root root_id uid now)"
    by (simp add: new_root_def is_folder_def is_root_def is_deleted_def)
  ultimately show "complete_account C E ?d (new_user uid root_id quota p now)"
    using q assms(4,5) by (simp add: complete_account_def)
qed

lemma first_resolution:
  assumes "fs_inv C w" "integrity_error (cf_text C) (w_db w) = None" "aead_law (cf_aead C)" "length (kp_current (ec_provider E)) = KEY_BYTES"
    and "\<not> pr_is_service p" "users_get_by_subject (w_db w) (pr_subject p) = None" "account_unused (w_db w) (w_uuids w (w_drawn w))"
  obtains u w' where "transaction C (resolve_account C E quota p (Some now)) w = (Inr u, w')" "us_subject u = pr_subject p"
    "us_quota_bytes u = quota" "fs_inv C w'" "integrity_error (cf_text C) (w_db w') = None" "complete_account C E (w_db w') u"
    "quotas_get (w_db w') (us_id u) = Some \<lparr>qu_user_id = us_id u, qu_live_bytes = 0, qu_trashed_bytes = 0, qu_version_bytes = 0, qu_updated_at = Some now\<rparr>"
proof -
  let ?uid = "w_uuids w (w_drawn w)" and ?rid = "w_uuids w (Suc (w_drawn w))"
  let ?u = "new_user ?uid ?rid quota p now"
  obtain kek wrapped w' where r: "provision C E quota p now w = (Inr ?u, w')"
    "w_db w' = provisioned ?uid ?rid quota p now (kp_current_id (ec_provider E)) wrapped (w_db w)"
    "unwrap_kek (cf_aead C) (ec_provider E) wrapped (kp_current_id (ec_provider E)) = Inr kek" "length kek = KEY_BYTES"
    "w_uuids w' = w_uuids w" "w_drawn w' = Suc (Suc (w_drawn w))"
    by (rule provision_run[OF assms(2-4)])
  have fresh: "?rid \<notin> nd_id ` set (db_nodes (w_db w))"
    using assms(1) by (auto simp: fs_inv_def fresh_ids_def used_ids_def)
  have used: "used_ids (w_db w') = insert ?rid (used_ids (w_db w))"
    by (auto simp: used_ids_def r(2) provisioned_def new_root_def)
  have "fresh_ids w'"
    using assms(1) unfolding fs_inv_def fresh_ids_def r(5,6) used by (auto dest: injD)
  then have inv: "fs_inv C w'"
    using assms(1) provisioned_store_inv[OF _ fresh] by (simp add: fs_inv_def r(2))
  have int: "integrity_error (cf_text C) (w_db w') = None" using assms(2) by (simp add: r(2) provisioned_integrity)
  have "resolve_account C E quota p (Some now) w = (Inr ?u, w')"
    using assms(5,6) r(1) by (simp add: resolve_account_def seq_run bind_run guard_run moment_of_def)
  then have "transaction C (resolve_account C E quota p (Some now)) w = (Inr ?u, w')"
    using int by (simp add: transaction_def bind_run flush_def)
  moreover have "us_id ?u = ?uid" "us_subject ?u = pr_subject p" "us_quota_bytes ?u = quota" by (simp_all add: new_user_def)
  moreover have "complete_account C E (w_db w') ?u" "quotas_get (w_db w') ?uid =
      Some \<lparr>qu_user_id = ?uid, qu_live_bytes = 0, qu_trashed_bytes = 0, qu_version_bytes = 0, qu_updated_at = Some now\<rparr>"
    unfolding r(2) by (rule provisioned_complete[OF assms(7,6) fresh r(3,4)])+
  ultimately show thesis using that[of ?u w'] inv int by simp
qed

text \<open>Resolving an account that exists updates its mutable claims and nothing else.\<close>

lemma later_resolution:
  assumes "integrity_error (cf_text C) (w_db w) = None" "\<not> pr_is_service p" "users_get_by_subject (w_db w) (pr_subject p) = Some u"
  obtains u' w' where "transaction C (resolve_account C E quota p (Some now)) w = (Inr u', w')" "us_id u' = us_id u"
    "us_root_folder_id u' = us_root_folder_id u" "us_quota_bytes u' = us_quota_bytes u"
    "w' = w\<lparr>w_db := users_update u' (w_db w)\<rparr>"
proof -
  let ?u = "snd (refresh_from_claims (pr_is_admin p) (pr_org p) (pr_orgs p) now u)"
  have "resolve_account C E quota p (Some now) w = (Inr ?u, w\<lparr>w_db := users_update ?u (w_db w)\<rparr>)"
    using assms by (simp add: resolve_account_def refresh_account_def seq_run bind_run guard_run moment_of_def split_beta')
  moreover have "integrity_error (cf_text C) (users_update ?u (w_db w)) = None"
    using assms(1) by (simp add: users_update_def)
  ultimately show thesis
    using that[of ?u "w\<lparr>w_db := users_update ?u (w_db w)\<rparr>"]
    by (simp add: transaction_def bind_run flush_def refresh_from_claims_def Let_def)
qed

end
