(* ===== verification/OperationsProperties.thy ===== *)
theory OperationsProperties
  imports SharingProperties JobFacts Provisioning
begin

text \<open>What the maintenance jobs and the provisioning of accounts promise.\<close>

section \<open>Accounts\<close>

text \<open>
  C20. The first request of an unknown user creates a complete account in one transaction: the
  user row, a live root folder it owns, a key that unwraps under the current master key and an empty
  quota row; the invariant of the store is kept. A later request of the same subject finds that account
  again: it changes no row but the user's mutable claims and draws no identifier.
\<close>

theorem first_touch_account:
  assumes "fs_inv C w" "integrity_error (cf_text C) (w_db w) = None" "aead_law (cf_aead C)"
    and "length (kp_current (ec_provider E)) = KEY_BYTES" "\<not> pr_is_service p"
    and "users_get_by_subject (w_db w) (pr_subject p) = None" "account_unused (w_db w) (w_uuids w (w_drawn w))"
  shows "\<exists>u w'. transaction C (resolve_account C E quota p (Some now)) w = (Inr u, w') \<and> us_subject u = pr_subject p \<and>
    fs_inv C w' \<and> complete_account C E (w_db w') u \<and>
    quotas_get (w_db w') (us_id u) = Some \<lparr>qu_user_id = us_id u, qu_live_bytes = 0, qu_trashed_bytes = 0, qu_version_bytes = 0, qu_updated_at = Some now\<rparr> \<and>
    (\<forall>p' later. pr_subject p' = pr_subject p \<and> \<not> pr_is_service p' \<longrightarrow>
       (\<exists>u'. transaction C (resolve_account C E quota p' (Some later)) w' = (Inr u', w'\<lparr>w_db := users_update u' (w_db w')\<rparr>) \<and>
         us_id u' = us_id u \<and> us_root_folder_id u' = us_root_folder_id u))"
proof -
  obtain u w' where r: "transaction C (resolve_account C E quota p (Some now)) w = (Inr u, w')" "us_subject u = pr_subject p"
    "us_quota_bytes u = quota" "fs_inv C w'" "integrity_error (cf_text C) (w_db w') = None" "complete_account C E (w_db w') u"
    "quotas_get (w_db w') (us_id u) = Some \<lparr>qu_user_id = us_id u, qu_live_bytes = 0, qu_trashed_bytes = 0, qu_version_bytes = 0, qu_updated_at = Some now\<rparr>"
    by (rule first_resolution[OF assms])
  have "\<exists>u'. transaction C (resolve_account C E quota p' (Some later)) w' = (Inr u', w'\<lparr>w_db := users_update u' (w_db w')\<rparr>) \<and>
         us_id u' = us_id u \<and> us_root_folder_id u' = us_root_folder_id u"
    if p': "pr_subject p' = pr_subject p" "\<not> pr_is_service p'" for p' later
  proof -
    have "users_get_by_subject (w_db w') (pr_subject p') = Some u" using r(2,6) p'(1) by (simp add: complete_account_def)
    from later_resolution[OF r(5) p'(2) this, of E quota later] show ?thesis by metis
  qed
  with r show ?thesis by blast
qed

definition carol :: principal where
  "carol = \<lparr>pr_subject = ''carol'', pr_is_admin = False, pr_is_service = False, pr_org = None, pr_orgs = [],
     pr_orgs_claim_present = False, pr_entitlements = [], pr_expires_at = None\<rparr>"

theorem first_touch_account_witness:
  "\<exists>u w'. transaction sample_config (resolve_account sample_config sample_encryption 1000 carol (Some 100)) sealed_world = (Inr u, w') \<and>
     us_subject u = ''carol'' \<and> complete_account sample_config sample_encryption (w_db w') u"
proof -
  have "integrity_error (cf_text sample_config) (w_db sealed_world) = None" using sealed_unbroken by (simp add: unbroken_def)
  moreover have "length (kp_current (ec_provider sample_encryption)) = KEY_BYTES" "\<not> pr_is_service carol" "pr_subject carol = ''carol''" by code_simp+
  moreover have "users_get_by_subject (w_db sealed_world) (pr_subject carol) = None" by code_simp
  moreover have "account_unused (w_db sealed_world) (w_uuids sealed_world (w_drawn sealed_world))"
    by (simp add: account_unused_def sealed_world_def sealed_db_def sample_world_def sample_db_def)
  ultimately show ?thesis
    using first_touch_account[OF sealed_inv _ sample_encrypts(2), of sample_encryption carol 1000 100] by metis
qed

section \<open>Stored objects\<close>

text \<open>
  C19. The reaper returns and keeps, unchanged, exactly the objects that are no orphan and no staged part
  of an abandoned upload. An orphan has a key of the shape of a version's key, names a version that has no
  row, and was written, at a known time, at least the grace period ago. So the object of a version row
  survives unless a staged part names it; likewise an object of unknown age, one younger than the grace
  period, and one whose key does not have that shape. Only upload and part rows change. Object keys are
  unique, and the tables satisfy the constraints.
\<close>

theorem reaper_spares_referenced:
  assumes "integrity_error (cf_text C) (w_db w) = None" "distinct (map fst (w_objects w))"
  shows "\<exists>r w'. run_reaper C J (Some now) w = (Inr r, w') \<and>
    (\<exists>ups ps. w_db w' = (w_db w)\<lparr>db_uploads := ups, db_parts := ps\<rparr>) \<and>
    (\<forall>key so. (key, so) \<in> set (w_objects w') \<longleftrightarrow> (key, so) \<in> set (w_objects w) \<and>
       \<not> orphan J (w_db w) now key (so_modified so) \<and> key \<notin> staged_keys (w_db w) (abandoned_ids C J (w_db w) now)) \<and>
    (\<forall>v so. v \<in> set (db_versions (w_db w)) \<and> fv_id v < 2 ^ 128 \<and> fv_node_id v < 2 ^ 128 \<and> (object_key v, so) \<in> set (w_objects w) \<and>
       object_key v \<notin> staged_keys (w_db w) (abandoned_ids C J (w_db w) now) \<longrightarrow> (object_key v, so) \<in> set (w_objects w')) \<and>
    (\<forall>key so. (key, so) \<in> set (w_objects w) \<and> key \<notin> staged_keys (w_db w) (abandoned_ids C J (w_db w) now) \<and>
       (so_modified so = None \<or> (\<exists>t. so_modified so = Some t \<and> now < t + js_orphan_grace_minutes J * seconds 60) \<or>
        (\<nexists>a b c. key_fields key a b c)) \<longrightarrow> (key, so) \<in> set (w_objects w'))"
proof -
  obtain r w' where r: "run_reaper C J (Some now) w = (Inr r, w')" "w_db w' = without_uploads (abandoned_ids C J (w_db w) now) (w_db w)"
    "w_objects w' = filter (\<lambda>(k, so). \<not> orphan J (w_db w) now k (so_modified so) \<and> k \<notin> staged_keys (w_db w) (abandoned_ids C J (w_db w) now))
       (w_objects w)"
    by (rule run_reaper_effect[OF assms])
  have "\<not> orphan J (w_db w) now (object_key v) m" if "v \<in> set (db_versions (w_db w))" "fv_id v < 2 ^ 128" "fv_node_id v < 2 ^ 128" for v m
    using that parse_object_key_written[of v]
    by (auto simp: orphan_iff is_referenced_def versions_get_def row_by_None)
  moreover have "\<exists>ups ps. w_db w' = (w_db w)\<lparr>db_uploads := ups, db_parts := ps\<rparr>" unfolding r(2) without_uploads_def by blast
  moreover have "\<not> orphan J (w_db w) now key m"
    if "m = None \<or> (\<exists>t. m = Some t \<and> now < t + js_orphan_grace_minutes J * seconds 60) \<or> (\<nexists>a b c. key_fields key a b c)" for key m
    using that by (auto simp: orphan_def)
  ultimately show ?thesis using r(1,3) by (intro exI[of _ r] exI[of _ w']) auto
qed

definition sample_jobs :: job_settings where
  "sample_jobs = \<lparr>js_orphan_grace_minutes = 60, js_multipart_abandon_hours = 24, js_activity_retention_days = 90\<rparr>"

theorem reaper_spares_referenced_witness:
  "\<exists>r w'. run_reaper sample_config sample_jobs (Some (seconds 7200)) (sample_world\<lparr>w_objects :=
       (key_of 3 13 77, \<lparr>so_bytes = [1], so_modified = Some 0\<rparr>) # w_objects sample_world\<rparr>) = (Inr r, w') \<and>
     (\<forall>so. (key_of 3 13 77, so) \<notin> set (w_objects w')) \<and>
     (object_key (sample_version 31 13 5), \<lparr>so_bytes = [1, 2, 3, 4, 5], so_modified = Some 0\<rparr>) \<in> set (w_objects w')"
proof -
  let ?w = "sample_world\<lparr>w_objects := (key_of 3 13 77, \<lparr>so_bytes = [1], so_modified = Some 0\<rparr>) # w_objects sample_world\<rparr>"
  let ?t = "seconds 7200"
  have i: "integrity_error (cf_text sample_config) (w_db ?w) = None" using sample_unbroken by (simp add: unbroken_def)
  have s: "staged_keys (w_db ?w) I = {}" for I by (simp add: staged_keys_def sample_db_def)
  have "object_key (sample_version 77 13 1) = key_of 3 13 77" by (simp add: object_key_def sample_version_def)
  then have "parse_object_key (key_of 3 13 77) = Some (13, 77)"
    using parse_object_key_written[of "sample_version 77 13 1"] by (simp add: sample_version_def)
  then have o: "orphan sample_jobs (w_db ?w) ?t (key_of 3 13 77) (Some 0)"
    by (simp add: orphan_iff is_referenced_def versions_get_def row_by_None sample_db_def sample_version_def is_old_enough_def sample_jobs_def)
  have k: "w_objects ?w = [(key_of 3 13 77, \<lparr>so_bytes = [1], so_modified = Some 0\<rparr>),
      (object_key (sample_version 31 13 5), \<lparr>so_bytes = [1, 2, 3, 4, 5], so_modified = Some 0\<rparr>),
      (object_key (sample_version 32 14 3), \<lparr>so_bytes = [6, 7, 8], so_modified = Some 0\<rparr>)]" by (simp add: sample_world_def)
  have keys: "key_of 3 13 77 \<noteq> object_key (sample_version 31 13 5)" "key_of 3 13 77 \<noteq> object_key (sample_version 32 14 3)"
    "object_key (sample_version 31 13 5) \<noteq> object_key (sample_version 32 14 3)"
    by (auto simp: object_key_def sample_version_def dest!: key_of_inj)
  then have d: "distinct (map fst (w_objects ?w))" unfolding k by simp
  from keys have only: "so = \<lparr>so_bytes = [1], so_modified = Some 0\<rparr>" if "(key_of 3 13 77, so) \<in> set (w_objects ?w)" for so
    using that unfolding k by simp
  have v: "sample_version 31 13 5 \<in> set (db_versions (w_db ?w))" "fv_id (sample_version 31 13 5) < 2 ^ 128" "fv_node_id (sample_version 31 13 5) < 2 ^ 128"
    "(object_key (sample_version 31 13 5), \<lparr>so_bytes = [1, 2, 3, 4, 5], so_modified = Some 0\<rparr>) \<in> set (w_objects ?w)"
    by (simp_all add: sample_db_def sample_world_def) (simp_all add: sample_version_def)
  from reaper_spares_referenced[OF i d, of sample_jobs ?t] obtain r w' where
    "run_reaper sample_config sample_jobs (Some ?t) ?w = (Inr r, w')"
    "\<forall>key so. (key, so) \<in> set (w_objects w') \<longleftrightarrow> (key, so) \<in> set (w_objects ?w) \<and> \<not> orphan sample_jobs (w_db ?w) ?t key (so_modified so)"
    "\<forall>v so. v \<in> set (db_versions (w_db ?w)) \<and> fv_id v < 2 ^ 128 \<and> fv_node_id v < 2 ^ 128 \<and> (object_key v, so) \<in> set (w_objects ?w) \<longrightarrow>
       (object_key v, so) \<in> set (w_objects w')"
    unfolding s by auto
  note fin = this
  have "(key_of 3 13 77, so) \<notin> set (w_objects w')" for so
    using fin(2) only[of so] o by (metis stored_object.select_convs(2))
  moreover have "(object_key (sample_version 31 13 5), \<lparr>so_bytes = [1, 2, 3, 4, 5], so_modified = Some 0\<rparr>) \<in> set (w_objects w')"
    using fin(3) v by blast
  ultimately show ?thesis using fin(1) by blast
qed

section \<open>Quotas\<close>

text \<open>
  C21. A reconciliation returns; for every account of the page it reads, ordered by subject, the stored
  counters are then those recomputed from the node and version rows, and it changes neither another
  account's counters nor any other table.
\<close>

theorem reconcile_settles_counters:
  assumes "integrity_error (cf_text C) (w_db w) = None"
  shows "\<exists>r w'. run_reconcile C (Some now) w = (Inr r, w') \<and> (\<exists>qs. w' = w\<lparr>w_db := (w_db w)\<lparr>db_quotas := qs\<rparr>\<rparr>) \<and>
    (\<forall>u\<in>set (take (cf_page_size_max C) (sort_key us_subject (db_users (w_db w)))).
       \<exists>q. quotas_get (w_db w') (us_id u) = Some q \<and> qu_live_bytes q = qu_live_bytes (quotas_recompute (w_db w) (us_id u)) \<and>
         qu_trashed_bytes q = qu_trashed_bytes (quotas_recompute (w_db w) (us_id u)) \<and>
         qu_version_bytes q = qu_version_bytes (quotas_recompute (w_db w) (us_id u))) \<and>
    (\<forall>uid. uid \<notin> us_id ` set (take (cf_page_size_max C) (sort_key us_subject (db_users (w_db w)))) \<longrightarrow>
       quotas_get (w_db w') uid = quotas_get (w_db w) uid)"
proof -
  let ?us = "take (cf_page_size_max C) (sort_key us_subject (db_users (w_db w)))"
  let ?d = "fold (corrected now) (map us_id ?us) (w_db w)"
  obtain r where r: "run_reconcile C (Some now) w = (Inr r, w\<lparr>w_db := ?d\<rparr>)" using run_reconcile_effect[OF assms] by metis
  have f: "quotas_only (w_db w) ?d" "\<forall>x\<in>us_id ` set ?us. settled ?d x" "\<forall>x. x \<notin> us_id ` set ?us \<longrightarrow> quotas_get ?d x = quotas_get (w_db w) x"
    using fold_corrected[of "w_db w" now "map us_id ?us"] by auto
  have "\<exists>q. quotas_get ?d x = Some q \<and> qu_live_bytes q = qu_live_bytes (quotas_recompute (w_db w) x) \<and>
         qu_trashed_bytes q = qu_trashed_bytes (quotas_recompute (w_db w) x) \<and> qu_version_bytes q = qu_version_bytes (quotas_recompute (w_db w) x)"
    if "settled ?d x" for x
    using that unfolding settled_def quotas_only_truth[OF f(1)] by (simp add: quotas_recompute_def)
  moreover have "\<exists>qs. w\<lparr>w_db := ?d\<rparr> = w\<lparr>w_db := (w_db w)\<lparr>db_quotas := qs\<rparr>\<rparr>" using f(1) by (auto simp: quotas_only_def)
  ultimately show ?thesis
    using r f(2,3) by (intro exI[of _ r] exI[of _ "w\<lparr>w_db := ?d\<rparr>"]) simp
qed

theorem reconcile_settles_counters_witness:
  "\<exists>r w'. run_reconcile sample_config (Some 100) sealed_world = (Inr r, w') \<and>
     (\<exists>q. quotas_get (w_db w') 3 = Some q \<and> qu_live_bytes q = qu_live_bytes (quotas_recompute sealed_db 3))"
proof -
  have i: "integrity_error (cf_text sample_config) (w_db sealed_world) = None" using sealed_unbroken by (simp add: unbroken_def)
  have "alice \<in> set (take (cf_page_size_max sample_config) (sort_key us_subject (db_users (w_db sealed_world))))" "us_id alice = 3" by code_simp+
  with reconcile_settles_counters[OF i, of 100] show ?thesis by force
qed

section \<open>Deferred shares\<close>


definition pending_grant :: grant where
  "pending_grant = bob_grant\<lparr>gr_pending := True\<rparr>"

definition pending_world :: world where
  "pending_world = shared_world\<lparr>w_drawn := 1, w_db := grants_add pending_grant shared_db\<rparr>"


lemma pending_db [simp]: "w_db pending_world = grants_add pending_grant shared_db"
  by (simp add: pending_world_def)





end
