(* ===== verification/S3Listing.thy ===== *)
theory S3Listing
  imports Keyset "HOL-Library.AList"
begin

text \<open>
  \<open>ListObjectsV2\<close> (\<open>domain/s3/listing.py\<close>): prefix, delimiter, common prefixes, page size and continuation
  token over a flat list of objects. A dict is an association list in insertion order. The lemmas show
  that following the tokens delivers every object and every common prefix exactly once.
\<close>

definition MAX_KEYS :: int where "MAX_KEYS = 1000"

record list_request =
  lr_prefix :: string
  lr_delimiter :: string
  lr_max_keys :: int
  lr_token :: "string option"
  lr_start_after :: "string option"

record s3_entry =
  se_key :: string
  se_size :: int
  se_etag :: string
  se_last_modified :: datetime
  se_storage_class :: string

record list_result =
  ls_entries :: "s3_entry list"
  ls_common_prefixes :: "string list"
  ls_is_truncated :: bool
  ls_next_token :: "string option"
  ls_prefix :: string
  ls_delimiter :: string

definition key_count :: "list_result \<Rightarrow> nat" where
  "key_count r = length (ls_entries r) + length (ls_common_prefixes r)"

definition encode_token :: "string \<Rightarrow> string" where
  "encode_token key = urlsafe_b64encode (utf8_encode key)"

definition decode_token :: "string \<Rightarrow> error + string" where
  "decode_token token =
     (case urlsafe_b64decode token of
        None \<Rightarrow> Inl InvalidArgumentError
      | Some bs \<Rightarrow> (case utf8_decode bs of None \<Rightarrow> Inl InvalidArgumentError | Some s \<Rightarrow> Inr s))"

text \<open>\<open>str.find\<close> of a non-empty pattern.\<close>

fun find_sub :: "string \<Rightarrow> string \<Rightarrow> nat option" where
  "find_sub pat [] = (if pat = [] then Some 0 else None)"
| "find_sub pat (c # cs) = (if prefix pat (c # cs) then Some 0 else map_option Suc (find_sub pat cs))"

text \<open>Where one object goes: past the prefix filter, into its common prefix or among the contents.\<close>

definition rolled_up :: "string \<Rightarrow> string \<Rightarrow> string \<Rightarrow> string option" where
  "rolled_up pre delimiter key =
     (if delimiter = [] then None
      else map_option (\<lambda>cut. pre @ take (cut + length delimiter) (drop (length pre) key)) (find_sub delimiter (drop (length pre) key)))"

fun group_objects ::
  "s3_entry list \<Rightarrow> string \<Rightarrow> string \<Rightarrow> (string \<times> s3_entry) list \<times> string list \<Rightarrow> (string \<times> s3_entry) list \<times> string list" where
  "group_objects [] pre delimiter acc = acc"
| "group_objects (e # es) pre delimiter (contents, common) =
     (if \<not> prefix pre (se_key e) then group_objects es pre delimiter (contents, common)
      else (case rolled_up pre delimiter (se_key e) of
              Some cp \<Rightarrow> group_objects es pre delimiter (contents, List.insert cp common)
            | None \<Rightarrow> group_objects es pre delimiter (AList.update (se_key e) e contents, common)))"

definition resume_after :: "list_request \<Rightarrow> error + string option" where
  "resume_after req =
     (case lr_token req of
        Some t \<Rightarrow> (case decode_token t of Inl e \<Rightarrow> Inl e | Inr k \<Rightarrow> Inr (Some k))
      | None \<Rightarrow> Inr (lr_start_after req))"

definition listed_items :: "(string \<times> s3_entry) list \<times> string list \<Rightarrow> (string \<times> s3_entry option) list" where
  "listed_items grouped = sort_key fst (map (\<lambda>(_, e). (se_key e, Some e)) (fst grouped) @ map (\<lambda>cp. (cp, None)) (snd grouped))"

definition paginate_items ::
  "(string \<times> s3_entry) list \<times> string list \<Rightarrow> list_request \<Rightarrow> error + list_result" where
  "paginate_items grouped req =
     (case resume_after req of
        Inl e \<Rightarrow> Inl e
      | Inr start \<Rightarrow>
         (let items = (case start of None \<Rightarrow> listed_items grouped | Some a \<Rightarrow> filter (\<lambda>x. a < fst x) (listed_items grouped));
              limit = nat (max 0 (min (lr_max_keys req) MAX_KEYS));
              page = take limit items;
              is_truncated = limit < length items
          in Inr \<lparr>ls_entries = concat (map (\<lambda>(_, e). case e of None \<Rightarrow> [] | Some x \<Rightarrow> [x]) page),
                  ls_common_prefixes = concat (map (\<lambda>(k, e). case e of None \<Rightarrow> [k] | Some _ \<Rightarrow> []) page),
                  ls_is_truncated = is_truncated,
                  ls_next_token = (if is_truncated \<and> page \<noteq> [] then Some (encode_token (fst (last page))) else None),
                  ls_prefix = lr_prefix req, ls_delimiter = lr_delimiter req\<rparr>))"

definition list_objects_v2 :: "s3_entry list \<Rightarrow> list_request \<Rightarrow> error + list_result" where
  "list_objects_v2 objects req = paginate_items (group_objects objects (lr_prefix req) (lr_delimiter req) ([], [])) req"

section \<open>Tokens\<close>

lemma token_roundtrip: "decode_token (encode_token key) = Inr key"
proof -
  let ?bs = "utf8_encode key"
  have b: "\<forall>b\<in>set ?bs. b < 256" by (simp add: utf8_bytes)
  have "list_all (\<lambda>c. (of_char c :: nat) < 128) (urlsafe_b64encode ?bs)"
    unfolding b64_body_pad using b64_body_chars[OF b] by (auto simp: list_all_iff)
  then have "urlsafe_b64decode (urlsafe_b64encode ?bs) = Some ?bs"
    using a2b_encode[OF b] by (simp add: urlsafe_b64decode_def)
  then show ?thesis by (simp add: decode_token_def encode_token_def utf8_roundtrip)
qed

section \<open>Grouping\<close>

lemma find_sub_split: "find_sub pat s = Some i \<Longrightarrow> \<exists>xs ys. s = xs @ pat @ ys \<and> length xs = i"
proof (induction s arbitrary: i)
  case (Cons c cs)
  show ?case
  proof (cases "prefix pat (c # cs)")
    case True
    then obtain ys where "c # cs = pat @ ys" by (auto simp: prefix_def)
    moreover have "i = 0" using True Cons.prems by simp
    ultimately show ?thesis by auto
  next
    case False
    with Cons.prems obtain j where j: "find_sub pat cs = Some j" "i = Suc j" by auto
    from Cons.IH[OF j(1)] obtain xs ys where "cs = xs @ pat @ ys" "length xs = j" by blast
    with j(2) show ?thesis by (intro exI[of _ "c # xs"] exI[of _ ys]) simp
  qed
qed (auto split: if_splits)

lemma find_sub_present: "find_sub pat (xs @ pat) \<noteq> None"
  by (induction xs) (cases pat; auto)+

text \<open>A common prefix rolls up to itself, so it is never the key of a listed object.\<close>

lemma rolled_up_again:
  assumes "rolled_up pre delimiter key = Some cp"
  shows "rolled_up pre delimiter cp \<noteq> None" "prefix pre cp"
proof -
  obtain i where d: "delimiter \<noteq> []" and i: "find_sub delimiter (drop (length pre) key) = Some i"
    and cp: "cp = pre @ take (i + length delimiter) (drop (length pre) key)"
    using assms by (auto simp: rolled_up_def split: if_splits)
  from find_sub_split[OF i] obtain xs ys where "drop (length pre) key = xs @ delimiter @ ys" "length xs = i" by blast
  then have "cp = pre @ xs @ delimiter" using cp by simp
  then show "rolled_up pre delimiter cp \<noteq> None" "prefix pre cp" using d find_sub_present[of delimiter xs] by (simp_all add: rolled_up_def)
qed

definition direct :: "string \<Rightarrow> string \<Rightarrow> s3_entry \<Rightarrow> bool" where
  "direct pre delimiter e \<longleftrightarrow> prefix pre (se_key e) \<and> rolled_up pre delimiter (se_key e) = None"

definition rollups :: "string \<Rightarrow> string \<Rightarrow> s3_entry list \<Rightarrow> string set" where
  "rollups pre delimiter objs = {cp. \<exists>e\<in>set objs. prefix pre (se_key e) \<and> rolled_up pre delimiter (se_key e) = Some cp}"

lemma group_common:
  "set (snd (group_objects objs pre delimiter acc)) = set (snd acc) \<union> rollups pre delimiter objs \<and>
   (distinct (snd acc) \<longrightarrow> distinct (snd (group_objects objs pre delimiter acc)))"
  by (induction objs pre delimiter acc rule: group_objects.induct) (auto simp: rollups_def split: option.splits)

lemma group_contents:
  "map_of (fst (group_objects objs pre delimiter acc)) =
     map_of (fst acc) ++ map_of (rev (map (\<lambda>e. (se_key e, e)) (filter (direct pre delimiter) objs))) \<and>
   (distinct (map fst (fst acc)) \<longrightarrow> distinct (map fst (fst (group_objects objs pre delimiter acc))))"
proof (induction objs pre delimiter acc rule: group_objects.induct)
  case (2 e es pre delimiter contents common)
  show ?case
  proof (cases "direct pre delimiter e")
    case True
    with 2 show ?thesis
      by (auto simp: direct_def map_add_def update_conv' fun_eq_iff distinct_update split: option.splits)
  next
    case False
    with 2 show ?thesis by (auto simp: direct_def split: option.splits)
  qed
qed simp

text \<open>The objects listed when keys are distinct.\<close>

lemma group_all:
  assumes "distinct (map se_key objs)" and g_def: "g = group_objects objs pre delimiter ([], [])"
  shows "set (fst g) = (\<lambda>e. (se_key e, e)) ` {e \<in> set objs. direct pre delimiter e}"
    and "distinct (map fst (fst g))" and "set (snd g) = rollups pre delimiter objs" and "distinct (snd g)"
proof -
  show "set (snd g) = rollups pre delimiter objs" "distinct (snd g)" unfolding g_def using group_common[of objs pre delimiter "([], [])"] by auto
  show d: "distinct (map fst (fst g))" unfolding g_def using group_contents[of objs pre delimiter "([], [])"] by simp
  let ?xs = "map (\<lambda>e. (se_key e, e)) (filter (direct pre delimiter) objs)"
  have k: "distinct (map fst ?xs)" using assms(1) by (simp add: comp_def distinct_map_filter)
  then have "map_of (rev ?xs) = map_of ?xs" by (simp add: distinct_map map_of_inject_set rev_map[symmetric])
  then have m: "map_of (fst g) = map_of ?xs" using group_contents[of objs pre delimiter "([], [])"] by (simp add: g_def)
  have "set (fst g) = set ?xs" using m d k by (simp add: map_of_inject_set)
  then show "set (fst g) = (\<lambda>e. (se_key e, e)) ` {e \<in> set objs. direct pre delimiter e}" by auto
qed

definition all_items :: "s3_entry list \<Rightarrow> string \<Rightarrow> string \<Rightarrow> (string \<times> s3_entry option) list" where
  "all_items objs pre delimiter = listed_items (group_objects objs pre delimiter ([], []))"

lemma all_items_sorted:
  assumes "distinct (map se_key objs)"
  shows "sorted_wrt (\<lambda>a b. fst a < fst b) (all_items objs pre delimiter)"
    and "set (all_items objs pre delimiter) =
      (\<lambda>e. (se_key e, Some e)) ` {e \<in> set objs. direct pre delimiter e} \<union> (\<lambda>cp. (cp, None)) ` rollups pre delimiter objs"
proof -
  let ?g = "group_objects objs pre delimiter ([], [])"
  let ?xs = "map (\<lambda>(_, e). (se_key e, Some e)) (fst ?g)" and ?ys = "map (\<lambda>cp. (cp, None :: s3_entry option)) (snd ?g)"
  note g = group_all[OF assms refl, of pre delimiter]
  have k: "map fst ?xs = map fst (fst ?g)" using g(1) by (auto simp: split_beta')
  have disj: "fst ` set ?xs \<inter> fst ` set ?ys = {}"
  proof -
    have "x \<notin> rollups pre delimiter objs" if "x \<in> fst ` set (fst ?g)" for x
    proof -
      from that g(1) obtain e where "direct pre delimiter e" "x = se_key e" by auto
      then show ?thesis using rolled_up_again(1)[of pre delimiter _ x] by (auto simp: rollups_def direct_def)
    qed
    then have "fst ` set (fst ?g) \<inter> set (snd ?g) = {}" using g(3) by auto
    moreover have "fst ` set ?xs = fst ` set (fst ?g)" using k by (metis set_map)
    moreover have "fst ` set ?ys = set (snd ?g)" by (auto simp: image_image)
    ultimately show ?thesis by simp
  qed
  have "distinct (map fst ?xs)" unfolding k by (rule g(2))
  moreover have "distinct (map fst ?ys)" using g(4) by (simp add: comp_def)
  moreover have "set (map fst ?xs) \<inter> set (map fst ?ys) = {}" using disj by (simp only: set_map)
  ultimately have "distinct (map fst (?xs @ ?ys))" by (simp only: map_append distinct_append)
  then have "inj_on fst (set (?xs @ ?ys))" "distinct (?xs @ ?ys)" by (simp_all only: distinct_map)
  then show "sorted_wrt (\<lambda>a b. fst a < fst b) (all_items objs pre delimiter)"
    unfolding all_items_def listed_items_def by (intro sort_key_strict)
  show "set (all_items objs pre delimiter) =
      (\<lambda>e. (se_key e, Some e)) ` {e \<in> set objs. direct pre delimiter e} \<union> (\<lambda>cp. (cp, None)) ` rollups pre delimiter objs"
    using g(1,3) by (auto simp: all_items_def listed_items_def image_iff)
qed

section \<open>Following the tokens\<close>

definition item_entries :: "(string \<times> s3_entry option) list \<Rightarrow> s3_entry list" where
  "item_entries items = concat (map (\<lambda>(_, e). case e of None \<Rightarrow> [] | Some x \<Rightarrow> [x]) items)"

definition item_prefixes :: "(string \<times> s3_entry option) list \<Rightarrow> string list" where
  "item_prefixes items = concat (map (\<lambda>(k, e). case e of None \<Rightarrow> [k] | Some _ \<Rightarrow> []) items)"

fun follow_listing :: "nat \<Rightarrow> s3_entry list \<Rightarrow> list_request \<Rightarrow> (s3_entry list \<times> string list) option" where
  "follow_listing 0 objs req = None"
| "follow_listing (Suc k) objs req =
     (case list_objects_v2 objs req of
        Inl e \<Rightarrow> None
      | Inr r \<Rightarrow>
         if \<not> ls_is_truncated r then Some (ls_entries r, ls_common_prefixes r)
         else (case ls_next_token r of
                 None \<Rightarrow> None
               | Some t \<Rightarrow> map_option (\<lambda>(es, ps). (ls_entries r @ es, ls_common_prefixes r @ ps))
                             (follow_listing k objs (req\<lparr>lr_token := Some t\<rparr>))))"

definition from_start :: "string option \<Rightarrow> (string \<times> s3_entry option) list \<Rightarrow> (string \<times> s3_entry option) list" where
  "from_start start items = (case start of None \<Rightarrow> items | Some a \<Rightarrow> filter (\<lambda>x. a < fst x) items)"

lemma sorted_le_last:
  fixes xs :: "('k::linorder \<times> 'v) list"
  shows "sorted_wrt (\<lambda>a b. fst a < fst b) xs \<Longrightarrow> x \<in> set xs \<Longrightarrow> fst x \<le> fst (last xs)"
  by (induction xs) (auto intro: less_imp_le)

lemma follow_from:
  assumes "distinct (map se_key objs)" "0 < lr_max_keys req"
    and "resume_after req = Inr start" "from_start start (all_items objs (lr_prefix req) (lr_delimiter req)) = post" "length post < k"
  shows "follow_listing k objs req = Some (item_entries post, item_prefixes post)"
  using assms(2-5)
proof (induction k arbitrary: req start post)
  case (Suc k)
  let ?all = "all_items objs (lr_prefix req) (lr_delimiter req)"
  let ?limit = "nat (max 0 (min (lr_max_keys req) MAX_KEYS))"
  have pos: "0 < ?limit" using Suc.prems(1) by (simp add: MAX_KEYS_def)
  have items: "(case start of None \<Rightarrow> listed_items (group_objects objs (lr_prefix req) (lr_delimiter req) ([], []))
      | Some a \<Rightarrow> filter (\<lambda>x. a < fst x) (listed_items (group_objects objs (lr_prefix req) (lr_delimiter req) ([], [])))) = post"
    using Suc.prems(3) by (simp add: from_start_def all_items_def)
  have res: "list_objects_v2 objs req = Inr \<lparr>ls_entries = item_entries (take ?limit post), ls_common_prefixes = item_prefixes (take ?limit post),
      ls_is_truncated = (?limit < length post),
      ls_next_token = (if ?limit < length post \<and> take ?limit post \<noteq> [] then Some (encode_token (fst (last (take ?limit post)))) else None),
      ls_prefix = lr_prefix req, ls_delimiter = lr_delimiter req\<rparr>"
    unfolding list_objects_v2_def paginate_items_def Suc.prems(2) sum.case items Let_def item_entries_def item_prefixes_def ..
  show ?case
  proof (cases "?limit < length post")
    case False
    then show ?thesis using res by simp
  next
    case True
    let ?page = "take ?limit post"
    let ?last = "fst (last ?page)"
    let ?req = "req\<lparr>lr_token := Some (encode_token ?last)\<rparr>"
    have ne: "?page \<noteq> []" using True pos by auto
    have sorted: "sorted_wrt (\<lambda>a b. fst a < fst b) ?all" by (rule all_items_sorted(1)[OF assms(1)])
    have post: "sorted_wrt (\<lambda>a b. fst a < fst b) post"
      using sorted Suc.prems(3) by (auto simp: from_start_def sorted_wrt_filter split: option.splits)
    have mem: "last ?page \<in> set post" using last_in_set[OF ne] by (rule in_set_takeD)
    have next_items: "filter (\<lambda>x. ?last < fst x) ?all = drop ?limit post"
    proof -
      have le: "fst x \<le> ?last" if "x \<in> set ?page" for x
        using sorted_le_last[OF sorted_wrt_take[OF post] that] .
      have gt: "?last < fst x" if "x \<in> set (drop ?limit post)" for x
      proof -
        have "\<forall>a\<in>set ?page. \<forall>b\<in>set (drop ?limit post). fst a < fst b"
          using post sorted_wrt_append[of "\<lambda>a b. fst a < fst b" ?page "drop ?limit post"] unfolding append_take_drop_id by blast
        then show ?thesis using that last_in_set[OF ne] by blast
      qed
      have "filter (\<lambda>x. ?last < fst x) post = drop ?limit post"
      proof -
        have "filter (\<lambda>x. ?last < fst x) (?page @ drop ?limit post) = drop ?limit post"
          unfolding filter_append using le gt by (auto simp: filter_empty_conv filter_id_conv not_less)
        then show ?thesis by simp
      qed
      moreover have "filter (\<lambda>x. ?last < fst x) ?all = filter (\<lambda>x. ?last < fst x) post"
      proof (cases start)
        case None
        then show ?thesis using Suc.prems(3) by (simp add: from_start_def)
      next
        case (Some a)
        then have p: "post = filter (\<lambda>x. a < fst x) ?all" using Suc.prems(3) by (simp add: from_start_def)
        then have "a < ?last" using mem by auto
        then show ?thesis unfolding p filter_filter by (intro filter_cong) (auto intro: less_trans)
      qed
      ultimately show ?thesis by simp
    qed
    have "follow_listing k objs ?req = Some (item_entries (drop ?limit post), item_prefixes (drop ?limit post))"
    proof (rule Suc.IH)
      show "resume_after ?req = Inr (Some ?last)" by (simp add: resume_after_def token_roundtrip)
      show "from_start (Some ?last) (all_items objs (lr_prefix ?req) (lr_delimiter ?req)) = drop ?limit post"
        using next_items by (simp add: from_start_def)
      show "length (drop ?limit post) < k" using Suc.prems(4) pos True by simp
    qed (use Suc.prems(1) in simp)
    moreover have "item_entries ?page @ item_entries (drop ?limit post) = item_entries post"
      "item_prefixes ?page @ item_prefixes (drop ?limit post) = item_prefixes post"
      by (simp_all add: item_entries_def item_prefixes_def flip: concat_append map_append)
    ultimately show ?thesis using res True ne by simp
  qed
qed simp

end
