(* ===== verification/S3Namespace.thy ===== *)
theory S3Namespace
  imports NodeService
begin

text \<open>
  How S3 addresses name nodes (\<open>domain/s3/namespace.py\<close>): a bucket per subject, key segments as path
  segments, and the reserved prefix for what others share with the caller.
\<close>

record s3_target =
  st_owner_subject :: string
  st_path :: string
  st_via_shared :: bool

definition bucket_for_subject :: "string \<Rightarrow> string" where "bucket_for_subject subject = subject"
definition subject_for_bucket :: "string \<Rightarrow> string" where "subject_for_bucket bucket = bucket"

definition key_segments :: "text_rules \<Rightarrow> string \<Rightarrow> string list" where
  "key_segments T key = map (normalize_name T) (filter (\<lambda>part. part \<noteq> []) (split_on (CHR ''/'') key))"

definition segment_path :: "string list \<Rightarrow> string" where
  "segment_path segs = ''/'' @ join_with ''/'' segs"

definition resolve_shared_key :: "string \<Rightarrow> string list \<Rightarrow> error + s3_target" where
  "resolve_shared_key caller segs =
     (if length segs < 2 then Inl ValidationError
      else if segs ! 1 = caller then Inl ValidationError
      else Inr \<lparr>st_owner_subject = segs ! 1, st_path = segment_path (drop 2 segs), st_via_shared = True\<rparr>)"

definition resolve_key :: "text_rules \<Rightarrow> string \<Rightarrow> string \<Rightarrow> string \<Rightarrow> error + s3_target" where
  "resolve_key T caller bucket key =
     (if bucket \<noteq> caller then Inl NoSuchBucketError
      else let segs = key_segments T key in
        if segs \<noteq> [] \<and> segs ! 0 = SHARED_PREFIX then resolve_shared_key caller segs
        else Inr \<lparr>st_owner_subject = caller, st_path = segment_path segs, st_via_shared = False\<rparr>)"

definition s3_key_for :: "string \<Rightarrow> string \<Rightarrow> string \<Rightarrow> string" where
  "s3_key_for caller owner path =
     (let tail = lstrip_by (\<lambda>c. c = CHR ''/'') path in
      if owner = caller then tail
      else rstrip_by (\<lambda>c. c = CHR ''/'') (SHARED_PREFIX @ ''/'' @ owner @ ''/'' @ tail))"

section \<open>Segments\<close>

text \<open>A segment as names give it: not empty and without a slash.\<close>

definition plain_segment :: "string \<Rightarrow> bool" where
  "plain_segment s \<longleftrightarrow> s \<noteq> [] \<and> CHR ''/'' \<notin> set s"

lemma split_on_join:
  "segs \<noteq> [] \<Longrightarrow> (\<forall>s\<in>set segs. c \<notin> set s) \<Longrightarrow> split_on c (join_with [c] segs) = segs"
proof (induction segs rule: induct_list012)
  case (2 x)
  then show ?case by (induction x) auto
next
  case (3 x y zs)
  have "split_on c (x @ c # rest) = x # split_on c rest" if "c \<notin> set x" for rest
    using that by (induction x) auto
  with 3 show ?case by simp
qed simp

lemma split_on_app: "c \<notin> set x \<Longrightarrow> split_on c (x @ c # rest) = x # split_on c rest"
  by (induction x) auto

lemma key_segments_join:
  assumes "\<forall>s\<in>set segs. plain_segment s"
  shows "key_segments T (join_with ''/'' segs) = map (normalize_name T) segs"
proof (cases "segs = []")
  case False
  with assms have "split_on (CHR ''/'') (join_with ''/'' segs) = segs"
    by (intro split_on_join) (auto simp: plain_segment_def)
  moreover have "filter (\<lambda>part. part \<noteq> []) segs = segs" using assms by (auto simp: filter_id_conv plain_segment_def)
  ultimately show ?thesis by (simp add: key_segments_def)
qed (simp add: key_segments_def)

lemma key_segments_path:
  assumes "\<forall>s\<in>set segs. plain_segment s"
  shows "key_segments T (segment_path segs) = map (normalize_name T) segs"
  using key_segments_join[OF assms, of T] by (simp add: segment_path_def key_segments_def)

text \<open>Extending a key by a name adds a segment.\<close>

lemma key_segments_snoc:
  assumes "plain_segment s" "pre = [] \<or> last pre = CHR ''/''"
  shows "key_segments T (pre @ s) = key_segments T pre @ [normalize_name T s]"
    and "key_segments T (pre @ s @ ''/'') = key_segments T pre @ [normalize_name T s]"
proof -
  let ?c = "CHR ''/''"
  have "?c \<notin> set s" using assms(1) by (simp add: plain_segment_def)
  then have s: "split_on ?c s = [s]" "split_on ?c (s @ ''/'') = [s, []]" by (induction s) auto
  have app: "split_on ?c (a @ ?c # b) = split_on ?c a @ split_on ?c b" for a b
    by (induction a) (auto split: list.splits)
  have "filter (\<lambda>p. p \<noteq> []) (split_on ?c (pre @ r)) = filter (\<lambda>p. p \<noteq> []) (split_on ?c pre) @ filter (\<lambda>p. p \<noteq> []) (split_on ?c r)" for r
  proof (cases "pre = []")
    case False
    then obtain q where "pre = q @ [?c]" using assms(2) by (metis append_butlast_last_id)
    then show ?thesis using app[of q r] app[of q "[]"] by simp
  qed simp
  then show "key_segments T (pre @ s) = key_segments T pre @ [normalize_name T s]"
    "key_segments T (pre @ s @ ''/'') = key_segments T pre @ [normalize_name T s]"
    using s assms(1) by (simp_all add: key_segments_def plain_segment_def)
qed

section \<open>Round trip\<close>

lemma lstrip_path:
  assumes "\<forall>s\<in>set segs. plain_segment s"
  shows "lstrip_by (\<lambda>c. c = CHR ''/'') (segment_path segs) = join_with ''/'' segs"
proof (cases segs)
  case (Cons s rest)
  then obtain c s' where "s = c # s'" "c \<noteq> CHR ''/''" using assms by (cases s) (auto simp: plain_segment_def)
  then show ?thesis using Cons by (cases rest) (auto simp: segment_path_def lstrip_by_def)
qed (simp add: segment_path_def lstrip_by_def)

lemma join_last:
  assumes "segs \<noteq> []" "\<forall>s\<in>set segs. plain_segment s"
  shows "join_with ''/'' segs \<noteq> [] \<and> last (join_with ''/'' segs) \<noteq> CHR ''/''"
  using assms
proof (induction segs rule: induct_list012)
  case (2 x)
  then show ?case by (auto simp: plain_segment_def dest: last_in_set)
next
  case (3 x y zs)
  then show ?case by auto
qed simp

lemma rstrip_last: "s \<noteq> [] \<Longrightarrow> \<not> p (last s) \<Longrightarrow> rstrip_by p s = s"
  by (cases s rule: rev_cases) (simp_all add: rstrip_by_def)

lemma resolve_key_for:
  assumes "\<forall>s\<in>set segs. plain_segment s \<and> normalize_name T s = s"
    and "owner = caller \<Longrightarrow> segs = [] \<or> hd segs \<noteq> SHARED_PREFIX"
    and "owner \<noteq> caller \<Longrightarrow> plain_segment owner \<and> normalize_name T owner = owner \<and> normalize_name T SHARED_PREFIX = SHARED_PREFIX"
  shows "resolve_key T caller caller (s3_key_for caller owner (segment_path segs)) =
    Inr \<lparr>st_owner_subject = owner, st_path = segment_path segs, st_via_shared = (owner \<noteq> caller)\<rparr>"
proof (cases "owner = caller")
  case True
  have "key_segments T (join_with ''/'' segs) = segs"
    using key_segments_join[of segs T] assms(1) by (simp add: map_idI)
  then show ?thesis
    using True assms(2) lstrip_path[of segs] assms(1) by (cases segs) (auto simp: s3_key_for_def resolve_key_def Let_def)
next
  case False
  note o = assms(3)[OF False]
  let ?all = "SHARED_PREFIX # owner # segs"
  have plain: "\<forall>s\<in>set ?all. plain_segment s" using assms(1) o by (auto simp: plain_segment_def SHARED_PREFIX_def)
  have strip: "rstrip_by (\<lambda>c. c = CHR ''/'') (join_with ''/'' ?all) = join_with ''/'' ?all"
    using join_last[OF _ plain] by (intro rstrip_last) simp_all
  have "rstrip_by (\<lambda>c. c = CHR ''/'') (SHARED_PREFIX @ ''/'' @ owner @ ''/'' @ join_with ''/'' segs) = join_with ''/'' ?all"
  proof (cases segs)
    case Nil
    have "rstrip_by (\<lambda>c. c = CHR ''/'') ((SHARED_PREFIX @ ''/'' @ owner) @ replicate 1 (CHR ''/'')) = rstrip_by (\<lambda>c. c = CHR ''/'') (SHARED_PREFIX @ ''/'' @ owner)"
      by (simp add: rstrip_by_def)
    with strip Nil show ?thesis by simp
  next
    case (Cons s rest)
    then show ?thesis using strip by simp
  qed
  then have k: "s3_key_for caller owner (segment_path segs) = join_with ''/'' ?all"
    using False lstrip_path[of segs] assms(1) by (simp add: s3_key_for_def Let_def)
  have "key_segments T (join_with ''/'' ?all) = ?all"
    using key_segments_join[OF plain, of T] assms(1) o by (simp add: map_idI)
  then show ?thesis using False by (simp add: resolve_key_def k Let_def resolve_shared_key_def numeral_2_eq_2)
qed

end
