(* ===== verification/S3Multipart.thy ===== *)
theory S3Multipart
  imports S3Namespace Jobs
begin

text \<open>
  Multipart uploads (\<open>domain/s3/multipart.py\<close>): staging keys, entity tags, and the checks of a completion
  request against the staged parts. MD5 is a parameter, from bytes to the hexadecimal digest.
\<close>

definition STAGING_PREFIX :: string where "STAGING_PREFIX = ''multipart''"
definition MIN_PART_NUMBER :: int where "MIN_PART_NUMBER = 1"
definition MAX_PART_NUMBER :: int where "MAX_PART_NUMBER = 10000"

definition upload_target :: "multipart_upload \<Rightarrow> s3_target" where
  "upload_target up = \<lparr>st_owner_subject = mu_target_owner_subject up, st_path = mu_target_key up, st_via_shared = mu_via_shared up\<rparr>"

definition staged_prefix :: "string \<Rightarrow> string" where
  "staged_prefix upload_id = STAGING_PREFIX @ ''/'' @ upload_id @ ''/''"

definition staged_part_key :: "string \<Rightarrow> int \<Rightarrow> string" where
  "staged_part_key upload_id part_number = staged_prefix upload_id @ show_int part_number"

definition part_etag :: "string \<Rightarrow> string" where
  "part_etag md5_hex = [CHR 0x22] @ md5_hex @ [CHR 0x22]"

definition md5_hex_of :: "string \<Rightarrow> string" where
  "md5_hex_of tag =
     (let stripped = rstrip_by (\<lambda>c. c = CHR 0x22) (lstrip_by (\<lambda>c. c = CHR 0x22) tag) in
      case partition_at (CHR ''-'') stripped of (first, _, _) \<Rightarrow> first)"

text \<open>\<open>bytes.fromhex\<close>, which skips white space between the bytes and refuses anything else that is no pair of digits.\<close>

definition ascii_space :: "char \<Rightarrow> bool" where
  "ascii_space c \<longleftrightarrow> (let n = of_char c :: nat in (9 \<le> n \<and> n \<le> 13) \<or> n = 32)"

fun fromhex :: "string \<Rightarrow> bytes option" where
  "fromhex [] = Some []"
| "fromhex (a # s) =
     (if ascii_space a then fromhex s
      else (case s of
              [] \<Rightarrow> None
            | b # rest \<Rightarrow>
               (case (digit_value a, digit_value b) of
                  (Some x, Some y) \<Rightarrow> map_option ((#) (16 * x + y)) (fromhex rest)
                | _ \<Rightarrow> None)))"

definition multipart_etag :: "(bytes \<Rightarrow> string) \<Rightarrow> string list \<Rightarrow> error + string" where
  "multipart_etag md5 tags =
     (let digests = map (\<lambda>t. fromhex (md5_hex_of t)) tags in
      if None \<in> set digests then Inl CyberFSError
      else Inr ([CHR 0x22] @ md5 (concat (map the digests)) @ ''-'' @ show_nat (length tags) @ [CHR 0x22]))"

fun no_repeat :: "multipart_part list \<Rightarrow> int set \<Rightarrow> bool" where
  "no_repeat [] seen = True"
| "no_repeat (p # ps) seen = (mp_part_number p \<notin> seen \<and> no_repeat ps (insert (mp_part_number p) seen))"

definition order_parts :: "multipart_part list \<Rightarrow> error + multipart_part list" where
  "order_parts parts =
     (let ordered = sort_key mp_part_number parts in
      if no_repeat ordered {} then Inr ordered else Inl InvalidPartOrderError)"

text \<open>The dict comprehension by part number keeps the last part of a number.\<close>

definition by_number :: "multipart_part list \<Rightarrow> int \<Rightarrow> multipart_part option" where
  "by_number staged n = find (\<lambda>p. mp_part_number p = n) (rev staged)"

fun reconcile_loop :: "(int \<times> string) list \<Rightarrow> multipart_part list \<Rightarrow> int \<Rightarrow> error + multipart_part list" where
  "reconcile_loop [] staged prev = Inr []"
| "reconcile_loop ((number, tag) # rest) staged prev =
     (if number \<le> prev then Inl InvalidPartOrderError
      else (case by_number staged number of
              None \<Rightarrow> Inl InvalidPartError
            | Some part \<Rightarrow>
               if md5_hex_of (mp_etag part) \<noteq> md5_hex_of tag then Inl InvalidPartError
               else (case reconcile_loop rest staged number of Inl e \<Rightarrow> Inl e | Inr ps \<Rightarrow> Inr (part # ps))))"

definition reconcile_requested :: "(int \<times> string) list \<Rightarrow> multipart_part list \<Rightarrow> error + multipart_part list" where
  "reconcile_requested requested staged =
     (if requested = [] then Inl InvalidPartError else reconcile_loop requested staged 0)"

definition is_abandoned :: "multipart_upload \<Rightarrow> datetime \<Rightarrow> timedelta \<Rightarrow> bool" where
  "is_abandoned up now abandon \<longleftrightarrow> now - mu_created_at up \<ge> abandon"

section \<open>Lemmas\<close>

text \<open>A staged part is never taken for the object of a version.\<close>

lemma staged_key_foreign: "parse_object_key (staged_part_key upload_id n) = None"
proof -
  have m: "\<not> key_char (CHR ''m'')" by code_simp
  have no: "(if length k = 110 \<and> k ! 36 = CHR ''/'' \<and> k ! 73 = CHR ''/'' \<and> list_all key_char (take 36 k @ take 36 (drop 37 k) @ drop 74 k)
      then X else None) = None" if "k = CHR ''m'' # r" for k r and X :: "(uuid \<times> uuid) option"
    using m that by simp
  obtain t where t: "staged_part_key upload_id n = CHR ''m'' # CHR ''u'' # t"
    by (simp add: staged_part_key_def staged_prefix_def STAGING_PREFIX_def)
  have "(if staged_part_key upload_id n \<noteq> [] \<and> last (staged_part_key upload_id n) = CHR 0x0A then butlast (staged_part_key upload_id n)
      else staged_part_key upload_id n) = CHR ''m'' # (if last (staged_part_key upload_id n) = CHR 0x0A then butlast (CHR ''u'' # t) else CHR ''u'' # t)"
    by (simp add: t)
  from no[OF this] show ?thesis unfolding parse_object_key_def Let_def .
qed

lemma no_repeat_distinct: "no_repeat ps seen \<longleftrightarrow> distinct (map mp_part_number ps) \<and> seen \<inter> mp_part_number ` set ps = {}"
  by (induction ps arbitrary: seen) auto

lemma order_parts_ok: "order_parts parts = Inr ps \<longleftrightarrow> distinct (map mp_part_number parts) \<and> ps = sort_key mp_part_number parts"
proof -
  have "distinct (map mp_part_number (sort_key mp_part_number parts)) \<longleftrightarrow> distinct (map mp_part_number parts)" by (simp add: distinct_map)
  then show ?thesis by (auto simp: order_parts_def Let_def no_repeat_distinct split: if_splits)
qed

lemma reconcile_loop_ok:
  "reconcile_loop req staged prev = Inr ps \<Longrightarrow>
     map mp_part_number ps = map fst req \<and> set ps \<subseteq> set staged \<and> sorted_wrt (<) (prev # map mp_part_number ps) \<and>
     list_all2 (\<lambda>p (n, tag). md5_hex_of (mp_etag p) = md5_hex_of tag) ps req"
proof (induction req staged prev arbitrary: ps rule: reconcile_loop.induct)
  case (2 number tag rest staged prev)
  then obtain part qs where p: "by_number staged number = Some part" "prev < number" "md5_hex_of (mp_etag part) = md5_hex_of tag"
    "reconcile_loop rest staged number = Inr qs" "ps = part # qs"
    by (auto split: if_splits option.splits sum.splits)
  then have part: "part \<in> set staged" "mp_part_number part = number" by (auto simp: by_number_def find_Some_iff dest!: nth_mem[of _ "rev staged", simplified])
  have ih: "map mp_part_number qs = map fst rest \<and> set qs \<subseteq> set staged \<and> sorted_wrt (<) (number # map mp_part_number qs) \<and>
     list_all2 (\<lambda>p (n, tag). md5_hex_of (mp_etag p) = md5_hex_of tag) qs rest"
    by (rule 2(1)[OF _ p(1) _ p(4)]) (use p in simp_all)
  have "sorted_wrt (<) (number # map fst rest)" using ih by metis
  with ih p part show ?case by auto
qed simp

end
