(* ===== verification/S3Objects.thy ===== *)
theory S3Objects
  imports S3Listing S3Multipart Copying Sharing
begin

text \<open>
  S3 operations over the node and content services (\<open>application/s3_objects.py\<close>): resolving keys to nodes,
  reads, writes with their intermediate folders, multipart uploads, deletion and listing. MD5 is the
  parameter \<open>md5\<close>. The loops over pages and over folders take the number of turns they may make; \<open>None\<close>
  says these did not suffice, and the facts below show how many do.
\<close>

definition S3_DEFAULT_CONTENT_TYPE :: string where "S3_DEFAULT_CONTENT_TYPE = ''application/octet-stream''"
definition SHARED_ROOT_KEY :: string where "SHARED_ROOT_KEY = SHARED_PREFIX @ ''/''"

record bucket_info =
  bi_name :: string
  bi_created_at :: datetime

record head_info =
  hi_size :: int
  hi_etag :: string
  hi_last_modified :: datetime
  hi_content_type :: string

record delete_outcome =
  do_key :: string
  do_error_code :: "string option"

definition outcome_deleted :: "delete_outcome \<Rightarrow> bool" where
  "outcome_deleted r \<longleftrightarrow> do_error_code r = None"

section \<open>Helpers\<close>

definition entry_of :: "string \<Rightarrow> node \<Rightarrow> s3_entry" where
  "entry_of key n = \<lparr>se_key = key, se_size = nd_size_bytes n, se_etag = etag n, se_last_modified = nd_updated_at n,
     se_storage_class = ''STANDARD''\<rparr>"

definition split_key :: "text_rules \<Rightarrow> string \<Rightarrow> error + string list \<times> string" where
  "split_key T path =
     (let segs = key_segments T path in
      if segs = [] then Inl ValidationError else Inr (butlast segs, last segs))"

definition dir_segments :: "text_rules \<Rightarrow> string \<Rightarrow> string list" where
  "dir_segments T pre =
     (let segs = key_segments T pre in
      if pre \<noteq> [] \<and> last pre = CHR ''/'' then segs else butlast segs)"

definition require_own_bucket :: "user \<Rightarrow> string \<Rightarrow> error + unit" where
  "require_own_bucket u bucket = (if subject_for_bucket bucket \<noteq> us_subject u then Inl NoSuchBucketError else Inr ())"

definition node_path :: "db \<Rightarrow> node \<Rightarrow> string" where
  "node_path d n = path_of n (nodes_ancestors d (nd_id n) ANCESTOR_GUARD_DEPTH)"

fun descend_from :: "text_rules \<Rightarrow> db \<Rightarrow> node option \<Rightarrow> string list \<Rightarrow> node option" where
  "descend_from T d current [] = current"
| "descend_from T d current (s # segs) =
     (case current of
        None \<Rightarrow> None
      | Some n \<Rightarrow> if \<not> is_folder n then None
                 else descend_from T d (get_child_by_name T d (nd_id n) (normalize_name T s)) segs)"

definition descend :: "text_rules \<Rightarrow> db \<Rightarrow> uuid \<Rightarrow> string list \<Rightarrow> node option" where
  "descend T d start segs = descend_from T d (nodes_get d start) segs"

definition shared_roots :: "db \<Rightarrow> user \<Rightarrow> node list" where
  "shared_roots d u =
     (let grants = grants_list_for_subject d (us_subject u); granted_ids = gr_node_id ` set grants in
      List.map_filter (shared_root d granted_ids) grants)"

fun resolve_shared_in :: "text_rules \<Rightarrow> db \<Rightarrow> s3_target \<Rightarrow> string list \<Rightarrow> node list \<Rightarrow> node option" where
  "resolve_shared_in T d target segs [] = None"
| "resolve_shared_in T d target segs (root # roots) =
     (case users_get d (nd_owner_id root) of
        None \<Rightarrow> resolve_shared_in T d target segs roots
      | Some owner \<Rightarrow>
          if us_subject owner \<noteq> st_owner_subject target then resolve_shared_in T d target segs roots
          else let base = key_segments T (node_path d root) in
            if take (length base) segs \<noteq> base then resolve_shared_in T d target segs roots
            else let remaining = drop (length base) segs in
              if remaining = [] then Some root else descend T d (nd_id root) remaining)"

section \<open>Buckets and reads\<close>

definition list_buckets :: "user \<Rightarrow> bucket_info list" where
  "list_buckets u = [\<lparr>bi_name = bucket_for_subject (us_subject u), bi_created_at = us_created_at u\<rparr>]"

definition head_bucket :: "user \<Rightarrow> string \<Rightarrow> error + unit" where
  "head_bucket u bucket = require_own_bucket u bucket"

definition resolve_object :: "config \<Rightarrow> user \<Rightarrow> s3_target \<Rightarrow> node use_case" where
  "resolve_object C u target =
     bind (qdb (\<lambda>d. let segs = key_segments (cf_text C) (st_path target) in
        if st_via_shared target then resolve_shared_in (cf_text C) d target segs (shared_roots d u)
        else descend (cf_text C) d (us_root_folder_id u) segs)) (\<lambda>found.
     bind (expect found NoSuchKeyError) (\<lambda>n.
     seq (guard (\<not> is_folder n) NoSuchKeyError) (ret n)))"

definition head_object :: "config \<Rightarrow> user \<Rightarrow> s3_target \<Rightarrow> head_info use_case" where
  "head_object C u target =
     bind (resolve_object C u target) (\<lambda>n.
     ret \<lparr>hi_size = nd_size_bytes n, hi_etag = etag n, hi_last_modified = nd_updated_at n,
          hi_content_type = (case nd_content_type n of None \<Rightarrow> S3_DEFAULT_CONTENT_TYPE
                             | Some ct \<Rightarrow> if ct = [] then S3_DEFAULT_CONTENT_TYPE else ct)\<rparr>)"

definition get_object :: "config \<Rightarrow> user \<Rightarrow> s3_target \<Rightarrow> string option \<Rightarrow> download_plan use_case" where
  "get_object C u target range_header =
     bind (resolve_object C u target) (\<lambda>n. download C u (nd_id n) range_header None True None None)"

section \<open>Writes\<close>

definition write_root :: "s3_target \<Rightarrow> uuid use_case" where
  "write_root target =
     bind (qdb (\<lambda>d. users_get_by_subject d (st_owner_subject target))) (\<lambda>owner.
     bind (expect owner NoSuchKeyError) (\<lambda>ow. ret (us_root_folder_id ow)))"

definition child_or_create :: "config \<Rightarrow> user \<Rightarrow> uuid \<Rightarrow> string \<Rightarrow> uuid use_case" where
  "child_or_create C u parent_id name =
     bind (qdb (\<lambda>d. get_child_by_name (cf_text C) d parent_id (normalize_name (cf_text C) name))) (\<lambda>existing.
     case existing of
       Some n \<Rightarrow> seq (guard (\<not> is_file n) ValidationError) (ret (nd_id n))
     | None \<Rightarrow> bind (create_folder C u parent_id name INHERIT None) (\<lambda>v. ret (nd_id (nv_node v))))"

fun ensure_parents :: "config \<Rightarrow> user \<Rightarrow> uuid \<Rightarrow> string list \<Rightarrow> uuid use_case" where
  "ensure_parents C u current [] = ret current"
| "ensure_parents C u current (s # segs) =
     bind (child_or_create C u current s) (\<lambda>next_id. ensure_parents C u next_id segs)"

definition upload_stream ::
  "config \<Rightarrow> user \<Rightarrow> s3_target \<Rightarrow> stream \<Rightarrow> string option \<Rightarrow> int option \<Rightarrow> datetime option \<Rightarrow> node use_case" where
  "upload_stream C u target body content_type declared now =
     bind (lift (split_key (cf_text C) (st_path target))) (\<lambda>(parents, name).
     bind (write_root target) (\<lambda>start_id.
     bind (ensure_parents C u start_id parents) (\<lambda>parent_id.
     upload C u parent_id name body content_type declared None now)))"

definition put_object ::
  "config \<Rightarrow> user \<Rightarrow> s3_target \<Rightarrow> stream \<Rightarrow> string option \<Rightarrow> int option \<Rightarrow> node use_case" where
  "put_object C u target body content_type declared = upload_stream C u target body content_type declared None"

definition copy_object :: "nat \<Rightarrow> config \<Rightarrow> user \<Rightarrow> s3_target \<Rightarrow> s3_target \<Rightarrow> node option use_case" where
  "copy_object k C u source destination =
     bind (resolve_object C u source) (\<lambda>src_node.
     bind (lift (split_key (cf_text C) (st_path destination))) (\<lambda>(parents, name).
     bind (write_root destination) (\<lambda>start_id.
     bind (ensure_parents C u start_id parents) (\<lambda>parent_id.
     bind (copy k C u (nd_id src_node) parent_id (Some name) True None) (\<lambda>v.
     ret (map_option nv_node v))))))"

text \<open>\<open>DeleteObject\<close> treats a key that names nothing as deleted.\<close>

definition delete_object :: "config \<Rightarrow> user \<Rightarrow> s3_target \<Rightarrow> unit use_case" where
  "delete_object C u target w =
     (case resolve_object C u target w of
        (Inl NoSuchKeyError, w') \<Rightarrow> (Inr (), w')
      | (Inl e, w') \<Rightarrow> (Inl e, w')
      | (Inr n, w') \<Rightarrow> bind (delete C u (nd_id n) None None) (\<lambda>_. ret ()) w')"

text \<open>
  One key of a batch: an error of the domain becomes the outcome of that key. An exception that is none
  of the domain's (\<open>CyberFSError\<close> itself stands for those) ends the batch.
\<close>

definition delete_one :: "config \<Rightarrow> user \<Rightarrow> string \<Rightarrow> string \<Rightarrow> delete_outcome use_case" where
  "delete_one C u bucket key w =
     (case bind (lift (resolve_key (cf_text C) (us_subject u) bucket key)) (delete_object C u) w of
        (Inr _, w') \<Rightarrow> (Inr \<lparr>do_key = key, do_error_code = None\<rparr>, w')
      | (Inl e, w') \<Rightarrow>
          if e = CyberFSError then (Inl e, w')
          else (Inr \<lparr>do_key = key, do_error_code = Some (case s3_code e of None \<Rightarrow> ''AccessDenied'' | Some c \<Rightarrow> c)\<rparr>, w'))"

fun delete_objects :: "config \<Rightarrow> user \<Rightarrow> string \<Rightarrow> string list \<Rightarrow> delete_outcome list use_case" where
  "delete_objects C u bucket [] = ret []"
| "delete_objects C u bucket (key # keys) =
     bind (delete_one C u bucket key) (\<lambda>r. bind (delete_objects C u bucket keys) (\<lambda>rs. ret (r # rs)))"

section \<open>Multipart uploads\<close>

definition require_upload :: "user \<Rightarrow> string \<Rightarrow> multipart_upload use_case" where
  "require_upload u upload_id =
     bind (qdb (\<lambda>d. multipart_get d upload_id)) (\<lambda>found.
     bind (expect found NoSuchUploadError) (\<lambda>up.
     seq (guard (mu_initiator_subject up = us_subject u) NoSuchUploadError) (ret up)))"

definition create_multipart_upload ::
  "config \<Rightarrow> user \<Rightarrow> s3_target \<Rightarrow> string option \<Rightarrow> datetime option \<Rightarrow> string use_case" where
  "create_multipart_upload C u target content_type now =
     bind (lift (split_key (cf_text C) (st_path target))) (\<lambda>_.
     bind uuid4 (\<lambda>uid.
     bind (moment_of now) (\<lambda>moment.
     seq (mdb (multipart_create \<lparr>mu_upload_id = uuid_hex uid, mu_initiator_subject = us_subject u,
            mu_target_owner_subject = st_owner_subject target, mu_target_key = st_path target,
            mu_via_shared = st_via_shared target, mu_content_type = content_type, mu_created_at = moment\<rparr>))
         (ret (uuid_hex uid)))))"

text \<open>The digest covers the chunks the store pulls, which end at an empty one.\<close>

definition upload_part ::
  "(bytes \<Rightarrow> string) \<Rightarrow> user \<Rightarrow> string \<Rightarrow> int \<Rightarrow> stream \<Rightarrow> datetime option \<Rightarrow> string use_case" where
  "upload_part md5 u upload_id part_number body now =
     seq (require_upload u upload_id)
    (seq (guard (MIN_PART_NUMBER \<le> part_number \<and> part_number \<le> MAX_PART_NUMBER) InvalidArgumentError)
    (let key = staged_part_key upload_id part_number in
     bind (objects_put key body) (\<lambda>n.
     let tag = part_etag (md5 (concat (takeWhile (\<lambda>c. c \<noteq> []) (fst body)))) in
     bind (moment_of now) (\<lambda>moment.
     seq (mdb (multipart_add_part \<lparr>mp_upload_id = upload_id, mp_part_number = part_number, mp_etag = tag,
            mp_size = int n, mp_object_key = key, mp_uploaded_at = moment\<rparr>))
         (ret tag)))))"

text \<open>The parts' bytes one after the other; the first part that cannot be read ends the stream with its error.\<close>

fun assembled_stream :: "config \<Rightarrow> object_table \<Rightarrow> multipart_part list \<Rightarrow> stream" where
  "assembled_stream C objs [] = ([], None)"
| "assembled_stream C objs (p # ps) =
     (case objects_get C objs (mp_object_key p) 0 None of
        (chunks, Some e) \<Rightarrow> (chunks, Some e)
      | (chunks, None) \<Rightarrow> (case assembled_stream C objs ps of (more_chunks, ending) \<Rightarrow> (chunks @ more_chunks, ending)))"

definition discard_upload :: "string \<Rightarrow> multipart_part list \<Rightarrow> unit use_case" where
  "discard_upload upload_id parts =
     seq (for_each parts (\<lambda>p. objects_delete (mp_object_key p))) (mdb (multipart_delete upload_id))"

definition complete_multipart_upload ::
  "config \<Rightarrow> user \<Rightarrow> string \<Rightarrow> (int \<times> string) list \<Rightarrow> datetime option \<Rightarrow> node use_case" where
  "complete_multipart_upload C u upload_id requested now =
     bind (require_upload u upload_id) (\<lambda>up.
     bind (qdb (\<lambda>d. multipart_list_parts d upload_id)) (\<lambda>parts.
     bind (lift (order_parts parts)) (\<lambda>staged.
     bind (lift (reconcile_requested requested staged)) (\<lambda>chosen.
     bind (query (\<lambda>w. assembled_stream C (w_objects w) chosen)) (\<lambda>body.
     bind (upload_stream C u (upload_target up) body (mu_content_type up) (Some (sum_list (map mp_size chosen))) now) (\<lambda>n.
     seq (discard_upload upload_id staged) (ret n)))))))"

definition abort_multipart_upload :: "user \<Rightarrow> string \<Rightarrow> unit use_case" where
  "abort_multipart_upload u upload_id =
     seq (require_upload u upload_id)
    (bind (qdb (\<lambda>d. multipart_list_parts d upload_id)) (\<lambda>staged. discard_upload upload_id staged))"

definition list_parts :: "user \<Rightarrow> string \<Rightarrow> multipart_part list use_case" where
  "list_parts u upload_id =
     seq (require_upload u upload_id)
    (bind (qdb (\<lambda>d. multipart_list_parts d upload_id)) (\<lambda>parts. lift (order_parts parts)))"

section \<open>Listing\<close>

fun child_pages :: "nat \<Rightarrow> config \<Rightarrow> db \<Rightarrow> uuid \<Rightarrow> string option \<Rightarrow> (error + node list) option" where
  "child_pages 0 C d fid cursor = None"
| "child_pages (Suc k) C d fid cursor =
     (case nodes_list_children (cf_text C) d fid (cf_page_size_max C) cursor False of
        Inl e \<Rightarrow> Some (Inl e)
      | Inr pg \<Rightarrow>
         (case pg_next_cursor pg of
            None \<Rightarrow> Some (Inr (pg_items pg))
          | Some c \<Rightarrow> map_option (map_sum id (append (pg_items pg))) (child_pages k C d fid (Some c))))"

text \<open>The stack of folders still to visit, its top first.\<close>

fun walk :: "nat \<Rightarrow> config \<Rightarrow> db \<Rightarrow> (uuid \<times> string) list \<Rightarrow> (error + s3_entry list) option" where
  "walk k C d [] = Some (Inr [])"
| "walk 0 C d (x # stack) = None"
| "walk (Suc k) C d ((fid, pre) # stack) =
     (case child_pages (Suc (length (db_nodes d))) C d fid None of
        None \<Rightarrow> None
      | Some (Inl e) \<Rightarrow> Some (Inl e)
      | Some (Inr children) \<Rightarrow>
          map_option (map_sum id (append (map (\<lambda>c. entry_of (pre @ nd_name c) c) (filter is_file children))))
            (walk k C d (rev (map (\<lambda>c. (nd_id c, pre @ nd_name c @ ''/'')) (filter (\<lambda>c. \<not> is_file c) children)) @ stack)))"

definition walk_folder :: "nat \<Rightarrow> config \<Rightarrow> db \<Rightarrow> uuid \<Rightarrow> string \<Rightarrow> (error + s3_entry list) option" where
  "walk_folder k C d fid pre = walk k C d [(fid, pre)]"

definition gather_own :: "nat \<Rightarrow> config \<Rightarrow> db \<Rightarrow> user \<Rightarrow> string \<Rightarrow> (error + s3_entry list) option" where
  "gather_own k C d u pre =
     (let segs = dir_segments (cf_text C) pre in
      case descend (cf_text C) d (us_root_folder_id u) segs of
        None \<Rightarrow> Some (Inr [])
      | Some base \<Rightarrow>
          if is_file base then Some (Inr [])
          else walk_folder k C d (nd_id base) (concat (map (\<lambda>s. s @ ''/'') segs)))"

fun gather_roots :: "nat \<Rightarrow> config \<Rightarrow> db \<Rightarrow> user \<Rightarrow> node list \<Rightarrow> (error + s3_entry list) option" where
  "gather_roots k C d u [] = Some (Inr [])"
| "gather_roots k C d u (root # roots) =
     (case users_get d (nd_owner_id root) of
        None \<Rightarrow> gather_roots k C d u roots
      | Some owner \<Rightarrow>
         (let base_key = s3_key_for (us_subject u) (us_subject owner) (node_path d root) in
          case (if is_file root then Some (Inr [entry_of base_key root]) else walk_folder k C d (nd_id root) (base_key @ ''/'')) of
            None \<Rightarrow> None
          | Some (Inl e) \<Rightarrow> Some (Inl e)
          | Some (Inr es) \<Rightarrow> map_option (map_sum id (append es)) (gather_roots k C d u roots)))"

definition gather_shared :: "nat \<Rightarrow> config \<Rightarrow> db \<Rightarrow> user \<Rightarrow> (error + s3_entry list) option" where
  "gather_shared k C d u = gather_roots k C d u (shared_roots d u)"

definition list_objects :: "nat \<Rightarrow> config \<Rightarrow> db \<Rightarrow> user \<Rightarrow> string \<Rightarrow> list_request \<Rightarrow> (error + list_result) option" where
  "list_objects k C d u bucket req =
     (case require_own_bucket u bucket of
        Inl e \<Rightarrow> Some (Inl e)
      | Inr _ \<Rightarrow>
         (let segs = key_segments (cf_text C) (lr_prefix req);
              gathered =
                (if segs \<noteq> [] \<and> hd segs = SHARED_PREFIX then gather_shared k C d u
                 else (case gather_own k C d u (lr_prefix req) of
                         None \<Rightarrow> None
                       | Some (Inl e) \<Rightarrow> Some (Inl e)
                       | Some (Inr es) \<Rightarrow>
                           if prefix (lr_prefix req) SHARED_ROOT_KEY then map_option (map_sum id (append es)) (gather_shared k C d u)
                           else Some (Inr es)))
          in map_option (\<lambda>g. case g of Inl e \<Rightarrow> Inl e | Inr es \<Rightarrow> list_objects_v2 es req) gathered))"

end
