(* ===== verification/S3Facts.thy ===== *)
theory S3Facts
  imports S3Objects System
begin

text \<open>
  What S3 keys name and what a listing gathers: the walk over a folder ends and yields exactly the live
  files below it, under keys that resolve to them.
\<close>

section \<open>Children\<close>

lemma child_pages_follow:
  "follow k (\<lambda>c. nodes_list_children (cf_text C) d fid (cf_page_size_max C) c False) cursor = Some xs \<Longrightarrow>
   child_pages k C d fid cursor = Some (Inr xs)"
proof (induction k arbitrary: cursor xs)
  case (Suc k)
  then obtain pg where pg: "nodes_list_children (cf_text C) d fid (cf_page_size_max C) cursor False = Inr pg"
    by (auto split: sum.splits)
  with Suc show ?case by (auto split: option.splits)
qed simp

lemma child_pages_all:
  assumes "listable (cf_text C) d" "0 < cf_page_size_max C"
  shows "child_pages (Suc (length (db_nodes d))) C d fid None = Some (Inr (child_rows (cf_text C) d fid False))"
proof (rule child_pages_follow)
  have "length (child_rows (cf_text C) d fid False) < Suc (length (db_nodes d))" by (simp add: child_rows_def le_imp_less_Suc)
  then show "follow (Suc (length (db_nodes d))) (\<lambda>c. nodes_list_children (cf_text C) d fid (cf_page_size_max C) c False) None =
      Some (child_rows (cf_text C) d fid False)"
    by (rule children.follow_all[OF assms])
qed

lemma set_child_rows: "set (child_rows T d fid False) = {c \<in> set (db_nodes d). nd_parent_id c = Some fid \<and> \<not> is_deleted c}"
  by (auto simp: child_rows_def)

section \<open>The walk\<close>

text \<open>The live nodes below a folder with the keys of the walk.\<close>

inductive below :: "db \<Rightarrow> uuid \<Rightarrow> string \<Rightarrow> string \<Rightarrow> node \<Rightarrow> bool" for d where
  child: "c \<in> set (db_nodes d) \<Longrightarrow> nd_parent_id c = Some fid \<Longrightarrow> \<not> is_deleted c \<Longrightarrow> below d fid pre (pre @ nd_name c) c"
| deeper: "c \<in> set (db_nodes d) \<Longrightarrow> nd_parent_id c = Some fid \<Longrightarrow> \<not> is_deleted c \<Longrightarrow> \<not> is_file c \<Longrightarrow>
    below d (nd_id c) (pre @ nd_name c @ ''/'') key n \<Longrightarrow> below d fid pre key n"

inductive_simps below_iff: "below d fid pre key n"

definition files_below :: "db \<Rightarrow> uuid \<times> string \<Rightarrow> s3_entry set" where
  "files_below d x = {entry_of key n | key n. below d (fst x) (snd x) key n \<and> is_file n}"

lemma files_below_unfold:
  "files_below d (fid, pre) = (\<lambda>c. entry_of (pre @ nd_name c) c) ` {c \<in> set (child_rows T d fid False). is_file c} \<union>
     (\<Union>c\<in>{c \<in> set (child_rows T d fid False). \<not> is_file c}. files_below d (nd_id c, pre @ nd_name c @ ''/''))"
  unfolding files_below_def fst_conv snd_conv set_child_rows by (subst below_iff) blast

lemma walk_step:
  assumes "listable (cf_text C) d" "0 < cf_page_size_max C"
  defines "kids \<equiv> \<lambda>fid. child_rows (cf_text C) d fid False"
  shows "walk (Suc k) C d ((fid, pre) # stack) =
    map_option (map_sum id (append (map (\<lambda>c. entry_of (pre @ nd_name c) c) (filter is_file (kids fid)))))
      (walk k C d (rev (map (\<lambda>c. (nd_id c, pre @ nd_name c @ ''/'')) (filter (\<lambda>c. \<not> is_file c) (kids fid))) @ stack))"
  unfolding walk.simps child_pages_all[OF assms(1,2)] kids_def by simp

lemma walk_exact:
  assumes "listable (cf_text C) d" "0 < cf_page_size_max C"
  shows "walk k C d stack = Some r \<Longrightarrow> \<exists>es. r = Inr es \<and> set es = (\<Union>x\<in>set stack. files_below d x)"
proof (induction k arbitrary: stack r)
  case 0
  then show ?case by (cases stack) auto
next
  case (Suc k)
  show ?case
  proof (cases stack)
    case Nil
    with Suc.prems show ?thesis by simp
  next
    case (Cons x rest)
    obtain fid pre where x: "x = (fid, pre)" by (cases x)
    let ?kids = "child_rows (cf_text C) d fid False"
    let ?stack = "rev (map (\<lambda>c. (nd_id c, pre @ nd_name c @ ''/'')) (filter (\<lambda>c. \<not> is_file c) ?kids)) @ rest"
    from Suc.prems obtain r' where r': "walk k C d ?stack = Some r'"
      "r = map_sum id (append (map (\<lambda>c. entry_of (pre @ nd_name c) c) (filter is_file ?kids))) r'"
      unfolding Cons x walk_step[OF assms] by auto
    from Suc.IH[OF r'(1)] obtain es where "r' = Inr es" "set es = (\<Union>x\<in>set ?stack. files_below d x)" by blast
    moreover have "(\<Union>x\<in>set ?stack. files_below d x) = (\<Union>c\<in>{c \<in> set ?kids. \<not> is_file c}. files_below d (nd_id c, pre @ nd_name c @ ''/'')) \<union>
        (\<Union>x\<in>set rest. files_below d x)" by auto
    ultimately show ?thesis
      using r'(2) unfolding Cons x list.set UN_insert files_below_unfold[of d fid pre "cf_text C"] by auto
  qed
qed

lemma walk_mono: "walk k C d stack = Some r \<Longrightarrow> k \<le> k' \<Longrightarrow> walk k' C d stack = Some r"
proof (induction k arbitrary: stack r k')
  case 0
  then show ?case by (cases stack) auto
next
  case (Suc k)
  obtain j where j: "k' = Suc j" "k \<le> j" using Suc.prems(2) by (cases k') auto
  show ?case
  proof (cases stack)
    case Nil
    with Suc.prems show ?thesis by simp
  next
    case (Cons x rest)
    obtain fid pre where x: "x = (fid, pre)" by (cases x)
    obtain p where p: "child_pages (Suc (length (db_nodes d))) C d fid None = Some p"
      using Suc.prems(1) unfolding Cons x by (auto simp del: child_pages.simps split: option.splits)
    show ?thesis
    proof (cases p)
      case (Inl e)
      with Suc.prems(1) show ?thesis unfolding Cons x j walk.simps p by simp
    next
      case (Inr children)
      let ?stack = "rev (map (\<lambda>c. (nd_id c, pre @ nd_name c @ ''/'')) (filter (\<lambda>c. \<not> is_file c) children)) @ rest"
      from Suc.prems(1) Inr obtain r' where "walk k C d ?stack = Some r'"
        "r = map_sum id (append (map (\<lambda>c. entry_of (pre @ nd_name c) c) (filter is_file children))) r'"
        unfolding Cons x walk.simps p by auto
      moreover from Suc.IH[OF this(1) j(2)] have "walk j C d ?stack = Some r'" .
      ultimately show ?thesis using Inr unfolding Cons x j walk.simps p by simp
    qed
  qed
qed

text \<open>In a forest enough turns suffice.\<close>

lemma walk_ends:
  assumes l: "listable (cf_text C) d" and p: "0 < cf_page_size_max C"
  shows "\<exists>k r. walk k C d stack = Some r"
proof -
  have "acyclic (parent_rel (db_nodes d))" using l by (simp add: listable_def tree_inv_def)
  then have wf: "wf (parent_rel (db_nodes d))" using finite_parent_rel finite_acyclic_wf by blast
  have one: "\<forall>pre rest. (\<exists>k r. walk k C d rest = Some r) \<longrightarrow> (\<exists>k r. walk k C d ((fid, pre) # rest) = Some r)" for fid
  proof (induction fid rule: wf_induct_rule[OF wf])
    case (1 fid)
    have more: "\<exists>k r. walk k C d (map (\<lambda>c. (nd_id c, g c)) cs @ rest) = Some r"
      if "set cs \<subseteq> set (child_rows (cf_text C) d fid False)" "\<exists>k r. walk k C d rest = Some r" for cs g rest
      using that
    proof (induction cs)
      case (Cons c cs)
      then have "(nd_id c, fid) \<in> parent_rel (db_nodes d)" by (auto simp: set_child_rows parent_rel_def)
      with Cons 1 show ?case by (auto simp: set_child_rows parent_rel_def)
    qed simp
    show ?case
    proof (intro allI impI)
      fix pre rest
      assume "\<exists>k r. walk k C d rest = Some r"
      from more[OF _ this, of "rev (filter (\<lambda>c. \<not> is_file c) (child_rows (cf_text C) d fid False))" "\<lambda>c. pre @ nd_name c @ ''/''"]
      obtain k r where "walk k C d (rev (map (\<lambda>c. (nd_id c, pre @ nd_name c @ ''/'')) (filter (\<lambda>c. \<not> is_file c) (child_rows (cf_text C) d fid False))) @ rest) = Some r"
        by (auto simp: rev_map)
      then show "\<exists>k r. walk k C d ((fid, pre) # rest) = Some r"
        by (intro exI[of _ "Suc k"]) (simp add: walk_step[OF l p] del: walk.simps)
    qed
  qed
  show ?thesis
  proof (induction stack)
    case Nil
    then show ?case by (intro exI[of _ 0]) simp
  next
    case (Cons x stack)
    with one show ?case by (cases x) auto
  qed
qed

section \<open>Keys name what they list\<close>

text \<open>What the code relies on of NFC: it is idempotent, and it neither empties a segment nor brings in a slash.\<close>

definition nfc_law :: "text_rules \<Rightarrow> bool" where
  "nfc_law T \<longleftrightarrow> (\<forall>s. nfc T (nfc T s) = nfc T s \<and> (plain_segment s \<longrightarrow> plain_segment (nfc T s)))"

definition names_plain :: "db \<Rightarrow> bool" where
  "names_plain d \<longleftrightarrow> (\<forall>n\<in>set (db_nodes d). plain_segment (nd_name n))"

lemma descend_append: "descend_from T d cur (a @ b) = descend_from T d (descend_from T d cur a) b"
proof (induction a arbitrary: cur)
  case (Cons s a)
  then show ?case by (cases b) (auto split: option.splits)
qed simp

lemma child_found:
  assumes "tree_inv (db_nodes d)" "sibling_names_unique T (db_nodes d)" "c \<in> set (db_nodes d)" "nd_parent_id c = Some p" "\<not> is_deleted c"
  shows "get_child_by_name T d p (normalize_name T (nd_name c)) = Some c"
proof -
  have "normalized_name T c = normalize_name T (nd_name c)" by (simp add: normalized_name_def)
  moreover have "distinct (map nd_id (db_nodes d))" using assms(1) by (simp add: tree_inv_def)
  ultimately show ?thesis
    using assms child_by_name_None[of T d p "normalize_name T (nd_name c)"] child_by_name_Some[of T d p "normalize_name T (nd_name c)"]
      siblings_iff[of "db_nodes d" T]
    by (cases "get_child_by_name T d p (normalize_name T (nd_name c))") (blast, metis option.distinct(1))
qed

lemma file_or_folder: "\<not> is_file n \<longleftrightarrow> is_folder n"
  by (cases "nd_kind n") (auto simp: is_file_def is_folder_def)

lemma below_resolves:
  assumes "tree_inv (db_nodes d)" "sibling_names_unique T (db_nodes d)" "nfc_law T" "names_plain d"
  shows "below d fid pre key n \<Longrightarrow> pre = [] \<or> last pre = CHR ''/'' \<Longrightarrow> descend_from T d cur (key_segments T pre) = Some f \<Longrightarrow>
    nd_id f = fid \<Longrightarrow> is_folder f \<Longrightarrow> descend_from T d cur (key_segments T key) = Some n"
proof (induction arbitrary: f rule: below.induct)
  case (child c fid pre)
  have s: "plain_segment (nd_name c)" using child.hyps(1) assms(4) by (simp add: names_plain_def)
  have "normalize_name T (normalize_name T (nd_name c)) = normalize_name T (nd_name c)" using assms(3) by (simp add: nfc_law_def normalize_name_def)
  then show ?case
    using child child_found[OF assms(1,2) child.hyps] by (simp add: key_segments_snoc(1)[OF s child.prems(1)] descend_append)
next
  case (deeper c fid pre key n)
  have s: "plain_segment (nd_name c)" using deeper.hyps(1) assms(4) by (simp add: names_plain_def)
  have "normalize_name T (normalize_name T (nd_name c)) = normalize_name T (nd_name c)" using assms(3) by (simp add: nfc_law_def normalize_name_def)
  then have "descend_from T d cur (key_segments T (pre @ nd_name c @ ''/'')) = Some c"
    using deeper.prems child_found[OF assms(1,2) deeper.hyps(1-3)] by (simp add: key_segments_snoc(2)[OF s deeper.prems(1)] descend_append)
  then show ?case using deeper.IH[of c] deeper.hyps(4) by (simp add: file_or_folder)
qed

lemma key_segments_plain:
  assumes "nfc_law T"
  shows "key_segments T (segment_path (key_segments T key)) = key_segments T key"
proof -
  let ?segs = "key_segments T key"
  have raw: "plain_segment s" if "s \<in> set (split_on c key)" "s \<noteq> []" "c = CHR ''/''" for s c
  proof -
    have "c \<notin> set s" if "s \<in> set (split_on c k)" for s k
      using that by (induction k arbitrary: s) (auto split: list.splits if_splits)
    with that show ?thesis by (simp add: plain_segment_def)
  qed
  then have "\<forall>s\<in>set ?segs. plain_segment s" using assms by (auto simp: key_segments_def nfc_law_def normalize_name_def)
  from key_segments_path[OF this, of T] have "key_segments T (segment_path ?segs) = map (normalize_name T) ?segs" .
  also have "\<dots> = ?segs" using assms by (auto simp: key_segments_def nfc_law_def normalize_name_def)
  finally show ?thesis .
qed

text \<open>A file of the caller's tree is reached by the key of the walk, unless the key begins with the reserved segment.\<close>

lemma own_key_resolves:
  assumes "tree_inv (db_nodes d)" "sibling_names_unique T (db_nodes d)" "nfc_law T" "names_plain d" "T = cf_text C"
    and "nodes_get d (us_root_folder_id u) = Some root" "is_folder root" "below d (us_root_folder_id u) [] key n" "is_file n"
    and "hd (key_segments T key) \<noteq> SHARED_PREFIX" "w_db w = d"
  obtains t where "resolve_key T (us_subject u) (us_subject u) key = Inr t" "resolve_object C u t w = (Inr n, w)"
proof -
  let ?t = "\<lparr>st_owner_subject = us_subject u, st_path = segment_path (key_segments T key), st_via_shared = False\<rparr>"
  have id: "nd_id root = us_root_folder_id u" using assms(6) by (auto simp: nodes_get_def dest: row_by_Some)
  have "key_segments T [] = []" by (simp add: key_segments_def)
  then have found: "descend T d (us_root_folder_id u) (key_segments T key) = Some n"
    using below_resolves[OF assms(1-4,8), of "Some root" root] assms(6,7) id by (simp add: descend_def)
  have "resolve_key T (us_subject u) (us_subject u) key = Inr ?t"
    using assms(10) by (auto simp: resolve_key_def Let_def hd_conv_nth)
  moreover have "resolve_object C u ?t w = (Inr n, w)"
    using found assms(9,11) key_segments_plain[OF assms(3), of key] file_or_folder[of n]
    by (simp add: resolve_object_def bind_run seq_run Let_def expect_run guard_run flip: assms(5))
  ultimately show thesis by (rule that)
qed

section \<open>The caller's own tree\<close>

lemma gather_own_all:
  assumes "listable (cf_text C) d" "0 < cf_page_size_max C" "nodes_get d (us_root_folder_id u) = Some root" "is_folder root"
  obtains k0 es where "\<And>k. k0 \<le> k \<Longrightarrow> gather_own k C d u [] = Some (Inr es)"
    "set es = {entry_of key n | key n. below d (us_root_folder_id u) [] key n \<and> is_file n}"
proof -
  obtain k0 r where r: "walk k0 C d [(us_root_folder_id u, [])] = Some r" using walk_ends[OF assms(1,2)] by blast
  obtain es where es: "r = Inr es" "set es = files_below d (us_root_folder_id u, [])" using walk_exact[OF assms(1,2) r] by auto
  have id: "nd_id root = us_root_folder_id u" using assms(3) by (auto simp: nodes_get_def dest: row_by_Some)
  have "gather_own k C d u [] = Some (Inr es)" if "k0 \<le> k" for k
    using walk_mono[OF r that] es(1) assms(3,4) id file_or_folder[of root]
    by (simp add: gather_own_def dir_segments_def key_segments_def Let_def descend_def walk_folder_def)
  then show thesis using es(2) that[of k0 es] by (simp add: files_below_def)
qed

end
