(* ===== verification/S3Properties.thy ===== *)
theory S3Properties
  imports S3Facts Samples
begin

text \<open>What the S3 interface promises of listings, of keys and of multipart uploads.\<close>

section \<open>Listing pages\<close>

lemma item_entries_props:
  assumes "sorted_wrt (\<lambda>a b. fst a < fst b) items" "\<forall>(key, e)\<in>set items. \<forall>x. e = Some x \<longrightarrow> key = se_key x"
  shows "set (item_entries items) = {e. \<exists>key. (key, Some e) \<in> set items}"
    and "sorted_wrt (<) (map se_key (item_entries items))"
    and "set (item_prefixes items) = {cp. (cp, None) \<in> set items}" and "sorted_wrt (<) (item_prefixes items)"
proof -
  show entries: "set (item_entries items) = {e. \<exists>key. (key, Some e) \<in> set items}" for items
    by (induction items) (auto simp: item_entries_def split: option.splits)
  show prefixes: "set (item_prefixes items) = {cp. (cp, None) \<in> set items}" for items
    by (induction items) (auto simp: item_prefixes_def split: option.splits)
  show "sorted_wrt (<) (map se_key (item_entries items))" using assms
  proof (induction items)
    case (Cons x xs)
    obtain k e where x: "x = (k, e)" by (cases x)
    have tail: "sorted_wrt (<) (map se_key (item_entries xs))" using Cons by simp
    show ?case
    proof (cases e)
      case None
      then show ?thesis using tail x by (simp add: item_entries_def)
    next
      case (Some y)
      have "k < se_key z" if "z \<in> set (item_entries xs)" for z using that Cons.prems x entries[of xs] by fastforce
      moreover have "k = se_key y" "item_entries (x # xs) = y # item_entries xs" using Cons.prems(2) x Some by (auto simp: item_entries_def)
      ultimately show ?thesis using tail by simp
    qed
  qed (simp add: item_entries_def)
  show "sorted_wrt (<) (item_prefixes items)" using assms(1)
  proof (induction items)
    case (Cons x xs)
    obtain k e where x: "x = (k, e)" by (cases x)
    have "k < cp" if "cp \<in> set (item_prefixes xs)" for cp using that Cons.prems x prefixes[of xs] by fastforce
    with Cons x show ?case by (cases e) (auto simp: item_prefixes_def)
  qed (simp add: item_prefixes_def)
qed

text \<open>
  C22. Following the continuation tokens of \<open>ListObjectsV2\<close> ends, whatever the page size, and delivers in key
  order, each exactly once, the objects under the prefix that no delimiter cuts, and each common prefix
  that stands for at least one object; with \<open>start-after\<close>, those past it.
\<close>

theorem s3_listing_complete:
  assumes "distinct (map se_key objs)" "0 < lr_max_keys req" "lr_token req = None"
  shows "\<exists>k0 es cps. (\<forall>k. k0 \<le> k \<longrightarrow> follow_listing k objs req = Some (es, cps)) \<and>
    sorted_wrt (<) (map se_key es) \<and> sorted_wrt (<) cps \<and>
    set es = {e \<in> set objs. prefix (lr_prefix req) (se_key e) \<and> rolled_up (lr_prefix req) (lr_delimiter req) (se_key e) = None \<and>
      (\<forall>a. lr_start_after req = Some a \<longrightarrow> a < se_key e)} \<and>
    set cps = {cp. (\<exists>e\<in>set objs. prefix (lr_prefix req) (se_key e) \<and> rolled_up (lr_prefix req) (lr_delimiter req) (se_key e) = Some cp) \<and>
      (\<forall>a. lr_start_after req = Some a \<longrightarrow> a < cp)}"
proof -
  let ?all = "all_items objs (lr_prefix req) (lr_delimiter req)"
  let ?post = "from_start (lr_start_after req) ?all"
  note all = all_items_sorted[OF assms(1), of "lr_prefix req" "lr_delimiter req"]
  have members: "x \<in> set ?post \<longleftrightarrow> x \<in> set ?all \<and> (\<forall>a. lr_start_after req = Some a \<longrightarrow> a < fst x)" for x
    by (auto simp: from_start_def split: option.splits)
  have "sorted_wrt (\<lambda>a b. fst a < fst b) ?post"
    using all(1) by (auto simp: from_start_def sorted_wrt_filter split: option.splits)
  moreover have "\<forall>(key, e)\<in>set ?post. \<forall>x. e = Some x \<longrightarrow> key = se_key x" using members all(2) by auto
  note post = item_entries_props[OF calculation this]
  have "resume_after req = Inr (lr_start_after req)" using assms(3) by (simp add: resume_after_def)
  from follow_from[OF assms(1,2) this refl]
  have "\<forall>k. Suc (length ?post) \<le> k \<longrightarrow> follow_listing k objs req = Some (item_entries ?post, item_prefixes ?post)" by simp
  moreover have "set (item_entries ?post) = {e \<in> set objs. direct (lr_prefix req) (lr_delimiter req) e \<and>
      (\<forall>a. lr_start_after req = Some a \<longrightarrow> a < se_key e)}"
    unfolding post(1) members all(2) by auto
  moreover have "set (item_prefixes ?post) = {cp \<in> rollups (lr_prefix req) (lr_delimiter req) objs. \<forall>a. lr_start_after req = Some a \<longrightarrow> a < cp}"
    unfolding post(3) members all(2) by auto
  ultimately show ?thesis using post(2,4) unfolding direct_def rollups_def by blast
qed

definition sample_entry :: "string \<Rightarrow> s3_entry" where
  "sample_entry key = \<lparr>se_key = key, se_size = 1, se_etag = ''e'', se_last_modified = 0, se_storage_class = ''STANDARD''\<rparr>"

definition sample_request :: list_request where
  "sample_request = \<lparr>lr_prefix = ''p/'', lr_delimiter = ''/'', lr_max_keys = 1, lr_token = None, lr_start_after = None\<rparr>"

definition sample_entries :: "s3_entry list" where
  "sample_entries = map sample_entry [''p/b'', ''q'', ''p/d/x'', ''p/d/y'', ''p/a'']"

theorem s3_listing_complete_witness:
  "\<exists>k es cps. follow_listing k sample_entries sample_request = Some (es, cps) \<and>
     sorted_wrt (<) (map se_key es) \<and> sample_entry ''p/a'' \<in> set es \<and> sample_entry ''q'' \<notin> set es \<and> ''p/d/'' \<in> set cps"
proof -
  have req: "0 < lr_max_keys sample_request" "lr_token sample_request = None" "lr_prefix sample_request = ''p/''"
    "lr_delimiter sample_request = ''/''" "lr_start_after sample_request = None" by (simp_all add: sample_request_def)
  have keys: "distinct (map se_key sample_entries)" by (simp add: sample_entries_def sample_entry_def)
  obtain k0 es cps where run: "\<forall>k. k0 \<le> k \<longrightarrow> follow_listing k sample_entries sample_request = Some (es, cps)" "sorted_wrt (<) (map se_key es)"
    and es: "set es = {e \<in> set sample_entries. prefix ''p/'' (se_key e) \<and> rolled_up ''p/'' ''/'' (se_key e) = None}"
    and cps: "set cps = {cp. \<exists>e\<in>set sample_entries. prefix ''p/'' (se_key e) \<and> rolled_up ''p/'' ''/'' (se_key e) = Some cp}"
    using s3_listing_complete[OF keys req(1,2)] unfolding req by auto
  have "sample_entry ''p/a'' \<in> set sample_entries" "sample_entry ''p/d/x'' \<in> set sample_entries" by (simp_all add: sample_entries_def)
  moreover have "\<not> prefix ''p/'' (se_key (sample_entry ''q''))" "prefix ''p/'' (se_key (sample_entry ''p/a''))"
    "prefix ''p/'' (se_key (sample_entry ''p/d/x''))" by (simp_all add: sample_entry_def)
  moreover have "rolled_up ''p/'' ''/'' (se_key (sample_entry ''p/a'')) = None"
    "rolled_up ''p/'' ''/'' (se_key (sample_entry ''p/d/x'')) = Some ''p/d/''" by code_simp+
  ultimately have "sample_entry ''p/a'' \<in> set es" "sample_entry ''q'' \<notin> set es" "''p/d/'' \<in> set cps" unfolding es cps by blast+
  with run show ?thesis by blast
qed

section \<open>Keys of the caller's own tree\<close>

text \<open>
  C23. Listing the caller's own tree over S3 ends and yields exactly the live files below the root folder,
  and the key it gives a file resolves to that file, unless its first segment is the reserved name. What
  the code relies on of NFC is the law \<open>nfc_law\<close>.
\<close>

theorem s3_own_view_exact:
  assumes "fs_inv C w" "listable (cf_text C) (w_db w)" "0 < cf_page_size_max C" "nfc_law (cf_text C)" "names_plain (w_db w)"
    and "nodes_get (w_db w) (us_root_folder_id u) = Some root" "is_folder root"
  shows "\<exists>k0 es. (\<forall>k. k0 \<le> k \<longrightarrow> gather_own k C (w_db w) u [] = Some (Inr es)) \<and>
    set es = {entry_of key n | key n. below (w_db w) (us_root_folder_id u) [] key n \<and> is_file n} \<and>
    (\<forall>key n. below (w_db w) (us_root_folder_id u) [] key n \<and> is_file n \<and> hd (key_segments (cf_text C) key) \<noteq> SHARED_PREFIX \<longrightarrow>
       (\<exists>t. resolve_key (cf_text C) (us_subject u) (us_subject u) key = Inr t \<and> resolve_object C u t w = (Inr n, w)))"
proof -
  have tree: "tree_inv (db_nodes (w_db w))" "sibling_names_unique (cf_text C) (db_nodes (w_db w))"
    using assms(1) by (auto simp: fs_inv_def store_inv_def)
  obtain k0 es where "\<And>k. k0 \<le> k \<Longrightarrow> gather_own k C (w_db w) u [] = Some (Inr es)"
    "set es = {entry_of key n | key n. below (w_db w) (us_root_folder_id u) [] key n \<and> is_file n}"
    by (rule gather_own_all[OF assms(2,3,6,7)]) blast
  moreover have "\<exists>t. resolve_key (cf_text C) (us_subject u) (us_subject u) key = Inr t \<and> resolve_object C u t w = (Inr n, w)"
    if "below (w_db w) (us_root_folder_id u) [] key n" "is_file n" "hd (key_segments (cf_text C) key) \<noteq> SHARED_PREFIX" for key n
    by (rule own_key_resolves[OF tree assms(4,5) refl assms(6,7) that refl]) blast
  ultimately show ?thesis by blast
qed

theorem s3_own_view_exact_witness:
  "\<exists>es t. (\<exists>k. gather_own k sample_config sample_db alice [] = Some (Inr es)) \<and>
     entry_of ''docs/drafts/a.txt'' (sample_node 13 3 FILE ''a.txt'' (Some 12) None (Some 31) 5) \<in> set es \<and>
     resolve_object sample_config alice t sample_world = (Inr (sample_node 13 3 FILE ''a.txt'' (Some 12) None (Some 31) 5), sample_world)"
proof -
  let ?n = "sample_node 13 3 FILE ''a.txt'' (Some 12) None (Some 31) 5"
  have "list_all (\<lambda>r. nd_id r < 2 ^ 8 \<and> CURSOR_SEPARATOR \<notin> set (normalized_name ascii_rules r) \<and> plain_segment (nd_name r)) sample_nodes"
    by code_simp
  then have rows: "\<forall>r\<in>set sample_nodes. nd_id r < 2 ^ 8 \<and> CURSOR_SEPARATOR \<notin> set (normalized_name ascii_rules r)"
    "\<forall>r\<in>set sample_nodes. plain_segment (nd_name r)" by (auto simp: list_all_iff)
  moreover have "(2::nat) ^ 8 \<le> 2 ^ 128" by simp
  ultimately have "listable ascii_rules sample_db" using sample_tree by (auto simp: listable_def)
  moreover have "names_plain sample_db" using rows(2) by (simp add: names_plain_def)
  moreover have "nfc_law ascii_rules" by (simp add: nfc_law_def ascii_rules_def)
  moreover have "0 < cf_page_size_max sample_config" by code_simp
  moreover have "nodes_get sample_db 10 = Some (sample_node 10 3 FOLDER ''root'' None None None 0)"
    "is_folder (sample_node 10 3 FOLDER ''root'' None None None 0)" "is_file ?n" by code_simp+
  moreover have "below sample_db 10 [] ''docs/drafts/a.txt'' ?n"
  proof -
    let ?docs = "sample_node 11 3 FOLDER ''docs'' (Some 10) None None 0" and ?drafts = "sample_node 12 3 FOLDER ''drafts'' (Some 11) None None 0"
    have rows: "?docs \<in> set (db_nodes sample_db)" "?drafts \<in> set (db_nodes sample_db)" "?n \<in> set (db_nodes sample_db)"
      by (simp_all add: sample_nodes_def)
    have "below sample_db 12 ''docs/drafts/'' ''docs/drafts/a.txt'' ?n"
      using below.child[OF rows(3), of 12 "''docs/drafts/''"] by (simp add: sample_node_def is_deleted_def)
    then have "below sample_db 11 ''docs/'' ''docs/drafts/a.txt'' ?n"
      using below.deeper[OF rows(2), of 11 "''docs/''"] by (simp add: sample_node_def is_deleted_def is_file_def)
    then show ?thesis using below.deeper[OF rows(1), of 10 "[]"] by (simp add: sample_node_def is_deleted_def is_file_def)
  qed
  moreover have "hd (key_segments ascii_rules ''docs/drafts/a.txt'') \<noteq> SHARED_PREFIX" by code_simp
  moreover obtain k0 es where "\<forall>k. k0 \<le> k \<longrightarrow> gather_own k sample_config sample_db alice [] = Some (Inr es)"
    "set es = {entry_of key n | key n. below sample_db 10 [] key n \<and> is_file n}"
    "\<forall>key n. below sample_db 10 [] key n \<and> is_file n \<and> hd (key_segments ascii_rules key) \<noteq> SHARED_PREFIX \<longrightarrow>
       (\<exists>t. resolve_key ascii_rules ''alice'' ''alice'' key = Inr t \<and> resolve_object sample_config alice t sample_world = (Inr n, sample_world))"
    using s3_own_view_exact[OF sample_inv, of alice "sample_node 10 3 FOLDER ''root'' None None None 0"] calculation by auto
  ultimately show ?thesis by blast
qed

section \<open>Multipart uploads\<close>

lemma assembled_bytes:
  assumes "0 < cf_part_bytes C" "\<forall>p\<in>set parts. objects_lookup objs (mp_object_key p) = Some (stored p)"
  shows "snd (assembled_stream C objs parts) = None \<and>
    concat (fst (assembled_stream C objs parts)) = concat (map (\<lambda>p. so_bytes (stored p)) parts)"
  using assms(2)
proof (induction parts)
  case (Cons p parts)
  have "objects_get C objs (mp_object_key p) 0 None = (pieces (cf_part_bytes C) (so_bytes (stored p)), None)"
    "concat (pieces (cf_part_bytes C) (so_bytes (stored p))) = so_bytes (stored p)"
    using Cons.prems assms(1) by (simp_all add: objects_get_def concat_pieces)
  with Cons show ?case by (auto split: prod.splits)
qed simp

text \<open>
  C24. Completing a multipart upload, by the user who started it and with the staged parts named in
  ascending order with their tags, is a single upload of the parts' bytes, joined in the order of the
  part numbers, to the key the upload was started for, after which every staged part is discarded.
\<close>

theorem s3_multipart_assembles:
  assumes "multipart_get (w_db w) uid = Some up" "mu_initiator_subject up = us_subject u"
    and "distinct (map mp_part_number (multipart_list_parts (w_db w) uid))"
    and "reconcile_requested requested (multipart_list_parts (w_db w) uid) = Inr chosen"
    and "\<forall>p\<in>set chosen. objects_lookup (w_objects w) (mp_object_key p) = Some (stored p)" "0 < cf_part_bytes C"
  shows "map mp_part_number chosen = map fst requested \<and> sorted_wrt (<) (map mp_part_number chosen) \<and>
    set chosen \<subseteq> set (multipart_list_parts (w_db w) uid) \<and>
    (\<exists>chunks. concat chunks = concat (map (\<lambda>p. so_bytes (stored p)) chosen) \<and>
      complete_multipart_upload C u uid requested now w =
        bind (upload_stream C u (upload_target up) (chunks, None) (mu_content_type up) (Some (sum_list (map mp_size chosen))) now)
          (\<lambda>n. seq (discard_upload uid (multipart_list_parts (w_db w) uid)) (ret n)) w)"
proof -
  let ?staged = "multipart_list_parts (w_db w) uid"
  have "sort_key mp_part_number ?staged = ?staged" by (simp add: multipart_list_parts_def sort_key_id_if_sorted)
  then have ordered: "order_parts ?staged = Inr ?staged" using assms(3) by (simp add: order_parts_ok)
  have loop: "reconcile_loop requested ?staged 0 = Inr chosen" using assms(4) by (simp add: reconcile_requested_def split: if_splits)
  obtain chunks e where body: "assembled_stream C (w_objects w) chosen = (chunks, e)" by force
  have "e = None" "concat chunks = concat (map (\<lambda>p. so_bytes (stored p)) chosen)" using assembled_bytes[OF assms(6,5)] body by simp_all
  moreover have "require_upload u uid w = (Inr up, w)"
    using assms(1,2) by (simp add: require_upload_def bind_run seq_run expect_run guard_run)
  moreover have "complete_multipart_upload C u uid requested now w =
        bind (upload_stream C u (upload_target up) (chunks, None) (mu_content_type up) (Some (sum_list (map mp_size chosen))) now)
          (\<lambda>n. seq (discard_upload uid ?staged) (ret n)) w"
    unfolding complete_multipart_upload_def using calculation ordered assms(4) body by (simp add: bind_run)
  ultimately show ?thesis using reconcile_loop_ok[OF loop] by auto
qed

definition sample_part :: "int \<Rightarrow> multipart_part" where
  "sample_part n = \<lparr>mp_upload_id = ''up'', mp_part_number = n, mp_etag = ''e'', mp_size = 2,
     mp_object_key = staged_part_key ''up'' n, mp_uploaded_at = 0\<rparr>"

definition multipart_world :: world where
  "multipart_world = sample_world
     \<lparr>w_db := sample_db
        \<lparr>db_uploads := [\<lparr>mu_upload_id = ''up'', mu_initiator_subject = ''alice'', mu_target_owner_subject = ''alice'',
            mu_target_key = ''/big'', mu_via_shared = False, mu_content_type = None, mu_created_at = 0\<rparr>],
         db_parts := [sample_part 3, sample_part 1]\<rparr>,
      w_objects := [(staged_part_key ''up'' 3, \<lparr>so_bytes = [7, 8], so_modified = Some 0\<rparr>), (staged_part_key ''up'' 1, \<lparr>so_bytes = [5, 6], so_modified = Some 0\<rparr>)]\<rparr>"

theorem s3_multipart_assembles_witness:
  "\<exists>up chunks. concat chunks = [5, 6, 7, 8] \<and>
     complete_multipart_upload sample_config alice ''up'' [(1, ''e''), (3, ''e'')] None multipart_world =
       bind (upload_stream sample_config alice (upload_target up) (chunks, None) (mu_content_type up) (Some 4) None)
         (\<lambda>n. seq (discard_upload ''up'' [sample_part 1, sample_part 3]) (ret n)) multipart_world"
proof -
  let ?stored = "\<lambda>p. the (objects_lookup (w_objects multipart_world) (mp_object_key p))"
  have digits: "show_nat 3 \<noteq> show_nat (Suc 0)" by code_simp
  have parts: "multipart_list_parts (w_db multipart_world) ''up'' = [sample_part 1, sample_part 3]" by code_simp
  have "multipart_get (w_db multipart_world) ''up'' = Some (hd (db_uploads (w_db multipart_world)))"
    "mu_initiator_subject (hd (db_uploads (w_db multipart_world))) = us_subject alice"
    by (simp_all add: multipart_get_def multipart_world_def row_by_def)
  moreover have "distinct (map mp_part_number [sample_part 1, sample_part 3])" by code_simp
  moreover have "reconcile_requested [(1, ''e''), (3, ''e'')] [sample_part 1, sample_part 3] = Inr [sample_part 1, sample_part 3]" by code_simp
  moreover have "list_all (\<lambda>p. objects_lookup (w_objects multipart_world) (mp_object_key p) \<noteq> None) [sample_part 1, sample_part 3]" by code_simp
  then have "\<forall>p\<in>set [sample_part 1, sample_part 3]. objects_lookup (w_objects multipart_world) (mp_object_key p) = Some (?stored p)"
    by (auto simp: list_all_iff)
  moreover have "concat (map (\<lambda>p. so_bytes (?stored p)) [sample_part 1, sample_part 3]) = [5, 6, 7, 8]"
    "sum_list (map mp_size [sample_part 1, sample_part 3]) = 4"
    by (simp_all add: multipart_world_def objects_lookup_def sample_part_def staged_part_key_def show_int_def digits)
  moreover have "0 < cf_part_bytes sample_config" by code_simp
  ultimately show ?thesis
    using s3_multipart_assembles[of multipart_world "''up''" _ alice "[(1, ''e''), (3, ''e'')]" "[sample_part 1, sample_part 3]" ?stored sample_config None]
    unfolding parts by metis
qed

end
