(* ===== verification/Spec2Isabelle.thy ===== *)
theory Spec2Isabelle
  imports CipherProperties ContentProperties SharingProperties ScheduleProperties OperationsProperties S3Properties Activity
begin

text \<open>
  CyberFS (under \<open>src/src/cyberfs\<close>) is a multi-user file store: users keep folders and files, share them
  with roles, publish links to them, optionally have their content encrypted, and reach them over REST,
  WebDAV or S3. The metadata is in PostgreSQL, the bytes are in an S3-compatible object store, and roles
  are cached in Redis. This library models the domain rules, the application services and the repositories
  and adapters the services call, and proves what they promise.

  \<^bold>\<open>How the parts work together.\<close> A request is resolved to an account (\<open>application/provisioning.py\<close>), runs
  one use case of a service inside a unit of work and commits; an error rolls the database back. Every
  use case on a node first computes the caller's role from the grants on the node and its ancestors,
  through the cache. Content is written to the object store under a key made of node and version before
  the rows that name it; encrypted content is cut into frames sealed under a data key that is wrapped for
  each user who may read it. Jobs purge expired trash, reap orphaned objects, recompute quotas, prune
  activity and complete deferred shares.

  \<^bold>\<open>The model of the language.\<close> \<open>Prelude\<close> has the exception-and-state monad (\<open>use_case\<close>) in which the
  services are written: \<open>Inl\<close> an exception, \<open>Inr\<close> a result, the state in either case. An uncaught Python
  exception is \<open>Inl CyberFSError\<close>. A string is a list of code points up to U+00FF, bytes are numbers below
  256, an identifier is its integer value, an instant a number of microseconds in UTC. An asynchronous
  body is the list of its chunks with the error that ends it, if any. \<open>Rendering\<close> and \<open>Calendar\<close> have the
  parts of Python's standard library the sources use: decimal, hexadecimal and UUID renderings and the
  Gregorian calendar.

  \<^bold>\<open>The state.\<close> \<open>World\<close> has the record \<open>world\<close>: the database (\<open>db\<close>, one list of rows a table, of \<open>Store\<close>),
  the object table, the cache, the windows of the rate limiter, and the streams that identifiers and random
  bytes are drawn from. A stored object's modification time may be unknown, as the store may not report
  it. \<open>transaction\<close> restores only the database when a use case fails: objects, cache
  entries, recorded attempts and drawn identifiers stay, as they do in the program. The unique indexes
  whose violation the unit of work translates enter as \<open>integrity_error\<close>, checked at each flush. The record \<open>config\<close> has the settings the services read.

  \<^bold>\<open>Theories and sources.\<close>
  \<^item> \<open>Errors\<close>: \<open>domain/errors.py\<close> and the status table of \<open>adapters/inbound/api/errors.py\<close>.
  \<^item> \<open>Roles\<close>, \<open>Nodes\<close>, \<open>Labels\<close>, \<open>Auth\<close>, \<open>Users\<close>, \<open>Auditing\<close>, \<open>Activity\<close>, \<open>Search\<close>, \<open>Pagination\<close>, \<open>RateLimit\<close>,
    \<open>Links\<close>, \<open>Cache\<close>, \<open>Framing\<close>, \<open>Schedule\<close>: the modules of \<open>domain\<close> of those names, with the auth package,
    the Redis adapter and the cache service.
  \<^item> \<open>Store\<close>, \<open>Repositories\<close>, \<open>World\<close>: \<open>adapters/outbound/db\<close> (models, repositories, unit of work) and audit
    emission. \<open>Objects\<close>: \<open>adapters/outbound/objects/minio_store.py\<close>. \<open>Cipher\<close>, \<open>KeyProvider\<close>:
    \<open>adapters/outbound/cipher.py\<close> and \<open>crypto.py\<close>.
  \<^item> \<open>NodeService\<close>, \<open>Trash\<close>, \<open>Copying\<close>: \<open>application/nodes.py\<close>. \<open>Purge\<close>, \<open>Encryption\<close>, \<open>Content\<close>, \<open>Sharing\<close>,
    \<open>Provisioning\<close>, \<open>Jobs\<close>: the modules of \<open>application\<close> of those names.
  \<^item> \<open>S3Listing\<close>, \<open>S3Namespace\<close>, \<open>S3Multipart\<close>: \<open>domain/s3\<close>. \<open>S3Objects\<close>: \<open>application/s3_objects.py\<close>.
  \<^item> \<open>System\<close>: node and content requests as a state machine. \<open>Samples\<close>: the deployment the witnesses run on.

  \<^bold>\<open>What the lemmas show.\<close>
  \<^item> \<open>Tree\<close>, \<open>NodeFacts\<close>, \<open>NodeInvariants\<close>, \<open>NodeSteps\<close>, \<open>ContentFacts\<close>, \<open>ContentSteps\<close>, \<open>CopySteps\<close>,
    \<open>Shrinking\<close>, \<open>SystemInvariants\<close>: what each use case that returned has checked and written, and that each keeps the
    forest, the uniqueness of live names, the version rows, the roots and the freshness of identifiers. A
    copy adds rows below the destination only, and its loop ends (\<open>copy_finishes\<close>). The
    locale \<open>transition_system\<close>, interpreted on \<open>serve\<close>, carries this to every sequence of requests.
  \<^item> \<open>Access\<close>, \<open>CacheCoherence\<close>: the role is the greatest grant on the path, and when the cache agrees with it.
    \<open>healthy\<close> is a reachable cache with a closed circuit breaker.
  \<^item> \<open>NodeProgress\<close>, \<open>TrashProgress\<close>, \<open>ContentProgress\<close>: with its guards satisfied an operation returns.
    Where an operation invalidates the cache after its write, this needs \<open>cache_serves\<close>: the cache tier is
    off, or its server answers. An unreachable server fails the write until the circuit breaker opens.
    \<open>TrashRoundTrip\<close>: restore undoes delete.
  \<^item> \<open>Keyset\<close>: the locale \<open>keyset\<close>, for any listing whose cursor names the last row seen, gives that following
    the cursors delivers every row once and ends; it is interpreted on the children of a folder, the trash,
    the search and the list of users. \<open>S3Listing\<close> shows the same of S3 tokens.
  \<^item> \<open>Sealing\<close>, \<open>CipherProperties\<close>: streaming sealing against the description by whole frames, range reads,
    altered objects, master key rotation. \<open>ContentRoundTrip\<close>, \<open>ContentLimits\<close>, \<open>ContentProperties\<close>: what is
    written is read back; retention and quota.
  \<^item> \<open>SharingFacts\<close>, \<open>GrantFacts\<close>, \<open>LinkFacts\<close>, \<open>TransferFacts\<close>, \<open>SharingProperties\<close>: grants, revocation, links,
    transfer of ownership. \<open>RateLimit\<close> has the locale \<open>throttle\<close>, interpreted on the fixed-window limiter.
  \<^item> \<open>JobFacts\<close>, \<open>OperationsProperties\<close>: reaper, reconciliation, deferred shares and first-touch accounts.
    An orphan is described apart from the code, by the fields of its key, the version rows and its age.
    \<open>S3Facts\<close>, \<open>S3Properties\<close>: listings, keys and multipart uploads. \<open>ScheduleProperties\<close>: the next run.
  \<^item> This theory: the properties of the node service and of the store that span components.

  \<^bold>\<open>Parameters.\<close> Code outside the repository is an argument: Unicode normalization, case folding and SQL
  \<open>lower\<close> (\<open>text_rules\<close>), SHA-256, MD5, scrypt, AES-GCM (\<open>aead\<close>, with \<open>aead_law\<close> that opening inverts sealing
  and \<open>unforged\<close> for authenticity), Redis glob matching and the user directory. Each law is a named
  hypothesis, and the witnesses satisfy it with concrete functions.

  \<^bold>\<open>Bounds.\<close> The guards of the code are kept: the depth limits of ancestor walks and cycle checks, the page
  sizes, the purge budget and the year the schedule search looks ahead. Where the code has a loop without a
  bound, the model has fuel as its first argument and \<open>None\<close> as its exhaustion: \<open>follow\<close> and
  \<open>follow_listing\<close> (a client that follows cursors; more than the number of rows suffices), \<open>child_pages\<close>
  (run with one more than the number of nodes), \<open>walk\<close> (\<open>walk_ends\<close>: in a forest some fuel suffices and more
  changes nothing) and \<open>copy_subtree\<close>, which \<open>serve\<close> runs with one turn for each row of the node table
  (\<open>copy_finishes\<close>: then it never runs out). Theorems say that enough fuel gives the result.

  \<^bold>\<open>Not modelled.\<close> Interleaving of requests (each use case runs alone; the advisory locks and coalescing of
  the code are for what interleaves; the scan and the deletions of a cache invalidation are one step); the
  unique constraints the unit of work does not translate, such as the subject of a user or the token hash of
  a link, which without interleaving only a collision of random values breaks; S3 request signing and access keys; the HTTP, S3 and WebDAV routers and
  their schemas; the clients of the identity service; reporting queries; backup and restore, which drive
  external programs; logging and metrics; text beyond U+00FF.
\<close>

section \<open>The store\<close>

text \<open>
  C1. Whatever sequence of requests is served, returning or failing, the node table stays a
  forest with unique identifiers and without dangling parents, live siblings keep distinct normalized
  names, version rows belong to nodes, every user keeps a live root folder, and identifiers not yet
  drawn stay unused. The requests are the operations of the node service that write, its copy included,
  the label operations and the operations of the content service. The configured depth limit must not
  exceed the bound of the cycle check.
\<close>

theorem requests_keep_invariant:
  assumes "cf_max_tree_depth C \<le> CYCLE_GUARD_DEPTH" "fs_inv C w"
  shows "fs_inv C (fold (serve C) requests w)"
  using fs.run_inv[of C w requests] assms by (simp add: served_inv_def)

theorem requests_keep_invariant_witness:
  "fs_inv sample_config (fold (serve sample_config)
     [(3, Move 12 10 None), (3, Copy 11 10 (Some ''again'') True), (4, Rename 12 ''mine'' None), (3, Delete 11 None),
      (3, EmptyTrash 2)] sample_world)"
  by (rule requests_keep_invariant) (simp_all add: sample_inv CYCLE_GUARD_DEPTH_def)

text \<open>
  C28. A caller who may edit a live folder can create a folder in it under a valid name that no live
  child has, below the depth limit and not under the reserved name of a root: the call returns, and
  the table gains exactly one row, an empty folder of the parent's owner under a fresh identifier. The
  role is the one the permission service serves, cached or computed. The cache tier is either off or its
  server answers: when it does not, and the circuit breaker has not opened yet, the invalidation after
  the write fails the call. The committed tables satisfy the constraints to begin with.
\<close>

theorem create_folder_adds:
  assumes "cache_serves C w" "fs_inv C w" "unbroken C (w_db w)"
    and "nodes_get (w_db w) pid = Some parent" "\<not> is_deleted parent" "is_folder parent"
    and "fst (effective_role C (us_subject u) (us_id u) parent w) = Inr (Some r)" "EDITOR \<le> r"
    and "\<not> (is_root parent \<and> normalize_name (cf_text C) name = SHARED_PREFIX)" "validate_name name = Inr name"
    and "length (nodes_ancestors (w_db w) pid ANCESTOR_GUARD_DEPTH) + 1 < cf_max_tree_depth C"
    and "get_child_by_name (cf_text C) (w_db w) pid (normalize_name (cf_text C) name) = None"
  shows "\<exists>v w' n. create_folder C u pid name enc now w = (Inr v, w') \<and> nv_node v = n \<and>
    db_nodes (w_db w') = db_nodes (w_db w) @ [n] \<and> nd_id n \<notin> nd_id ` set (db_nodes (w_db w)) \<and>
    nd_parent_id n = Some pid \<and> nd_name n = name \<and> nd_owner_id n = nd_owner_id parent \<and> is_folder n \<and> \<not> is_deleted n \<and>
    w_objects w' = w_objects w"
proof -
  have inv: "tree_inv (db_nodes (w_db w))" "fresh_ids w" using assms(2) by (auto simp: fs_inv_def store_inv_def)
  obtain v w' where run: "create_folder C u pid name enc now w = (Inr v, w')"
    using create_folder_returns[OF assms(1) inv(1) assms(3) inv(2) assms(4-12)] by blast
  show ?thesis
  proof (rule create_folder_facts[OF run])
    fix p t n
    assume "nodes_get (w_db w) pid = Some p" "n = new_folder (w_uuids w (w_drawn w)) (nd_owner_id p) name pid t enc"
      "audited (nodes_add n (w_db w)) (w_db w')" "w_objects w' = w_objects w" "nv_node v = n"
    with run assms(4) inv(2) audited_nodes show ?thesis
      by (intro exI[of _ v] exI[of _ w'] exI[of _ n])
        (auto simp: nodes_add_def new_folder_def is_folder_def is_deleted_def fresh_ids_def used_ids_def)
  qed
qed

theorem create_folder_adds_witness:
  "\<exists>v w' n. create_folder cached_config alice 11 ''new'' INHERIT None sample_world = (Inr v, w') \<and> nv_node v = n \<and>
    db_nodes (w_db w') = sample_nodes @ [n] \<and> nd_parent_id n = Some 11 \<and> nd_name n = ''new''"
proof -
  have d: "length (nodes_ancestors sample_db 11 ANCESTOR_GUARD_DEPTH) + 1 < 64"
    and c: "get_child_by_name ascii_rules sample_db 11 (normalize_name ascii_rules ''new'') = None"
    and v: "validate_name ''new'' = Inr ''new''"
    by code_simp+
  have r: "fst (effective_role cached_config ''alice'' 3 docs sample_world) = Inr (Some OWNER)"
    using fresh_decision[of cached_config sample_world "''alice''" 3 docs] by (simp add: sample_no_decisions sample_roles)
  from create_folder_adds[of cached_config sample_world 11 docs alice OWNER "''new''" INHERIT None]
  show ?thesis using d c v r sample_serves sample_inv sample_unbroken
    by (auto simp: sample_get is_deleted_def is_folder_def is_root_def fs_inv_def store_inv_def unbroken_def)
qed

text \<open>
  C32. A node is never moved under itself or under one of its descendants, whoever asks.
\<close>

theorem move_into_subtree_refused:
  assumes "cf_max_tree_depth C \<le> CYCLE_GUARD_DEPTH" "tree_inv (db_nodes (w_db w))"
    and "(pid, nid) \<in> (parent_rel (db_nodes (w_db w)))\<^sup>*"
  shows "\<exists>e w'. move C u nid pid im now w = (Inl e, w')"
proof (cases "move C u nid pid im now w")
  case (Pair r w')
  show ?thesis
  proof (cases r)
    case (Inr v)
    with Pair have "move C u nid pid im now w = (Inr v, w')" by simp
    then have "(pid, nid) \<notin> (parent_rel (db_nodes (w_db w)))\<^sup>*"
    proof (rule move_facts)
      fix n dest t m q
      assume d: "nodes_get (w_db w) pid = Some dest" "\<not> is_ancestor_of (w_db w) nid pid"
        "length (nodes_ancestors (w_db w) pid ANCESTOR_GUARD_DEPTH) + 1 < cf_max_tree_depth C"
      have "pid \<in> nd_id ` set (db_nodes (w_db w))" using nodes_get_Some[OF d(1)] by auto
      from not_ancestor_not_below[OF assms(2,1) this d(2,3)] show ?thesis .
    qed
    with assms(3) show ?thesis by simp
  qed (use Pair in auto)
qed

theorem move_into_subtree_refused_witness:
  "\<exists>e w'. move sample_config alice 11 12 None None sample_world = (Inl e, w')"
proof (rule move_into_subtree_refused)
  have "(12, 11) \<in> parent_rel sample_nodes"
    by (force simp: parent_rel_def sample_nodes_def sample_node_def)
  then show "(12, 11) \<in> (parent_rel (db_nodes (w_db sample_world)))\<^sup>*" by simp
qed (use sample_tree in \<open>simp_all add: CYCLE_GUARD_DEPTH_def\<close>)

section \<open>The trash\<close>

text \<open>
  C29. A delete that returns has stamped exactly the live rows at and below the node and no other row, and
  reports how many. Beside the node table it moves the bytes of the trashed files from the owner's live
  bucket to the trash bucket and appends one audit record; every other table, the grants, links, labels,
  versions and data keys among them, and every stored object is unchanged.
\<close>

theorem delete_trashes_subtree:
  assumes "delete C u nid im now w = (Inr k, w')" "tree_inv (db_nodes (w_db w))"
    "depth_le (db_nodes (w_db w)) (Suc CYCLE_GUARD_DEPTH)" "nodes_get (w_db w) nid = Some row"
  shows "\<exists>t a. k = length (live_subtree (w_db w) nid) \<and> w_objects w' = w_objects w \<and>
    w_db w' = (w_db w)\<lparr>
      db_nodes := map (\<lambda>r. if trashed_by (db_nodes (w_db w)) nid r then trash_row t r else r) (db_nodes (w_db w)),
      db_quotas := db_quotas (bytes_moved (nd_owner_id row) (file_bytes (live_subtree (w_db w) nid)) t True (w_db w)),
      db_audit := db_audit (w_db w) @ [a]\<rparr>"
  using assms(1)
proof (rule delete_facts)
  fix n t trashed d1
  assume n: "nodes_get (w_db w) nid = Some n" "\<not> is_deleted n"
    and s: "soft_delete_subtree nid t (w_db w) = (Inr trashed, d1)" "k = length trashed"
    and d: "audited (bytes_moved (nd_owner_id n) (file_bytes trashed) t True d1) (w_db w')" "w_objects w' = w_objects w"
  obtain a where a: "w_db w' = audit_add a (bytes_moved (nd_owner_id n) (file_bytes trashed) t True d1)"
    using d(1) by (auto simp: audited_def)
  have "w_db w' = (w_db w)\<lparr>db_nodes := db_nodes d1,
      db_quotas := db_quotas (bytes_moved (nd_owner_id n) (file_bytes trashed) t True (w_db w)), db_audit := db_audit (w_db w) @ [a]\<rparr>"
    unfolding a delete_tables[OF s(1)] by (simp add: audit_add_def)
  with soft_delete_rows[OF assms(2,3) n s(1)] trashed_bytes[OF assms(2,3) n s(1)] s(2) d(2) n(1) assms(4) show ?thesis
    by (intro exI[of _ t] exI[of _ a]) simp
qed

theorem delete_trashes_subtree_witness:
  "\<exists>w' k t. delete sample_config alice 11 None None sample_world = (Inr k, w') \<and>
     db_nodes (w_db w') = map (\<lambda>r. if trashed_by sample_nodes 11 r then trash_row t r else r) sample_nodes \<and>
     k = length (live_subtree sample_db 11) \<and> db_grants (w_db w') = db_grants sample_db"
  using delete_trashes_subtree[OF returnsD[OF sample_delete]] returnsD[OF sample_delete] sample_tree sample_depth_guard
  by (fastforce simp: sample_get)

text \<open>
  C2. Right after a delete the owner can restore the node: the call returns, every row is again what it
  was before the delete up to its revision and modification time, also those of the subtree, and the
  quota buckets have their old values. The stamp of the delete must not be one an older deletion used.
  The cache tier is either off or its server answers: when it does not, and the circuit breaker has not
  opened yet, the invalidation after the restore fails the call. The tables of the start form a forest
  within the bound of the walks, with live nodes below live nodes only, satisfy the constraints, and the
  owner's live bucket covers the bytes of the subtree.
\<close>

theorem delete_then_restore:
  assumes "delete C u nid im now w = (Inr k, w1)" "cache_serves C w" "unbroken C (w_db w)"
    "tree_inv (db_nodes (w_db w))" "depth_le (db_nodes (w_db w)) (Suc CYCLE_GUARD_DEPTH)" "live_inv (db_nodes (w_db w))"
    "\<forall>r\<in>set (db_nodes (w_db w)). nd_deleted_at r \<noteq> Some (case now of None \<Rightarrow> w_clock w | Some t \<Rightarrow> t)"
    "nodes_get (w_db w) nid = Some row" "nd_owner_id row = us_id v"
    "quotas_get (w_db w) (nd_owner_id row) = Some q" "quota_inv q" "file_bytes (live_subtree (w_db w) nid) \<le> qu_live_bytes q"
  shows "\<exists>x w2 s. restore C v nid later w1 = (Inr x, w2) \<and>
    map core (db_nodes (w_db w2)) = map core (db_nodes (w_db w)) \<and>
    quotas_get (w_db w2) (nd_owner_id row) = Some (q\<lparr>qu_updated_at := s\<rparr>)"
proof -
  obtain x w2 where "restore C v nid later w1 = (Inr x, w2)"
    using restore_after_delete_returns[OF assms(1,2,4,5,6,7,8,9,3)] by blast
  with delete_restore[OF assms(1) _ assms(4-8)] assms(10-12) show ?thesis by meson
qed

theorem delete_then_restore_witness:
  "\<exists>k w1 x w2. delete cached_config alice 11 None None sample_world = (Inr k, w1) \<and>
     restore cached_config alice 11 None w1 = (Inr x, w2) \<and> map core (db_nodes (w_db w2)) = map core sample_nodes"
proof -
  let ?q = "\<lparr>qu_user_id = 3, qu_live_bytes = 5, qu_trashed_bytes = 3, qu_version_bytes = 0, qu_updated_at = None\<rparr>"
  have q: "quotas_get sample_db 3 = Some ?q" "quota_inv ?q" "file_bytes (live_subtree sample_db 11) \<le> 5"
    by code_simp+
  from delete_then_restore[OF returnsD[OF sample_cached_delete], of docs alice ?q None] returnsD[OF sample_cached_delete] q
  show ?thesis using sample_tree sample_depth_guard sample_live sample_unbroken sample_stamp sample_serves
    by (auto simp: sample_get unbroken_def)
qed

text \<open>
  C30. A purge that returns has removed every row at and below the node and no other, and the stored
  objects of every version of the rows it walked; every other object stays. Only the owner or an
  administrator gets that far, and only for a trashed node.
\<close>

theorem purge_removes_subtree:
  assumes "purge C u nid now w = (Inr p, w')" "versions_wf (w_db w)" "tree_inv (db_nodes (w_db w))"
  shows "\<exists>n. nodes_get (w_db w) nid = Some n \<and> is_deleted n \<and> (nd_owner_id n = us_id u \<or> us_is_admin u) \<and>
    set (db_nodes (w_db w')) = {r \<in> set (db_nodes (w_db w)). (nd_id r, nid) \<notin> (parent_rel (db_nodes (w_db w)))\<^sup>*} \<and>
    w_objects w' = objects_without (\<Union>i\<in>subtree_ids (w_db w) nid. version_keys (w_db w) i) (w_objects w)"
  using assms(1)
proof (rule purge_run)
  fix n t w1 w2
  assume n: "nodes_get (w_db w) nid = Some n" "is_deleted n" "nd_owner_id n = us_id u \<or> us_is_admin u"
    and e: "destroy_entry n t w = (Inr p, w1)" and a: "record_purge u n p t w1 = (Inr (), w2)"
    and i: "invalidate C (nd_id n) (nd_parent_id n) None True w2 = (Inr (), w')"
  obtain p' v where v: "destroy_entry n t w = (Inr p', v)"
    "set (db_nodes (w_db v)) = {r \<in> set (db_nodes (w_db w)). (nd_id r, nd_id n) \<notin> (parent_rel (db_nodes (w_db w)))\<^sup>*}"
    "w_objects v = objects_without (\<Union>i\<in>subtree_ids (w_db w) (nd_id n). version_keys (w_db w) i) (w_objects w)"
    by (rule destroy_entry_run[OF assms(2), of n t]) (use assms(3) in blast)
  have "v = w1" "nd_id n = nid" using e v(1) nodes_get_Some[OF n(1)] by auto
  moreover have "db_nodes (w_db w') = db_nodes (w_db w1)" "w_objects w' = w_objects w1"
    using a invalidate_store[OF i] by (auto simp: record_purge_def emit_audit_ok same_store_def)
  ultimately show ?thesis using n v by auto
qed

theorem purge_removes_subtree_witness:
  "\<exists>p w'. purge sample_config alice 14 None sample_world = (Inr p, w') \<and>
     set (db_nodes (w_db w')) = {r \<in> set sample_nodes. (nd_id r, 14) \<notin> (parent_rel sample_nodes)\<^sup>*}"
  using purge_removes_subtree[OF returnsD[OF sample_purge]] returnsD[OF sample_purge] sample_versions sample_tree
  by auto

text \<open>
  C31. Emptying the trash returns when the caller states the right number of entries. It destroys the
  oldest entries, at least one when there is any, and stops before the entry that would take the sum of
  the entries' batches over the budget, unless that is the first. The batch of an entry is what the code
  counts: the rows its own deletion stamped. What goes is every row at and below a destroyed entry, rows
  of an earlier deletion below it included, which no batch counts; so the budget bounds the counted rows
  and not all that are destroyed. The cache tier is either off or its server answers: when it does not,
  and the circuit breaker has not opened yet, the invalidation after the destruction fails the call.
\<close>

theorem empty_trash_bounded:
  assumes "cache_serves C w" "versions_wf (w_db w)" "tree_inv (db_nodes (w_db w))" "unbroken C (w_db w)"
    "count_trash_entries (w_db w) (us_id u) = expected"
  shows "\<exists>e w' k. empty_trash C u expected now w = (Inr e, w') \<and> em_entries_purged e = int k \<and>
    (let entries = take (nat TRASH_PURGE_NODE_BUDGET) (trash_rows (w_db w) (us_id u) True);
         totals = delete_batch_totals (w_db w) (map nd_id entries) in
     k \<le> length entries \<and> (entries \<noteq> [] \<longrightarrow> 0 < k) \<and>
     (k \<le> 1 \<or> costs totals (take k entries) \<le> TRASH_PURGE_NODE_BUDGET) \<and>
     (k < length entries \<longrightarrow> TRASH_PURGE_NODE_BUDGET < costs totals (take (Suc k) entries)) \<and>
     set (db_nodes (w_db w')) = {r \<in> set (db_nodes (w_db w)).
       \<forall>x\<in>set (take k entries). (nd_id r, nd_id x) \<notin> (parent_rel (db_nodes (w_db w)))\<^sup>*})"
  using empty_trash_returns[OF assms] by blast

theorem empty_trash_bounded_witness:
  "\<exists>e w'. empty_trash cached_config alice 1 None sample_world = (Inr e, w')"
proof -
  have "count_trash_entries sample_db 3 = 1" by code_simp
  moreover have "unbroken cached_config sample_db" using sample_unbroken by (simp add: unbroken_def)
  ultimately show ?thesis
    using empty_trash_bounded[of cached_config sample_world alice 1 None] sample_serves sample_versions sample_tree by auto
qed

section \<open>Access\<close>

text \<open>
  C3. The role a caller has on a node is the owner role for the owner, and otherwise the greatest role
  of the active grants to the caller on the node or on any folder above it; without such a grant there
  is none. Here every chain of parents is shorter than the bound of the walk.
\<close>

theorem role_is_greatest_grant:
  assumes "tree_inv (db_nodes d)" "nodes_get d (nd_id n) = Some n" "within_guard d (nd_id n)"
  shows "role_spec d subject uid n ro \<longleftrightarrow> compute_role d subject uid n = ro"
  using compute_role_spec[OF assms] role_spec_unique by blast

theorem role_is_greatest_grant_witness:
  "role_spec sample_db ''bob'' 4 drafts (Some EDITOR)"
  using role_is_greatest_grant[of sample_db drafts "''bob''" 4 "Some EDITOR"] sample_tree
  by (simp add: sample_get sample_guard sample_roles)



text \<open>
  C33. With the cache in working order, a delete that returns leaves no cached decision: whatever caller and
  node is asked for next, the role comes from the database.
\<close>

theorem delete_drops_cached_roles:
  assumes "delete C u nid im now w = (Inr k, w')" "healthy w" "glob_law (cf_glob C)" "cf_cache_enabled C"
  shows "fst (effective_role C subject uid n w') = Inr (compute_role (w_db w') subject uid n)"
  using fresh_decision[OF delete_drops_decisions[OF assms]] .

theorem delete_drops_cached_roles_witness:
  "\<exists>k w'. delete cached_config alice 11 None None sample_world = (Inr k, w') \<and>
     fst (effective_role cached_config ''bob'' 4 docs w') = Inr (compute_role (w_db w') ''bob'' 4 docs)"
  using delete_drops_cached_roles[OF returnsD[OF sample_cached_delete], of "''bob''" 4 docs] returnsD[OF sample_cached_delete]
    sample_healthy toy_glob_ok
  by auto

text \<open>
  C37. While the circuit breaker holds the cache to be down, dropping the decisions of a caller returns
  without dropping them; once the cooldown is over and before the entry expires, the old role is
  served again, whatever the database says by then.
\<close>

theorem outage_leaves_stale_role:
  assumes "circuit_open w opened" "cs_reachable (w_cache w)" "cf_cache_enabled C"
    and "map_of (cs_entries (w_cache w)) (cache_key (cf_cache_schema C) PERMISSION [s, uuid_str (nd_id n)]) = Some (ordinal r, expires)"
    and "opened + cb_cooldown (cs_breaker (w_cache w)) \<le> later" "later < expires"
  shows "\<exists>w'. invalidate_permissions_for_subject C s w = (Inr (), w') \<and>
    fst (effective_role C s uid n (w'\<lparr>w_db := d, w_clock := later\<rparr>)) = Inr (Some r)"
proof -
  have "invalidate_permissions_for_subject C s w = (Inr (), w)"
    unfolding invalidate_permissions_for_subject_def using invalidation_passed_over(1)[OF assms(1)] .
  moreover have "fst (effective_role C s uid n (w\<lparr>w_db := d, w_clock := later\<rparr>)) = Inr (Some r)"
    using stale_decision_served[of "w\<lparr>w_db := d\<rparr>" opened C s n r expires later uid] assms
    by (simp add: circuit_open_def)
  ultimately show ?thesis by blast
qed

theorem outage_leaves_stale_role_witness:
  "\<exists>w'. invalidate_permissions_for_subject cached_config ''bob'' broken_world = (Inr (), w') \<and>
     fst (effective_role cached_config ''bob'' 4 docs (w'\<lparr>w_db := sample_db\<lparr>db_grants := []\<rparr>, w_clock := seconds 10\<rparr>)) = Inr (Some EDITOR)"
  by (rule outage_leaves_stale_role[where opened = 50 and expires = "seconds 60"])
    (simp_all add: broken_world_def cached_config_def circuit_open_def sample_config_def sample_world_def)

section \<open>Listings\<close>

text \<open>
  C4. A client that follows the cursors of a folder listing with any positive page size sees every child
  exactly once, folders before files and then by name and identifier, and comes to an end; the names in
  the table must not contain the separator of the cursor.
\<close>

theorem children_pages_complete:
  assumes "listable T d" "0 < limit" "length (child_rows T d parent incl) < k"
  shows "follow k (\<lambda>c. nodes_list_children T d parent limit c incl) None = Some (child_rows T d parent incl)"
  using children.follow_all[OF assms] .

theorem children_pages_complete_witness:
  "follow 4 (\<lambda>c. nodes_list_children ascii_rules sample_db 10 1 c True) None = Some (child_rows ascii_rules sample_db 10 True)"
proof (rule children_pages_complete)
  have "list_all (\<lambda>r. nd_id r < 2 ^ 8 \<and> CURSOR_SEPARATOR \<notin> set (normalized_name ascii_rules r)) sample_nodes" by code_simp
  then have "\<forall>r\<in>set sample_nodes. nd_id r < 2 ^ 8 \<and> CURSOR_SEPARATOR \<notin> set (normalized_name ascii_rules r)"
    by (simp add: list_all_iff)
  moreover have "(2::nat) ^ 8 \<le> 2 ^ 128" by simp
  ultimately show "listable ascii_rules sample_db" using sample_tree by (auto simp: listable_def)
  show "length (child_rows ascii_rules sample_db 10 True) < 4" by code_simp
qed simp

text \<open>
  C38. The separator of the cursor may occur in a name. After a page that ends at such a child, the next
  request of the same client fails with an unexpected error.
\<close>

theorem listing_breaks_on_separator:
  assumes "normalized_name T r = a @ CURSOR_SEPARATOR # b"
  shows "nodes_list_children T d parent limit (Some (encode_cursor (child_cursor T r))) incl = Inl CyberFSError"
  using child_cursor_unreadable[OF assms] by (simp add: nodes_list_children_def cursor_roundtrip Let_def)

theorem listing_breaks_on_separator_witness:
  "validate_name [CHR ''a'', CURSOR_SEPARATOR, CHR ''b''] = Inr [CHR ''a'', CURSOR_SEPARATOR, CHR ''b''] \<and>
   nodes_list_children ascii_rules sample_db 10 1 (Some (encode_cursor (child_cursor ascii_rules
     (docs\<lparr>nd_name := [CHR ''a'', CURSOR_SEPARATOR, CHR ''b'']\<rparr>)))) False = Inl CyberFSError"
proof
  show "validate_name [CHR ''a'', CURSOR_SEPARATOR, CHR ''b''] = Inr [CHR ''a'', CURSOR_SEPARATOR, CHR ''b'']" by code_simp
qed (rule listing_breaks_on_separator[where a = "''a''" and b = "''b''"],
     simp add: normalized_name_def normalize_name_def ascii_rules_def)

text \<open>
  C34. Following the cursors of a search ends and delivers every visible match once, by name and identifier.
\<close>

theorem search_pages_complete:
  assumes "searchable C d" "0 < limit" "length (search_rows (cf_text C) d subject f None) < k"
  shows "follow k (search_page C subject f d limit) None = Some (search_rows (cf_text C) d subject f None)"
  using search_pages.follow_all[OF assms] .

theorem search_pages_complete_witness:
  "follow 7 (search_page sample_config ''bob'' sample_filters sample_db 2) None = Some (search_rows (cf_text sample_config) sample_db ''bob'' sample_filters None)"
proof (rule search_pages_complete)
  have "list_all (\<lambda>r. nd_id r < 2 ^ 8) sample_nodes" by code_simp
  then have "\<forall>r\<in>set sample_nodes. nd_id r < 2 ^ 8" by (simp add: list_all_iff)
  moreover have "(2::nat) ^ 8 \<le> 2 ^ 128" by simp
  ultimately show "searchable sample_config sample_db" using sample_tree toy_digest_ok by (auto simp: searchable_def)
  have "length (search_rows (cf_text sample_config) sample_db ''bob'' sample_filters None) \<le> length sample_nodes"
    by (simp add: search_rows_def)
  then show "length (search_rows (cf_text sample_config) sample_db ''bob'' sample_filters None) < 7" by (simp add: sample_nodes_def)
qed simp

section \<open>Cursors\<close>

text \<open>
  C35. A keyed cursor is accepted only if it is, character for character, the cursor that this query would
  have made for those fields: no change of it and no cursor of another query passes.
\<close>

theorem keyed_cursor_binding:
  assumes "decode_keyed_cursor H raw fingerprint n = Inr parts"
  shows "raw = encode_keyed_cursor H fingerprint parts \<and> length parts = n"
  using keyed_decode_sound[OF assms] .

theorem keyed_cursor_binding_witness:
  "\<exists>raw. decode_keyed_cursor toy_digest raw ''fp'' 2 = Inr [''a'', ''b''] \<and> raw = encode_keyed_cursor toy_digest ''fp'' [''a'', ''b'']"
proof -
  have "decode_keyed_cursor toy_digest (encode_keyed_cursor toy_digest ''fp'' [''a'', ''b'']) ''fp'' 2 = Inr [''a'', ''b'']"
    by code_simp
  from keyed_cursor_binding[OF this] this show ?thesis by blast
qed

end
